(* ===== verification/Prelude.thy ===== *)
theory Prelude
  imports Main "HOL-Library.Word"
begin

text \<open>
  What every theory of the development shares: the names of the machine types, the shape of a
  fallible call, and the generic lemmas and lemma collections the component proofs run on.

  Conventions.  A C \<open>bool\<close> function with a trailing \<open>ls_err*\<close> returns a value of a sum type:
  \<open>Inr\<close> what it delivers through its out parameters when it returns \<open>true\<close>, \<open>Inl\<close> the code left
  in the error context when it returns \<open>false\<close>.  A pointer that may be \<open>NULL\<close> is an \<open>option\<close>.
\<close>

section \<open>Machine types\<close>

type_synonym u8 = "8 word"
type_synonym u16 = "16 word"
type_synonym u32 = "32 word"
type_synonym u64 = "64 word"

text \<open>An address is the identity of a heap block; a byte pointer is a block and an offset.\<close>

type_synonym addr = nat
type_synonym byte_ptr = "addr \<times> nat"

text \<open>The error codes of \<open>ls_errcode\<close> are C integers: the enumerators of \<open>ls_error.h\<close>, negated
  \<open>errno\<close> values, and the shifted \<open>getaddrinfo\<close> codes of \<open>ls_err_gai\<close>.\<close>

type_synonym errcode = int

text \<open>\<open>size_t\<close> arithmetic of a 64-bit target: natural numbers with the wrap-around written out.\<close>

definition size_add :: "nat \<Rightarrow> nat \<Rightarrow> nat" where
  "size_add a b = (a + b) mod 2 ^ 64"

definition size_sub :: "nat \<Rightarrow> nat \<Rightarrow> nat" where
  "size_sub a b = (a + 2 ^ 64 - b) mod 2 ^ 64"

definition size_mult :: "nat \<Rightarrow> nat \<Rightarrow> nat" where
  "size_mult a b = a * b mod 2 ^ 64"

lemma size_add_exact: "a + b < 2 ^ 64 \<Longrightarrow> size_add a b = a + b"
  by (simp add: size_add_def)

lemma size_sub_exact: "b \<le> a \<Longrightarrow> a < 2 ^ 64 \<Longrightarrow> size_sub a b = a - b"
  by (simp add: size_sub_def mod_if)

lemma size_mult_exact: "a * b < 2 ^ 64 \<Longrightarrow> size_mult a b = a * b"
  by (simp add: size_mult_def)

lemma size_mult_less: "size_mult a b < 2 ^ 64"
  by (simp add: size_mult_def)

section \<open>Lemma collections\<close>

named_theorems frame_simps \<open>what an operation leaves unchanged\<close>
named_theorems inv_intros \<open>an operation keeps an invariant\<close>

section \<open>Lists, maps and options\<close>

lemma list_update_append_hd: "(xs @ y # ys)[length xs := z] = xs @ z # ys"
  by (induction xs) auto

lemma take_drop_patch:
  assumes "off + n \<le> off' \<or> off' + length bs \<le> off" and "off' + length bs \<le> length old"
  shows "take n (drop off (take off' old @ bs @ drop (off' + length bs) old)) = take n (drop off old)"
proof (cases "off + n \<le> off'")
  case True
  then show ?thesis using assms(2) by (simp add: drop_take)
next
  case False
  with assms have "off' + length bs \<le> off" by simp
  then show ?thesis using assms(2) by simp
qed

lemma restrict_map_None [simp]: "a \<in> A \<Longrightarrow> (m |` (- A)) a = None"
  by (simp add: restrict_map_def)

lemma restrict_map_Some [simp]: "a \<notin> A \<Longrightarrow> (m |` (- A)) a = m a"
  by (simp add: restrict_map_def)

lemma map_upd_restrict_fresh: "a \<in> A \<Longrightarrow> m(a \<mapsto> v) |` (- A) = m |` (- A)"
  by (rule ext) (simp add: restrict_map_def)

lemma takeWhile_eq_self_iff: "takeWhile P xs = xs \<longleftrightarrow> (\<forall>x \<in> set xs. P x)"
  by (induction xs) auto

lemma distinct_concat_nth_disjoint:
  "distinct (concat xss) \<Longrightarrow> i < length xss \<Longrightarrow> j < length xss \<Longrightarrow> i \<noteq> j \<Longrightarrow>
   set (xss ! i) \<inter> set (xss ! j) = {}"
proof (induction xss arbitrary: i j)
  case (Cons ys xss)
  then show ?case
    by (cases i; cases j) (fastforce simp: in_set_conv_nth)+
qed simp

end
