(* ===== verification/Ls_Error.thy ===== *)
theory Ls_Error
  imports Prelude
begin

text \<open>
  The error codes of \<open>include/ls_error.h\<close> and the two functions of \<open>src/ls_error.c\<close>.  The code
  tables of the C library (\<open>strerror\<close>, \<open>gai_strerror\<close>) are parameters.
\<close>

section \<open>Codes\<close>

definition LS_ERR_NONE :: errcode where "LS_ERR_NONE = 0"
definition LS_ERR_INVALID_ARG :: errcode where "LS_ERR_INVALID_ARG = 1"
definition LS_ERR_INVALID_STATE :: errcode where "LS_ERR_INVALID_STATE = 2"
definition LS_ERR_NO_MEMORY :: errcode where "LS_ERR_NO_MEMORY = 3"
definition LS_ERR_OVERFLOW :: errcode where "LS_ERR_OVERFLOW = 4"
definition LS_ERR_SOCKET_CONNECT :: errcode where "LS_ERR_SOCKET_CONNECT = 5"
definition LS_ERR_BAD_FORMAT :: errcode where "LS_ERR_BAD_FORMAT = 6"
definition LS_ERR_PROTOCOL :: errcode where "LS_ERR_PROTOCOL = 7"
definition LS_ERR_TIMEOUT :: errcode where "LS_ERR_TIMEOUT = 8"
definition LS_ERR_NOT_FOUND :: errcode where "LS_ERR_NOT_FOUND = 9"
definition LS_ERR_NO_IMPL :: errcode where "LS_ERR_NO_IMPL = 10"
definition LS_ERR_USER :: errcode where "LS_ERR_USER = 11"

lemmas errcode_defs =
  LS_ERR_NONE_def LS_ERR_INVALID_ARG_def LS_ERR_INVALID_STATE_def LS_ERR_NO_MEMORY_def
  LS_ERR_OVERFLOW_def LS_ERR_SOCKET_CONNECT_def LS_ERR_BAD_FORMAT_def LS_ERR_PROTOCOL_def
  LS_ERR_TIMEOUT_def LS_ERR_NOT_FOUND_def LS_ERR_NO_IMPL_def LS_ERR_USER_def

definition ERR_MSG_TABLE :: "string list" where
  "ERR_MSG_TABLE =
    [''no error'', ''invalid argument'', ''invalid state'', ''out of memory'',
     ''buffer overflow'', ''socket connect failure'', ''bad data format'', ''protocol error'',
     ''timed out'', ''not found'', ''not implemented'', ''user-defined error'']"

definition GAI_OFFSET_POS :: int where "GAI_OFFSET_POS = -1000"
definition GAI_OFFSET_NEG :: int where "GAI_OFFSET_NEG = -1100"

section \<open>Messages\<close>

definition ls_err_message ::
  "(int \<Rightarrow> string) \<Rightarrow> (int \<Rightarrow> string) \<Rightarrow> errcode \<Rightarrow> string" where
  "ls_err_message strerror gai_strerror ic =
     (if ic < 0 then
        if ic < GAI_OFFSET_NEG then gai_strerror (ic - GAI_OFFSET_NEG)
        else if ic < GAI_OFFSET_POS then gai_strerror (- (ic - GAI_OFFSET_POS))
        else strerror (- ic)
      else if ic > LS_ERR_USER then ''Unknown code''
      else ERR_MSG_TABLE ! nat ic)"

definition ls_err_gai :: "int \<Rightarrow> errcode" where
  "ls_err_gai gai_error =
     (if gai_error < 0 then GAI_OFFSET_NEG + gai_error else GAI_OFFSET_POS - gai_error)"

lemma ls_err_gai_negative: "ls_err_gai g < 0"
  by (simp add: ls_err_gai_def GAI_OFFSET_POS_def GAI_OFFSET_NEG_def)

lemma ls_err_message_table:
  "0 \<le> ic \<Longrightarrow> ic \<le> LS_ERR_USER \<Longrightarrow>
   nat ic < length ERR_MSG_TABLE \<and> ls_err_message se ge ic = ERR_MSG_TABLE ! nat ic"
  by (simp add: ls_err_message_def ERR_MSG_TABLE_def LS_ERR_USER_def)

text \<open>
  A \<open>getaddrinfo\<close> code survives the translation into an \<open>ls_errcode\<close> and the
  lookup of its message exactly for the negative codes and for the codes 1 to 100; a positive code
  beyond 100 is read back as a negative one, and 0 as an \<open>errno\<close>.
\<close>
theorem err_gai_message:
  "ls_err_message se ge (ls_err_gai g) =
     (if g < 0 \<or> (1 \<le> g \<and> g \<le> 100) then ge g
      else if g = 0 then se 1000
      else ge (100 - g))"
  by (auto simp: ls_err_message_def ls_err_gai_def GAI_OFFSET_POS_def GAI_OFFSET_NEG_def)

end
