(* ===== verification/Ls_Mem.thy ===== *)
theory Ls_Mem
  imports Ls_Error "HOL-Library.Multiset"
begin

text \<open>
  The allocation wrappers of \<open>src/ls_mem.c\<close> over a model of the C heap.

  The heap is part of a record that later theories extend with the objects that live in it.  A
  live block has its bytes, each of them possibly indeterminate (\<open>None\<close>: malloc does not
  initialise).  Whether a request is served is decided by the installed allocation function, an
  arbitrary function of the number of the request and its size, so every theorem holds for every
  pattern of allocation failures.  A new block gets an address never used before, so the use of
  a dangling pointer is always seen: freeing or writing a block that is not live counts a fault.

  Two things are not in the model.  \<open>ls_data_set_memory_funcs\<close> also installs a function for \<open>free\<close>; here
  freeing a block always ends its life.  And the wrappers log what they do, a failing allocation at
  level WARN and the rest at MEMTRACE: the log is above the heap and these lines are left out.
\<close>

section \<open>The heap\<close>

datatype realloc_outcome = Realloc_fails | Realloc_in_place | Realloc_moves

record mem =
  blocks :: "addr \<Rightarrow> u8 option list option"
  next_addr :: addr
  n_calls :: nat
  malloc_func :: "nat \<Rightarrow> nat \<Rightarrow> bool"
  realloc_func :: "nat \<Rightarrow> nat \<Rightarrow> realloc_outcome"
  paging_enabled :: bool
  faults :: nat

text \<open>The C library's allocator, installed when the program starts.\<close>

definition libc_malloc :: "nat \<Rightarrow> nat \<Rightarrow> bool" where
  "libc_malloc n sz = True"

definition libc_realloc :: "nat \<Rightarrow> nat \<Rightarrow> realloc_outcome" where
  "libc_realloc n sz = Realloc_moves"

definition fault :: "'z mem_scheme \<Rightarrow> 'z mem_scheme" where
  "fault m = m\<lparr>faults := Suc (faults m)\<rparr>"

definition mem_wf :: "'z mem_scheme \<Rightarrow> bool" where
  "mem_wf m \<longleftrightarrow> (\<forall>a. next_addr m \<le> a \<longrightarrow> blocks m a = None)"

definition live :: "'z mem_scheme \<Rightarrow> addr \<Rightarrow> bool" where
  "live m a \<longleftrightarrow> blocks m a \<noteq> None"

text \<open>\<open>memcpy\<close> and \<open>memset\<close> into a block: outside of a live block this is a fault.\<close>

definition write_bytes :: "byte_ptr \<Rightarrow> u8 list \<Rightarrow> 'z mem_scheme \<Rightarrow> 'z mem_scheme" where
  "write_bytes p bs m =
     (case p of (a, off) \<Rightarrow>
       (case blocks m a of
          None \<Rightarrow> fault m
        | Some old \<Rightarrow>
            if off + length bs \<le> length old
            then m\<lparr>blocks := (blocks m)(a \<mapsto>
                   take off old @ map Some bs @ drop (off + length bs) old)\<rparr>
            else fault m))"

definition read_bytes :: "byte_ptr \<Rightarrow> nat \<Rightarrow> 'z mem_scheme \<Rightarrow> u8 option list option" where
  "read_bytes p n m =
     (case p of (a, off) \<Rightarrow>
       (case blocks m a of
          None \<Rightarrow> None
        | Some bs \<Rightarrow> if off + n \<le> length bs then Some (take n (drop off bs)) else None))"

section \<open>The wrappers\<close>

definition ls_data_set_memory_funcs ::
  "(nat \<Rightarrow> nat \<Rightarrow> bool) option \<Rightarrow> (nat \<Rightarrow> nat \<Rightarrow> realloc_outcome) option \<Rightarrow>
   'z mem_scheme \<Rightarrow> 'z mem_scheme" where
  "ls_data_set_memory_funcs malloc_f realloc_f m =
     m\<lparr>malloc_func := (case malloc_f of Some f \<Rightarrow> f | None \<Rightarrow> libc_malloc),
       realloc_func := (case realloc_f of Some f \<Rightarrow> f | None \<Rightarrow> libc_realloc)\<rparr>"

definition ls_data_free :: "addr option \<Rightarrow> 'z mem_scheme \<Rightarrow> 'z mem_scheme" where
  "ls_data_free p m =
     (case p of
        None \<Rightarrow> m
      | Some a \<Rightarrow> if blocks m a = None then fault m else m\<lparr>blocks := (blocks m)(a := None)\<rparr>)"

definition ls_data_malloc :: "nat \<Rightarrow> 'z mem_scheme \<Rightarrow> addr option \<times> 'z mem_scheme" where
  "ls_data_malloc sz m =
     (let n = n_calls m; m1 = m\<lparr>n_calls := Suc n\<rparr> in
      if malloc_func m n sz
      then (Some (next_addr m),
            m1\<lparr>blocks := (blocks m)(next_addr m \<mapsto> replicate sz None),
               next_addr := Suc (next_addr m)\<rparr>)
      else (None, m1))"

definition ls_data_realloc ::
  "addr option \<Rightarrow> nat \<Rightarrow> 'z mem_scheme \<Rightarrow> addr option \<times> 'z mem_scheme" where
  "ls_data_realloc p sz m =
     (case p of
        None \<Rightarrow> ls_data_malloc sz m
      | Some a \<Rightarrow>
          (case blocks m a of
             None \<Rightarrow> (None, fault m)
           | Some old \<Rightarrow>
               (let n = n_calls m; m1 = m\<lparr>n_calls := Suc n\<rparr>;
                    new = take sz old @ replicate (sz - length old) None in
                case realloc_func m n sz of
                  Realloc_fails \<Rightarrow> (None, m1)
                | Realloc_in_place \<Rightarrow> (Some a, m1\<lparr>blocks := (blocks m)(a \<mapsto> new)\<rparr>)
                | Realloc_moves \<Rightarrow>
                    (Some (next_addr m),
                     m1\<lparr>blocks := (blocks m)(a := None, next_addr m \<mapsto> new),
                        next_addr := Suc (next_addr m)\<rparr>))))"

definition ls_data_calloc ::
  "nat \<Rightarrow> nat \<Rightarrow> 'z mem_scheme \<Rightarrow> addr option \<times> 'z mem_scheme" where
  "ls_data_calloc nmemb sz m =
     (let block_size = size_mult nmemb sz in
      case ls_data_malloc block_size m of
        (None, m1) \<Rightarrow> (None, m1)
      | (Some a, m1) \<Rightarrow> (Some a, write_bytes (a, 0) (replicate block_size 0) m1))"

text \<open>A C string argument is the list of the bytes before its terminator.  \<open>ls_data_strndup\<close>
  is given the bytes it may look at: those before the terminator, or any number beyond \<open>len\<close>.\<close>

definition ls_data_strdup ::
  "u8 list option \<Rightarrow> 'z mem_scheme \<Rightarrow> addr option \<times> 'z mem_scheme" where
  "ls_data_strdup src m =
     (case src of
        None \<Rightarrow> (None, m)
      | Some s \<Rightarrow>
          (let len = length s in
           case ls_data_malloc (size_add len 1) m of
             (None, m1) \<Rightarrow> (None, m1)
           | (Some a, m1) \<Rightarrow> (Some a, write_bytes (a, 0) (s @ [0]) m1)))"

definition ls_data_strndup ::
  "u8 list option \<Rightarrow> nat \<Rightarrow> 'z mem_scheme \<Rightarrow> addr option \<times> 'z mem_scheme" where
  "ls_data_strndup src len0 m =
     (case src of
        None \<Rightarrow> (None, m)
      | Some s \<Rightarrow>
          (let len = min len0 (length s) in
           case ls_data_malloc (size_add len 1) m of
             (None, m1) \<Rightarrow> (None, m1)
           | (Some a, m1) \<Rightarrow>
               (Some a, write_bytes (a, len) [0] (write_bytes (a, 0) (take len s) m1))))"

section \<open>Facts about the heap\<close>

lemma fault_simps [simp]:
  "blocks (fault m) = blocks m" "next_addr (fault m) = next_addr m"
  "faults (fault m) = Suc (faults m)" "n_calls (fault m) = n_calls m"
  "malloc_func (fault m) = malloc_func m"
  by (simp_all add: fault_def)

lemma mem_wf_fresh: "mem_wf m \<Longrightarrow> blocks m (next_addr m) = None"
  by (simp add: mem_wf_def)

lemma mem_wf_live_less: "mem_wf m \<Longrightarrow> blocks m a = Some bs \<Longrightarrow> a < next_addr m"
  by (metis mem_wf_def linorder_not_less option.distinct(1))

lemma mem_wf_fault [inv_intros]: "mem_wf m \<Longrightarrow> mem_wf (fault m)"
  by (simp add: mem_wf_def)

text \<open>One elimination rule describes every outcome of an allocation.\<close>

lemma ls_data_malloc_cases:
  obtains (fails) "ls_data_malloc sz m = (None, m\<lparr>n_calls := Suc (n_calls m)\<rparr>)"
    "\<not> malloc_func m (n_calls m) sz"
  | (serves) "ls_data_malloc sz m =
      (Some (next_addr m), m\<lparr>blocks := (blocks m)(next_addr m \<mapsto> replicate sz None),
         next_addr := Suc (next_addr m), n_calls := Suc (n_calls m)\<rparr>)"
    "malloc_func m (n_calls m) sz"
  by (cases "malloc_func m (n_calls m) sz") (auto simp: ls_data_malloc_def Let_def)

lemma ls_data_malloc_None:
  "ls_data_malloc sz m = (None, m') \<Longrightarrow> m' = m\<lparr>n_calls := Suc (n_calls m)\<rparr>"
  by (cases rule: ls_data_malloc_cases[of sz m]) auto

lemma ls_data_malloc_Some:
  "ls_data_malloc sz m = (Some a, m') \<Longrightarrow>
   a = next_addr m \<and>
   m' = m\<lparr>blocks := (blocks m)(a \<mapsto> replicate sz None), next_addr := Suc a,
          n_calls := Suc (n_calls m)\<rparr>"
  by (cases rule: ls_data_malloc_cases[of sz m]) auto

lemma mem_wf_calls [simp]: "mem_wf (m\<lparr>n_calls := n\<rparr>) = mem_wf m"
  by (simp add: mem_wf_def)

lemma mem_wf_malloc [inv_intros]:
  "mem_wf m \<Longrightarrow> mem_wf (snd (ls_data_malloc sz m))"
  by (cases rule: ls_data_malloc_cases[of sz m]) (auto simp: mem_wf_def)

lemma mem_wf_free [inv_intros]: "mem_wf m \<Longrightarrow> mem_wf (ls_data_free p m)"
  by (auto simp: ls_data_free_def mem_wf_def split: option.split)

lemma mem_wf_write [inv_intros]: "mem_wf m \<Longrightarrow> mem_wf (write_bytes p bs m)"
  by (auto simp: write_bytes_def mem_wf_def split: option.split prod.split)

lemma ls_data_free_None [simp]: "ls_data_free None m = m"
  by (simp add: ls_data_free_def)

lemma ls_data_free_live:
  "blocks m a = Some bs \<Longrightarrow> ls_data_free (Some a) m = m\<lparr>blocks := (blocks m)(a := None)\<rparr>"
  by (simp add: ls_data_free_def)

lemma ls_data_free_dangling: "blocks m a = None \<Longrightarrow> ls_data_free (Some a) m = fault m"
  by (simp add: ls_data_free_def)

lemma double_free_faults:
  "faults (ls_data_free (Some a) (ls_data_free (Some a) m)) > faults m"
  by (auto simp: ls_data_free_def)

lemma ls_data_free_frame [frame_simps]:
  "next_addr (ls_data_free p m) = next_addr m"
  "n_calls (ls_data_free p m) = n_calls m"
  "malloc_func (ls_data_free p m) = malloc_func m"
  "paging_enabled (ls_data_free p m) = paging_enabled m"
  by (auto simp: ls_data_free_def fault_def split: option.split)

lemma write_bytes_fits:
  "blocks m a = Some old \<Longrightarrow> off + length bs \<le> length old \<Longrightarrow>
   write_bytes (a, off) bs m =
     m\<lparr>blocks := (blocks m)(a \<mapsto> take off old @ map Some bs @ drop (off + length bs) old)\<rparr>"
  by (simp add: write_bytes_def)

lemma read_write_same:
  "blocks m a = Some old \<Longrightarrow> off + length bs \<le> length old \<Longrightarrow>
   read_bytes (a, off) (length bs) (write_bytes (a, off) bs m) = Some (map Some bs)"
  by (simp add: write_bytes_def read_bytes_def)

text \<open>Bytes outside the written range keep their value.\<close>

lemma read_write_disjoint:
  assumes "a \<noteq> a' \<or> off + n \<le> off' \<or> off' + length bs \<le> off"
  shows "read_bytes (a, off) n (write_bytes (a', off') bs m) = read_bytes (a, off) n m"
proof (cases "\<exists>old. blocks m a' = Some old \<and> off' + length bs \<le> length old")
  case True
  then obtain old where old: "blocks m a' = Some old" "off' + length bs \<le> length old" by blast
  have "take n (drop off (take off' old @ map Some bs @ drop (off' + length bs) old)) =
      take n (drop off old)" if "a = a'"
    using take_drop_patch[of off n off' "map Some bs" old] assms that old(2) by auto
  then show ?thesis using old by (auto simp: write_bytes_def read_bytes_def)
next
  case False
  then show ?thesis
    by (auto simp: write_bytes_def read_bytes_def split: option.split)
qed

lemma ls_data_calloc_None:
  "ls_data_calloc k sz m = (None, m') \<Longrightarrow> m' = m\<lparr>n_calls := Suc (n_calls m)\<rparr>"
  by (auto simp: ls_data_calloc_def Let_def dest: ls_data_malloc_None split: prod.splits option.splits)

lemma ls_data_calloc_Some:
  "ls_data_calloc k sz m = (Some a, m') \<Longrightarrow>
   a = next_addr m \<and>
   m' = m\<lparr>blocks := (blocks m)(a \<mapsto> replicate (size_mult k sz) (Some 0)), next_addr := Suc a,
          n_calls := Suc (n_calls m)\<rparr>"
  by (auto simp: ls_data_calloc_def Let_def write_bytes_def
           dest!: ls_data_malloc_Some split: prod.splits option.splits)

lemma mem_wf_calloc [inv_intros]: "mem_wf m \<Longrightarrow> mem_wf (snd (ls_data_calloc k sz m))"
  by (cases "ls_data_calloc k sz m"; cases "fst (ls_data_calloc k sz m)")
    (auto simp: mem_wf_def dest!: ls_data_calloc_None ls_data_calloc_Some)

section \<open>Releasing several blocks\<close>

definition free_all :: "addr list \<Rightarrow> 'z mem_scheme \<Rightarrow> 'z mem_scheme" where
  "free_all as m = fold (\<lambda>a. ls_data_free (Some a)) as m"

lemma free_all_Nil [simp]: "free_all [] m = m"
  by (simp add: free_all_def)

lemma free_all_Cons [simp]: "free_all (a # as) m = free_all as (ls_data_free (Some a) m)"
  by (simp add: free_all_def)

lemma free_all_append: "free_all (as @ bs) m = free_all bs (free_all as m)"
  by (simp add: free_all_def)

lemma free_all_live:
  "distinct as \<Longrightarrow> \<forall>a \<in> set as. blocks m a \<noteq> None \<Longrightarrow>
   free_all as m = m\<lparr>blocks := blocks m |` (- set as)\<rparr>"
proof (induction as arbitrary: m)
  case (Cons a as)
  let ?m = "m\<lparr>blocks := (blocks m)(a := None)\<rparr>"
  have "free_all as ?m = ?m\<lparr>blocks := blocks ?m |` (- set as)\<rparr>"
    using Cons by (intro Cons.IH) auto
  moreover have "blocks ?m |` (- set as) = blocks m |` (- set (a # as))"
    by (rule ext) (simp add: restrict_map_def)
  ultimately show ?case using Cons.prems(2) by (auto simp: ls_data_free_def)
qed (simp add: restrict_map_def)

section \<open>Ownership\<close>

text \<open>
  The heap is the heap \<open>B\<close> and, apart from it, exactly the live blocks \<open>M\<close>; so far \<open>k\<close> faults
  have been counted.  Components state what they allocate and release with this predicate: an
  operation that takes \<open>owns B k {#} m\<close> back to \<open>owns B k {#} m'\<close> neither leaks nor frees twice.
\<close>

definition owns ::
  "(addr \<Rightarrow> u8 option list option) \<Rightarrow> nat \<Rightarrow> addr multiset \<Rightarrow> 'z mem_scheme \<Rightarrow> bool" where
  "owns B k M m \<longleftrightarrow>
     mem_wf m \<and> faults m = k \<and> (\<forall>a. count M a \<le> 1) \<and>
     (\<forall>a. a \<in># M \<longrightarrow> blocks m a \<noteq> None \<and> B a = None) \<and>
     (\<forall>a. a \<notin># M \<longrightarrow> blocks m a = B a)"

lemma owns_start: "mem_wf m \<Longrightarrow> owns (blocks m) (faults m) {#} m"
  by (simp add: owns_def)

lemma owns_empty: "owns B k {#} m \<Longrightarrow> blocks m = B \<and> faults m = k"
  by (auto simp: owns_def)

lemma owns_live: "owns B k M m \<Longrightarrow> a \<in># M \<Longrightarrow> blocks m a \<noteq> None"
  by (simp add: owns_def)

lemma owns_wf: "owns B k M m \<Longrightarrow> mem_wf m"
  by (simp add: owns_def)

lemma owns_once: "owns B k (add_mset a M) m \<Longrightarrow> a \<notin># M"
  by (auto simp: owns_def not_in_iff dest!: spec[of _ a])

lemma owns_calls [simp]: "owns B k M (m\<lparr>n_calls := n\<rparr>) = owns B k M m"
  by (simp add: owns_def)

lemma owns_cong:
  "blocks m' = blocks m \<Longrightarrow> faults m' = faults m \<Longrightarrow> next_addr m \<le> next_addr m' \<Longrightarrow>
   owns B k M m \<Longrightarrow> owns B k M m'"
  by (auto simp: owns_def mem_wf_def)

lemma owns_fresh: "owns B k M m \<Longrightarrow> next_addr m \<notin># M \<and> B (next_addr m) = None"
  by (metis mem_wf_fresh owns_def)

lemma owns_alloc:
  assumes "owns B k M m" and "a = next_addr m" and "blocks m' = (blocks m)(a \<mapsto> bs)"
    and "next_addr m' = Suc a" and "faults m' = faults m"
  shows "owns B k (add_mset a M) m'"
  using assms owns_fresh[OF assms(1)] by (auto simp: owns_def mem_wf_def not_in_iff)

lemma owns_malloc:
  "owns B k M m \<Longrightarrow> ls_data_malloc sz m = (Some a, m') \<Longrightarrow> owns B k (add_mset a M) m'"
  by (auto dest!: ls_data_malloc_Some intro: owns_alloc)

lemma owns_malloc_None:
  "owns B k M m \<Longrightarrow> ls_data_malloc sz m = (None, m') \<Longrightarrow> owns B k M m'"
  by (auto dest!: ls_data_malloc_None)

lemma owns_calloc:
  "owns B k M m \<Longrightarrow> ls_data_calloc n sz m = (Some a, m') \<Longrightarrow> owns B k (add_mset a M) m'"
  by (auto dest!: ls_data_calloc_Some intro: owns_alloc)

lemma owns_calloc_None:
  "owns B k M m \<Longrightarrow> ls_data_calloc n sz m = (None, m') \<Longrightarrow> owns B k M m'"
  by (auto dest!: ls_data_calloc_None)

lemma owns_free:
  assumes "owns B k (add_mset a M) m"
  shows "owns B k M (ls_data_free (Some a) m)"
proof -
  obtain bs where bs: "blocks m a = Some bs"
    using assms by (auto simp: owns_def)
  have a: "a \<notin># M" "B a = None"
    using assms owns_once[OF assms] by (auto simp: owns_def)
  have once: "count (add_mset a M) b \<le> 1" for b
    using assms by (simp only: owns_def)
  have "count M b \<le> 1" for b
    using once[of b] by (auto split: if_splits)
  then show ?thesis
    using assms a bs by (auto simp: owns_def ls_data_free_live mem_wf_def)
qed

lemma owns_write:
  assumes "owns B k M m" and "a \<in># M" and "blocks m a = Some old" and "off + length bs \<le> length old"
  shows "owns B k M (write_bytes (a, off) bs m)"
  using assms by (auto simp: owns_def write_bytes_fits mem_wf_def)

lemma owns_disjoint: "owns B k (M + N) m \<Longrightarrow> set_mset M \<inter> set_mset N = {}"
proof -
  assume o: "owns B k (M + N) m"
  have "\<not> (a \<in># M \<and> a \<in># N)" for a
  proof
    assume "a \<in># M \<and> a \<in># N"
    then have "1 \<le> count M a" "1 \<le> count N a" by (simp_all add: Suc_le_eq)
    moreover have "count M a + count N a \<le> 1" using o unfolding owns_def by (metis count_union)
    ultimately show False by linarith
  qed
  then show ?thesis by blast
qed

lemmas owns_intros = owns_malloc owns_malloc_None owns_calloc owns_calloc_None owns_free

section \<open>A concrete heap and the zeroed allocation\<close>

text \<open>The heap the program starts with, used where a property is applied to a concrete run.\<close>

definition init_mem :: mem where
  "init_mem = \<lparr>blocks = (\<lambda>a. None), next_addr = 0, n_calls = 0, malloc_func = libc_malloc,
               realloc_func = libc_realloc, paging_enabled = True, faults = 0\<rparr>"

lemma mem_wf_init [simp]: "mem_wf init_mem"
  by (simp add: mem_wf_def init_mem_def)

text \<open>C39: \<open>ls_data_calloc\<close> returns a block of zeros whose length is the product of its arguments
  reduced modulo the range of \<open>size_t\<close>; so it is the product exactly when that does not overflow,
  and shorter than what the caller asked for when it does.\<close>

theorem ls_data_calloc_block:
  assumes "ls_data_calloc nmemb sz m = (Some a, m')"
  shows "blocks m' a = Some (replicate (nmemb * sz mod 2 ^ 64) (Some 0)) \<and>
         (nmemb * sz mod 2 ^ 64 = nmemb * sz \<longleftrightarrow> nmemb * sz < 2 ^ 64) \<and>
         faults m' = faults m \<and> (\<forall>b. b \<noteq> a \<longrightarrow> blocks m' b = blocks m b)"
proof -
  have "blocks m' a = Some (replicate (size_mult nmemb sz) (Some 0)) \<and> faults m' = faults m \<and>
      (\<forall>b. b \<noteq> a \<longrightarrow> blocks m' b = blocks m b)"
    using ls_data_calloc_Some[OF assms] by simp
  moreover have "nmemb * sz mod 2 ^ 64 = nmemb * sz \<longleftrightarrow> nmemb * sz < 2 ^ 64"
    by (metis mod_less mod_less_divisor zero_less_numeral zero_less_power)
  ultimately show ?thesis by (simp add: size_mult_def)
qed

lemma ls_data_calloc_block_witness:
  "\<exists>m'. ls_data_calloc (2 ^ 33) (2 ^ 31) init_mem = (Some 0, m') \<and> blocks m' 0 = Some []"
proof -
  obtain m' where m': "ls_data_calloc (2 ^ 33) (2 ^ 31) init_mem = (Some 0, m')"
    by (simp add: ls_data_calloc_def ls_data_malloc_def init_mem_def libc_malloc_def Let_def)
  then show ?thesis using ls_data_calloc_block[OF m'] by simp
qed

end
