(* ===== verification/Ls_Pool.thy ===== *)
theory Ls_Pool
  imports Ls_Mem
begin

text \<open>
  The memory pools of \<open>src/ls_mem.c\<close> and \<open>src/ls_pool_types.h\<close>: pages that requests are carved
  out of, blocks allocated directly when a request exceeds the page size, and the list of cleaners
  that \<open>ls_pool_destroy\<close> runs.  A pool is a value; the blocks behind it (its own structure, the
  page structures and their blocks, the cleaner contexts) are identified by their addresses.
\<close>

section \<open>State\<close>

record pool_page =
  pg_self :: addr
  pg_block :: addr
  pg_size :: nat
  pg_used :: nat

text \<open>The cleaner callbacks: the two of the library, and those of its users, which act on the
  state \<open>'s\<close>.  The argument is an address for the first two.\<close>

datatype 's cleaner =
    Free_page
  | Data_free
  | User_cleaner "nat \<Rightarrow> 's \<Rightarrow> 's"

record 's cleaner_ctx =
  cc_self :: addr
  cc_cleaner :: "'s cleaner"
  cc_arg :: nat

record 's pool =
  p_self :: addr
  p_size :: nat
  p_page_size :: nat
  p_cleaners :: "'s cleaner_ctx list"
  p_tail :: "addr option"
  p_pages :: "pool_page list"

definition sizeof_pool :: nat where "sizeof_pool = 40"
definition sizeof_pool_page :: nat where "sizeof_pool_page = 32"
definition sizeof_cleaner_ctx :: nat where "sizeof_cleaner_ctx = 24"

section \<open>Operations\<close>

definition ls_pool_enable_paging :: "bool \<Rightarrow> 'z mem_scheme \<Rightarrow> 'z mem_scheme" where
  "ls_pool_enable_paging enable m = m\<lparr>paging_enabled := enable\<rparr>"

text \<open>\<open>_malloc_fnc\<close> without a cleaner.\<close>

definition malloc_fnc :: "nat \<Rightarrow> 'z mem_scheme \<Rightarrow> (errcode + addr) \<times> 'z mem_scheme" where
  "malloc_fnc sz m =
     (case ls_data_malloc sz m of
        (None, m1) \<Rightarrow> (Inl LS_ERR_NO_MEMORY, m1)
      | (Some ret, m1) \<Rightarrow> (Inr ret, m1))"

definition ls_pool_add_cleaner ::
  "('z mem_scheme) pool \<Rightarrow> ('z mem_scheme) cleaner \<Rightarrow> nat \<Rightarrow> 'z mem_scheme \<Rightarrow>
   (errcode + ('z mem_scheme) pool) \<times> 'z mem_scheme" where
  "ls_pool_add_cleaner p callback arg m =
     (case malloc_fnc sizeof_cleaner_ctx m of
        (Inl e, m1) \<Rightarrow> (Inl e, m1)
      | (Inr self, m1) \<Rightarrow>
          (let ctx = \<lparr>cc_self = self, cc_cleaner = callback, cc_arg = arg\<rparr> in
           (Inr (p\<lparr>p_tail := (if p_cleaners p = [] then Some self else p_tail p),
                  p_cleaners := ctx # p_cleaners p\<rparr>), m1)))"

text \<open>\<open>_malloc_fnc\<close> with a pool and a cleaner to register for the new block.\<close>

definition malloc_fnc_cleaner ::
  "('z mem_scheme) pool \<Rightarrow> nat \<Rightarrow> ('z mem_scheme) cleaner \<Rightarrow> 'z mem_scheme \<Rightarrow>
   (errcode + addr \<times> ('z mem_scheme) pool) \<times> 'z mem_scheme" where
  "malloc_fnc_cleaner p sz cleaner m =
     (case malloc_fnc sz m of
        (Inl e, m1) \<Rightarrow> (Inl e, m1)
      | (Inr ret, m1) \<Rightarrow>
          (case ls_pool_add_cleaner p cleaner ret m1 of
             (Inl e, m2) \<Rightarrow> (Inl e, ls_data_free (Some ret) m2)
           | (Inr p1, m2) \<Rightarrow> (Inr (ret, p1), m2)))"

definition page_malloc :: "pool_page \<Rightarrow> nat \<Rightarrow> (byte_ptr \<times> pool_page) option" where
  "page_malloc pg sz =
     (let will_use = pg_used pg in
      if sz > size_sub (pg_size pg) will_use then None
      else Some ((pg_block pg, will_use), pg\<lparr>pg_used := size_add will_use sz\<rparr>))"

definition page_block_of :: "pool_page list \<Rightarrow> addr \<Rightarrow> addr option" where
  "page_block_of pages arg = map_of (map (\<lambda>pg. (pg_self pg, pg_block pg)) pages) arg"

text \<open>\<open>_free_page\<close>; a page structure that is not one of the pool's would be a stray pointer.\<close>

definition free_page :: "pool_page list \<Rightarrow> addr \<Rightarrow> 'z mem_scheme \<Rightarrow> 'z mem_scheme" where
  "free_page pages page m =
     (case page_block_of pages page of
        None \<Rightarrow> fault m
      | Some block \<Rightarrow> ls_data_free (Some page) (ls_data_free (Some block) m))"

definition add_page ::
  "('z mem_scheme) pool \<Rightarrow> 'z mem_scheme \<Rightarrow> (errcode + ('z mem_scheme) pool) \<times> 'z mem_scheme" where
  "add_page p m =
     (case malloc_fnc sizeof_pool_page m of
        (Inl e, m1) \<Rightarrow> (Inl e, m1)
      | (Inr page, m1) \<Rightarrow>
          (case malloc_fnc (p_page_size p) m1 of
             (Inl e, m2) \<Rightarrow> (Inl e, ls_data_free (Some page) m2)
           | (Inr block, m2) \<Rightarrow>
               (case ls_pool_add_cleaner p Free_page page m2 of
                  (Inl e, m3) \<Rightarrow>
                    (Inl e, ls_data_free (Some page) (ls_data_free (Some block) m3))
                | (Inr p1, m3) \<Rightarrow>
                    (Inr (p1\<lparr>p_pages := \<lparr>pg_self = page, pg_block = block,
                                 pg_size = p_page_size p, pg_used = 0\<rparr> # p_pages p1,
                            p_size := size_add (p_size p1) (p_page_size p1)\<rparr>), m3))))"

definition ls_pool_create ::
  "nat \<Rightarrow> 'z mem_scheme \<Rightarrow> (errcode + ('z mem_scheme) pool) \<times> 'z mem_scheme" where
  "ls_pool_create sz0 m =
     (case malloc_fnc sizeof_pool m of
        (Inl e, m1) \<Rightarrow> (Inl e, m1)
      | (Inr self, m1) \<Rightarrow>
          (let sz = (if paging_enabled m1 then sz0 else 0);
               ret = \<lparr>p_self = self, p_size = 0, p_page_size = sz, p_cleaners = [],
                      p_tail = None, p_pages = []\<rparr> in
           if sz \<noteq> 0 then
             (case add_page ret m1 of
                (Inl e, m2) \<Rightarrow> (Inl e, ls_data_free (Some self) m2)
              | (Inr p1, m2) \<Rightarrow> (Inr p1, m2))
           else (Inr ret, m1)))"

definition run_cleaner ::
  "pool_page list \<Rightarrow> ('z mem_scheme) cleaner_ctx \<Rightarrow> 'z mem_scheme \<Rightarrow> 'z mem_scheme" where
  "run_cleaner pages cur m =
     (case cc_cleaner cur of
        Free_page \<Rightarrow> free_page pages (cc_arg cur) m
      | Data_free \<Rightarrow> ls_data_free (Some (cc_arg cur)) m
      | User_cleaner f \<Rightarrow> f (cc_arg cur) m)"

fun destroy_cleaners ::
  "pool_page list \<Rightarrow> ('z mem_scheme) cleaner_ctx list \<Rightarrow> 'z mem_scheme \<Rightarrow> 'z mem_scheme" where
  "destroy_cleaners pages [] m = m"
| "destroy_cleaners pages (cur # rest) m =
     destroy_cleaners pages rest (ls_data_free (Some (cc_self cur)) (run_cleaner pages cur m))"

definition ls_pool_destroy :: "('z mem_scheme) pool \<Rightarrow> 'z mem_scheme \<Rightarrow> 'z mem_scheme" where
  "ls_pool_destroy p m =
     ls_data_free (Some (p_self p)) (destroy_cleaners (p_pages p) (p_cleaners p) m)"

text \<open>A request that the page size admits is read off the first page: with no page at all the
  code would dereference \<open>NULL\<close>.\<close>

definition ls_pool_malloc ::
  "('z mem_scheme) pool \<Rightarrow> nat \<Rightarrow> 'z mem_scheme \<Rightarrow>
   (errcode + byte_ptr option) \<times> ('z mem_scheme) pool \<times> 'z mem_scheme" where
  "ls_pool_malloc p sz m =
     (if sz = 0 then (Inr None, p, m)
      else if sz > p_page_size p then
        (case malloc_fnc_cleaner p sz Data_free m of
           (Inl e, m1) \<Rightarrow> (Inl e, p, m1)
         | (Inr (ret, p1), m1) \<Rightarrow>
             (Inr (Some (ret, 0)), p1\<lparr>p_size := size_add (p_size p1) sz\<rparr>, m1))
      else
        (case p_pages p of
           [] \<Rightarrow> (Inl LS_ERR_NONE, p, fault m)
         | pg # rest \<Rightarrow>
             (case page_malloc pg sz of
                Some (ret, pg1) \<Rightarrow> (Inr (Some ret), p\<lparr>p_pages := pg1 # rest\<rparr>, m)
              | None \<Rightarrow>
                  (case add_page p m of
                     (Inl e, m1) \<Rightarrow> (Inl e, p, m1)
                   | (Inr p1, m1) \<Rightarrow>
                       (case p_pages p1 of
                          [] \<Rightarrow> (Inl LS_ERR_NONE, p1, fault m1)
                        | pg1 # rest1 \<Rightarrow>
                            (case page_malloc pg1 sz of
                               None \<Rightarrow> (Inr None, p1, m1)
                             | Some (ret, pg2) \<Rightarrow>
                                 (Inr (Some ret), p1\<lparr>p_pages := pg2 # rest1\<rparr>, m1)))))))"

definition ls_pool_calloc ::
  "('z mem_scheme) pool \<Rightarrow> nat \<Rightarrow> nat \<Rightarrow> 'z mem_scheme \<Rightarrow>
   (errcode + byte_ptr option) \<times> ('z mem_scheme) pool \<times> 'z mem_scheme" where
  "ls_pool_calloc p num sz m =
     (let block_size = size_mult num sz in
      case ls_pool_malloc p block_size m of
        (Inl e, p1, m1) \<Rightarrow> (Inl e, p1, m1)
      | (Inr None, p1, m1) \<Rightarrow> (Inr None, p1, if block_size = 0 then m1 else fault m1)
      | (Inr (Some ptr), p1, m1) \<Rightarrow>
          (Inr (Some ptr), p1, write_bytes ptr (replicate block_size 0) m1))"

definition ls_pool_strdup ::
  "('z mem_scheme) pool \<Rightarrow> u8 list option \<Rightarrow> 'z mem_scheme \<Rightarrow>
   (errcode + byte_ptr option) \<times> ('z mem_scheme) pool \<times> 'z mem_scheme" where
  "ls_pool_strdup p src m =
     (case src of
        None \<Rightarrow> (Inr None, p, m)
      | Some s \<Rightarrow>
          (let len = length s in
           case ls_pool_malloc p (size_add len 1) m of
             (Inl e, p1, m1) \<Rightarrow> (Inl e, p1, m1)
           | (Inr None, p1, m1) \<Rightarrow> (Inr None, p1, fault m1)
           | (Inr (Some ptr), p1, m1) \<Rightarrow> (Inr (Some ptr), p1, write_bytes ptr (s @ [0]) m1)))"

end
