(* ===== verification/Ls_Pool_Props.thy ===== *)
theory Ls_Pool_Props
  imports Ls_Pool
begin

text \<open>
  What the pools of \<open>Ls_Pool\<close> guarantee.  The invariant \<open>pool_inv B k p m\<close> says that the heap is
  the heap \<open>B\<close> from before the pool was created and the blocks the pool owns, and that every page
  has the pool's page size and a fill level within it.  Every operation keeps it, failing ones
  included, so a pool can be destroyed at any time; the ranges it hands out are disjoint.
\<close>

section \<open>What a pool owns\<close>

definition owned_ctx :: "pool_page list \<Rightarrow> 's cleaner_ctx \<Rightarrow> addr multiset" where
  "owned_ctx pages c = add_mset (cc_self c)
     (case cc_cleaner c of
        Free_page \<Rightarrow> (case page_block_of pages (cc_arg c) of
                        None \<Rightarrow> {#} | Some block \<Rightarrow> {#cc_arg c, block#})
      | Data_free \<Rightarrow> {#cc_arg c#}
      | User_cleaner f \<Rightarrow> {#})"

definition owned :: "'s pool \<Rightarrow> addr multiset" where
  "owned p = add_mset (p_self p) (sum_list (map (owned_ctx (p_pages p)) (p_cleaners p)))"

definition neutral :: "(nat \<Rightarrow> 'z mem_scheme \<Rightarrow> 'z mem_scheme) \<Rightarrow> bool" where
  "neutral f \<longleftrightarrow> (\<forall>a s. blocks (f a s) = blocks s \<and> faults (f a s) = faults s \<and>
                        next_addr s \<le> next_addr (f a s))"

definition ctx_ok :: "pool_page list \<Rightarrow> ('z mem_scheme) cleaner \<Rightarrow> nat \<Rightarrow> bool" where
  "ctx_ok pages cb arg \<longleftrightarrow>
     (case cb of
        Free_page \<Rightarrow> page_block_of pages arg \<noteq> None
      | Data_free \<Rightarrow> True
      | User_cleaner f \<Rightarrow> neutral f)"

lemma ctx_ok_simps [simp]:
  "ctx_ok pages Free_page arg \<longleftrightarrow> page_block_of pages arg \<noteq> None"
  "ctx_ok pages Data_free arg"
  "ctx_ok pages (User_cleaner f) arg \<longleftrightarrow> neutral f"
  by (simp_all add: ctx_ok_def)

definition page_ok :: "('z mem_scheme) pool \<Rightarrow> 'z mem_scheme \<Rightarrow> pool_page \<Rightarrow> bool" where
  "page_ok p m pg \<longleftrightarrow>
     pg_size pg = p_page_size p \<and> pg_used pg \<le> pg_size pg \<and>
     (\<exists>bs. blocks m (pg_block pg) = Some bs \<and> length bs = pg_size pg) \<and>
     pg_block pg \<in># owned p"

definition pool_shape :: "('z mem_scheme) pool \<Rightarrow> 'z mem_scheme \<Rightarrow> bool" where
  "pool_shape p m \<longleftrightarrow>
     p_page_size p < 2 ^ 64 \<and>
     (p_page_size p \<noteq> 0 \<longrightarrow> p_pages p \<noteq> []) \<and>
     distinct (map pg_block (p_pages p)) \<and>
     (\<forall>c \<in> set (p_cleaners p). ctx_ok (p_pages p) (cc_cleaner c) (cc_arg c)) \<and>
     (\<forall>pg \<in> set (p_pages p). page_ok p m pg)"

definition pool_inv ::
  "(addr \<Rightarrow> u8 option list option) \<Rightarrow> nat \<Rightarrow> ('z mem_scheme) pool \<Rightarrow> 'z mem_scheme \<Rightarrow> bool" where
  "pool_inv B k p m \<longleftrightarrow> owns B k (owned p) m \<and> pool_shape p m"

lemma run_cleaner_owns:
  "owns B k (owned_ctx pages c + M) m \<Longrightarrow> ctx_ok pages (cc_cleaner c) (cc_arg c) \<Longrightarrow>
   owns B k M (ls_data_free (Some (cc_self c)) (run_cleaner pages c m))"
proof -
  assume o: "owns B k (owned_ctx pages c + M) m" and ok: "ctx_ok pages (cc_cleaner c) (cc_arg c)"
  show ?thesis
  proof (cases "cc_cleaner c")
    case Free_page
    then obtain block where b: "page_block_of pages (cc_arg c) = Some block"
      using ok by (auto simp: ctx_ok_def)
    with Free_page o have "owns B k (add_mset block (add_mset (cc_arg c) (add_mset (cc_self c) M))) m"
      by (simp add: owned_ctx_def add_mset_commute)
    then show ?thesis using Free_page b
      by (simp add: run_cleaner_def free_page_def owns_free)
  next
    case Data_free
    with o have "owns B k (add_mset (cc_arg c) (add_mset (cc_self c) M)) m"
      by (simp add: owned_ctx_def add_mset_commute)
    then show ?thesis using Data_free by (simp add: run_cleaner_def owns_free)
  next
    case (User_cleaner f)
    with o ok have "owns B k (add_mset (cc_self c) M) (f (cc_arg c) m)"
      by (auto simp: owned_ctx_def ctx_ok_def neutral_def intro: owns_cong)
    then show ?thesis using User_cleaner by (simp add: run_cleaner_def owns_free)
  qed
qed

lemma destroy_cleaners_owns:
  "owns B k (sum_list (map (owned_ctx pages) cs) + M) m \<Longrightarrow> \<forall>c \<in> set cs. ctx_ok pages (cc_cleaner c) (cc_arg c) \<Longrightarrow>
   owns B k M (destroy_cleaners pages cs m)"
  by (induction cs arbitrary: m) (auto simp: add.assoc intro: run_cleaner_owns)

lemma pool_destroy_owns:
  assumes "pool_inv B k p m"
  shows "owns B k {#} (ls_pool_destroy p m)"
proof -
  have "owns B k (sum_list (map (owned_ctx (p_pages p)) (p_cleaners p)) + {#p_self p#}) m"
    using assms by (simp add: pool_inv_def owned_def)
  then have "owns B k {#p_self p#} (destroy_cleaners (p_pages p) (p_cleaners p) m)"
    by (rule destroy_cleaners_owns) (use assms in \<open>simp add: pool_inv_def pool_shape_def\<close>)
  then show ?thesis by (simp add: ls_pool_destroy_def owns_free)
qed


section \<open>Operations keep the invariant\<close>

text \<open>\<open>keeps m m'\<close>: what was live in \<open>m\<close> is live in \<open>m'\<close>, at the same size.\<close>

definition keeps :: "'z mem_scheme \<Rightarrow> 'z mem_scheme \<Rightarrow> bool" where
  "keeps m m' \<longleftrightarrow> (\<forall>a bs. blocks m a = Some bs \<longrightarrow>
     (\<exists>bs'. blocks m' a = Some bs' \<and> length bs' = length bs))"

lemma keeps_refl [simp]: "keeps m m"
  by (simp add: keeps_def)

lemma keeps_trans: "keeps m m' \<Longrightarrow> keeps m' m'' \<Longrightarrow> keeps m m''"
  by (fastforce simp: keeps_def)

text \<open>\<open>extends m m'\<close>: live blocks also keep their contents.\<close>

definition extends :: "'z mem_scheme \<Rightarrow> 'z mem_scheme \<Rightarrow> bool" where
  "extends m m' \<longleftrightarrow> blocks m \<subseteq>\<^sub>m blocks m'"

lemma extends_keeps: "extends m m' \<Longrightarrow> keeps m m'"
  by (auto simp: extends_def keeps_def map_le_def dom_def)

lemma extends_refl [simp]: "extends m m" "extends m (fault m)"
  by (simp_all add: extends_def)

lemma extends_trans: "extends m m' \<Longrightarrow> extends m' m'' \<Longrightarrow> extends m m''"
  by (auto simp: extends_def intro: map_le_trans)

lemma extends_malloc: "mem_wf m \<Longrightarrow> ls_data_malloc sz m = (r, m') \<Longrightarrow> extends m m'"
  by (cases rule: ls_data_malloc_cases[of sz m])
    (auto simp: extends_def map_le_def mem_wf_def dom_def)

lemma extends_free: "extends m m' \<Longrightarrow> blocks m a = None \<Longrightarrow> extends m (ls_data_free (Some a) m')"
  by (auto simp: extends_def ls_data_free_def map_le_def)

lemma extends_read: "extends m m' \<Longrightarrow> read_bytes p n m = Some bs \<Longrightarrow> read_bytes p n m' = Some bs"
  by (auto simp: extends_def read_bytes_def map_le_def dom_def split: prod.splits option.splits if_splits)

lemma keeps_write: "keeps m (write_bytes p bs m)"
  by (auto simp: keeps_def write_bytes_def split: prod.split option.split)

lemma keeps_fault [simp]: "keeps m (fault m)"
  by (simp add: keeps_def)

lemma malloc_fnc_Inl:
  "malloc_fnc sz m = (Inl e, m') \<longleftrightarrow> e = LS_ERR_NO_MEMORY \<and> ls_data_malloc sz m = (None, m')"
  by (auto simp: malloc_fnc_def split: prod.splits option.splits)

lemma malloc_fnc_Inr: "malloc_fnc sz m = (Inr a, m') \<longleftrightarrow> ls_data_malloc sz m = (Some a, m')"
  by (auto simp: malloc_fnc_def split: prod.splits option.splits)

lemma add_cleaner_Inl:
  "ls_pool_add_cleaner p cb arg m = (Inl e, m') \<longleftrightarrow>
   e = LS_ERR_NO_MEMORY \<and> ls_data_malloc sizeof_cleaner_ctx m = (None, m')"
  by (auto simp: ls_pool_add_cleaner_def Let_def malloc_fnc_Inl split: prod.splits sum.splits)
    (auto simp: malloc_fnc_def)

lemma add_cleaner_Inr:
  "ls_pool_add_cleaner p cb arg m = (Inr p', m') \<longleftrightarrow>
   (\<exists>self. ls_data_malloc sizeof_cleaner_ctx m = (Some self, m') \<and>
      p' = p\<lparr>p_tail := (if p_cleaners p = [] then Some self else p_tail p),
             p_cleaners := \<lparr>cc_self = self, cc_cleaner = cb, cc_arg = arg\<rparr> # p_cleaners p\<rparr>)"
  by (auto simp: ls_pool_add_cleaner_def Let_def malloc_fnc_Inr split: prod.splits sum.splits)
    (auto simp: malloc_fnc_def)


lemma page_ok_mono:
  "page_ok p m pg \<Longrightarrow> keeps m m' \<Longrightarrow> set_mset (owned p) \<subseteq> set_mset (owned p') \<Longrightarrow>
   p_page_size p' = p_page_size p \<Longrightarrow> page_ok p' m' pg"
  by (fastforce simp: page_ok_def keeps_def)

lemma pool_shape_keeps: "pool_shape p m \<Longrightarrow> keeps m m' \<Longrightarrow> pool_shape p m'"
  by (auto simp: pool_shape_def intro: page_ok_mono)

lemma pool_shape_extends: "pool_shape p m \<Longrightarrow> extends m m' \<Longrightarrow> pool_shape p m'"
  by (auto intro: pool_shape_keeps extends_keeps)

lemma owned_add_cleaner:
  "owned (p\<lparr>p_tail := t, p_cleaners := c # p_cleaners p\<rparr>) = owned_ctx (p_pages p) c + owned p"
  by (simp add: owned_def)

lemma owned_size [simp]: "owned (p\<lparr>p_size := n\<rparr>) = owned p"
  by (simp add: owned_def)

lemma pool_shape_size [simp]: "pool_shape (p\<lparr>p_size := n\<rparr>) m = pool_shape p m"
  by (simp add: pool_shape_def page_ok_def)

lemma add_cleaner_shape:
  assumes "pool_shape p m" and "mem_wf m" and "ctx_ok (p_pages p) cb arg"
    and "ls_pool_add_cleaner p cb arg m = (Inr p', m')"
  shows "pool_shape p' m'"
proof -
  obtain self where self: "ls_data_malloc sizeof_cleaner_ctx m = (Some self, m')"
    and p': "p' = p\<lparr>p_tail := (if p_cleaners p = [] then Some self else p_tail p),
             p_cleaners := \<lparr>cc_self = self, cc_cleaner = cb, cc_arg = arg\<rparr> # p_cleaners p\<rparr>"
    using assms(4) by (auto simp: add_cleaner_Inr)
  have sub: "set_mset (owned p) \<subseteq> set_mset (owned p')" "p_page_size p' = p_page_size p"
    "p_pages p' = p_pages p" by (auto simp: p' owned_def)
  have "extends m m'" using extends_malloc assms(2) self by blast
  then have "keeps m m'" by (rule extends_keeps)
  then have "page_ok p' m' pg" if "pg \<in> set (p_pages p')" for pg
    using that assms(1) page_ok_mono[OF _ _ sub(1,2)] by (auto simp: pool_shape_def sub(3))
  then show ?thesis
    using assms(1,3) by (auto simp: p' pool_shape_def)
qed

lemma malloc_fnc_cleaner_owns:
  assumes inv: "pool_inv B k p m" and r: "malloc_fnc_cleaner p sz Data_free m = (Inr (a, p'), m')"
  shows "pool_inv B k p' m'"
proof -
  obtain m1 where m1: "ls_data_malloc sz m = (Some a, m1)"
    and p': "ls_pool_add_cleaner p Data_free a m1 = (Inr p', m')"
    using r by (auto simp: malloc_fnc_cleaner_def malloc_fnc_Inr split: prod.splits sum.splits)
  have o: "owns B k (add_mset a (owned p)) m1"
    using inv m1 by (auto simp: pool_inv_def intro: owns_malloc)
  have sh: "pool_shape p m1"
    using inv m1 by (auto simp: pool_inv_def intro: pool_shape_extends extends_malloc owns_wf)
  have "pool_shape p' m'"
    by (rule add_cleaner_shape[OF sh owns_wf[OF o] _ p']) simp
  moreover have "owns B k (owned p') m'"
    using p' o by (auto simp: add_cleaner_Inr owned_add_cleaner owned_ctx_def
        add_mset_commute dest: owns_malloc)
  ultimately show ?thesis by (simp add: pool_inv_def)
qed

lemma malloc_fnc_cleaner_fails:
  assumes inv: "pool_inv B k p m" and r: "malloc_fnc_cleaner p sz cb m = (Inl e, m')"
  shows "pool_inv B k p m' \<and> e = LS_ERR_NO_MEMORY \<and> extends m m'"
proof -
  have wf: "mem_wf m" using inv by (auto simp: pool_inv_def intro: owns_wf)
  consider "ls_data_malloc sz m = (None, m')" "e = LS_ERR_NO_MEMORY"
    | a m1 m2 where "ls_data_malloc sz m = (Some a, m1)" "e = LS_ERR_NO_MEMORY"
        "ls_data_malloc sizeof_cleaner_ctx m1 = (None, m2)" "m' = ls_data_free (Some a) m2"
    using r by (auto simp: malloc_fnc_cleaner_def malloc_fnc_Inl malloc_fnc_Inr add_cleaner_Inl
        split: prod.splits sum.splits)
  then show ?thesis
  proof cases
    case 1
    then show ?thesis using inv wf
      by (auto simp: pool_inv_def intro: owns_malloc_None pool_shape_extends extends_malloc)
  next
    case 2
    have "owns B k (add_mset a (owned p)) m2"
      using inv 2 by (auto simp: pool_inv_def intro: owns_malloc owns_malloc_None)
    moreover have "extends m m'"
      unfolding 2(4) using 2 wf
      by (intro extends_free)
        (auto dest!: ls_data_malloc_Some ls_data_malloc_None simp: extends_def map_le_def dom_def mem_wf_fresh)
    ultimately show ?thesis using inv 2
      by (auto simp: pool_inv_def intro: owns_free pool_shape_extends)
  qed
qed


lemma page_block_of_Cons:
  "page_block_of (pg # pages) a = (if a = pg_self pg then Some (pg_block pg) else page_block_of pages a)"
  by (simp add: page_block_of_def)

lemma add_page_fails_owns:
  assumes o: "owns B k M m" and r: "add_page p m = (Inl e, m')"
  shows "owns B k M m' \<and> e = LS_ERR_NO_MEMORY \<and> extends m m'"
proof -
  have wf: "mem_wf m" using o by (rule owns_wf)
  note fresh = mem_wf_fresh[OF wf]
  have fresh': "blocks m (Suc (next_addr m)) = None" using wf by (simp add: mem_wf_def)
  consider "ls_data_malloc sizeof_pool_page m = (None, m')" "e = LS_ERR_NO_MEMORY"
    | a m1 m2 where "ls_data_malloc sizeof_pool_page m = (Some a, m1)" "e = LS_ERR_NO_MEMORY"
        "ls_data_malloc (p_page_size p) m1 = (None, m2)" "m' = ls_data_free (Some a) m2"
    | a b m1 m2 m3 where "ls_data_malloc sizeof_pool_page m = (Some a, m1)" "e = LS_ERR_NO_MEMORY"
        "ls_data_malloc (p_page_size p) m1 = (Some b, m2)"
        "ls_data_malloc sizeof_cleaner_ctx m2 = (None, m3)"
        "m' = ls_data_free (Some a) (ls_data_free (Some b) m3)"
    using r by (auto simp: add_page_def malloc_fnc_Inl malloc_fnc_Inr add_cleaner_Inl
        split: prod.splits sum.splits)
  then show ?thesis
  proof cases
    case 1
    then show ?thesis using o wf
      by (auto intro: owns_malloc_None extends_malloc)
  next
    case 2
    have "owns B k (add_mset a M) m2"
      using o 2 by (auto intro: owns_malloc owns_malloc_None)
    moreover have "extends m m'"
      unfolding 2(4) using 2 fresh
      by (intro extends_free) (auto dest!: ls_data_malloc_Some ls_data_malloc_None simp: extends_def map_le_def dom_def)
    ultimately show ?thesis using 2
      by (auto intro: owns_free)
  next
    case 3
    have "owns B k (add_mset b (add_mset a M)) m3"
      using o 3 by (auto intro: owns_malloc owns_malloc_None)
    moreover have "extends m m'"
      unfolding 3(5) using 3 fresh fresh'
      by (intro extends_free) (auto dest!: ls_data_malloc_Some ls_data_malloc_None simp: extends_def map_le_def dom_def)
    ultimately show ?thesis using 3
      by (auto intro: owns_free)
  qed
qed

lemma add_page_fails:
  assumes "pool_inv B k p m" and "add_page p m = (Inl e, m')"
  shows "pool_inv B k p m' \<and> e = LS_ERR_NO_MEMORY \<and> extends m m'"
  using add_page_fails_owns[OF _ assms(2), of B k "owned p"] assms(1)
  by (auto simp: pool_inv_def intro: pool_shape_extends)

lemma add_page_inv:
  assumes inv: "pool_inv B k p m \<or> (owns B k (owned p) m \<and> p_pages p = [] \<and> p_cleaners p = [])"
    and sz: "p_page_size p < 2 ^ 64"
    and r: "add_page p m = (Inr p', m')"
  shows "pool_inv B k p' m'"
    and "\<exists>a b. p_pages p' = \<lparr>pg_self = a, pg_block = b, pg_size = p_page_size p, pg_used = 0\<rparr> # p_pages p"
    and "set_mset (owned p) \<subseteq> set_mset (owned p')" and "extends m m'"
proof -
  have o: "owns B k (owned p) m" and wf: "mem_wf m"
    using inv by (auto simp: pool_inv_def intro: owns_wf)
  obtain a b m1 m2 self where a: "ls_data_malloc sizeof_pool_page m = (Some a, m1)"
    and b: "ls_data_malloc (p_page_size p) m1 = (Some b, m2)"
    and self: "ls_data_malloc sizeof_cleaner_ctx m2 = (Some self, m')"
    and p': "p' = p\<lparr>p_tail := (if p_cleaners p = [] then Some self else p_tail p),
             p_cleaners := \<lparr>cc_self = self, cc_cleaner = Free_page, cc_arg = a\<rparr> # p_cleaners p,
             p_pages := \<lparr>pg_self = a, pg_block = b, pg_size = p_page_size p, pg_used = 0\<rparr> # p_pages p,
             p_size := size_add (p_size p) (p_page_size p)\<rparr>"
    using r by (auto simp: add_page_def malloc_fnc_Inr add_cleaner_Inr split: prod.splits sum.splits)
  show "\<exists>a b. p_pages p' = \<lparr>pg_self = a, pg_block = b, pg_size = p_page_size p, pg_used = 0\<rparr> # p_pages p"
    by (auto simp: p')
  have o': "owns B k (add_mset self (add_mset b (add_mset a (owned p)))) m'"
    using o a b self by (auto intro: owns_malloc)
  have "a \<notin># owned p" using owns_fresh[OF o] a by (auto dest: ls_data_malloc_Some)
  have ctx: "\<forall>c \<in> set (p_cleaners p). ctx_ok (p_pages p) (cc_cleaner c) (cc_arg c)"
    using inv by (auto simp: pool_inv_def pool_shape_def)
  have arg: "cc_arg c \<noteq> a" if c: "c \<in> set (p_cleaners p)" "cc_cleaner c = Free_page" for c
  proof -
    obtain bl where "page_block_of (p_pages p) (cc_arg c) = Some bl"
      using ctx[rule_format, OF c(1)] c(2) by auto
    then have "cc_arg c \<in># owned_ctx (p_pages p) c"
      using that by (simp add: owned_ctx_def)
    then have "cc_arg c \<in># owned p"
      using that by (auto simp: owned_def)
    then show ?thesis using \<open>a \<notin># owned p\<close> by blast
  qed
  have same: "map (owned_ctx (p_pages p')) (p_cleaners p) = map (owned_ctx (p_pages p)) (p_cleaners p)"
    using arg by (auto simp: p' owned_ctx_def page_block_of_Cons split: cleaner.split)
  have owned': "owned p' = add_mset self (add_mset b (add_mset a (owned p)))"
  proof -
    let ?ctx = "\<lparr>cc_self = self, cc_cleaner = Free_page, cc_arg = a\<rparr> :: ('a mem_scheme) cleaner_ctx"
    have "owned p' = add_mset (p_self p) (owned_ctx (p_pages p') ?ctx +
        sum_list (map (owned_ctx (p_pages p')) (p_cleaners p)))"
      by (simp add: owned_def p')
    also have "owned_ctx (p_pages p') ?ctx = {#self, a, b#}"
      by (simp add: p' owned_ctx_def page_block_of_Cons)
    finally show ?thesis by (simp only: same) (simp add: owned_def)
  qed
  have len: "\<exists>bs. blocks m' b = Some bs \<and> length bs = p_page_size p"
    using a b self by (auto dest!: ls_data_malloc_Some)
  have "extends m m'" using a b self wf
    by (auto dest!: ls_data_malloc_Some simp: extends_def map_le_def dom_def mem_wf_def)
  have "page_ok p' m' pg" if "pg \<in> set (p_pages p)" for pg
  proof -
    have "page_ok p m pg" using that inv by (auto simp: pool_inv_def pool_shape_def)
    then show ?thesis by (rule page_ok_mono) (use extends_keeps[OF \<open>extends m m'\<close>] in \<open>auto simp: owned'\<close>, simp add: p')
  qed
  moreover have "page_ok p' m' (hd (p_pages p'))"
    using len by (simp add: page_ok_def owned') (simp add: p')
  moreover have "distinct (map pg_block (p_pages p'))"
  proof -
    have "owns B k (add_mset b (add_mset self (add_mset a (owned p)))) m'"
      using o' by (simp add: add_mset_commute)
    then have "b \<notin># owned p" by (auto dest: owns_once)
    moreover have "pg_block pg \<in># owned p \<and> distinct (map pg_block (p_pages p))"
      if "pg \<in> set (p_pages p)" for pg
      using that inv by (auto simp: pool_inv_def pool_shape_def page_ok_def)
    ultimately show ?thesis using inv by (fastforce simp: p' pool_inv_def pool_shape_def)
  qed
  ultimately have "pool_shape p' m'"
    using ctx sz arg by (auto simp: pool_shape_def p' page_block_of_Cons ctx_ok_def split: cleaner.splits)
  then show "pool_inv B k p' m'" using o' by (simp add: pool_inv_def owned')
  show "set_mset (owned p) \<subseteq> set_mset (owned p')" by (auto simp: owned')
  show "extends m m'" by fact
qed


lemma size_sub_add:
  "u \<le> n \<Longrightarrow> n < 2 ^ 64 \<Longrightarrow> size_sub n u = n - u \<and> (z \<le> n - u \<longrightarrow> size_add u z = u + z)"
  by (auto simp: size_sub_exact size_add_exact)

lemma page_malloc_inv:
  assumes inv: "pool_inv B k p m" and pg: "p_pages p = pg # rest"
    and r: "page_malloc pg sz = Some (ret, pg')"
  shows "pool_inv B k (p\<lparr>p_pages := pg' # rest\<rparr>) m"
    and "ret = (pg_block pg, pg_used pg)" and "pg' = pg\<lparr>pg_used := pg_used pg + sz\<rparr>"
    and "pg_used pg + sz \<le> pg_size pg"
    and page_malloc_owned: "owned (p\<lparr>p_pages := pg' # rest\<rparr>) = owned p"
proof -
  have ok: "page_ok p m pg" and lt: "pg_size pg < 2 ^ 64"
    using inv pg by (auto simp: pool_inv_def pool_shape_def page_ok_def)
  then have le: "pg_used pg \<le> pg_size pg" by (simp add: page_ok_def)
  show ret: "ret = (pg_block pg, pg_used pg)" and pg': "pg' = pg\<lparr>pg_used := pg_used pg + sz\<rparr>"
    and fits: "pg_used pg + sz \<le> pg_size pg"
    using r le size_sub_add[OF le lt] by (auto simp: page_malloc_def Let_def split: if_splits)
  have pb: "page_block_of (pg' # rest) a = page_block_of (p_pages p) a" for a
    by (simp add: pg pg' page_block_of_Cons)
  have oc: "owned_ctx (pg' # rest) = owned_ctx (p_pages p)"
    by (rule ext) (simp add: owned_ctx_def pb cong: cleaner.case_cong option.case_cong)
  show ow: "owned (p\<lparr>p_pages := pg' # rest\<rparr>) = owned p"
    by (simp add: owned_def oc)
  have pk: "page_ok (p\<lparr>p_pages := pg' # rest\<rparr>) m q" if "page_ok p m q" for q
    using that by (auto simp: page_ok_def ow)
  have "page_ok p m pg'" using ok fits by (auto simp: page_ok_def pg')
  moreover have pg_b: "pg_block pg' = pg_block pg" by (simp add: pg')
  ultimately have "pool_shape (p\<lparr>p_pages := pg' # rest\<rparr>) m"
    using inv pk pb by (auto simp: pool_inv_def pool_shape_def pg pg_b ctx_ok_def cong: cleaner.case_cong)
  then show "pool_inv B k (p\<lparr>p_pages := pg' # rest\<rparr>) m"
    using inv by (simp add: pool_inv_def ow)
qed

lemma pool_inv_size [simp]: "pool_inv B k (p\<lparr>p_size := n\<rparr>) m = pool_inv B k p m"
  by (simp add: pool_inv_def)

lemma ls_pool_malloc_inv:
  assumes inv: "pool_inv B k p m" and r: "ls_pool_malloc p sz m = (res, p', m')"
  shows "pool_inv B k p' m'"
proof -
  have sz64: "p_page_size p < 2 ^ 64" using inv by (simp add: pool_inv_def pool_shape_def)
  consider "sz = 0" | "sz \<noteq> 0" "sz > p_page_size p" | "sz \<noteq> 0" "sz \<le> p_page_size p" by linarith
  then show ?thesis
  proof cases
    case 1
    then show ?thesis using inv r by (simp add: ls_pool_malloc_def)
  next
    case 2
    then show ?thesis using inv r
      by (auto simp: ls_pool_malloc_def dest: malloc_fnc_cleaner_owns malloc_fnc_cleaner_fails
          split: prod.splits sum.splits)
  next
    case 3
    then obtain pg rest where pg: "p_pages p = pg # rest"
      using inv by (cases "p_pages p") (auto simp: pool_inv_def pool_shape_def)
    show ?thesis
    proof (cases "page_malloc pg sz")
      case (Some x)
      then show ?thesis using 3 pg inv r page_malloc_inv(1)[OF inv pg]
        by (cases x) (auto simp: ls_pool_malloc_def)
    next
      case None
      show ?thesis
      proof (cases "add_page p m")
        case (Pair r1 m1)
        show ?thesis
        proof (cases r1)
          case (Inl e)
          then show ?thesis using Pair None 3 pg r add_page_fails[OF inv]
            by (auto simp: ls_pool_malloc_def)
        next
          case (Inr p1)
          then have p1: "pool_inv B k p1 m1"
            and pages: "\<exists>pg1 rest1. p_pages p1 = pg1 # rest1"
            using Pair add_page_inv[OF disjI1[OF inv] sz64] by auto
          then show ?thesis using Pair Inr None 3 pg r page_malloc_inv(1)[OF p1]
            by (auto simp: ls_pool_malloc_def split: option.splits)
        qed
      qed
    qed
  qed
qed


lemma pool_inv_write:
  assumes inv: "pool_inv B k p m" and a: "a \<in># owned p"
    and "blocks m a = Some old" and "off + length bs \<le> length old"
  shows "pool_inv B k p (write_bytes (a, off) bs m)"
  using assms by (auto simp: pool_inv_def intro: owns_write pool_shape_keeps keeps_write)

lemma owned_direct:
  "malloc_fnc_cleaner p sz Data_free m = (Inr (a, p'), m') \<Longrightarrow>
   a \<in># owned p' \<and> blocks m' a = Some (replicate sz None)"
  by (auto simp: malloc_fnc_cleaner_def malloc_fnc_Inr add_cleaner_Inr owned_def owned_ctx_def
      dest!: ls_data_malloc_Some split: prod.splits sum.splits)

text \<open>Where a successful request lands: a fresh directly allocated block, or the first page.\<close>

lemma ls_pool_malloc_place:
  assumes inv: "pool_inv B k p m" and r: "ls_pool_malloc p sz m = (Inr (Some (a, off)), p', m')"
  obtains (direct) "sz > p_page_size p" "off = 0" "a = next_addr m" "p_pages p' = p_pages p"
      "blocks m' a = Some (replicate sz None)" "a \<in># owned p'"
  | (page) pg rest where "0 < sz" "p_pages p = pg # rest" "a = pg_block pg" "off = pg_used pg"
      "off + sz \<le> pg_size pg" "p_pages p' = pg\<lparr>pg_used := off + sz\<rparr> # rest" "m' = m"
  | (new_page) pg where "0 < sz" "p_pages p' = pg # p_pages p" "a = pg_block pg" "off = 0"
      "pg_used pg = sz" "sz \<le> pg_size pg" "next_addr m \<le> a"
proof -
  have sz64: "p_page_size p < 2 ^ 64" using inv by (simp add: pool_inv_def pool_shape_def)
  have "sz \<noteq> 0" using r by (intro notI) (simp add: ls_pool_malloc_def)
  show thesis
  proof (cases "sz > p_page_size p")
    case True
    with r \<open>sz \<noteq> 0\<close> obtain p1 where mf: "malloc_fnc_cleaner p sz Data_free m = (Inr (a, p1), m')"
      and p': "p' = p1\<lparr>p_size := size_add (p_size p1) sz\<rparr>" and "off = 0"
      by (auto simp: ls_pool_malloc_def split: prod.splits sum.splits)
    have "a = next_addr m" "p_pages p1 = p_pages p"
      using mf by (auto simp: malloc_fnc_cleaner_def malloc_fnc_Inr add_cleaner_Inr
          dest!: ls_data_malloc_Some split: prod.splits sum.splits)
    then show thesis using direct True \<open>off = 0\<close> owned_direct[OF mf] p' by simp
  next
    case False
    then obtain pg rest where pg: "p_pages p = pg # rest"
      using inv \<open>sz \<noteq> 0\<close> by (cases "p_pages p") (auto simp: pool_inv_def pool_shape_def)
    show thesis
    proof (cases "page_malloc pg sz")
      case (Some x)
      with False pg r \<open>sz \<noteq> 0\<close> obtain pg1 where pm: "page_malloc pg sz = Some ((a, off), pg1)"
        and p': "p' = p\<lparr>p_pages := pg1 # rest\<rparr>" "m' = m"
        by (cases x) (auto simp: ls_pool_malloc_def)
      note place = page_malloc_inv[OF inv pg pm]
      then show thesis using p' pg \<open>sz \<noteq> 0\<close> by (intro page) simp_all
    next
      case None
      then obtain p1 pg1 rest1 pg2 where ap: "add_page p m = (Inr p1, m')"
        and pg1: "p_pages p1 = pg1 # rest1" and pm: "page_malloc pg1 sz = Some ((a, off), pg2)"
        and p': "p' = p1\<lparr>p_pages := pg2 # rest1\<rparr>"
        using False pg r \<open>sz \<noteq> 0\<close>
        by (auto simp: ls_pool_malloc_def split: prod.splits sum.splits list.splits option.splits)
      note p1 = add_page_inv[OF disjI1[OF inv] sz64 ap]
      note place = page_malloc_inv[OF p1(1) pg1 pm]
      have le: "next_addr m \<le> pg_block pg1"
        using ap pg1 by (auto simp: add_page_def malloc_fnc_Inr add_cleaner_Inr
            dest!: ls_data_malloc_Some split: prod.splits sum.splits)
      have new: "pg_used pg1 = 0" "rest1 = p_pages p"
        using p1(2) pg1 by auto
      have pg2: "a = pg_block pg1" "off = 0" "pg2 = pg1\<lparr>pg_used := sz\<rparr>" "sz \<le> pg_size pg1"
        using place new(1) by simp_all
      show thesis
      proof (rule new_page)
        show "0 < sz" using \<open>sz \<noteq> 0\<close> by simp
        show "p_pages p' = pg2 # p_pages p" using p' new(2) by simp
      qed (use pg2 le in simp_all)
    qed
  qed
qed


lemma ls_pool_malloc_other:
  assumes inv: "pool_inv B k p m" and r: "ls_pool_malloc p sz m = (res, p', m')"
    and no: "\<And>ptr. res \<noteq> Inr (Some ptr)"
  shows "p' = p \<and> extends m m' \<and> (res = Inr None \<longleftrightarrow> sz = 0)"
proof -
  have sz64: "p_page_size p < 2 ^ 64" using inv by (simp add: pool_inv_def pool_shape_def)
  consider "sz = 0" | "sz \<noteq> 0" "sz > p_page_size p" | "sz \<noteq> 0" "sz \<le> p_page_size p" by linarith
  then show ?thesis
  proof cases
    case 1
    then show ?thesis using r by (simp add: ls_pool_malloc_def)
  next
    case 2
    then show ?thesis using r no malloc_fnc_cleaner_fails[OF inv]
      by (auto simp: ls_pool_malloc_def split: prod.splits sum.splits)
  next
    case 3
    then obtain pg rest where pg: "p_pages p = pg # rest"
      using inv by (cases "p_pages p") (auto simp: pool_inv_def pool_shape_def)
    have none: "page_malloc pg sz = None"
      using 3 pg r no by (auto simp: ls_pool_malloc_def split: option.splits prod.splits)
    obtain r1 m1 where ap: "add_page p m = (r1, m1)" by fastforce
    show ?thesis
    proof (cases r1)
      case (Inl e)
      then show ?thesis using ap none 3 pg r add_page_fails[OF inv]
        by (auto simp: ls_pool_malloc_def)
    next
      case (Inr p1)
      then obtain a b where "p_pages p1 =
          \<lparr>pg_self = a, pg_block = b, pg_size = p_page_size p, pg_used = 0\<rparr> # p_pages p"
        using add_page_inv(2)[OF disjI1[OF inv] sz64] ap by blast
      then show ?thesis using ap Inr none 3 pg r no sz64
        by (auto simp: ls_pool_malloc_def page_malloc_def size_sub_exact)
    qed
  qed
qed

lemma ls_pool_malloc_mono:
  assumes inv: "pool_inv B k p m" and r: "ls_pool_malloc p sz m = (res, p', m')"
  shows "set_mset (owned p) \<subseteq> set_mset (owned p') \<and> extends m m'"
proof (cases "\<exists>ptr. res = Inr (Some ptr)")
  case False
  then show ?thesis using ls_pool_malloc_other[OF inv r] by auto
next
  case True
  have sz64: "p_page_size p < 2 ^ 64" using inv by (simp add: pool_inv_def pool_shape_def)
  have wf: "mem_wf m" using inv by (auto simp: pool_inv_def intro: owns_wf)
  have sz: "sz \<noteq> 0" using True r by (intro notI) (auto simp: ls_pool_malloc_def)
  show ?thesis
  proof (cases "sz > p_page_size p")
    case True
    with r sz \<open>\<exists>ptr. res = Inr (Some ptr)\<close> obtain a p1
      where mf: "malloc_fnc_cleaner p sz Data_free m = (Inr (a, p1), m')"
      and p': "p' = p1\<lparr>p_size := size_add (p_size p1) sz\<rparr>"
      by (auto simp: ls_pool_malloc_def split: prod.splits sum.splits)
    then obtain m1 self t where m1: "ls_data_malloc sz m = (Some a, m1)"
      "ls_data_malloc sizeof_cleaner_ctx m1 = (Some self, m')"
      and p1: "p1 = p\<lparr>p_tail := t,
        p_cleaners := \<lparr>cc_self = self, cc_cleaner = Data_free, cc_arg = a\<rparr> # p_cleaners p\<rparr>"
      by (auto simp: malloc_fnc_cleaner_def malloc_fnc_Inr add_cleaner_Inr split: prod.splits sum.splits)
    have sub: "set_mset (owned p) \<subseteq> set_mset (owned p1)"
      unfolding p1 owned_add_cleaner by auto
    have "mem_wf m1" using mem_wf_malloc[OF wf, of sz] m1(1) by simp
    then show ?thesis using m1 p' wf sub by (auto intro: extends_trans extends_malloc)
  next
    case False
    then obtain pg rest where pg: "p_pages p = pg # rest"
      using inv sz by (cases "p_pages p") (auto simp: pool_inv_def pool_shape_def)
    show ?thesis
    proof (cases "page_malloc pg sz")
      case (Some x)
      then obtain ret pg1 where pm: "page_malloc pg sz = Some (ret, pg1)" by (cases x) auto
      have "p' = p\<lparr>p_pages := pg1 # rest\<rparr>" "m' = m"
        using pm False pg r sz by (auto simp: ls_pool_malloc_def)
      then show ?thesis using page_malloc_owned[OF inv pg pm] by simp
    next
      case None
      with False pg r sz True obtain p1 pg1 rest1 ret pg2 where ap: "add_page p m = (Inr p1, m')"
        and pg1: "p_pages p1 = pg1 # rest1" and pm: "page_malloc pg1 sz = Some (ret, pg2)"
        and p': "p' = p1\<lparr>p_pages := pg2 # rest1\<rparr>"
        by (auto simp: ls_pool_malloc_def split: prod.splits sum.splits list.splits option.splits)
      note p1 = add_page_inv[OF disjI1[OF inv] sz64 ap]
      show ?thesis using p1(3,4) page_malloc_owned[OF p1(1) pg1 pm] p' by simp
    qed
  qed
qed


section \<open>Runs of requests on a pool\<close>

text \<open>What a client does with a pool between its creation and its destruction.\<close>

datatype 's pool_op =
    Pool_malloc nat
  | Pool_calloc nat nat
  | Pool_strdup "u8 list option"
  | Pool_cleaner "nat \<Rightarrow> 's \<Rightarrow> 's" nat

text \<open>A range that was handed out: where it starts and how long it is.\<close>

type_synonym grant = "byte_ptr \<times> nat"

fun grants :: "errcode + byte_ptr option \<Rightarrow> nat \<Rightarrow> grant list" where
  "grants (Inr (Some ptr)) n = [(ptr, n)]"
| "grants _ n = []"

fun pool_step ::
  "('z mem_scheme) pool_op \<Rightarrow> ('z mem_scheme) pool \<times> 'z mem_scheme \<Rightarrow>
   grant list \<times> ('z mem_scheme) pool \<times> 'z mem_scheme" where
  "pool_step (Pool_malloc n) (p, m) =
     (case ls_pool_malloc p n m of (r, p1, m1) \<Rightarrow> (grants r n, p1, m1))"
| "pool_step (Pool_calloc k n) (p, m) =
     (case ls_pool_calloc p k n m of (r, p1, m1) \<Rightarrow> (grants r (size_mult k n), p1, m1))"
| "pool_step (Pool_strdup s) (p, m) =
     (case ls_pool_strdup p s m of
        (r, p1, m1) \<Rightarrow> (grants r (case s of None \<Rightarrow> 0 | Some bs \<Rightarrow> length bs + 1), p1, m1))"
| "pool_step (Pool_cleaner f arg) (p, m) =
     (case ls_pool_add_cleaner p (User_cleaner f) arg m of
        (Inl e, m1) \<Rightarrow> ([], p, m1)
      | (Inr p1, m1) \<Rightarrow> ([], p1, m1))"

fun pool_run ::
  "('z mem_scheme) pool_op list \<Rightarrow> ('z mem_scheme) pool \<times> 'z mem_scheme \<Rightarrow>
   grant list \<times> ('z mem_scheme) pool \<times> 'z mem_scheme" where
  "pool_run [] pm = ([], pm)"
| "pool_run (opn # ops) pm =
     (case pool_step opn pm of
        (gs, pm1) \<Rightarrow> (case pool_run ops pm1 of (hs, pm2) \<Rightarrow> (gs @ hs, pm2)))"

fun op_ok :: "('z mem_scheme) pool_op \<Rightarrow> bool" where
  "op_ok (Pool_strdup (Some s)) = (length s + 1 < 2 ^ 64)"
| "op_ok (Pool_cleaner f arg) = neutral f"
| "op_ok _ = True"

fun granted :: "('z mem_scheme) pool \<Rightarrow> 'z mem_scheme \<Rightarrow> grant \<Rightarrow> bool" where
  "granted p m ((a, off), n) \<longleftrightarrow>
     a \<in># owned p \<and> (\<exists>bs. blocks m a = Some bs \<and> off + n \<le> length bs) \<and>
     (\<forall>pg \<in> set (p_pages p). pg_block pg = a \<longrightarrow> off + n \<le> pg_used pg)"

fun apart :: "grant \<Rightarrow> grant \<Rightarrow> bool" where
  "apart ((a, off), n) ((a', off'), n') \<longleftrightarrow> a \<noteq> a' \<or> off + n \<le> off' \<or> off' + n' \<le> off"

definition grant_bytes :: "'z mem_scheme \<Rightarrow> grant \<Rightarrow> u8 option list option" where
  "grant_bytes m g = read_bytes (fst g) (snd g) m"

lemma apart_sym: "apart g h = apart h g"
  by (cases g rule: prod.exhaust; cases h rule: prod.exhaust) auto

lemma pool_inv_less: "pool_inv B k p m \<Longrightarrow> a \<in># owned p \<Longrightarrow> a < next_addr m"
  by (auto simp: pool_inv_def intro: mem_wf_live_less dest: owns_live owns_wf)

lemma grant_bytes_extends:
  "granted p m g \<Longrightarrow> extends m m' \<Longrightarrow> grant_bytes m' g = grant_bytes m g"
  by (cases g rule: prod.exhaust)
    (auto simp: grant_bytes_def read_bytes_def extends_def map_le_def dom_def split: option.splits)

lemma ls_pool_malloc_grants:
  assumes inv: "pool_inv B k p m" and r: "ls_pool_malloc p sz m = (Inr (Some ptr), p', m')"
  shows "granted p' m' (ptr, sz)"
    and "granted p m g \<Longrightarrow> granted p' m' g \<and> apart g (ptr, sz)"
proof -
  obtain a off where ptr: "ptr = (a, off)" by fastforce
  note r = r[unfolded ptr]
  have inv': "pool_inv B k p' m'" by (rule ls_pool_malloc_inv[OF inv r])
  have sub: "set_mset (owned p) \<subseteq> set_mset (owned p')" and ext: "extends m m'"
    using ls_pool_malloc_mono[OF inv r] by auto
  have pages: "pg_block pg \<in># owned p" if "pg \<in> set (p_pages p)" for pg
    using that inv by (auto simp: pool_inv_def pool_shape_def page_ok_def)
  have dist: "distinct (map pg_block (p_pages p))"
    using inv by (simp add: pool_inv_def pool_shape_def)
  note less = pool_inv_less[OF inv]
  have old: "\<exists>bs. blocks m' a' = Some bs \<and> off' + n' \<le> length bs"
    if "granted p m ((a', off'), n')" for a' off' n'
    using that ext by (auto simp: extends_def map_le_def dom_def)
  obtain a' off' n' where g: "g = ((a', off'), n')" by (metis surj_pair)
  show "granted p' m' (ptr, sz)"
    using inv r
  proof (cases rule: ls_pool_malloc_place)
    case direct
    then show ?thesis using less pages by (fastforce simp: ptr)
  next
    case (page pg rest)
    then have "page_ok p m pg" using inv by (simp add: pool_inv_def pool_shape_def)
    then show ?thesis using page sub dist by (auto simp: ptr page_ok_def) (metis image_eqI)
  next
    case (new_page pg)
    then have "page_ok p' m' pg" using inv' by (simp add: pool_inv_def pool_shape_def)
    then show ?thesis using new_page less pages by (fastforce simp: ptr page_ok_def)
  qed
  assume gr: "granted p m g"
  show "granted p' m' g \<and> apart g (ptr, sz)"
    using inv r
  proof (cases rule: ls_pool_malloc_place)
    case direct
    then show ?thesis using gr sub old less by (fastforce simp: ptr g)
  next
    case (page pg rest)
    then show ?thesis using gr sub old by (fastforce simp: ptr g)
  next
    case (new_page pg)
    then show ?thesis using gr sub old less by (fastforce simp: ptr g)
  qed
qed

lemma granted_write:
  assumes "granted p m (ptr, n)" and "length bs \<le> n" and "granted p m g"
  shows "granted p (write_bytes ptr bs m) g"
    and "apart g (ptr, n) \<Longrightarrow> grant_bytes (write_bytes ptr bs m) g = grant_bytes m g"
proof -
  obtain a off where ptr: "ptr = (a, off)" by fastforce
  obtain a' off' n' where g: "g = ((a', off'), n')" by (metis surj_pair)
  obtain old where old: "blocks m a = Some old" "off + n \<le> length old"
    using assms(1) by (auto simp: ptr)
  with assms(2,3) show "granted p (write_bytes ptr bs m) g"
    by (auto simp: g ptr write_bytes_fits)
  show "grant_bytes (write_bytes ptr bs m) g = grant_bytes m g" if "apart g (ptr, n)"
    using that assms(2) by (auto simp: g ptr grant_bytes_def intro!: read_write_disjoint)
qed

text \<open>A request, together with the bytes the caller's wrapper writes into what it got.\<close>

lemma pool_request:
  assumes inv: "pool_inv B k p m" and r: "ls_pool_malloc p sz m = (res, p', m')"
    and w: "m'' = m' \<or> (\<exists>ptr. res = Inr (Some ptr) \<and> m'' = write_bytes ptr bs m')"
    and len: "length bs \<le> sz"
  shows "pool_inv B k p' m''" and "\<forall>g \<in> set (grants res sz). granted p' m'' g"
    and "granted p m g \<Longrightarrow> granted p' m'' g \<and> (\<forall>h \<in> set (grants res sz). apart g h) \<and>
           grant_bytes m'' g = grant_bytes m g"
proof -
  have inv': "pool_inv B k p' m'" and ext: "extends m m'"
    using ls_pool_malloc_inv[OF inv r] ls_pool_malloc_mono[OF inv r] by auto
  consider (got) ptr where "res = Inr (Some ptr)"
    | (none) "p' = p" "m'' = m'" "grants res sz = []"
    using ls_pool_malloc_other[OF inv r] w by (cases "(res, sz)" rule: grants.cases) auto
  then have "pool_inv B k p' m'' \<and> (\<forall>g \<in> set (grants res sz). granted p' m'' g) \<and>
      (granted p m g \<longrightarrow> granted p' m'' g \<and> (\<forall>h \<in> set (grants res sz). apart g h) \<and>
           grant_bytes m'' g = grant_bytes m g)"
  proof cases
    case got
    then have r: "ls_pool_malloc p sz m = (Inr (Some ptr), p', m')" using r by simp
    note new = ls_pool_malloc_grants(1)[OF inv r]
    have old: "granted p' m' g \<and> apart g (ptr, sz) \<and> grant_bytes m' g = grant_bytes m g"
      if "granted p m g"
      using ls_pool_malloc_grants(2)[OF inv r that] grant_bytes_extends[OF that ext] by simp
    show ?thesis
    proof (cases "m'' = m'")
      case True
      then show ?thesis using inv' new old got by auto
    next
      case False
      then have m'': "m'' = write_bytes ptr bs m'" using w got by auto
      have "pool_inv B k p' m''"
        using new len inv' unfolding m'' by (cases ptr) (auto intro: pool_inv_write)
      then show ?thesis using m'' got old granted_write[OF new len] new by auto
    qed
  next
    case none
    have "granted p m' g" if "granted p m g" for g
      using that ext by (cases g rule: prod.exhaust)
        (auto simp: extends_def map_le_def dom_def)
    then show ?thesis using none inv' grant_bytes_extends[OF _ ext] by auto
  qed
  then show "pool_inv B k p' m''" "\<forall>g \<in> set (grants res sz). granted p' m'' g"
    "granted p m g \<Longrightarrow> granted p' m'' g \<and> (\<forall>h \<in> set (grants res sz). apart g h) \<and>
           grant_bytes m'' g = grant_bytes m g" by auto
qed

lemma add_cleaner_inv:
  assumes inv: "pool_inv B k p m" and f: "neutral f"
    and r: "ls_pool_add_cleaner p (User_cleaner f) arg m = (Inr p', m')"
  shows "pool_inv B k p' m'" and "extends m m'" and "owned p \<subseteq># owned p'"
    and "p_pages p' = p_pages p"
proof -
  have wf: "mem_wf m" using inv by (auto simp: pool_inv_def intro: owns_wf)
  obtain self t where self: "ls_data_malloc sizeof_cleaner_ctx m = (Some self, m')"
    and p': "p' = p\<lparr>p_tail := t,
        p_cleaners := \<lparr>cc_self = self, cc_cleaner = User_cleaner f, cc_arg = arg\<rparr> # p_cleaners p\<rparr>"
    using r by (auto simp: add_cleaner_Inr)
  show ext: "extends m m'" using self wf by (rule extends_malloc[rotated])
  have ow: "owned p' = add_mset self (owned p)"
    unfolding p' owned_add_cleaner by (simp add: owned_ctx_def)
  then show "owned p \<subseteq># owned p'" by simp
  have sh: "pool_shape p m'" using inv ext by (auto simp: pool_inv_def intro: pool_shape_extends)
  have "owns B k (owned p') m'"
    using inv self unfolding ow by (auto simp: pool_inv_def intro: owns_malloc)
  moreover have "pool_shape p' m'"
    using sh f ow by (simp add: pool_shape_def page_ok_def p') metis
  ultimately show "pool_inv B k p' m'" by (simp add: pool_inv_def)
  show "p_pages p' = p_pages p" by (simp add: p')
qed

lemma ls_pool_strdup_Some:
  "size_add (length s) 1 = n \<Longrightarrow> ls_pool_malloc p n m = (res, p1, m1) \<Longrightarrow>
   ls_pool_strdup p (Some s) m =
     (res, p1, case res of Inl e \<Rightarrow> m1
               | Inr None \<Rightarrow> fault m1
               | Inr (Some ptr) \<Rightarrow> write_bytes ptr (s @ [0]) m1)"
  by (simp add: ls_pool_strdup_def split: sum.split option.split)

lemma pool_step_ok:
  assumes inv: "pool_inv B k p m" and ok: "op_ok opn" and r: "pool_step opn (p, m) = (gs, p', m')"
  shows "pool_inv B k p' m' \<and> (\<forall>g \<in> set gs. granted p' m' g) \<and> length gs \<le> 1 \<and>
    (\<forall>g. granted p m g \<longrightarrow> granted p' m' g \<and> (\<forall>h \<in> set gs. apart g h) \<and>
           grant_bytes m' g = grant_bytes m g)"
proof -
  have grants1: "length (grants res n) \<le> 1" for res n
    by (cases "(res, n)" rule: grants.cases) auto
  show ?thesis
  proof (cases opn)
    case (Pool_malloc n)
    then obtain res where m: "ls_pool_malloc p n m = (res, p', m')" and gs: "gs = grants res n"
      using r by (auto split: prod.splits)
    show ?thesis using pool_request[OF inv m, of m' "[]"] grants1 gs by auto
  next
    case (Pool_calloc c n)
    let ?n = "size_mult c n"
    obtain res m1 where m: "ls_pool_malloc p ?n m = (res, p', m1)" and gs: "gs = grants res ?n"
      and m': "m' = m1 \<or> (\<exists>ptr. res = Inr (Some ptr) \<and> m' = write_bytes ptr (replicate ?n 0) m1)"
      using r Pool_calloc ls_pool_malloc_other[OF inv]
      by (fastforce simp: ls_pool_calloc_def Let_def split: prod.splits sum.splits option.splits if_splits)
    show ?thesis using pool_request[OF inv m m'] grants1 gs by auto
  next
    case (Pool_strdup src)
    show ?thesis
    proof (cases src)
      case None
      then show ?thesis using r Pool_strdup inv by (auto simp: ls_pool_strdup_def)
    next
      case (Some s)
      let ?n = "length s + 1"
      have n: "size_add (length s) 1 = ?n" using ok Pool_strdup Some by (simp add: size_add_exact)
      obtain res p1 m1 where m: "ls_pool_malloc p ?n m = (res, p1, m1)" by (metis surj_pair)
      have "res \<noteq> Inr None" using ls_pool_malloc_other[OF inv m] by auto
      then have "p1 = p' \<and> gs = grants res ?n \<and>
          (m' = m1 \<or> (\<exists>ptr. res = Inr (Some ptr) \<and> m' = write_bytes ptr (s @ [0]) m1))"
        using r unfolding Pool_strdup Some pool_step.simps ls_pool_strdup_Some[OF n m] option.case
        by (auto split: sum.splits option.splits)
      then show ?thesis using pool_request[OF inv m, of m' "s @ [0]"] grants1 by auto
    qed
  next
    case (Pool_cleaner f arg)
    then have f: "neutral f" using ok by simp
    show ?thesis
    proof (cases "ls_pool_add_cleaner p (User_cleaner f) arg m")
      case (Pair res m1)
      show ?thesis
      proof (cases res)
        case (Inl e)
        then show ?thesis using Pair r Pool_cleaner inv
          by (auto simp: ls_pool_add_cleaner_def malloc_fnc_def grant_bytes_def read_bytes_def pool_inv_def
              pool_shape_def page_ok_def dest!: ls_data_malloc_None split: prod.splits sum.splits option.splits)
      next
        case (Inr p1)
        with Pair r Pool_cleaner have a: "ls_pool_add_cleaner p (User_cleaner f) arg m = (Inr p', m')"
          and gs: "gs = []" by auto
        note new = add_cleaner_inv[OF inv f a]
        have "granted p' m' g" if "granted p m g" for g
          using that new(2,4) mset_subset_eqD[OF new(3)] by (cases g rule: prod.exhaust)
            (auto simp: extends_def map_le_def dom_def)
        then show ?thesis using new(1) gs grant_bytes_extends[OF _ new(2)] by auto
      qed
    qed
  qed
qed

lemma pool_run_ok:
  assumes "pool_inv B k p m" and "\<forall>opn \<in> set ops. op_ok opn"
    and "pool_run ops (p, m) = (gs, p', m')"
  shows "pool_inv B k p' m' \<and> (\<forall>g \<in> set gs. granted p' m' g) \<and>
    sorted_wrt apart gs \<and> (\<forall>g. granted p m g \<longrightarrow> granted p' m' g \<and> (\<forall>h \<in> set gs. apart g h) \<and>
           grant_bytes m' g = grant_bytes m g)"
  using assms
proof (induction ops arbitrary: p m gs)
  case (Cons opn ops)
  obtain gs1 p1 m1 where s: "pool_step opn (p, m) = (gs1, p1, m1)" by (metis surj_pair)
  obtain gs2 where q: "pool_run ops (p1, m1) = (gs2, p', m')" and gs: "gs = gs1 @ gs2"
    using Cons.prems(3) s by (auto split: prod.splits)
  have ok: "op_ok opn" "\<forall>opn \<in> set ops. op_ok opn" using Cons.prems(2) by auto
  note step = pool_step_ok[OF Cons.prems(1) ok(1) s]
  have inv1: "pool_inv B k p1 m1" using step by blast
  note IH = Cons.IH[OF inv1 ok(2) q]
  have "sorted_wrt apart gs1" using step by (cases gs1) auto
  then have "sorted_wrt apart gs"
    unfolding gs sorted_wrt_append using IH step by blast
  moreover have "granted p' m' g" if "g \<in> set gs" for g
    using that IH step unfolding gs by (metis Un_iff set_append)
  moreover have "granted p' m' g \<and> (\<forall>h \<in> set gs. apart g h) \<and> grant_bytes m' g = grant_bytes m g"
    if "granted p m g" for g
    using that IH step unfolding gs by (metis Un_iff set_append)
  ultimately show ?case using IH by blast
qed auto

lemma ls_pool_create_ok:
  assumes wf: "mem_wf (m :: 'z mem_scheme)" and sz: "sz < 2 ^ 64"
  shows "ls_pool_create sz m = (Inr p, m') \<Longrightarrow> pool_inv (blocks m) (faults m) p m'"
    and "ls_pool_create sz m = (Inl e, m') \<Longrightarrow>
      e = LS_ERR_NO_MEMORY \<and> blocks m' = blocks m \<and> faults m' = faults m \<and> mem_wf m'"
proof -
  let ?p = "\<lambda>self s. \<lparr>p_self = self, p_size = 0, p_page_size = s, p_cleaners = [],
                      p_tail = None, p_pages = []\<rparr> :: ('z mem_scheme) pool"
  have start: "owns (blocks m) (faults m) (owned (?p self s)) m1"
    if "ls_data_malloc sizeof_pool m = (Some self, m1)" for self s m1
    using owns_malloc[OF owns_start[OF wf] that] by (simp add: owned_def)
  {
    assume "ls_pool_create sz m = (Inr p, m')"
    then obtain self m1 s where m1: "ls_data_malloc sizeof_pool m = (Some self, m1)"
      and s: "s = (if paging_enabled m1 then sz else 0)"
      and c: "s \<noteq> 0 \<and> add_page (?p self s) m1 = (Inr p, m') \<or> s = 0 \<and> p = ?p self s \<and> m' = m1"
      by (auto simp: ls_pool_create_def malloc_fnc_Inr Let_def split: prod.splits sum.splits if_splits)
    have "s < 2 ^ 64" using s sz by simp
    then show "pool_inv (blocks m) (faults m) p m'"
      using c start[OF m1, of s] add_page_inv(1)[of _ _ "?p self s" m1 p m']
      by (auto simp: pool_inv_def pool_shape_def)
  }
  {
    assume "ls_pool_create sz m = (Inl e, m')"
    then consider (a) "malloc_fnc sizeof_pool m = (Inl e, m')"
      | (b) self m1 m2 s where "ls_data_malloc sizeof_pool m = (Some self, m1)"
        "add_page (?p self s) m1 = (Inl e, m2)" "m' = ls_data_free (Some self) m2"
      by (auto simp: ls_pool_create_def malloc_fnc_Inr Let_def split: prod.splits sum.splits if_splits)
    then show "e = LS_ERR_NO_MEMORY \<and> blocks m' = blocks m \<and> faults m' = faults m \<and> mem_wf m'"
    proof cases
      case a
      then show ?thesis using wf by (auto simp: malloc_fnc_Inl dest!: ls_data_malloc_None)
    next
      case b
      have o: "owns (blocks m) (faults m) (add_mset self {#}) m1"
        using start[OF b(1)] by (simp add: owned_def)
      have "e = LS_ERR_NO_MEMORY \<and> owns (blocks m) (faults m) (add_mset self {#}) m2"
        using add_page_fails_owns[OF o b(2)] by simp
      then have "e = LS_ERR_NO_MEMORY \<and> owns (blocks m) (faults m) {#} m'"
        unfolding b(3) by (auto intro: owns_free)
      then show ?thesis using owns_empty owns_wf by blast
    qed
  }
qed

section \<open>The properties of a pool\<close>

text \<open>C5: Creating a pool, making any requests of it and destroying it neither leaks nor frees
  anything twice: afterwards the heap has exactly the blocks it had before, with their contents,
  and no fault was made.  This holds for every page size, with paging enabled or not, and for
  every pattern of allocation failures, including a creation that fails half way.\<close>

theorem pool_lifecycle:
  assumes "mem_wf m" and "sz < 2 ^ 64" and "\<forall>opn \<in> set ops. op_ok opn"
  shows "case ls_pool_create sz m of
           (Inl e, m1) \<Rightarrow> e = LS_ERR_NO_MEMORY \<and> blocks m1 = blocks m \<and> faults m1 = faults m
         | (Inr p, m1) \<Rightarrow>
             (case pool_run ops (p, m1) of
                (gs, p2, m2) \<Rightarrow> blocks (ls_pool_destroy p2 m2) = blocks m \<and>
                              faults (ls_pool_destroy p2 m2) = faults m)"
proof (cases "ls_pool_create sz m")
  case (Pair r m1)
  show ?thesis
  proof (cases r)
    case (Inl e)
    then show ?thesis using ls_pool_create_ok(2)[OF assms(1,2)] Pair by auto
  next
    case (Inr p)
    obtain gs p2 m2 where run: "pool_run ops (p, m1) = (gs, p2, m2)" by (metis surj_pair)
    have "pool_inv (blocks m) (faults m) p m1"
      using ls_pool_create_ok(1)[OF assms(1,2)] Pair Inr by simp
    then have "pool_inv (blocks m) (faults m) p2 m2"
      using pool_run_ok[OF _ assms(3) run] by blast
    then show ?thesis using Pair Inr run owns_empty[OF pool_destroy_owns] by auto
  qed
qed

lemma pool_lifecycle_witness:
  "case ls_pool_create 16 init_mem of
     (Inl e, m1) \<Rightarrow> e = LS_ERR_NO_MEMORY \<and> blocks m1 = blocks init_mem \<and> faults m1 = faults init_mem
   | (Inr p, m1) \<Rightarrow>
       (case pool_run [Pool_malloc 3, Pool_calloc 20 2, Pool_strdup (Some [1, 2]),
                       Pool_cleaner (\<lambda>a s. s) 5] (p, m1) of
          (gs, p2, m2) \<Rightarrow> blocks (ls_pool_destroy p2 m2) = blocks init_mem \<and>
                        faults (ls_pool_destroy p2 m2) = faults init_mem)"
  by (rule pool_lifecycle) (simp_all add: neutral_def)

text \<open>C24: Requests never overlap and never lose what was put in them: over any run of requests on
  a new pool, continued by any further run, every range handed out lies inside a live block, no two
  ranges share a byte, and the later run leaves each byte of the ranges of the earlier one as it
  was.\<close>

theorem pool_grants_disjoint:
  assumes "mem_wf m" and "sz < 2 ^ 64" and "\<forall>opn \<in> set (ops @ ops'). op_ok opn"
    and "ls_pool_create sz m = (Inr p, m0)"
    and "pool_run ops (p, m0) = (gs, p1, m1)" and "pool_run ops' (p1, m1) = (gs', p2, m2)"
  shows "sorted_wrt apart (gs @ gs') \<and>
         (\<forall>((a, off), n) \<in> set (gs @ gs'). \<exists>bs. blocks m2 a = Some bs \<and> off + n \<le> length bs) \<and>
         (\<forall>g \<in> set gs. grant_bytes m2 g = grant_bytes m1 g)"
proof -
  have inv: "pool_inv (blocks m) (faults m) p m0" by (rule ls_pool_create_ok(1)[OF assms(1,2,4)])
  note r1 = pool_run_ok[OF inv _ assms(5)]
  have ok: "\<forall>opn \<in> set ops. op_ok opn" "\<forall>opn \<in> set ops'. op_ok opn" using assms(3) by auto
  have inv1: "pool_inv (blocks m) (faults m) p1 m1" using r1[OF ok(1)] by blast
  note r2 = pool_run_ok[OF inv1 ok(2) assms(6)]
  have "granted p2 m2 g" if "g \<in> set (gs @ gs')" for g
    using that r1[OF ok(1)] r2 by (metis Un_iff set_append)
  then have "\<forall>((a, off), n) \<in> set (gs @ gs'). \<exists>bs. blocks m2 a = Some bs \<and> off + n \<le> length bs"
    by fastforce
  moreover have "sorted_wrt apart (gs @ gs')"
    using r1[OF ok(1)] r2 unfolding sorted_wrt_append by blast
  moreover have "\<forall>g \<in> set gs. grant_bytes m2 g = grant_bytes m1 g"
    using r1[OF ok(1)] r2 by blast
  ultimately show ?thesis by blast
qed

lemma pool_grants_disjoint_witness:
  "\<exists>gs gs' p m0 p1 m1 p2 m2.
     ls_pool_create 8 init_mem = (Inr p, m0) \<and> length gs = 2 \<and> length gs' = 1 \<and>
     pool_run [Pool_malloc 3, Pool_strdup (Some [7])] (p, m0) = (gs, p1, m1) \<and>
     pool_run [Pool_calloc 1 2] (p1, m1) = (gs', p2, m2) \<and>
     (\<forall>g \<in> set gs. grant_bytes m2 g = grant_bytes m1 g)"
proof -
  let ?c = "ls_pool_create 8 init_mem"
  obtain p m0 where c: "?c = (Inr p, m0)"
    by (simp add: ls_pool_create_def malloc_fnc_def ls_data_malloc_def init_mem_def libc_malloc_def
        add_page_def ls_pool_add_cleaner_def Let_def)
  note defs = ls_pool_create_def malloc_fnc_def ls_data_malloc_def init_mem_def libc_malloc_def
        add_page_def ls_pool_add_cleaner_def Let_def
  obtain gs p1 m1 where r1: "pool_run [Pool_malloc 3, Pool_strdup (Some [7])] (p, m0) = (gs, p1, m1)"
    by (metis surj_pair)
  obtain gs' p2 m2 where r2: "pool_run [Pool_calloc 1 2] (p1, m1) = (gs', p2, m2)"
    by (metis surj_pair)
  note run_defs = ls_pool_malloc_def ls_pool_strdup_def ls_pool_calloc_def page_malloc_def
    size_sub_def size_add_def size_mult_def write_bytes_def
  have p: "p_pages p = [\<lparr>pg_self = 1, pg_block = 2, pg_size = 8, pg_used = 0\<rparr>]" "p_page_size p = 8"
    using c by (auto simp: defs)
  have m0: "malloc_func m0 = libc_malloc" using c by (auto simp: defs)
  have "length gs = 2" and "p_pages p1 = [\<lparr>pg_self = 1, pg_block = 2, pg_size = 8, pg_used = 5\<rparr>]"
    "p_page_size p1 = 8"
    using r1 p by (auto simp: run_defs)
  moreover from this have "length gs' = 1"
    using r2 m0 r1 p by (auto simp: run_defs defs)
  moreover have "\<forall>g \<in> set gs. grant_bytes m2 g = grant_bytes m1 g"
    using pool_grants_disjoint[OF _ _ _ c r1 r2] by simp
  ultimately show ?thesis using c r1 r2 by blast
qed


text \<open>C31: A string copied into a pool is the string: \<open>ls_pool_strdup\<close> returns a pointer to the
  bytes of its argument followed by the terminator, and they are still there after any further
  requests.\<close>

theorem pool_strdup_contents:
  assumes "mem_wf m" and "sz < 2 ^ 64" and "\<forall>opn \<in> set (ops @ ops'). op_ok opn"
    and "length s + 1 < 2 ^ 64"
    and "ls_pool_create sz m = (Inr p, m0)" and "pool_run ops (p, m0) = (gs, p1, m1)"
    and "ls_pool_strdup p1 (Some s) m1 = (Inr (Some ptr), p2, m2)"
    and "pool_run ops' (p2, m2) = (gs', p3, m3)"
  shows "read_bytes ptr (length s + 1) m3 = Some (map Some (s @ [0]))"
proof -
  have inv: "pool_inv (blocks m) (faults m) p m0" by (rule ls_pool_create_ok(1)[OF assms(1,2,5)])
  have ok: "\<forall>opn \<in> set ops. op_ok opn" "\<forall>opn \<in> set ops'. op_ok opn" using assms(3) by auto
  have inv1: "pool_inv (blocks m) (faults m) p1 m1" using pool_run_ok[OF inv ok(1) assms(6)] by blast
  let ?n = "length s + 1" and ?g = "(ptr, length s + 1)"
  have n: "size_add (length s) 1 = ?n" using assms(4) by (simp add: size_add_exact)
  obtain r q mm where q: "ls_pool_malloc p1 ?n m1 = (r, q, mm)" by (metis surj_pair)
  have q': "ls_pool_malloc p1 ?n m1 = (Inr (Some ptr), p2, mm)" "m2 = write_bytes ptr (s @ [0]) mm"
    using assms(7) q ls_pool_strdup_Some[OF n q] by (auto split: sum.splits option.splits)
  have step: "pool_step (Pool_strdup (Some s)) (p1, m1) = ([?g], p2, m2)"
    using assms(7) by simp
  have sok: "op_ok (Pool_strdup (Some s))" using assms(4) by simp
  note inv2 = pool_step_ok[OF inv1 sok step]
  have inv2': "pool_inv (blocks m) (faults m) p2 m2" "granted p2 m2 ?g" using inv2 by auto
  have "grant_bytes m2 ?g = Some (map Some (s @ [0]))"
    using ls_pool_malloc_grants(1)[OF inv1 q'(1)] read_write_same[of mm "fst ptr" _ "snd ptr" "s @ [0]"]
    unfolding q'(2) grant_bytes_def by (cases ptr) auto
  then show ?thesis
    using pool_run_ok[OF inv2'(1) ok(2) assms(8)] inv2'(2) by (fastforce simp: grant_bytes_def)
qed

lemma pool_strdup_contents_witness:
  "\<exists>p m0 p2 m2 p3 m3 gs.
     ls_pool_create 0 init_mem = (Inr p, m0) \<and>
     ls_pool_strdup p (Some [104, 105]) m0 = (Inr (Some (1, 0)), p2, m2) \<and>
     pool_run [Pool_malloc 9] (p2, m2) = (gs, p3, m3) \<and>
     read_bytes (1, 0) 3 m3 = Some [Some 104, Some 105, Some 0]"
proof -
  note defs = ls_pool_create_def malloc_fnc_def ls_data_malloc_def init_mem_def libc_malloc_def
        ls_pool_add_cleaner_def malloc_fnc_cleaner_def ls_pool_malloc_def ls_pool_strdup_def size_add_def
  obtain p m0 where c: "ls_pool_create 0 init_mem = (Inr p, m0)"
    by (simp add: defs Let_def)
  obtain p2 m2 where s: "ls_pool_strdup p (Some [104, 105]) m0 = (Inr (Some (1, 0)), p2, m2)"
    using c by (fastforce simp: defs Let_def)
  obtain gs p3 m3 where r: "pool_run [Pool_malloc 9] (p2, m2) = (gs, p3, m3)" by (metis surj_pair)
  have e: "pool_run [] (p, m0) = ([], p, m0)" by simp
  have "read_bytes (1, 0) (length [104, 105 :: u8] + 1) m3 = Some (map Some ([104, 105] @ [0]))"
    by (rule pool_strdup_contents[OF _ _ _ _ c e s r]) simp_all
  then show ?thesis using c s r by (auto simp: numeral_3_eq_3)
qed

text \<open>The order in which cleaners run, observed with cleaners that log their argument.\<close>

record traced_mem = mem +
  trace :: "nat list"

definition log_arg :: "nat \<Rightarrow> traced_mem \<Rightarrow> traced_mem" where
  "log_arg a s = s\<lparr>trace := trace s @ [a]\<rparr>"

definition user_args :: "'s cleaner_ctx list \<Rightarrow> nat list" where
  "user_args cs = map cc_arg (filter (\<lambda>c. \<exists>f. cc_cleaner c = User_cleaner f) cs)"

lemma neutral_log_arg: "neutral log_arg"
  by (simp add: neutral_def log_arg_def)

lemma trace_free [simp]: "trace (ls_data_free a m) = trace m"
  by (auto simp: ls_data_free_def fault_def split: option.split)

lemma user_args_simps [simp]:
  "user_args [] = []"
  "user_args (c # cs) =
     (case cc_cleaner c of User_cleaner f \<Rightarrow> cc_arg c # user_args cs | _ \<Rightarrow> user_args cs)"
  by (auto simp: user_args_def split: cleaner.split)

lemma destroy_cleaners_trace:
  "\<forall>c \<in> set cs. \<forall>f. cc_cleaner c = User_cleaner f \<longrightarrow> f = log_arg \<Longrightarrow>
   trace (destroy_cleaners pages cs m) = trace m @ user_args cs"
  by (induction cs arbitrary: m)
    (auto simp: run_cleaner_def free_page_def log_arg_def fault_def split: cleaner.splits option.splits)

text \<open>Two elements are in the log in the reverse of the order of their registration.\<close>

definition registers :: "(traced_mem pool) \<Rightarrow> (traced_mem pool) \<Rightarrow> nat list \<Rightarrow> bool" where
  "registers p p' as \<longleftrightarrow>
     user_args (p_cleaners p') = as @ user_args (p_cleaners p) \<and>
     ((\<forall>c \<in> set (p_cleaners p). \<forall>f. cc_cleaner c = User_cleaner f \<longrightarrow> f = log_arg) \<longrightarrow>
      (\<forall>c \<in> set (p_cleaners p'). \<forall>f. cc_cleaner c = User_cleaner f \<longrightarrow> f = log_arg))"

lemma malloc_trace:
  "ls_data_malloc sz m = (r, m') \<Longrightarrow> trace m' = trace m"
  "ls_data_malloc sz m = (r, m') \<Longrightarrow> malloc_func m' = malloc_func m"
  by (auto simp: ls_data_malloc_def Let_def split: if_splits)

lemma add_cleaner_registers:
  assumes "ls_pool_add_cleaner p cb arg m = (Inr p', m')" and "\<And>f. cb = User_cleaner f \<Longrightarrow> f = log_arg"
  shows "registers p p' (case cb of User_cleaner f \<Rightarrow> [arg] | _ \<Rightarrow> [])"
  using assms by (cases cb) (auto simp: add_cleaner_Inr registers_def)

lemma registers_cleaners:
  "registers p p' as \<Longrightarrow> p_cleaners p'' = p_cleaners p' \<Longrightarrow> registers p p'' as"
  by (simp add: registers_def)

lemma registers_refl: "p_cleaners p' = p_cleaners p \<Longrightarrow> registers p p' []"
  by (simp add: registers_def)

lemma registers_upd [simp]:
  "registers p (p'\<lparr>p_size := n\<rparr>) as = registers p p' as"
  "registers p (p'\<lparr>p_pages := pgs\<rparr>) as = registers p p' as"
  by (simp_all add: registers_def)

lemma malloc_fnc_trace: "malloc_fnc sz m = (r, m') \<Longrightarrow> trace m' = trace m"
  by (auto simp: malloc_fnc_def dest!: malloc_trace(1) split: prod.splits option.splits)

lemma add_cleaner_trace: "ls_pool_add_cleaner p cb arg m = (r, m') \<Longrightarrow> trace m' = trace m"
  by (auto simp: ls_pool_add_cleaner_def dest!: malloc_fnc_trace split: prod.splits sum.splits)

lemma add_page_registers: "add_page p m = (Inr p', m') \<Longrightarrow> registers p p' []"
  by (auto simp: add_page_def dest!: add_cleaner_registers split: prod.splits sum.splits)

lemma add_page_trace: "add_page p m = (r, m') \<Longrightarrow> trace m' = trace m"
  by (auto simp: add_page_def dest!: malloc_fnc_trace add_cleaner_trace split: prod.splits sum.splits)

lemma malloc_fnc_cleaner_registers:
  "malloc_fnc_cleaner p sz Data_free m = (Inr (a, p'), m') \<Longrightarrow> registers p p' []"
  by (auto simp: malloc_fnc_cleaner_def dest!: add_cleaner_registers split: prod.splits sum.splits)

lemma malloc_fnc_cleaner_trace:
  "malloc_fnc_cleaner p sz c m = (r, m') \<Longrightarrow> trace m' = trace m"
  by (auto simp: malloc_fnc_cleaner_def dest!: malloc_fnc_trace add_cleaner_trace
      split: prod.splits sum.splits)

lemma trace_fault [simp]: "trace (fault m) = trace m"
  by (simp add: fault_def)

lemma trace_write [simp]: "trace (write_bytes ptr bs m) = trace m"
  by (simp add: write_bytes_def split: prod.split option.split)

lemma ls_pool_malloc_registers:
  assumes "ls_pool_malloc p sz m = (r, p', m')"
  shows "registers p p' [] \<and> trace m' = trace m"
proof -
  consider "sz = 0" | "0 < sz" "p_page_size p < sz" | "0 < sz" "\<not> p_page_size p < sz" by blast
  then show ?thesis
  proof cases
    case 2
    with assms show ?thesis
      by (auto simp: ls_pool_malloc_def registers_refl
          dest: malloc_fnc_cleaner_registers malloc_fnc_cleaner_trace split: prod.splits sum.splits)
  next
    case 3
    with assms show ?thesis
      by (auto simp: ls_pool_malloc_def registers_refl dest: add_page_trace add_page_registers
          split: prod.splits sum.splits list.splits option.splits)
  qed (use assms in \<open>auto simp: ls_pool_malloc_def registers_refl\<close>)
qed

text \<open>What a request registers: nothing, unless it is a registration that got its memory.\<close>

fun registered :: "traced_mem pool_op \<Rightarrow> traced_mem pool \<times> traced_mem \<Rightarrow> nat list" where
  "registered (Pool_cleaner f a) (p, m) =
     (case fst (ls_pool_add_cleaner p (User_cleaner f) a m) of Inl e \<Rightarrow> [] | Inr p1 \<Rightarrow> [a])"
| "registered opn pm = []"

fun run_registered :: "traced_mem pool_op list \<Rightarrow> traced_mem pool \<times> traced_mem \<Rightarrow> nat list" where
  "run_registered [] pm = []"
| "run_registered (opn # ops) pm = registered opn pm @ run_registered ops (snd (pool_step opn pm))"

fun logs :: "traced_mem pool_op \<Rightarrow> bool" where
  "logs (Pool_cleaner f a) = (f = log_arg)"
| "logs opn = True"

lemma pool_step_registers:
  assumes "logs opn" and "pool_step opn (p, m) = (gs, p', m')"
  shows "registers p p' (registered opn (p, m)) \<and> trace m' = trace m"
proof (cases opn)
  case (Pool_cleaner f a)
  with assms show ?thesis
    by (auto dest: add_cleaner_registers add_cleaner_trace simp: registers_refl
        split: prod.splits sum.splits)
next
  case (Pool_strdup src)
  with assms show ?thesis
    by (auto simp: ls_pool_strdup_def Let_def registers_refl dest!: ls_pool_malloc_registers
        split: prod.splits sum.splits option.splits)
next
  case (Pool_calloc k n)
  with assms show ?thesis
    by (auto simp: ls_pool_calloc_def Let_def dest!: ls_pool_malloc_registers
        split: prod.splits sum.splits option.splits)
qed (use assms in \<open>auto dest: ls_pool_malloc_registers split: prod.splits\<close>)

lemma pool_run_registers:
  "\<forall>opn \<in> set ops. logs opn \<Longrightarrow> pool_run ops (p, m) = (gs, p', m') \<Longrightarrow>
   registers p p' (rev (run_registered ops (p, m))) \<and> trace m' = trace m"
proof (induction ops arbitrary: p m gs)
  case (Cons opn ops)
  obtain gs1 p1 m1 where s: "pool_step opn (p, m) = (gs1, p1, m1)" by (metis surj_pair)
  obtain gs2 where "pool_run ops (p1, m1) = (gs2, p', m')"
    using Cons.prems(2) s by (auto split: prod.splits)
  moreover have "rev (registered opn (p, m)) = registered opn (p, m)"
    by (cases opn) (auto split: sum.splits)
  ultimately show ?case
    using Cons.IH Cons.prems(1) pool_step_registers[OF _ s] s
    by (auto simp: registers_def)
qed (simp add: registers_def)

text \<open>C32: Destroying a pool runs the cleaners of its users in the reverse of the order in which
  they were registered, each once, with the argument it was registered with; a registration that
  failed for want of memory is not run.\<close>

theorem pool_cleaners_reversed:
  assumes "\<forall>opn \<in> set ops. logs opn" and "ls_pool_create sz m = (Inr p, m0)"
    and "pool_run ops (p, m0) = (gs, p1, m1)"
  shows "trace (ls_pool_destroy p1 m1) = trace m @ rev (run_registered ops (p, m0))"
proof -
  let ?p = "\<lambda>self s. \<lparr>p_self = self, p_size = 0, p_page_size = s, p_cleaners = [],
                      p_tail = None, p_pages = []\<rparr> :: traced_mem pool"
  obtain self s m' where "malloc_fnc sizeof_pool m = (Inr self, m')"
      and "add_page (?p self s) m' = (Inr p, m0) \<or> p = ?p self s \<and> m0 = m'"
    using assms(2) by (auto simp: ls_pool_create_def Let_def split: prod.splits sum.splits if_splits)
  then have "registers (?p self s) p [] \<and> trace m0 = trace m"
    using malloc_fnc_trace add_page_trace add_page_registers by (metis registers_refl)
  then have p: "user_args (p_cleaners p) = []" "trace m0 = trace m"
    "\<forall>c \<in> set (p_cleaners p). \<forall>f. cc_cleaner c = User_cleaner f \<longrightarrow> f = log_arg"
    by (auto simp: registers_def)
  have r: "registers p p1 (rev (run_registered ops (p, m0)))" "trace m1 = trace m0"
    using pool_run_registers[OF assms(1,3)] by auto
  then have "trace (ls_pool_destroy p1 m1) = trace m1 @ user_args (p_cleaners p1)"
    using p(3) unfolding ls_pool_destroy_def trace_free
    by (intro destroy_cleaners_trace) (simp add: registers_def)
  then show ?thesis using r p by (simp add: registers_def)
qed

definition init_traced :: traced_mem where
  "init_traced = mem.extend init_mem \<lparr>trace = []\<rparr>"

lemma pool_cleaners_reversed_witness:
  "\<exists>p m0 gs p1 m1. ls_pool_create 0 init_traced = (Inr p, m0) \<and>
     pool_run [Pool_cleaner log_arg 1, Pool_malloc 7, Pool_cleaner log_arg 2] (p, m0) = (gs, p1, m1) \<and>
     trace (ls_pool_destroy p1 m1) = [2, 1]"
proof -
  note defs = ls_pool_create_def malloc_fnc_def ls_data_malloc_def init_traced_def init_mem_def
    libc_malloc_def ls_pool_add_cleaner_def malloc_fnc_cleaner_def ls_pool_malloc_def mem.defs
  let ?ops = "[Pool_cleaner log_arg 1, Pool_malloc 7, Pool_cleaner log_arg 2]"
  obtain p m0 where c: "ls_pool_create 0 init_traced = (Inr p, m0)"
    by (simp add: defs Let_def)
  obtain gs p1 m1 where r: "pool_run ?ops (p, m0) = (gs, p1, m1)" by (metis surj_pair)
  have "\<forall>opn \<in> set ?ops. logs opn" by simp
  from pool_cleaners_reversed[OF this c r]
  have "trace (ls_pool_destroy p1 m1) = [] @ rev (run_registered ?ops (p, m0))"
    by (simp add: init_traced_def mem.defs)
  also have "run_registered ?ops (p, m0) = [1, 2]"
    using c by (auto simp: defs Let_def)
  finally show ?thesis using c r by auto
qed

end
