(* ===== verification/Ls_Str.thy ===== *)
theory Ls_Str
  imports Prelude
begin

text \<open>
  The string helpers of \<open>src/ls_str.c\<close> and the parts of the C library they call.

  A string argument is a possibly \<open>NULL\<close> pointer; \<open>str\<close> says which bytes, up to the terminator,
  the memory holds at it.  The shortcut on equal pointers is therefore modelled as it is written.
  The C library functions are those of the POSIX locale, on the bytes as \<open>unsigned char\<close>.
\<close>

type_synonym cstr = "u8 list"
type_synonym str_ptr = "byte_ptr option"

section \<open>The C library\<close>

definition tolower :: "u8 \<Rightarrow> u8" where
  "tolower c = (if 65 \<le> c \<and> c \<le> 90 then c + 32 else c)"

fun strcmp :: "cstr \<Rightarrow> cstr \<Rightarrow> int" where
  "strcmp [] [] = 0"
| "strcmp [] (b # bs) = - uint b"
| "strcmp (a # as) [] = uint a"
| "strcmp (a # as) (b # bs) = (if a = b then strcmp as bs else uint a - uint b)"

fun strncmp :: "cstr \<Rightarrow> cstr \<Rightarrow> nat \<Rightarrow> int" where
  "strncmp as bs 0 = 0"
| "strncmp [] [] (Suc n) = 0"
| "strncmp [] (b # bs) (Suc n) = - uint b"
| "strncmp (a # as) [] (Suc n) = uint a"
| "strncmp (a # as) (b # bs) (Suc n) = (if a = b then strncmp as bs n else uint a - uint b)"

definition strcasecmp :: "cstr \<Rightarrow> cstr \<Rightarrow> int" where
  "strcasecmp as bs = strcmp (map tolower as) (map tolower bs)"

definition strncasecmp :: "cstr \<Rightarrow> cstr \<Rightarrow> nat \<Rightarrow> int" where
  "strncasecmp as bs n = strncmp (map tolower as) (map tolower bs) n"

definition is_space :: "u8 \<Rightarrow> bool" where
  "is_space c \<longleftrightarrow> c = 32 \<or> 9 \<le> c \<and> c \<le> 13"

definition is_digit :: "u8 \<Rightarrow> bool" where
  "is_digit c \<longleftrightarrow> 48 \<le> c \<and> c \<le> 57"

fun digits_val :: "int \<Rightarrow> cstr \<Rightarrow> int" where
  "digits_val acc [] = acc"
| "digits_val acc (c # cs) = (if is_digit c then digits_val (10 * acc + (uint c - 48)) cs else acc)"

text \<open>\<open>atoi\<close> is \<open>strtol\<close> (which saturates) converted to \<open>int\<close>.\<close>

definition atoi :: "cstr \<Rightarrow> int" where
  "atoi s =
     (let t = dropWhile is_space s;
          v = (case t of
                 [] \<Rightarrow> 0
               | c # cs \<Rightarrow> if c = 45 then - digits_val 0 cs
                           else if c = 43 then digits_val 0 cs else digits_val 0 t) in
      signed_take_bit 31 (max (- (2 ^ 63)) (min (2 ^ 63 - 1) v)))"

section \<open>The helpers\<close>

definition ls_atoi :: "(byte_ptr \<Rightarrow> cstr) \<Rightarrow> str_ptr \<Rightarrow> int \<Rightarrow> int" where
  "ls_atoi str a def = (case a of None \<Rightarrow> def | Some p \<Rightarrow> atoi (str p))"

definition ls_strlen :: "(byte_ptr \<Rightarrow> cstr) \<Rightarrow> str_ptr \<Rightarrow> nat" where
  "ls_strlen str a = (case a of None \<Rightarrow> 0 | Some p \<Rightarrow> length (str p))"

fun strnlen_loop :: "cstr \<Rightarrow> nat \<Rightarrow> nat \<Rightarrow> nat" where
  "strnlen_loop [] len i = i"
| "strnlen_loop (c # cs) len i = (if i < len then strnlen_loop cs len (Suc i) else i)"

definition ls_strnlen :: "(byte_ptr \<Rightarrow> cstr) \<Rightarrow> str_ptr \<Rightarrow> nat \<Rightarrow> nat" where
  "ls_strnlen str a len = (case a of None \<Rightarrow> 0 | Some p \<Rightarrow> strnlen_loop (str p) len 0)"

definition ls_strcmp :: "(byte_ptr \<Rightarrow> cstr) \<Rightarrow> str_ptr \<Rightarrow> str_ptr \<Rightarrow> int" where
  "ls_strcmp str a b =
     (if a = b then 0
      else case (a, b) of
        (None, _) \<Rightarrow> -1
      | (Some p, None) \<Rightarrow> 1
      | (Some p, Some q) \<Rightarrow> strcmp (str p) (str q))"

definition ls_strcasecmp :: "(byte_ptr \<Rightarrow> cstr) \<Rightarrow> str_ptr \<Rightarrow> str_ptr \<Rightarrow> int" where
  "ls_strcasecmp str a b =
     (if a = b then 0
      else case (a, b) of
        (None, _) \<Rightarrow> -1
      | (Some p, None) \<Rightarrow> 1
      | (Some p, Some q) \<Rightarrow> strcasecmp (str p) (str q))"

definition ls_strncmp :: "(byte_ptr \<Rightarrow> cstr) \<Rightarrow> str_ptr \<Rightarrow> str_ptr \<Rightarrow> nat \<Rightarrow> int" where
  "ls_strncmp str a b n =
     (if a = b then 0
      else case (a, b) of
        (None, _) \<Rightarrow> -1
      | (Some p, None) \<Rightarrow> 1
      | (Some p, Some q) \<Rightarrow> strncmp (str p) (str q) n)"

definition ls_strncasecmp :: "(byte_ptr \<Rightarrow> cstr) \<Rightarrow> str_ptr \<Rightarrow> str_ptr \<Rightarrow> nat \<Rightarrow> int" where
  "ls_strncasecmp str a b n =
     (if a = b then 0
      else case (a, b) of
        (None, _) \<Rightarrow> -1
      | (Some p, None) \<Rightarrow> 1
      | (Some p, Some q) \<Rightarrow> strncasecmp (str p) (str q) n)"

section \<open>Comparison is an order\<close>

text \<open>The bytes of a C string are not the terminator.\<close>

definition nul_free :: "cstr \<Rightarrow> bool" where
  "nul_free s \<longleftrightarrow> 0 \<notin> set s"

lemma nul_free_simps [simp]: "nul_free []" "nul_free (c # cs) \<longleftrightarrow> c \<noteq> 0 \<and> nul_free cs"
  by (auto simp: nul_free_def)

lemma uint_pos_nz: "(c :: u8) \<noteq> 0 \<Longrightarrow> 0 < uint c"
  by (simp add: uint_0_iff order_less_le)

lemma uint_neq: "(a :: u8) \<noteq> b \<Longrightarrow> uint a \<noteq> uint b"
  by (simp add: word_uint_eq_iff)

lemma strcmp_refl [simp]: "strcmp s s = 0"
  by (induction s) auto

lemma strcmp_swap: "strcmp as bs = - strcmp bs as"
  by (induction as bs rule: strcmp.induct) auto

lemma strcmp_zero: "nul_free as \<Longrightarrow> nul_free bs \<Longrightarrow> strcmp as bs = 0 \<longleftrightarrow> as = bs"
  by (induction as bs rule: strcmp.induct) (auto simp: uint_0_iff dest: uint_neq)

lemma strcmp_trans:
  "nul_free as \<Longrightarrow> nul_free bs \<Longrightarrow> nul_free cs \<Longrightarrow>
   strcmp as bs \<le> 0 \<Longrightarrow> strcmp bs cs \<le> 0 \<Longrightarrow> strcmp as cs \<le> 0"
proof (induction as cs arbitrary: bs rule: strcmp.induct)
  case (2 c cs)
  then show ?case by simp
next
  case (3 a as)
  then show ?case
    by (cases bs) (use uint_pos_nz[of a] uint_neq[of a "hd bs"] in \<open>auto simp: not_le uint_0_iff split: if_splits\<close>)
next
  case (4 a as c cs)
  show ?case
  proof (cases bs)
    case Nil
    then show ?thesis using 4 uint_pos_nz[of a] by auto
  next
    case (Cons b bs')
    have ih: "a = c \<Longrightarrow> strcmp as bs' \<le> 0 \<Longrightarrow> strcmp bs' cs \<le> 0 \<Longrightarrow> strcmp as cs \<le> 0"
      using 4(1)[of bs'] 4(2-) Cons by simp
    have le: "(if a = b then strcmp as bs' else uint a - uint b) \<le> 0"
      "(if b = c then strcmp bs' cs else uint b - uint c) \<le> 0"
      using 4 Cons by simp_all
    have neq: "a \<noteq> b \<Longrightarrow> uint a \<noteq> uint b" "b \<noteq> c \<Longrightarrow> uint b \<noteq> uint c" by (simp_all add: uint_neq)
    show ?thesis
    proof (cases "a = c")
      case True
      then have "a = b" using le neq by (auto split: if_splits)
      then show ?thesis using True ih le by simp
    next
      case False
      then show ?thesis using le by (auto split: if_splits)
    qed
  qed
qed auto

lemma nul_free_tolower: "nul_free s \<Longrightarrow> nul_free (map tolower s)"
proof (induction s)
  case (Cons c s)
  have "tolower c \<noteq> 0" if "c \<noteq> 0"
  proof (cases "65 \<le> c \<and> c \<le> 90")
    case True
    then have "uint (c + 32) = uint c + 32"
      by (subst uint_add_lem [THEN iffD1]) (simp_all add: word_le_def)
    then have "uint (c + 32) \<noteq> 0" using uint_ge_0[of c] by linarith
    then have "c + 32 \<noteq> 0" by auto
    then show ?thesis using True by (simp add: tolower_def)
  qed (use that in \<open>auto simp: tolower_def\<close>)
  then show ?case using Cons by simp
qed simp

lemma strncmp_take: "strncmp as bs n = strcmp (take n as) (take n bs)"
  by (induction as bs n rule: strncmp.induct) auto

lemma strnlen_loop_min: "i \<le> len \<Longrightarrow> strnlen_loop s len i = min len (i + length s)"
  by (induction s len i rule: strnlen_loop.induct) auto

text \<open>The preorder on possibly missing strings that a comparison function decides.\<close>

definition decides_order :: "(str_ptr \<Rightarrow> str_ptr \<Rightarrow> int) \<Rightarrow> (str_ptr \<Rightarrow> 'k) \<Rightarrow> bool" where
  "decides_order cmp key \<longleftrightarrow>
     (\<forall>a b. cmp a b = 0 \<longleftrightarrow> key a = key b) \<and> (\<forall>a b. sgn (cmp a b) = - sgn (cmp b a)) \<and>
     (\<forall>a b c. cmp a b \<le> 0 \<longrightarrow> cmp b c \<le> 0 \<longrightarrow> cmp a c \<le> 0)"

definition null_cmp :: "(cstr \<Rightarrow> cstr \<Rightarrow> int) \<Rightarrow> (byte_ptr \<Rightarrow> cstr) \<Rightarrow> str_ptr \<Rightarrow> str_ptr \<Rightarrow> int" where
  "null_cmp cmp str a b =
     (if a = b then 0
      else case (a, b) of
        (None, _) \<Rightarrow> -1
      | (Some p, None) \<Rightarrow> 1
      | (Some p, Some q) \<Rightarrow> cmp (str p) (str q))"

lemma ls_strcmp_null_cmp:
  "ls_strcmp str = null_cmp strcmp str"
  "ls_strcasecmp str = null_cmp strcasecmp str"
  "ls_strncmp str a b n = null_cmp (\<lambda>s t. strncmp s t n) str a b"
  "ls_strncasecmp str a b n = null_cmp (\<lambda>s t. strncasecmp s t n) str a b"
  by (auto simp: fun_eq_iff null_cmp_def ls_strcmp_def ls_strcasecmp_def ls_strncmp_def
      ls_strncasecmp_def)

lemma null_cmp_order:
  fixes str :: "byte_ptr \<Rightarrow> cstr"
  assumes ok: "\<And>p. nul_free (str p)" and f: "\<And>s. nul_free s \<Longrightarrow> nul_free (f s)"
    and cmp: "\<And>s t. cmp s t = strcmp (f s) (f t)"
  shows "decides_order (null_cmp cmp str) (map_option (f \<circ> str))"
proof -
  have nf: "nul_free (f (str p))" for p using ok f by blast
  have z: "null_cmp cmp str a b = 0 \<longleftrightarrow> map_option (f \<circ> str) a = map_option (f \<circ> str) b" for a b
    using strcmp_zero[OF nf nf] by (cases a; cases b) (auto simp: null_cmp_def cmp)
  have swap: "null_cmp cmp str a b = - null_cmp cmp str b a" for a b
    unfolding null_cmp_def cmp by (cases a; cases b) (auto intro: strcmp_swap)
  have s: "sgn (null_cmp cmp str a b) = - sgn (null_cmp cmp str b a)" for a b
    by (subst swap) simp
  have t: "null_cmp cmp str a c \<le> 0" if "null_cmp cmp str a b \<le> 0" "null_cmp cmp str b c \<le> 0" for a b c
  proof -
    have tr: "strcmp (f (str p)) (f (str r)) \<le> 0"
      if "strcmp (f (str p)) (f (str q)) \<le> 0" "strcmp (f (str q)) (f (str r)) \<le> 0" for p q r
      using strcmp_trans[OF nf nf nf that] .
    have le: "null_cmp cmp str (Some p) (Some q) \<le> 0 \<longleftrightarrow> strcmp (f (str p)) (f (str q)) \<le> 0" for p q
      by (simp add: null_cmp_def cmp)
    show ?thesis
    proof (cases a; cases b; cases c)
      fix p q r assume "a = Some p" "b = Some q" "c = Some r"
      then show ?thesis using that tr[of p q r] by (simp only: le)
    qed (use that in \<open>auto simp: null_cmp_def\<close>)
  qed
  show ?thesis unfolding decides_order_def using z s t by blast
qed

text \<open>The four comparisons order strings, \<open>NULL\<close> first: each is antisymmetric and transitive,
  and is zero exactly on arguments that are both \<open>NULL\<close> or have equal contents, as they stand, up
  to case, or in their first \<open>n\<close> bytes.\<close>

theorem ls_strcmp_orders:
  assumes "\<And>p. nul_free (str p)"
  shows "decides_order (ls_strcmp str) (map_option str) \<and>
         decides_order (ls_strcasecmp str) (map_option (map tolower \<circ> str)) \<and>
         decides_order (\<lambda>a b. ls_strncmp str a b n) (map_option (take n \<circ> str)) \<and>
         decides_order (\<lambda>a b. ls_strncasecmp str a b n) (map_option (take n \<circ> map tolower \<circ> str))"
proof -
  have nf: "nul_free s \<Longrightarrow> nul_free (take n s)" for s
    by (auto simp: nul_free_def dest: in_set_takeD)
  have "decides_order (null_cmp strcmp str) (map_option ((\<lambda>s. s) \<circ> str))"
    using assms by (intro null_cmp_order) auto
  moreover have "decides_order (null_cmp strcasecmp str) (map_option (map tolower \<circ> str))"
    using assms by (intro null_cmp_order) (auto simp: strcasecmp_def nul_free_tolower)
  moreover have "decides_order (null_cmp (\<lambda>s t. strncmp s t n) str) (map_option (take n \<circ> str))"
    using assms nf by (intro null_cmp_order) (auto simp: strncmp_take)
  moreover have "decides_order (null_cmp (\<lambda>s t. strncasecmp s t n) str)
      (map_option ((take n \<circ> map tolower) \<circ> str))"
    using assms nf by (intro null_cmp_order) (auto simp: strncasecmp_def strncmp_take nul_free_tolower)
  ultimately show ?thesis unfolding ls_strcmp_null_cmp by (simp add: comp_def)
qed

lemma ls_strcmp_orders_witness:
  "decides_order (ls_strcmp (\<lambda>p. [97])) (map_option (\<lambda>p. [97 :: u8])) \<and>
   ls_strcasecmp (\<lambda>p. if p = (0, 0) then [65, 98] else [97, 66]) (Some (0, 0)) (Some (1, 0)) = 0"
proof -
  have "decides_order (ls_strcmp (\<lambda>p. [97])) (map_option (\<lambda>p. [97 :: u8]))"
    using ls_strcmp_orders[of "\<lambda>p. [97]" 0] by simp
  moreover have "ls_strcasecmp (\<lambda>p. if p = (0, 0) then [65, 98] else [97, 66]) (Some (0, 0)) (Some (1, 0)) = 0"
    by (simp add: ls_strcasecmp_def strcasecmp_def tolower_def)
  ultimately show ?thesis by blast
qed

lemma ls_strnlen_min: "ls_strnlen str a len = min len (ls_strlen str a)"
  by (simp add: ls_strnlen_def ls_strlen_def strnlen_loop_min split: option.split)

end
