(* ===== verification/Ls_Hash.thy ===== *)
theory Ls_Hash
  imports Ls_Str
begin

unbundle bit_operations_syntax

text \<open>
  The hash and comparison functions that \<open>src/ls_htable.c\<close> offers for its keys and the two that
  \<open>src/tube_manager.c\<close> has for tube identifiers, on the machine words they compute with:
  \<open>unsigned long\<close> has 64 bits, \<open>unsigned int\<close> 32, and \<open>char\<close> is signed.

  A hash table works only with functions that fit together, which the locale \<open>hash_key\<close> states;
  each pair of functions of the library is an instance of it.  A key is a pointer of type \<open>'p\<close>; what
  is behind it, a string or a number, is the first argument.
\<close>

section \<open>The functions\<close>

definition ls_str_hashcode :: "('p \<Rightarrow> cstr) \<Rightarrow> 'p \<Rightarrow> u32" where
  "ls_str_hashcode str key =
     ucast (foldl (\<lambda>h c. push_bit 5 h - h + scast c) (0 :: u64) (str key))"

definition ls_str_compare :: "('p \<Rightarrow> cstr) \<Rightarrow> 'p \<Rightarrow> 'p \<Rightarrow> int" where
  "ls_str_compare str key1 key2 = strcmp (str key1) (str key2)"

text \<open>\<open>tolower(*p)\<close> is an \<open>int\<close>.  For the bytes above 127 the argument is negative, for which the C standard leaves
  \<open>tolower\<close> undefined; the model has what the GNU library does there, the argument itself.\<close>

definition ls_strcase_hashcode :: "('p \<Rightarrow> cstr) \<Rightarrow> 'p \<Rightarrow> u32" where
  "ls_strcase_hashcode str key =
     ucast (foldl (\<lambda>h c. push_bit 5 h - h + scast (tolower c)) (0 :: u64) (str key))"

definition ls_strcase_compare :: "('p \<Rightarrow> cstr) \<Rightarrow> 'p \<Rightarrow> 'p \<Rightarrow> int" where
  "ls_strcase_compare str key1 key2 = strcasecmp (str key1) (str key2)"

definition ls_int_hashcode :: "u64 \<Rightarrow> u32" where
  "ls_int_hashcode key =
     (let a = key AND 0xffffffff;
          a = (a + 0x7ed55d16) + push_bit 12 a;
          a = (a XOR 0xc761c23c) XOR drop_bit 19 a;
          a = (a + 0x165667b1) + push_bit 5 a;
          a = (a + 0xd3a2646c) XOR push_bit 9 a;
          a = (a + 0xfd7046c5) + push_bit 3 a;
          a = (a XOR 0xb55a4f09) XOR drop_bit 16 a in
      ucast a)"

definition ls_int_compare :: "u64 \<Rightarrow> u64 \<Rightarrow> int" where
  "ls_int_compare key1 key2 =
     (let i1 = sint key1; i2 = sint key2 in
      if i1 < i2 then -1 else if i1 = i2 then 0 else 1)"

text \<open>A tube identifier is read as one 64-bit number; \<open>word_at\<close> is what memory holds there.\<close>

definition hash_id :: "('p \<Rightarrow> u64) \<Rightarrow> 'p \<Rightarrow> u32" where
  "hash_id word_at tid =
     (let key = word_at tid;
          key = NOT key + push_bit 18 key;
          key = key XOR drop_bit 31 key;
          key = key * 21;
          key = key XOR drop_bit 11 key;
          key = key + push_bit 6 key;
          key = key XOR drop_bit 22 key in
      ucast key)"

definition compare_id :: "('p \<Rightarrow> u64) \<Rightarrow> 'p \<Rightarrow> 'p \<Rightarrow> int" where
  "compare_id word_at key1 key2 =
     (let k1 = word_at key1; k2 = word_at key2 in
      if k1 < k2 then -1 else if k1 = k2 then 0 else 1)"

section \<open>Fitting together\<close>

locale hash_key =
  fixes hash :: "'k \<Rightarrow> u32" and cmp :: "'k \<Rightarrow> 'k \<Rightarrow> int"
  assumes cmp_refl: "cmp k k = 0"
    and cmp_sym: "cmp k l = 0 \<Longrightarrow> cmp l k = 0"
    and cmp_trans: "cmp k l = 0 \<Longrightarrow> cmp l m = 0 \<Longrightarrow> cmp k m = 0"
    and hash_cmp: "cmp k l = 0 \<Longrightarrow> hash k = hash l"
begin

lemma cmp_cong: "cmp k l = 0 \<Longrightarrow> cmp k m = 0 \<longleftrightarrow> cmp l m = 0"
  using cmp_sym cmp_trans by blast

lemma cmp_cong2: "cmp k l = 0 \<Longrightarrow> cmp m k = 0 \<longleftrightarrow> cmp m l = 0"
  using cmp_sym cmp_trans by blast

end

text \<open>Functions that compare and hash a view of the key fit together.\<close>

lemma hash_key_view:
  assumes "\<And>k l. cmp k l = 0 \<longleftrightarrow> view k = view l" and "\<And>k l. view k = view l \<Longrightarrow> hash k = hash l"
  shows "hash_key hash cmp"
  by (unfold_locales; unfold assms(1)) (auto intro: assms(2))

lemma foldl_map_view: "foldl (\<lambda>h c. f h (g c)) a s = foldl f a (map g s)"
  by (induction s arbitrary: a) auto

lemma strcase_hash_view:
  "ls_strcase_hashcode str k =
     ucast (foldl (\<lambda>h c. push_bit 5 h - h + scast c) (0 :: u64) (map tolower (str k)))"
  unfolding ls_strcase_hashcode_def
  by (subst foldl_map_view[where f = "\<lambda>h c. push_bit 5 h - h + scast c", symmetric]) simp

lemma ls_int_compare_zero: "ls_int_compare k l = 0 \<longleftrightarrow> k = l"
  by (auto simp: ls_int_compare_def Let_def simp flip: word_eq_iff_signed)

text \<open>C30: The hash and comparison functions of the library fit together: string keys, string keys
  up to case, integer keys and tube identifiers.  Comparison is an equivalence on keys, and keys
  that compare equal have the same hash.\<close>

theorem library_hash_keys:
  assumes "\<And>p. nul_free (str p)"
  shows "hash_key (ls_str_hashcode str) (ls_str_compare str) \<and>
         hash_key (ls_strcase_hashcode str) (ls_strcase_compare str) \<and>
         hash_key ls_int_hashcode ls_int_compare \<and>
         hash_key (hash_id word_at) (compare_id word_at)"
proof (intro conjI)
  show "hash_key (ls_str_hashcode str) (ls_str_compare str)"
    by (rule hash_key_view[where view = str])
      (simp_all add: ls_str_compare_def strcmp_zero assms ls_str_hashcode_def)
  show "hash_key (ls_strcase_hashcode str) (ls_strcase_compare str)"
    by (rule hash_key_view[where view = "map tolower \<circ> str"])
      (simp_all add: ls_strcase_compare_def strcasecmp_def strcmp_zero assms nul_free_tolower
        strcase_hash_view)
  show "hash_key ls_int_hashcode ls_int_compare"
    by (rule hash_key_view[where view = "\<lambda>k. k"])
      (simp_all add: ls_int_compare_zero)
  show "hash_key (hash_id word_at) (compare_id word_at)"
    by (rule hash_key_view[where view = word_at])
      (auto simp: compare_id_def hash_id_def Let_def)
qed

lemma library_hash_keys_witness:
  "hash_key (ls_strcase_hashcode (\<lambda>p. [72, 105])) (ls_strcase_compare (\<lambda>p :: nat. [72, 105]))"
  using library_hash_keys[of "\<lambda>p :: nat. [72, 105]" "\<lambda>p :: nat. 0"] by simp

interpretation ik: hash_key ls_int_hashcode ls_int_compare
  by (rule hash_key_view[where view = "\<lambda>k. k"]) (simp_all add: ls_int_compare_zero)

interpretation tk: hash_key "hash_id word_at" "compare_id word_at" for word_at
  by (rule hash_key_view[where view = word_at]) (auto simp: compare_id_def hash_id_def Let_def)

end
