(* ===== verification/Ls_Htable.thy ===== *)
theory Ls_Htable
  imports Ls_Mem Ls_Hash
begin

text \<open>
  The chained hash table of \<open>src/ls_htable.c\<close>.

  A table is a value whose buckets are the lists of the nodes chained in them; each node is a heap
  block, and so are the table and its array of buckets.  Keys are pointers: \<open>'k\<close> identifies one,
  and the hash and comparison functions look at what is behind it.  A node's value is a pointer
  that may be \<open>NULL\<close>.  A cleaner is a function on the state; it is not given the table, so one
  that calls back into it is not covered.
\<close>

section \<open>State\<close>

type_synonym ('k, 'v, 's) ls_htable_cleanfunc = "bool \<Rightarrow> bool \<Rightarrow> 'k \<Rightarrow> 'v option \<Rightarrow> 's \<Rightarrow> 's"

record ('k, 'v, 's) hnode =
  hn_self :: addr
  hn_key :: 'k
  hn_value :: "'v option"
  hn_bucket :: int
  hn_khash :: u32
  hn_cleaner :: "('k, 'v, 's) ls_htable_cleanfunc option"

record ('k, 'v, 's) htable =
  ht_self :: addr
  ht_hash :: "'k \<Rightarrow> u32"
  ht_cmp :: "'k \<Rightarrow> 'k \<Rightarrow> int"
  ht_count :: u32
  ht_bcount :: u32
  ht_resize_count :: u32
  ht_block :: addr
  ht_buckets :: "('k, 'v, 's) hnode list list"

definition HASH_NUM_BUCKETS :: int where "HASH_NUM_BUCKETS = 509"
definition sizeof_htable :: nat where "sizeof_htable = 40"
definition sizeof_hnode :: nat where "sizeof_hnode = 40"
definition sizeof_ptr :: nat where "sizeof_ptr = 8"

definition call_cleaner ::
  "('k, 'v, 's) ls_htable_cleanfunc option \<Rightarrow> bool \<Rightarrow> bool \<Rightarrow> 'k \<Rightarrow> 'v option \<Rightarrow> 's \<Rightarrow> 's" where
  "call_cleaner c replace destroy_key key val s =
     (case c of None \<Rightarrow> s | Some f \<Rightarrow> f replace destroy_key key val s)"

definition bucket_from_khash :: "('k, 'v, 's) htable \<Rightarrow> u32 \<Rightarrow> u32" where
  "bucket_from_khash tb khash = khash mod ht_bcount tb"

definition chain :: "('k, 'v, 's) htable \<Rightarrow> int \<Rightarrow> ('k, 'v, 's) hnode list" where
  "chain tb b = (if nat b < length (ht_buckets tb) then ht_buckets tb ! nat b else [])"

section \<open>Lookup and resizing\<close>

definition find_node ::
  "('k, 'v, 's) htable \<Rightarrow> 'k \<Rightarrow> int \<Rightarrow> u32 \<Rightarrow> ('k, 'v, 's) hnode option" where
  "find_node tab key bucket0 khash0 =
     (let khash = (if bucket0 < 0 then ht_hash tab key else khash0);
          bucket = (if bucket0 < 0 then sint (bucket_from_khash tab khash) else bucket0) in
      find (\<lambda>p. khash = hn_khash p \<and> ht_cmp tab key (hn_key p) = 0) (chain tab bucket))"

definition rehash_node ::
  "('k, 'v, 's) htable \<Rightarrow> ('k, 'v, 's) hnode \<Rightarrow> ('k, 'v, 's) htable" where
  "rehash_node tab node =
     (let bucket = bucket_from_khash tab (hn_khash node);
          node1 = node\<lparr>hn_bucket := sint bucket\<rparr> in
      tab\<lparr>ht_buckets := (ht_buckets tab)[unat bucket := node1 # ht_buckets tab ! unat bucket]\<rparr>)"

definition resize_hashtable ::
  "('k, 'v, 'z mem_scheme) htable \<Rightarrow> u32 \<Rightarrow> 'z mem_scheme \<Rightarrow>
   (errcode + ('k, 'v, 'z mem_scheme) htable) \<times> 'z mem_scheme" where
  "resize_hashtable tab buckets m =
     (let old_buckets = ht_buckets tab; old_block = ht_block tab in
      case ls_data_calloc (unat buckets) sizeof_ptr m of
        (None, m1) \<Rightarrow> (Inl LS_ERR_NO_MEMORY, m1)
      | (Some block, m1) \<Rightarrow>
          (let tab1 = tab\<lparr>ht_block := block, ht_buckets := replicate (unat buckets) [],
                          ht_bcount := buckets, ht_resize_count := ht_resize_count tab + 1\<rparr>;
               tab2 = foldl rehash_node tab1 (concat old_buckets) in
           (Inr tab2, ls_data_free (Some old_block) m1)))"

section \<open>Nodes\<close>

definition ls_hnode_get_key :: "('k, 'v, 's) hnode \<Rightarrow> 'k" where
  "ls_hnode_get_key node = hn_key node"

definition ls_hnode_get_value :: "('k, 'v, 's) hnode \<Rightarrow> 'v option" where
  "ls_hnode_get_value node = hn_value node"

definition ls_hnode_put_value ::
  "('k, 'v, 's) hnode \<Rightarrow> 'v option \<Rightarrow> ('k, 'v, 's) ls_htable_cleanfunc option \<Rightarrow> 's \<Rightarrow>
   ('k, 'v, 's) hnode \<times> 's" where
  "ls_hnode_put_value node data cleaner s =
     (let pvalue = hn_value node; pcleaner = hn_cleaner node;
          node1 = node\<lparr>hn_value := data, hn_cleaner := cleaner\<rparr> in
      (node1, if pvalue \<noteq> None then call_cleaner pcleaner True False (hn_key node) pvalue s else s))"

fun unchain :: "addr \<Rightarrow> ('k, 'v, 's) hnode list \<Rightarrow> ('k, 'v, 's) hnode list option" where
  "unchain self [] = None"
| "unchain self (p # ps) =
     (if hn_self p = self then Some ps else map_option (Cons p) (unchain self ps))"

text \<open>A node that is not in its bucket would lead the search over the end of the chain.\<close>

definition ls_htable_remove_node ::
  "('k, 'v, 'z mem_scheme) htable \<Rightarrow> ('k, 'v, 'z mem_scheme) hnode \<Rightarrow> 'z mem_scheme \<Rightarrow>
   ('k, 'v, 'z mem_scheme) htable \<times> 'z mem_scheme" where
  "ls_htable_remove_node tbl node m =
     (case unchain (hn_self node) (chain tbl (hn_bucket node)) of
        None \<Rightarrow> (tbl, fault m)
      | Some ps \<Rightarrow>
          (let tbl1 = tbl\<lparr>ht_buckets := (ht_buckets tbl)[nat (hn_bucket node) := ps]\<rparr>;
               m1 = call_cleaner (hn_cleaner node) False True (hn_key node) (hn_value node) m in
           (tbl1\<lparr>ht_count := ht_count tbl - 1\<rparr>, ls_data_free (Some (hn_self node)) m1)))"

section \<open>Tables\<close>

definition ls_htable_create ::
  "int \<Rightarrow> ('k \<Rightarrow> u32) \<Rightarrow> ('k \<Rightarrow> 'k \<Rightarrow> int) \<Rightarrow> 'z mem_scheme \<Rightarrow>
   (errcode + ('k, 'v, 'z mem_scheme) htable) \<times> 'z mem_scheme" where
  "ls_htable_create buckets0 hash cmp m =
     (let buckets = (if buckets0 \<le> 0 then HASH_NUM_BUCKETS else buckets0) in
      case ls_data_calloc 1 sizeof_htable m of
        (None, m1) \<Rightarrow> (Inl LS_ERR_NO_MEMORY, m1)
      | (Some self, m1) \<Rightarrow>
          (case ls_data_calloc (nat buckets) sizeof_ptr m1 of
             (None, m2) \<Rightarrow> (Inl LS_ERR_NO_MEMORY, ls_data_free (Some self) m2)
           | (Some block, m2) \<Rightarrow>
               (Inr \<lparr>ht_self = self, ht_hash = hash, ht_cmp = cmp, ht_count = 0,
                     ht_bcount = word_of_int buckets, ht_resize_count = 0, ht_block = block,
                     ht_buckets = replicate (nat buckets) []\<rparr>, m2)))"

fun clean_chain ::
  "('k, 'v, 'z mem_scheme) hnode list \<Rightarrow> 'z mem_scheme \<Rightarrow> 'z mem_scheme" where
  "clean_chain [] m = m"
| "clean_chain (cur # next) m =
     clean_chain next
       (ls_data_free (Some (hn_self cur))
         (call_cleaner (hn_cleaner cur) False True (hn_key cur) (hn_value cur) m))"

fun clean_buckets ::
  "('k, 'v, 'z mem_scheme) hnode list list \<Rightarrow> 'z mem_scheme \<Rightarrow> 'z mem_scheme" where
  "clean_buckets [] m = m"
| "clean_buckets (b # bs) m = clean_buckets bs (clean_chain b m)"

definition ls_htable_destroy ::
  "('k, 'v, 'z mem_scheme) htable \<Rightarrow> 'z mem_scheme \<Rightarrow> 'z mem_scheme" where
  "ls_htable_destroy tbl m =
     ls_data_free (Some (ht_self tbl))
       (ls_data_free (Some (ht_block tbl))
         (clean_buckets (take (unat (ht_bcount tbl)) (ht_buckets tbl)) m))"

definition ls_htable_get_count :: "('k, 'v, 's) htable \<Rightarrow> u32" where
  "ls_htable_get_count tbl = ht_count tbl"

definition ls_htable_get_node ::
  "('k, 'v, 's) htable \<Rightarrow> 'k \<Rightarrow> ('k, 'v, 's) hnode option" where
  "ls_htable_get_node tbl key = find_node tbl key (-1) 0"

definition ls_htable_get :: "('k, 'v, 's) htable \<Rightarrow> 'k \<Rightarrow> 'v option" where
  "ls_htable_get tbl key =
     (case find_node tbl key (-1) 0 of Some node \<Rightarrow> hn_value node | None \<Rightarrow> None)"

text \<open>Updating the node that a lookup found, where it is.\<close>

definition set_node ::
  "('k, 'v, 's) htable \<Rightarrow> ('k, 'v, 's) hnode \<Rightarrow> ('k, 'v, 's) htable" where
  "set_node tbl node =
     tbl\<lparr>ht_buckets := map (map (\<lambda>n. if hn_self n = hn_self node then node else n)) (ht_buckets tbl)\<rparr>"

definition ls_htable_put ::
  "('k, 'v, 'z mem_scheme) htable \<Rightarrow> 'k \<Rightarrow> 'v option \<Rightarrow>
   ('k, 'v, 'z mem_scheme) ls_htable_cleanfunc option \<Rightarrow> 'z mem_scheme \<Rightarrow>
   (errcode + unit) \<times> ('k, 'v, 'z mem_scheme) htable \<times> 'z mem_scheme" where
  "ls_htable_put tbl key val cleaner m =
     (let khash = ht_hash tbl key; bucket = bucket_from_khash tbl khash in
      case find_node tbl key (sint bucket) khash of
        Some node \<Rightarrow>
          (let m1 = call_cleaner (hn_cleaner node) True (hn_key node \<noteq> key)
                      (hn_key node) (hn_value node) m in
           (Inr (), set_node tbl (node\<lparr>hn_value := val, hn_key := key, hn_cleaner := cleaner\<rparr>), m1))
      | None \<Rightarrow>
          (case (if ht_count tbl + 1 > drop_bit 2 (ht_bcount tbl * 3)
                 then resize_hashtable tbl (push_bit 1 (ht_bcount tbl) + 1) m
                 else (Inr tbl, m)) of
             (Inl e, m1) \<Rightarrow> (Inl e, tbl, m1)
           | (Inr tbl1, m1) \<Rightarrow>
               (let bucket1 = bucket_from_khash tbl1 khash in
                case ls_data_malloc sizeof_hnode m1 of
                  (None, m2) \<Rightarrow> (Inl LS_ERR_NO_MEMORY, tbl1, m2)
                | (Some self, m2) \<Rightarrow>
                    (let node = \<lparr>hn_self = self, hn_key = key, hn_value = val,
                                 hn_bucket = sint bucket1, hn_khash = khash, hn_cleaner = cleaner\<rparr> in
                     (Inr (),
                      tbl1\<lparr>ht_buckets := (ht_buckets tbl1)
                             [unat bucket1 := node # ht_buckets tbl1 ! unat bucket1],
                           ht_count := ht_count tbl1 + 1\<rparr>, m2)))))"

definition ls_htable_remove ::
  "('k, 'v, 'z mem_scheme) htable \<Rightarrow> 'k \<Rightarrow> 'z mem_scheme \<Rightarrow>
   ('k, 'v, 'z mem_scheme) htable \<times> 'z mem_scheme" where
  "ls_htable_remove tbl key m =
     (case find_node tbl key (-1) 0 of
        None \<Rightarrow> (tbl, m)
      | Some node \<Rightarrow> ls_htable_remove_node tbl node m)"

definition ls_htable_clear ::
  "('k, 'v, 'z mem_scheme) htable \<Rightarrow> 'z mem_scheme \<Rightarrow>
   ('k, 'v, 'z mem_scheme) htable \<times> 'z mem_scheme" where
  "ls_htable_clear tbl m =
     (tbl\<lparr>ht_buckets := map (\<lambda>b. []) (ht_buckets tbl), ht_count := 0\<rparr>,
      clean_buckets (take (unat (ht_bcount tbl)) (ht_buckets tbl)) m)"

section \<open>Iteration\<close>

definition first_chained :: "('k, 'v, 's) hnode list list \<Rightarrow> ('k, 'v, 's) hnode option" where
  "first_chained bs = (case dropWhile (\<lambda>b. b = []) bs of [] \<Rightarrow> None | b # bs' \<Rightarrow> Some (hd b))"

definition ls_htable_get_first_node :: "('k, 'v, 's) htable \<Rightarrow> ('k, 'v, 's) hnode option" where
  "ls_htable_get_first_node tbl = first_chained (take (unat (ht_bcount tbl)) (ht_buckets tbl))"

text \<open>The successor in the chain of the node at an address.\<close>

fun chain_next :: "addr \<Rightarrow> ('k, 'v, 's) hnode list \<Rightarrow> ('k, 'v, 's) hnode option" where
  "chain_next self [] = None"
| "chain_next self (p # ps) =
     (if hn_self p = self then (case ps of [] \<Rightarrow> None | q # qs \<Rightarrow> Some q) else chain_next self ps)"

definition ls_htable_get_next_node ::
  "('k, 'v, 's) htable \<Rightarrow> ('k, 'v, 's) hnode \<Rightarrow> ('k, 'v, 's) hnode option" where
  "ls_htable_get_next_node tbl cur =
     (case chain_next (hn_self cur) (chain tbl (hn_bucket cur)) of
        Some n \<Rightarrow> Some n
      | None \<Rightarrow> first_chained (drop (Suc (nat (hn_bucket cur)))
                  (take (unat (ht_bcount tbl)) (ht_buckets tbl))))"

type_synonym ('k, 'v, 'u) ls_htable_walkfunc = "'u \<Rightarrow> 'k \<Rightarrow> 'v option \<Rightarrow> int \<times> 'u"

fun walk_chain ::
  "('k, 'v, 'u) ls_htable_walkfunc \<Rightarrow> ('k, 'v, 's) hnode list \<Rightarrow> bool \<times> u32 \<times> 'u \<Rightarrow> bool \<times> u32 \<times> 'u" where
  "walk_chain func [] st = st"
| "walk_chain func (cur # next) (running, visited, u) =
     (if running then
        (case func u (hn_key cur) (hn_value cur) of
           (r, u1) \<Rightarrow> walk_chain func next (r \<noteq> 0, visited + 1, u1))
      else (running, visited, u))"

fun walk_buckets ::
  "('k, 'v, 'u) ls_htable_walkfunc \<Rightarrow> ('k, 'v, 's) hnode list list \<Rightarrow> bool \<times> u32 \<times> 'u \<Rightarrow>
   bool \<times> u32 \<times> 'u" where
  "walk_buckets func [] st = st"
| "walk_buckets func (b # bs) st =
     (if fst st then walk_buckets func bs (walk_chain func b st) else st)"

definition ls_htable_walk ::
  "('k, 'v, 's) htable \<Rightarrow> ('k, 'v, 'u) ls_htable_walkfunc \<Rightarrow> 'u \<Rightarrow> u32 \<times> 'u" where
  "ls_htable_walk tbl func user_data =
     snd (walk_buckets func (take (unat (ht_bcount tbl)) (ht_buckets tbl)) (True, 0, user_data))"

definition ls_htable_free_data_cleaner ::
  "('k, addr, 'z mem_scheme) ls_htable_cleanfunc" where
  "ls_htable_free_data_cleaner replace destroy_key key data m = ls_data_free data m"

end
