(* ===== verification/Ls_Htable_Props.thy ===== *)
theory Ls_Htable_Props
  imports Ls_Htable
begin

text \<open>
  What the hash table of \<open>Ls_Htable\<close> guarantees when its hash and comparison functions fit
  together (locale \<open>hash_key\<close>).  The invariant \<open>ht_inv\<close> says that each node hangs in the bucket of
  its hash, that no two nodes have equal keys, that the entry count is right, and that the table
  owns exactly its blocks.  Under it a table is a map; sizes stay below \<open>2 ^ 28\<close> entries, where
  the 32-bit bucket arithmetic is exact.
\<close>

section \<open>Generic facts\<close>

lemma sint_small: "unat (w :: u32) < 2 ^ 31 \<Longrightarrow> sint w = int (unat w)"
proof -
  assume w: "unat w < 2 ^ 31"
  have u: "uint w = int (unat w)" by simp
  have "int (unat w) < int (2 ^ 31)" using w by (simp only: of_nat_less_iff)
  then have "uint w < 2 ^ 31" by simp
  then have "signed_take_bit 31 (uint w) = uint w"
    by (intro signed_take_bit_int_eq_self) (simp_all add: order_trans[OF _ uint_ge_0])
  then show ?thesis unfolding u[symmetric] by (simp add: sint_uint)
qed

lemma unat_mod_less: "0 < unat (b :: u32) \<Longrightarrow> unat (k mod b) < unat b"
  by (simp add: unat_mod_distrib)

lemma mset_concat_insert:
  "i < length bs \<Longrightarrow> mset (concat (bs[i := x # bs ! i])) = add_mset x (mset (concat bs))"
proof (induction bs arbitrary: i)
  case (Cons b bs)
  then show ?case by (cases i) auto
qed simp

lemma mset_concat_replace:
  "i < length bs \<Longrightarrow> mset (bs ! i) = add_mset x (mset ps) \<Longrightarrow>
   mset (concat bs) = add_mset x (mset (concat (bs[i := ps])))"
proof (induction bs arbitrary: i)
  case (Cons b bs)
  then show ?case by (cases i) auto
qed simp

lemma filter_mset_le1_eq:
  assumes "size {#x \<in># M. P x#} \<le> 1" and "x \<in># M" and "y \<in># M" and "P x" and "P y"
  shows "x = y"
proof (rule ccontr)
  assume "x \<noteq> y"
  have "x \<in># {#x \<in># M. P x#}" using assms by simp
  then obtain N where N: "{#x \<in># M. P x#} = add_mset x N" by (blast dest: multi_member_split)
  have "y \<in># add_mset x N" using assms unfolding N[symmetric] by simp
  then have "y \<in># N" using \<open>x \<noteq> y\<close> by simp
  then obtain N' where "N = add_mset y N'" by (blast dest: multi_member_split)
  then show False using assms(1) by (simp add: N)
qed

lemma distinct_if_count_le1: "(\<And>a. count (mset xs) a \<le> 1) \<Longrightarrow> distinct xs"
proof (induction xs)
  case (Cons x xs)
  have "count (mset xs) a \<le> count (mset (x # xs)) a" for a by simp
  then have "count (mset xs) a \<le> 1" for a using Cons.prems order_trans by blast
  moreover have "x \<notin> set xs"
  proof
    assume "x \<in> set xs"
    then have "0 < count (mset xs) x" by simp
    then show False using Cons.prems[of x] by simp
  qed
  ultimately show ?case using Cons.IH by simp
qed simp

lemma filter_mset_empty: "filter_mset P M = {#} \<longleftrightarrow> (\<forall>x. x \<in># M \<longrightarrow> \<not> P x)"
  by (simp flip: set_mset_eq_empty_iff)

section \<open>The invariant\<close>

text \<open>A node without its place: the contents of a table are a multiset of those.\<close>

definition unplaced :: "('k, 'v, 's) hnode \<Rightarrow> ('k, 'v, 's) hnode" where
  "unplaced n = n\<lparr>hn_bucket := 0\<rparr>"

lemma unplaced_simps [simp]:
  "hn_self (unplaced n) = hn_self n" "hn_key (unplaced n) = hn_key n"
  "hn_value (unplaced n) = hn_value n" "hn_khash (unplaced n) = hn_khash n"
  "hn_cleaner (unplaced n) = hn_cleaner n" "unplaced (unplaced n) = unplaced n"
  "unplaced (n\<lparr>hn_bucket := b\<rparr>) = unplaced n"
  by (simp_all add: unplaced_def)

definition contents :: "('k, 'v, 's) htable \<Rightarrow> ('k, 'v, 's) hnode multiset" where
  "contents tab = image_mset unplaced (mset (concat (ht_buckets tab)))"

definition placed :: "('k, 'v, 's) htable \<Rightarrow> nat \<Rightarrow> ('k, 'v, 's) hnode \<Rightarrow> bool" where
  "placed tab i n \<longleftrightarrow> hn_bucket n = int i \<and> unat (hn_khash n mod ht_bcount tab) = i"

definition shape :: "('k, 'v, 's) htable \<Rightarrow> bool" where
  "shape tab \<longleftrightarrow>
     length (ht_buckets tab) = unat (ht_bcount tab) \<and> 0 < unat (ht_bcount tab) \<and>
     unat (ht_bcount tab) < 2 ^ 30 \<and>
     (\<forall>i < length (ht_buckets tab). \<forall>n \<in> set (ht_buckets tab ! i). placed tab i n)"

lemma shape_place:
  assumes "shape tab"
  shows "unat (bucket_from_khash tab h) < length (ht_buckets tab)"
    and "sint (bucket_from_khash tab h) = int (unat (bucket_from_khash tab h))"
proof -
  show less: "unat (bucket_from_khash tab h) < length (ht_buckets tab)"
    using assms unat_mod_less by (simp add: shape_def bucket_from_khash_def)
  show "sint (bucket_from_khash tab h) = int (unat (bucket_from_khash tab h))"
    by (rule sint_small) (use less assms in \<open>simp add: shape_def\<close>)
qed

lemma shape_insert:
  assumes sh: "shape tab" and n: "n = m\<lparr>hn_bucket := sint (bucket_from_khash tab (hn_khash m))\<rparr>"
    and tab': "tab' = tab\<lparr>ht_buckets := (ht_buckets tab)
        [unat (bucket_from_khash tab (hn_khash m)) :=
           n # ht_buckets tab ! unat (bucket_from_khash tab (hn_khash m))]\<rparr>"
  shows "shape tab'" and "contents tab' = add_mset (unplaced m) (contents tab)"
proof -
  note p = shape_place[OF sh, of "hn_khash m"]
  have "placed tab (unat (bucket_from_khash tab (hn_khash m))) n"
    using p by (simp add: placed_def n bucket_from_khash_def)
  then have "placed tab i x"
    if "i < length (ht_buckets tab)" "x \<in> set (ht_buckets tab' ! i)" for i x
    using that sh by (cases "i = unat (bucket_from_khash tab (hn_khash m))")
      (auto simp: shape_def tab')
  then show "shape tab'"
    using sh by (simp add: shape_def tab' placed_def)
  show "contents tab' = add_mset (unplaced m) (contents tab)"
    by (simp add: contents_def tab' mset_concat_insert[OF p(1)] n)
qed

lemma rehash_nodes:
  "shape tab \<Longrightarrow> tab' = foldl rehash_node tab ns \<Longrightarrow>
   shape tab' \<and> contents tab' = contents tab + image_mset unplaced (mset ns) \<and>
   ht_self tab' = ht_self tab \<and> ht_block tab' = ht_block tab \<and> ht_hash tab' = ht_hash tab \<and>
   ht_cmp tab' = ht_cmp tab \<and> ht_count tab' = ht_count tab \<and> ht_bcount tab' = ht_bcount tab"
proof (induction ns arbitrary: tab)
  case (Cons n ns)
  note ins = shape_insert[OF Cons.prems(1) refl refl, of n]
  have r: "rehash_node tab n = tab\<lparr>ht_buckets := (ht_buckets tab)
        [unat (bucket_from_khash tab (hn_khash n)) :=
           n\<lparr>hn_bucket := sint (bucket_from_khash tab (hn_khash n))\<rparr> #
           ht_buckets tab ! unat (bucket_from_khash tab (hn_khash n))]\<rparr>"
    by (simp add: rehash_node_def Let_def)
  have "shape (rehash_node tab n)" and "contents (rehash_node tab n) = add_mset (unplaced n) (contents tab)"
    unfolding r by (rule ins)+
  then show ?case using Cons.IH[of "rehash_node tab n"] Cons.prems(2)
    by (simp add: r)
qed simp

definition keys_ok ::
  "('k \<Rightarrow> u32) \<Rightarrow> ('k \<Rightarrow> 'k \<Rightarrow> int) \<Rightarrow> ('k, 'v, 's) hnode multiset \<Rightarrow> bool" where
  "keys_ok hash cmp M \<longleftrightarrow>
     (\<forall>n. n \<in># M \<longrightarrow> hn_khash n = hash (hn_key n)) \<and>
     (\<forall>k. size {#n \<in># M. cmp k (hn_key n) = 0#} \<le> 1)"

definition ht_owned :: "('k, 'v, 's) htable \<Rightarrow> addr multiset" where
  "ht_owned tab = add_mset (ht_self tab) (add_mset (ht_block tab) (image_mset hn_self (contents tab)))"

definition neutral_cleaner :: "('k, 'v, 'z mem_scheme) ls_htable_cleanfunc option \<Rightarrow> bool" where
  "neutral_cleaner c \<longleftrightarrow>
     (\<forall>f r d k v s. c = Some f \<longrightarrow> blocks (f r d k v s) = blocks s \<and> faults (f r d k v s) = faults s \<and>
        next_addr s \<le> next_addr (f r d k v s))"

definition ht_inv ::
  "(addr \<Rightarrow> u8 option list option) \<Rightarrow> nat \<Rightarrow> ('k, 'v, 'z mem_scheme) htable \<Rightarrow> 'z mem_scheme \<Rightarrow> bool" where
  "ht_inv B k tab m \<longleftrightarrow>
     owns B k (ht_owned tab) m \<and> shape tab \<and> keys_ok (ht_hash tab) (ht_cmp tab) (contents tab) \<and>
     unat (ht_count tab) = size (contents tab) \<and>
     (\<forall>n. n \<in># contents tab \<longrightarrow> neutral_cleaner (hn_cleaner n))"

lemma call_cleaner_owns:
  "neutral_cleaner c \<Longrightarrow> owns B k M m \<Longrightarrow> owns B k M (call_cleaner c r d key val m)"
  by (cases c) (auto simp: call_cleaner_def neutral_cleaner_def intro: owns_cong)

lemma selves_contents: "mset (map hn_self (concat (ht_buckets tab))) = image_mset hn_self (contents tab)"
  by (simp add: contents_def multiset.map_comp comp_def)

lemma selves_distinct:
  "owns B k (ht_owned tab) m \<Longrightarrow> distinct (map hn_self (concat (ht_buckets tab)))"
proof -
  assume "owns B k (ht_owned tab) m"
  then have le: "count (ht_owned tab) a \<le> 1" for a by (simp add: owns_def)
  have "count (image_mset hn_self (contents tab)) a \<le> count (ht_owned tab) a" for a
    by (simp add: ht_owned_def)
  then have "count (image_mset hn_self (contents tab)) a \<le> 1" for a
    using le order_trans by blast
  then show ?thesis by (intro distinct_if_count_le1) (simp only: selves_contents)
qed

text \<open>Releasing all nodes.\<close>

lemma clean_chain_owns:
  "owns B k (mset (map hn_self ns) + M) m \<Longrightarrow> \<forall>n \<in> set ns. neutral_cleaner (hn_cleaner n) \<Longrightarrow>
   owns B k M (clean_chain ns m)"
  by (induction ns arbitrary: m) (auto intro!: owns_free call_cleaner_owns)

lemma clean_chain_append: "clean_chain (xs @ ys) m = clean_chain ys (clean_chain xs m)"
  by (induction xs arbitrary: m) auto

lemma clean_buckets_concat: "clean_buckets bs m = clean_chain (concat bs) m"
  by (induction bs arbitrary: m) (auto simp: clean_chain_append)

lemma clean_all_owns:
  assumes "ht_inv B k tab m"
  shows "owns B k {#ht_self tab, ht_block tab#}
           (clean_buckets (take (unat (ht_bcount tab)) (ht_buckets tab)) m)"
proof -
  have len: "take (unat (ht_bcount tab)) (ht_buckets tab) = ht_buckets tab"
    using assms by (simp add: ht_inv_def shape_def)
  have "neutral_cleaner (hn_cleaner n)" if "n \<in> set (concat (ht_buckets tab))" for n
  proof -
    have "unplaced n \<in># contents tab" using that by (auto simp: contents_def)
    then show ?thesis using assms unfolding ht_inv_def by fastforce
  qed
  moreover have "owns B k (mset (map hn_self (concat (ht_buckets tab))) + {#ht_self tab, ht_block tab#}) m"
    using assms by (simp add: ht_inv_def ht_owned_def contents_def multiset.map_comp comp_def add_mset_commute)
  ultimately show ?thesis unfolding clean_buckets_concat len by (intro clean_chain_owns) auto
qed

lemma ls_htable_destroy_owns:
  assumes "ht_inv B k tab m"
  shows "owns B k {#} (ls_htable_destroy tab m)"
  using clean_all_owns[OF assms] unfolding ls_htable_destroy_def
  by (intro owns_free) (simp add: add_mset_commute)

lemma ls_htable_create_owns:
  fixes m :: "'z mem_scheme" and res :: "errcode + ('k, 'v, 'z mem_scheme) htable"
  assumes o: "owns B k M m" and b: "buckets < 2 ^ 30" and r: "ls_htable_create buckets hash cmp m = (res, m')"
  shows "case res of
      Inl e \<Rightarrow> e = LS_ERR_NO_MEMORY \<and> owns B k M m'
    | Inr tab \<Rightarrow> owns B k (ht_owned tab + M) m' \<and> shape tab \<and> contents tab = {#} \<and> ht_count tab = 0 \<and>
        ht_hash tab = hash \<and> ht_cmp tab = cmp"
proof -
  let ?n = "if buckets \<le> 0 then HASH_NUM_BUCKETS else buckets"
  have n: "0 < ?n" "?n < 2 ^ 30" using b by (auto simp: HASH_NUM_BUCKETS_def)
  have "uint (word_of_int ?n :: u32) = ?n" using n by (simp add: uint_word_of_int)
  then have un: "unat (word_of_int ?n :: u32) = nat ?n" by (simp add: unat_eq_nat_uint)
  obtain self m1 where c1: "ls_data_calloc 1 sizeof_htable m = (self, m1)" by fastforce
  show ?thesis
  proof (cases self)
    case None
    then show ?thesis using r c1 owns_calloc_None[OF o] by (auto simp: ls_htable_create_def Let_def)
  next
    case (Some self')
    have o1: "owns B k (add_mset self' M) m1" using owns_calloc[OF o] c1 Some by simp
    obtain block m2 where c2: "ls_data_calloc (nat ?n) sizeof_ptr m1 = (block, m2)" by fastforce
    show ?thesis
    proof (cases block)
      case None
      then have "owns B k M (ls_data_free (Some self') m2)" using owns_calloc_None[OF o1] c2 by (intro owns_free) simp
      then show ?thesis using r c1 c2 Some None by (auto simp: ls_htable_create_def Let_def)
    next
      case (Some block)
      define tab where "tab = \<lparr>ht_self = self', ht_hash = hash, ht_cmp = cmp, ht_count = 0,
                  ht_bcount = word_of_int ?n, ht_resize_count = 0, ht_block = block,
                  ht_buckets = replicate (nat ?n) ([] :: ('k, 'v, 'z mem_scheme) hnode list)\<rparr>"
      have t: "res = Inr tab" "m' = m2" using r c1 c2 \<open>self = Some self'\<close> Some
        by (auto simp: ls_htable_create_def Let_def tab_def)
      have "contents tab = {#}" by (simp add: contents_def tab_def)
      moreover have "owns B k (add_mset block (add_mset self' M)) m2" using owns_calloc[OF o1] c2 Some by simp
      moreover have "shape tab" using n un by (simp add: shape_def tab_def)
      ultimately show ?thesis by (simp add: t ht_owned_def tab_def add_mset_commute)
    qed
  qed
qed

lemma ls_htable_create_ok:
  assumes wf: "mem_wf m" and b: "buckets < 2 ^ 30"
  shows "ls_htable_create buckets hash cmp m = (Inr tab, m') \<Longrightarrow>
           ht_inv (blocks m) (faults m) tab m' \<and> contents tab = {#} \<and> ht_hash tab = hash \<and> ht_cmp tab = cmp"
    and "ls_htable_create buckets hash cmp m = (Inl e, m') \<Longrightarrow>
           e = LS_ERR_NO_MEMORY \<and> blocks m' = blocks m \<and> faults m' = faults m"
  using ls_htable_create_owns[OF owns_start[OF wf] b, of hash cmp] owns_empty
  by (fastforce simp: ht_inv_def keys_ok_def)+

section \<open>Lookups\<close>

definition ht_view :: "('k, 'v, 's) htable \<Rightarrow> 'k \<Rightarrow> 'v option option" where
  "ht_view tab k = map_option hn_value (ls_htable_get_node tab k)"

definition hash_of :: "('k \<Rightarrow> u32) \<Rightarrow> ('k \<Rightarrow> 'k \<Rightarrow> int) \<Rightarrow> ('k, 'v, 's) htable \<Rightarrow> bool" where
  "hash_of hash cmp tab \<longleftrightarrow> ht_hash tab = hash \<and> ht_cmp tab = cmp"

lemma find_node_bucket:
  assumes "shape tab"
  shows "find_node tab key (sint (bucket_from_khash tab (ht_hash tab key))) (ht_hash tab key) =
         find_node tab key (-1) 0"
  using shape_place(2)[OF assms] by (simp add: find_node_def Let_def)

lemma find_Some_in: "find P xs = Some x \<Longrightarrow> x \<in> set xs \<and> P x"
  by (induction xs) (auto split: if_splits)

lemma chain_in: "n \<in> set (chain tab b) \<Longrightarrow> n \<in> set (concat (ht_buckets tab))"
  by (auto simp: chain_def split: if_splits intro: nth_mem)

lemma find_node_Some:
  "find_node tab key (-1) 0 = Some n \<Longrightarrow>
   n \<in> set (concat (ht_buckets tab)) \<and> ht_cmp tab key (hn_key n) = 0"
  unfolding find_node_def Let_def
  by (auto dest!: find_Some_in chain_in split: if_splits)

lemma in_contents: "n \<in> set (concat (ht_buckets tab)) \<Longrightarrow> unplaced n \<in># contents tab"
  by (auto simp: contents_def)

lemma contents_in: "n \<in># contents tab \<Longrightarrow> \<exists>n' \<in> set (concat (ht_buckets tab)). n = unplaced n'"
  by (auto simp: contents_def)

lemma shape_bucket:
  "shape tab \<Longrightarrow> n \<in> set (concat (ht_buckets tab)) \<Longrightarrow>
   n \<in> set (chain tab (hn_bucket n)) \<and> nat (hn_bucket n) < length (ht_buckets tab) \<and> 0 \<le> hn_bucket n \<and>
   hn_bucket n = sint (bucket_from_khash tab (hn_khash n))"
proof -
  assume sh: "shape tab" and n: "n \<in> set (concat (ht_buckets tab))"
  then obtain b where "b \<in> set (ht_buckets tab)" "n \<in> set b" by auto
  then obtain i where i: "i < length (ht_buckets tab)" "n \<in> set (ht_buckets tab ! i)"
    by (metis in_set_conv_nth)
  then have "placed tab i n" using sh by (simp add: shape_def)
  then show ?thesis using i shape_place(2)[OF sh, of "hn_khash n"]
    by (simp add: placed_def chain_def bucket_from_khash_def)
qed

text \<open>The form of a table, whatever its cleaners do and whoever owns its blocks.\<close>

definition ht_form :: "('k \<Rightarrow> u32) \<Rightarrow> ('k \<Rightarrow> 'k \<Rightarrow> int) \<Rightarrow> ('k, 'v, 's) htable \<Rightarrow> bool" where
  "ht_form hash cmp tab \<longleftrightarrow>
     shape tab \<and> hash_of hash cmp tab \<and> keys_ok hash cmp (contents tab) \<and>
     distinct (map hn_self (concat (ht_buckets tab))) \<and> unat (ht_count tab) = size (contents tab)"

context hash_key
begin

lemma find_node_iff:
  assumes sh: "shape tab" and ok: "keys_ok hash cmp (contents tab)" and h: "hash_of hash cmp tab"
    and n: "n \<in> set (concat (ht_buckets tab))" and c: "cmp key (hn_key n) = 0"
  shows "\<exists>n'. find_node tab key (-1) 0 = Some n' \<and> unplaced n' = unplaced n"
proof -
  have kh: "hn_khash n = hash key"
    using ok in_contents[OF n] hash_cmp[OF c] by (auto simp: keys_ok_def)
  have "n \<in> set (chain tab (sint (bucket_from_khash tab (hash key))))"
    using shape_bucket[OF sh n] unfolding kh by metis
  then obtain n' where f: "find_node tab key (-1) 0 = Some n'"
    using c kh h by (cases "find_node tab key (-1) 0")
      (auto simp: find_node_def Let_def find_None_iff hash_of_def)
  then have "n' \<in> set (concat (ht_buckets tab))" "cmp key (hn_key n') = 0"
    using find_node_Some[OF f] h by (auto simp: hash_of_def)
  then have "unplaced n' = unplaced n"
    using ok c in_contents[OF n] in_contents[of n']
    by (intro filter_mset_le1_eq[where P = "\<lambda>x. cmp key (hn_key x) = 0"]) (auto simp: keys_ok_def)
  then show ?thesis using f by blast
qed

lemma form_view:
  assumes "ht_form hash cmp tab"
  shows "ht_view tab key = Some v \<longleftrightarrow> (\<exists>n. n \<in># contents tab \<and> cmp key (hn_key n) = 0 \<and> hn_value n = v)"
proof
  assume "ht_view tab key = Some v"
  then obtain n where n: "find_node tab key (-1) 0 = Some n" "v = hn_value n"
    by (auto simp: ht_view_def ls_htable_get_node_def)
  then show "\<exists>n. n \<in># contents tab \<and> cmp key (hn_key n) = 0 \<and> hn_value n = v"
    using find_node_Some[OF n(1)] in_contents[of n] assms
    by (intro exI[of _ "unplaced n"]) (auto simp: ht_form_def hash_of_def)
next
  assume "\<exists>n. n \<in># contents tab \<and> cmp key (hn_key n) = 0 \<and> hn_value n = v"
  then obtain n where n: "n \<in> set (concat (ht_buckets tab))" "cmp key (hn_key n) = 0" "hn_value n = v"
    using contents_in[of _ tab] by fastforce
  obtain n' where "find_node tab key (-1) 0 = Some n'" "unplaced n' = unplaced n"
    using find_node_iff[OF _ _ _ n(1,2)] assms by (auto simp: ht_form_def)
  then show "ht_view tab key = Some v"
    using n(3) unplaced_simps(3) by (metis ht_view_def ls_htable_get_node_def option.map(2))
qed

lemma form_view_eqI:
  assumes "ht_form hash cmp tab"
    and "\<And>v. f key = Some v \<longleftrightarrow> (\<exists>n. n \<in># contents tab \<and> cmp key (hn_key n) = 0 \<and> hn_value n = v)"
  shows "ht_view tab key = f key"
proof -
  have "f key = Some v \<longleftrightarrow> ht_view tab key = Some v" for v
    using assms(2) form_view[OF assms(1)] by simp
  then show ?thesis by (metis not_Some_eq)
qed

lemma inv_form: "ht_inv B k tab m \<Longrightarrow> hash_of hash cmp tab \<Longrightarrow> ht_form hash cmp tab"
  by (auto simp: ht_inv_def ht_form_def hash_of_def intro: selves_distinct)

lemmas view_Some = form_view[OF inv_form]

lemma view_None:
  assumes "ht_inv B k tab m" and "hash_of hash cmp tab"
  shows "ht_view tab key = None \<longleftrightarrow> (\<forall>n. n \<in># contents tab \<longrightarrow> cmp key (hn_key n) \<noteq> 0)"
  using view_Some[OF assms] by (metis not_Some_eq)

lemmas view_eqI = form_view_eqI[OF inv_form]

text \<open>A view is determined by the contents.\<close>

lemma view_contents:
  assumes "ht_inv B k tab m" and "hash_of hash cmp tab" and "ht_inv B' k' tab' m'"
    and "hash_of hash cmp tab'" and "contents tab' = contents tab"
  shows "ht_view tab' = ht_view tab"
  by (rule ext, rule view_eqI[OF assms(3,4)]) (simp add: view_Some[OF assms(1,2)] assms(5))

end


section \<open>Operations\<close>

text \<open>What a routine that only allocates and frees keeps.\<close>

definition mem_grows :: "'z mem_scheme \<Rightarrow> 'z mem_scheme \<Rightarrow> bool" where
  "mem_grows m m' \<longleftrightarrow> next_addr m \<le> next_addr m' \<and> malloc_func m' = malloc_func m \<and> mem.more m' = mem.more m"

lemma mem_grows_refl [simp]: "mem_grows m m"
  by (simp add: mem_grows_def)

lemma mem_grows_trans: "mem_grows a b \<Longrightarrow> mem_grows b c \<Longrightarrow> mem_grows a c"
  by (simp add: mem_grows_def)

lemma mem_grows_free: "mem_grows m (ls_data_free p m)"
  by (auto simp: mem_grows_def ls_data_free_def fault_def split: option.split)

lemma malloc_grows:
  "(\<And>n k. malloc_func m n k) \<Longrightarrow> \<exists>m'. ls_data_malloc sz m = (Some (next_addr m), m') \<and> mem_grows m m' \<and> next_addr m < next_addr m'"
  by (auto simp: ls_data_malloc_def Let_def mem_grows_def)

lemma calloc_grows:
  assumes "\<And>n k. malloc_func m n k"
  shows "\<exists>m'. ls_data_calloc k sz m = (Some (next_addr m), m') \<and> mem_grows m m' \<and> next_addr m < next_addr m'"
proof -
  have "fst (ls_data_calloc k sz m) \<noteq> None"
    using assms by (simp add: ls_data_calloc_def ls_data_malloc_def Let_def)
  then obtain a m' where "ls_data_calloc k sz m = (Some a, m')" by (cases "ls_data_calloc k sz m") auto
  then show ?thesis using ls_data_calloc_Some[of k sz m a m'] by (simp add: mem_grows_def)
qed

lemma malloc_mem_grows: "ls_data_malloc sz m = (p, m') \<Longrightarrow> mem_grows m m'"
  by (cases p) (auto simp: mem_grows_def dest: ls_data_malloc_None ls_data_malloc_Some)

lemma calloc_mem_grows: "ls_data_calloc k sz m = (p, m') \<Longrightarrow> mem_grows m m'"
  by (cases p) (auto simp: mem_grows_def dest: ls_data_calloc_None ls_data_calloc_Some)

lemma create_mem_grows: "ls_htable_create b h c m = (r, m') \<Longrightarrow> mem_grows m m'"
  by (auto simp: ls_htable_create_def Let_def split: prod.splits option.splits
      dest!: calloc_mem_grows intro: mem_grows_trans mem_grows_trans[OF _ mem_grows_free])

lemma resize_form:
  assumes b: "0 < unat buckets" "unat buckets < 2 ^ 30"
    and r: "resize_hashtable tab buckets m = (Inr tab', m')"
  shows "\<exists>block m1. ls_data_calloc (unat buckets) sizeof_ptr m = (Some block, m1) \<and>
           m' = ls_data_free (Some (ht_block tab)) m1 \<and> ht_block tab' = block \<and> ht_self tab' = ht_self tab"
    "shape tab'" "contents tab' = contents tab" "ht_hash tab' = ht_hash tab" "ht_cmp tab' = ht_cmp tab"
    "ht_count tab' = ht_count tab"
proof -
  obtain block m1 where c: "ls_data_calloc (unat buckets) sizeof_ptr m = (Some block, m1)"
    and m': "m' = ls_data_free (Some (ht_block tab)) m1"
    and tab': "tab' = foldl rehash_node (tab\<lparr>ht_block := block, ht_buckets := replicate (unat buckets) [],
        ht_bcount := buckets, ht_resize_count := ht_resize_count tab + 1\<rparr>) (concat (ht_buckets tab))"
    (is "_ = foldl rehash_node ?tab1 ?ns")
    using r by (auto simp: resize_hashtable_def Let_def split: prod.splits option.splits)
  have "shape ?tab1" using b by (simp add: shape_def)
  note re = rehash_nodes[OF this tab']
  show "\<exists>block m1. ls_data_calloc (unat buckets) sizeof_ptr m = (Some block, m1) \<and>
      m' = ls_data_free (Some (ht_block tab)) m1 \<and> ht_block tab' = block \<and> ht_self tab' = ht_self tab"
    using c m' re by simp
  show "shape tab'" "contents tab' = contents tab" "ht_hash tab' = ht_hash tab" "ht_cmp tab' = ht_cmp tab"
    "ht_count tab' = ht_count tab"
    using re by (simp_all add: contents_def)
qed

lemma same_contents_selves:
  assumes "contents tab' = contents tab" "distinct (map hn_self (concat (ht_buckets tab)))"
  shows "distinct (map hn_self (concat (ht_buckets tab')))"
proof -
  have "mset (map hn_self (concat (ht_buckets tab'))) = mset (map hn_self (concat (ht_buckets tab)))"
    using assms(1) by (simp only: selves_contents)
  then show ?thesis using assms(2) mset_eq_imp_distinct_iff by blast
qed

text \<open>The size a table grows to.\<close>

lemma grown_size:
  assumes "shape tab" "unat (ht_count tab) < 2 ^ 28" "ht_count tab + 1 > drop_bit 2 (ht_bcount tab * 3)"
  shows "0 < unat (push_bit 1 (ht_bcount tab) + 1)" "unat (push_bit 1 (ht_bcount tab) + 1) < 2 ^ 30"
proof -
  have b: "unat (ht_bcount tab) < 2 ^ 30" using assms(1) by (simp add: shape_def)
  have "unat (ht_bcount tab * 3) = unat (ht_bcount tab) * 3"
    using b by (subst unat_mult_lem[THEN iffD1]) simp_all
  then have "unat (drop_bit 2 (ht_bcount tab * 3)) = unat (ht_bcount tab) * 3 div 4"
    by (simp add: drop_bit_eq_div unat_div)
  moreover have "unat (ht_count tab + 1) = unat (ht_count tab) + 1"
    using assms(2) by (subst unat_add_lem[THEN iffD1]) simp_all
  ultimately have "unat (ht_bcount tab) * 3 div 4 < unat (ht_count tab) + 1"
    using assms(3) by (simp add: word_less_nat_alt)
  then have b29: "unat (ht_bcount tab) < 2 ^ 29 - 1" using assms(2) by simp
  have "push_bit 1 (ht_bcount tab) = ht_bcount tab * 2" by (simp add: push_bit_eq_mult)
  moreover have "unat (ht_bcount tab * 2) = unat (ht_bcount tab) * 2"
    using b by (subst unat_mult_lem[THEN iffD1]) simp_all
  ultimately have "unat (push_bit 1 (ht_bcount tab) + 1) = unat (ht_bcount tab) * 2 + 1"
    using b29 by (simp add: unat_add_lem[THEN iffD1])
  then show "0 < unat (push_bit 1 (ht_bcount tab) + 1)" "unat (push_bit 1 (ht_bcount tab) + 1) < 2 ^ 30"
    using b29 by simp_all
qed

text \<open>A key that is not in the table is put into it, or memory was missing.  The cleaners play no part.\<close>

lemma put_absent:
  assumes sh: "shape tab" and cnt: "unat (ht_count tab) = size (contents tab)" and size: "size (contents tab) < 2 ^ 28"
    and o: "owns B k (ht_owned tab + M) m" and none: "find_node tab key (-1) 0 = None"
    and r: "ls_htable_put tab key val cl m = (res, tab', m')"
  shows "shape tab' \<and> unat (ht_count tab') = size (contents tab') \<and> owns B k (ht_owned tab' + M) m' \<and>
    ht_hash tab' = ht_hash tab \<and> ht_cmp tab' = ht_cmp tab \<and> mem_grows m m' \<and>
    (case res of
       Inl e \<Rightarrow> e = LS_ERR_NO_MEMORY \<and> contents tab' = contents tab
     | Inr u \<Rightarrow> \<exists>self. contents tab' = add_mset \<lparr>hn_self = self, hn_key = key, hn_value = val, hn_bucket = 0,
                      hn_khash = ht_hash tab key, hn_cleaner = cl\<rparr> (contents tab))"
proof -
  have find: "find_node tab key (sint (bucket_from_khash tab (ht_hash tab key))) (ht_hash tab key) = None"
    using none find_node_bucket[OF sh] by simp
  let ?big = "ht_count tab + 1 > drop_bit 2 (ht_bcount tab * 3)"
  let ?b = "push_bit 1 (ht_bcount tab) + 1"
  obtain g m1 where g: "(if ?big then resize_hashtable tab ?b m else (Inr tab, m)) = (g, m1)" by fastforce
  show ?thesis
  proof (cases g)
    case (Inl e)
    then have c: "ls_data_calloc (unat ?b) sizeof_ptr m = (None, m1)" "e = LS_ERR_NO_MEMORY"
      using g by (auto simp: resize_hashtable_def Let_def split: if_splits prod.splits option.splits)
    have "res = Inl e \<and> tab' = tab \<and> m' = m1" using r find g Inl by (simp add: ls_htable_put_def Let_def)
    then show ?thesis using c sh cnt owns_calloc_None[OF o c(1)] calloc_mem_grows[OF c(1)] by simp
  next
    case (Inr t)
    have t: "shape t \<and> contents t = contents tab \<and> ht_hash t = ht_hash tab \<and> ht_cmp t = ht_cmp tab \<and>
        ht_count t = ht_count tab \<and> owns B k (ht_owned t + M) m1 \<and> mem_grows m m1"
    proof (cases ?big)
      case True
      have res: "resize_hashtable tab ?b m = (Inr t, m1)" using g Inr True by simp
      have "unat (ht_count tab) < 2 ^ 28" using cnt size by simp
      note re = resize_form[OF grown_size[OF sh this True] res]
      obtain block m0 where c: "ls_data_calloc (unat ?b) sizeof_ptr m = (Some block, m0)"
        "m1 = ls_data_free (Some (ht_block tab)) m0" "ht_block t = block" "ht_self t = ht_self tab"
        using re(1) by blast
      have "owns B k (ht_owned t + M) m1"
        unfolding c(2) using owns_calloc[OF o c(1)] re(3) c(3,4)
        by (intro owns_free) (simp add: ht_owned_def add_mset_commute)
      then show ?thesis using re mem_grows_trans[OF calloc_mem_grows[OF c(1)] mem_grows_free] c(2) by simp
    qed (use g Inr sh o in simp)
    obtain p m2 where p: "ls_data_malloc sizeof_hnode m1 = (p, m2)" by fastforce
    have grow: "mem_grows m m2" using t malloc_mem_grows[OF p] mem_grows_trans by blast
    show ?thesis
    proof (cases p)
      case None
      have "res = Inl LS_ERR_NO_MEMORY \<and> tab' = t \<and> m' = m2"
        using r find g Inr p None by (simp add: ls_htable_put_def Let_def)
      then show ?thesis using t p None cnt grow owns_malloc_None[of B k "ht_owned t + M" m1] by simp
    next
      case (Some self)
      let ?n = "\<lparr>hn_self = self, hn_key = key, hn_value = val,
        hn_bucket = sint (bucket_from_khash t (ht_hash tab key)), hn_khash = ht_hash tab key, hn_cleaner = cl\<rparr>"
      let ?u = "t\<lparr>ht_buckets := (ht_buckets t)[unat (bucket_from_khash t (ht_hash tab key)) :=
          ?n # ht_buckets t ! unat (bucket_from_khash t (ht_hash tab key))]\<rparr>"
      have tab': "tab' = ?u\<lparr>ht_count := ht_count t + 1\<rparr>" "res = Inr ()" "m' = m2"
        using r find g Inr p Some by (auto simp: ls_htable_put_def Let_def)
      have ins: "shape ?u" "contents ?u = add_mset (unplaced ?n) (contents t)"
        using shape_insert[of t ?n ?n ?u] t by simp_all
      have cont: "contents tab' = add_mset (unplaced ?n) (contents tab)"
        using ins(2) t by (simp add: tab' contents_def)
      have "unat (ht_count t + 1) = unat (ht_count t) + 1"
        using t cnt size by (subst unat_add_lem[THEN iffD1]) simp_all
      then have "unat (ht_count tab') = size (contents tab')" using t cnt unfolding cont by (simp add: tab')
      moreover have "shape tab'" using ins(1) by (simp add: shape_def tab' placed_def)
      moreover have "owns B k (ht_owned tab' + M) m'"
      proof -
        have "owns B k (ht_owned t + M) m1" and tc: "contents t = contents tab" using t by simp_all
        from owns_malloc[OF this(1) p[unfolded Some]] show ?thesis
          unfolding ht_owned_def cont tc by (simp add: tab' add_mset_commute)
      qed
      moreover have "ht_hash tab' = ht_hash tab" "ht_cmp tab' = ht_cmp tab" using t by (simp_all add: tab'(1))
      ultimately show ?thesis using grow tab'(2,3) cont by (auto simp: unplaced_def)
    qed
  qed
qed

lemma mset_update_unique:
  "distinct (map hn_self xs) \<Longrightarrow> n \<in> set xs \<Longrightarrow>
   add_mset n (mset (map (\<lambda>x. if hn_self x = hn_self n then n' else x) xs)) = add_mset n' (mset xs)"
proof (induction xs)
  case (Cons x xs)
  show ?case
  proof (cases "n = x")
    case True
    with Cons.prems have "map (\<lambda>y. if hn_self y = hn_self n then n' else y) xs = xs"
      by (intro map_idI) (auto simp: image_iff)
    then show ?thesis using True by simp
  next
    case False
    then have "n \<in> set xs" "hn_self x \<noteq> hn_self n" using Cons.prems by auto
    then show ?thesis using Cons by (simp add: add_mset_commute)
  qed
qed simp

lemma set_node_contents:
  assumes "distinct (map hn_self (concat (ht_buckets tab)))" and "n \<in> set (concat (ht_buckets tab))"
    and "hn_self n' = hn_self n"
  shows "add_mset (unplaced n) (contents (set_node tab n')) = add_mset (unplaced n') (contents tab)"
proof -
  have "concat (ht_buckets (set_node tab n')) =
      map (\<lambda>x. if hn_self x = hn_self n then n' else x) (concat (ht_buckets tab))"
    by (simp add: set_node_def map_concat assms(3))
  then show ?thesis
    using arg_cong[OF mset_update_unique[OF assms(1,2), of n'], of "image_mset unplaced"]
    by (simp add: contents_def)
qed

lemma set_node_shape:
  assumes "shape tab" and d: "distinct (map hn_self (concat (ht_buckets tab)))"
    and n: "n \<in> set (concat (ht_buckets tab))"
    and "hn_self n' = hn_self n" "hn_bucket n' = hn_bucket n" "hn_khash n' = hn_khash n"
  shows "shape (set_node tab n')"
proof -
  have eq: "x = n" if "x \<in> set (concat (ht_buckets tab))" "hn_self x = hn_self n" for x
    using d n that by (auto simp: distinct_map inj_on_def)
  have "placed tab i (if hn_self x = hn_self n then n' else x)"
    if i: "i < length (ht_buckets tab)" "x \<in> set (ht_buckets tab ! i)" for i x
  proof -
    have p: "placed tab i x" using assms(1) i by (simp add: shape_def)
    have "x \<in> set (concat (ht_buckets tab))" using i nth_mem by fastforce
    then show ?thesis using p eq assms(5,6) by (auto simp: placed_def)
  qed
  then show ?thesis using assms(1,4) by (fastforce simp: shape_def set_node_def placed_def)
qed

context hash_key
begin

lemma keys_ok_same_key:
  "keys_ok hash cmp (add_mset n M) \<Longrightarrow> cmp (hn_key n) (hn_key n') = 0 \<Longrightarrow> hn_khash n' = hn_khash n \<Longrightarrow>
   keys_ok hash cmp (add_mset n' M)"
proof -
  assume ok: "keys_ok hash cmp (add_mset n M)" and c: "cmp (hn_key n) (hn_key n') = 0"
    and kh: "hn_khash n' = hn_khash n"
  have one: "size {#x \<in># add_mset n M. cmp k (hn_key x) = 0#} \<le> 1" for k
    using ok unfolding keys_ok_def by blast
  have h: "x \<in># add_mset n M \<Longrightarrow> hn_khash x = hash (hn_key x)" for x
    using ok unfolding keys_ok_def by blast
  have "hn_khash n' = hash (hn_key n')"
    unfolding kh hash_cmp[OF c, symmetric] by (rule h) simp
  moreover have "hn_khash x = hash (hn_key x)" if "x \<in># M" for x
    by (rule h) (simp add: that)
  moreover have "size {#x \<in># add_mset n' M. cmp k (hn_key x) = 0#} \<le> 1" for k
    using one[of k] cmp_cong2[OF c, of k] by (cases "cmp k (hn_key n') = 0") simp_all
  ultimately show ?thesis unfolding keys_ok_def by simp
qed

lemma keys_ok_new_key:
  assumes "keys_ok hash cmp M" and "\<forall>x. x \<in># M \<longrightarrow> cmp (hn_key n) (hn_key x) \<noteq> 0"
    and "hn_khash n = hash (hn_key n)"
  shows "keys_ok hash cmp (add_mset n M)"
proof -
  have "{#x \<in># M. cmp k (hn_key x) = 0#} = {#}" if "cmp k (hn_key n) = 0" for k
    using assms(2) that cmp_cong[OF that] by (auto simp: filter_mset_empty)
  then show ?thesis using assms(1,3) by (auto simp: keys_ok_def)
qed

lemma put_found:
  assumes inv: "ht_inv B k tab m" and h: "hash_of hash cmp tab" and cl: "neutral_cleaner cl"
    and f: "find_node tab key (-1) 0 = Some n"
    and r: "ls_htable_put tab key val cl m = (res, tab', m')"
  shows "res = Inr () \<and> ht_inv B k tab' m' \<and> hash_of hash cmp tab' \<and>
         size (contents tab') = size (contents tab) \<and>
         ht_view tab' = (\<lambda>k. if cmp k key = 0 then Some val else ht_view tab k)"
proof -
  let ?n' = "n\<lparr>hn_value := val, hn_key := key, hn_cleaner := cl\<rparr>"
  have sh: "shape tab" using inv by (simp add: ht_inv_def)
  have n: "n \<in> set (concat (ht_buckets tab))" "cmp key (hn_key n) = 0"
    using find_node_Some[OF f] h by (auto simp: hash_of_def)
  have res: "res = Inr ()" and tab': "tab' = set_node tab ?n'"
    and m': "m' = call_cleaner (hn_cleaner n) True (hn_key n \<noteq> key) (hn_key n) (hn_value n) m"
    using r f by (auto simp: ls_htable_put_def Let_def find_node_bucket[OF sh])
  have d: "distinct (map hn_self (concat (ht_buckets tab)))"
    using inv by (auto simp: ht_inv_def intro: selves_distinct)
  have c: "add_mset (unplaced n) (contents tab') = add_mset (unplaced ?n') (contents tab)"
    unfolding tab' by (rule set_node_contents[OF d n(1)]) simp
  obtain M where M: "contents tab = add_mset (unplaced n) M"
    using in_contents[OF n(1)] by (metis insert_DiffM)
  have M': "contents tab' = add_mset (unplaced ?n') M"
    using c[unfolded M add_mset_commute[of "unplaced ?n'" "unplaced n"]]
    by (simp only: add_mset_add_mset_same_iff)
  have fields: "ht_self tab' = ht_self tab" "ht_block tab' = ht_block tab" "ht_hash tab' = ht_hash tab"
    "ht_cmp tab' = ht_cmp tab" "ht_count tab' = ht_count tab"
    by (simp_all add: tab' set_node_def)
  have h': "hash_of hash cmp tab'" using h fields by (simp add: hash_of_def)
  have ko: "keys_ok hash cmp (contents tab')"
    unfolding M' by (rule keys_ok_same_key[of "unplaced n"])
      (use inv h n(2) cmp_sym in \<open>auto simp: ht_inv_def hash_of_def M\<close>)
  have ow: "ht_owned tab' = ht_owned tab" by (simp add: ht_owned_def fields M M')
  have "neutral_cleaner (hn_cleaner n)" using inv M by (auto simp: ht_inv_def)
  then have "owns B k (ht_owned tab') m'"
    unfolding m' ow using inv by (intro call_cleaner_owns) (simp_all add: ht_inv_def)
  moreover have "shape tab'"
    unfolding tab' by (rule set_node_shape[OF sh d n(1)]) simp_all
  ultimately have inv': "ht_inv B k tab' m'"
    using inv ko h h' cl by (auto simp: ht_inv_def fields M M' hash_of_def)
  have other: "\<not> (x \<in># M \<and> cmp key (hn_key x) = 0)" for x
  proof
    assume x: "x \<in># M \<and> cmp key (hn_key x) = 0"
    have "size {#y \<in># contents tab. cmp key (hn_key y) = 0#} \<le> 1"
      using inv h by (simp add: ht_inv_def keys_ok_def hash_of_def)
    then have "{#y \<in># M. cmp key (hn_key y) = 0#} = {#}" using n(2) by (simp add: M)
    then show False using x by (auto simp: filter_mset_empty)
  qed
  have "ht_view tab' x = (if cmp x key = 0 then Some val else ht_view tab x)" for x
  proof (rule view_eqI[OF inv' h'])
    fix v
    have "cmp x (hn_key n) = 0 \<longleftrightarrow> cmp x key = 0"
      using cmp_cong2[OF n(2)] by blast
    moreover have "cmp x key = 0 \<Longrightarrow> cmp x (hn_key y) = 0 \<longleftrightarrow> cmp key (hn_key y) = 0" for y
      using cmp_cong by blast
    ultimately show "((if cmp x key = 0 then Some val else ht_view tab x) = Some v) \<longleftrightarrow>
        (\<exists>n. n \<in># contents tab' \<and> cmp x (hn_key n) = 0 \<and> hn_value n = v)"
      using other by (auto simp: view_Some[OF inv h] M M')
  qed
  then show ?thesis using res inv' h' by (auto simp: M M')
qed


lemma insert_form:
  assumes form: "ht_form hash cmp tab"
    and none: "\<forall>n. n \<in># contents tab \<longrightarrow> cmp key (hn_key n) \<noteq> 0"
    and size: "size (contents tab) < 2 ^ 28" and self: "self \<notin># image_mset hn_self (contents tab)"
    and node: "n = \<lparr>hn_self = self, hn_key = key, hn_value = val,
        hn_bucket = sint (bucket_from_khash tab (hash key)), hn_khash = hash key, hn_cleaner = cl\<rparr>"
    and tab': "tab' = tab\<lparr>ht_buckets := (ht_buckets tab)[unat (bucket_from_khash tab (hash key)) :=
          n # ht_buckets tab ! unat (bucket_from_khash tab (hash key))],
        ht_count := ht_count tab + 1\<rparr>"
  shows "ht_form hash cmp tab'" "contents tab' = add_mset (unplaced n) (contents tab)"
    "ht_view tab' = (\<lambda>x. if cmp x key = 0 then Some val else ht_view tab x)"
proof -
  have sh: "shape tab" using form by (simp add: ht_form_def)
  have "n = n\<lparr>hn_bucket := sint (bucket_from_khash tab (hn_khash n))\<rparr>" by (simp add: node)
  note ins = shape_insert[OF sh this refl]
  have cont: "contents tab' = add_mset (unplaced n) (contents tab)"
    using ins(2) by (simp add: tab' contents_def node)
  have sh': "shape tab'" using ins(1) by (simp add: shape_def tab' placed_def node)
  have ko: "keys_ok hash cmp (contents tab')"
    unfolding cont by (rule keys_ok_new_key) (use form none in \<open>auto simp: ht_form_def node\<close>)
  have "mset (map hn_self (concat (ht_buckets tab'))) = mset (self # map hn_self (concat (ht_buckets tab)))"
    using selves_contents[of tab] selves_contents[of tab'] by (simp add: cont node)
  moreover have "self \<notin> set (map hn_self (concat (ht_buckets tab)))" using self selves_contents[of tab] by (metis set_mset_mset)
  ultimately have d: "distinct (map hn_self (concat (ht_buckets tab')))"
    using form mset_eq_imp_distinct_iff[of _ "self # map hn_self (concat (ht_buckets tab))"] by (simp add: ht_form_def)
  have cnt: "unat (ht_count tab) = size (contents tab)" using form by (simp add: ht_form_def)
  have "unat (ht_count tab + 1) = unat (ht_count tab) + 1"
    using cnt size by (subst unat_add_lem[THEN iffD1]) simp_all
  then have "unat (ht_count tab') = size (contents tab')"
    by (simp add: cnt cont) (simp add: tab' cnt)
  moreover have "hash_of hash cmp tab'" using form by (simp add: ht_form_def hash_of_def tab')
  ultimately show form': "ht_form hash cmp tab'" using sh' ko d by (simp add: ht_form_def)
  show "contents tab' = add_mset (unplaced n) (contents tab)" by (rule cont)
  have "ht_view tab' x = (if cmp x key = 0 then Some val else ht_view tab x)" for x
  proof (rule form_view_eqI[OF form'])
    fix v
    have "cmp x key = 0 \<Longrightarrow> n \<in># contents tab \<Longrightarrow> cmp x (hn_key n) \<noteq> 0" for n
      using none cmp_cong[of x key] by blast
    then show "((if cmp x key = 0 then Some val else ht_view tab x) = Some v) \<longleftrightarrow>
        (\<exists>n. n \<in># contents tab' \<and> cmp x (hn_key n) = 0 \<and> hn_value n = v)"
      by (auto simp: form_view[OF form] cont node)
  qed
  then show "ht_view tab' = (\<lambda>x. if cmp x key = 0 then Some val else ht_view tab x)" by blast
qed

lemma put_ok:
  assumes inv: "ht_inv B k tab m" and h: "hash_of hash cmp tab" and cl: "neutral_cleaner cl"
    and size: "size (contents tab) < 2 ^ 28"
    and r: "ls_htable_put tab key val cl m = (res, tab', m')"
  shows "ht_inv B k tab' m' \<and> hash_of hash cmp tab' \<and> size (contents tab') \<le> size (contents tab) + 1 \<and>
         (case res of
            Inr u \<Rightarrow> ht_view tab' = (\<lambda>x. if cmp x key = 0 then Some val else ht_view tab x)
          | Inl e \<Rightarrow> e = LS_ERR_NO_MEMORY \<and> ht_view tab' = ht_view tab)"
proof (cases "find_node tab key (-1) 0")
  case (Some n)
  then show ?thesis using put_found[OF inv h cl Some r] by simp
next
  case None
  have none: "\<forall>n. n \<in># contents tab \<longrightarrow> cmp key (hn_key n) \<noteq> 0"
    using view_None[OF inv h, of key] None by (simp add: ht_view_def ls_htable_get_node_def)
  have "owns B k (ht_owned tab + {#}) m" using inv by (simp add: ht_inv_def)
  note p = put_absent[OF _ _ size this None r]
  have h': "hash_of hash cmp tab'" using p h inv by (simp add: ht_inv_def hash_of_def)
  show ?thesis
  proof (cases res)
    case (Inl e)
    then have inv': "ht_inv B k tab' m'" using p h h' inv by (simp add: ht_inv_def hash_of_def)
    then show ?thesis using p Inl h' inv view_contents[OF inv h inv' h'] by (simp add: ht_inv_def)
  next
    case (Inr u)
    then obtain n where n: "contents tab' = add_mset n (contents tab)" "hn_key n = key" "hn_value n = val"
      "hn_khash n = hash key" "hn_cleaner n = cl"
      using p inv h by (fastforce simp: ht_inv_def hash_of_def)
    have "keys_ok hash cmp (contents tab')"
      unfolding n(1) by (rule keys_ok_new_key) (use inv h none n in \<open>auto simp: ht_inv_def hash_of_def\<close>)
    then have inv': "ht_inv B k tab' m'" using p h h' inv n cl by (auto simp: ht_inv_def hash_of_def)
    have "ht_view tab' x = (if cmp x key = 0 then Some val else ht_view tab x)" for x
    proof (rule view_eqI[OF inv' h'])
      fix v
      have "cmp x key = 0 \<Longrightarrow> y \<in># contents tab \<Longrightarrow> cmp x (hn_key y) \<noteq> 0" for y
        using none cmp_cong[of x key] by blast
      then show "((if cmp x key = 0 then Some val else ht_view tab x) = Some v) \<longleftrightarrow>
          (\<exists>n. n \<in># contents tab' \<and> cmp x (hn_key n) = 0 \<and> hn_value n = v)"
        by (auto simp: view_Some[OF inv h] n)
    qed
    then have "ht_view tab' = (\<lambda>x. if cmp x key = 0 then Some val else ht_view tab x)" by blast
    then show ?thesis using inv' h' Inr n by simp
  qed
qed

end

lemma unchain_Some:
  "distinct (map hn_self xs) \<Longrightarrow> n \<in> set xs \<Longrightarrow>
   \<exists>ps. unchain (hn_self n) xs = Some ps \<and> mset xs = add_mset n (mset ps) \<and> set ps \<subseteq> set xs"
proof (induction xs)
  case (Cons x xs)
  show ?case
  proof (cases "x = n")
    case False
    with Cons.prems have "n \<in> set xs" "hn_self x \<noteq> hn_self n" by (auto simp: image_iff)
    then show ?thesis using Cons by fastforce
  qed auto
qed simp

lemma distinct_map_concatD: "distinct (map f (concat bs)) \<Longrightarrow> b \<in> set bs \<Longrightarrow> distinct (map f b)"
  by (induction bs) auto

lemma shape_shrink:
  assumes "shape tab" and "i < length (ht_buckets tab)" and "set ps \<subseteq> set (ht_buckets tab ! i)"
    and "ht_buckets tab' = (ht_buckets tab)[i := ps]" and "ht_bcount tab' = ht_bcount tab"
  shows "shape tab'"
proof -
  have "placed tab' j x" if "j < length (ht_buckets tab)" "x \<in> set (ht_buckets tab' ! j)" for j x
    using that assms by (cases "j = i") (auto simp: shape_def placed_def subset_iff)
  then show ?thesis using assms(1,4,5) by (simp add: shape_def)
qed

context hash_key
begin

lemma remove_form:
  assumes form: "ht_form hash cmp tab" and f: "find_node tab key (-1) 0 = Some n"
    and r: "ls_htable_remove tab key m = (tab', m')"
  shows "ht_form hash cmp tab'" "contents tab = add_mset (unplaced n) (contents tab')"
    "m' = ls_data_free (Some (hn_self n)) (call_cleaner (hn_cleaner n) False True (hn_key n) (hn_value n) m)"
    "ht_self tab' = ht_self tab" "ht_block tab' = ht_block tab"
    "ht_view tab' = (\<lambda>x. if cmp x key = 0 then None else ht_view tab x)"
proof -
  have sh: "shape tab" and h: "hash_of hash cmp tab"
    and d: "distinct (map hn_self (concat (ht_buckets tab)))"
    using form by (simp_all add: ht_form_def)
  have n: "n \<in> set (concat (ht_buckets tab))" "cmp key (hn_key n) = 0"
    using find_node_Some[OF f] h by (auto simp: hash_of_def)
  let ?i = "nat (hn_bucket n)"
  have i: "n \<in> set (chain tab (hn_bucket n))" "?i < length (ht_buckets tab)"
    using shape_bucket[OF sh n(1)] by auto
  then have ch: "chain tab (hn_bucket n) = ht_buckets tab ! ?i" by (simp add: chain_def)
  have "distinct (map hn_self (ht_buckets tab ! ?i))" using distinct_map_concatD[OF d] i(2) by simp
  then obtain ps where ps: "unchain (hn_self n) (chain tab (hn_bucket n)) = Some ps"
    "mset (ht_buckets tab ! ?i) = add_mset n (mset ps)" "set ps \<subseteq> set (ht_buckets tab ! ?i)"
    using unchain_Some i(1) unfolding ch by blast
  have tab': "tab' = tab\<lparr>ht_buckets := (ht_buckets tab)[?i := ps], ht_count := ht_count tab - 1\<rparr>"
    and m': "m' = ls_data_free (Some (hn_self n))
        (call_cleaner (hn_cleaner n) False True (hn_key n) (hn_value n) m)"
    using r f ps(1) by (auto simp: ls_htable_remove_def ls_htable_remove_node_def Let_def)
  have all_nodes: "mset (concat (ht_buckets tab)) = add_mset n (mset (concat (ht_buckets tab')))"
    using mset_concat_replace[OF i(2) ps(2)] by (simp add: tab')
  then have cont: "contents tab = add_mset (unplaced n) (contents tab')" by (simp add: contents_def)
  have "mset (map hn_self (concat (ht_buckets tab))) = add_mset (hn_self n) (mset (map hn_self (concat (ht_buckets tab'))))"
    using all_nodes by simp
  then have d': "distinct (map hn_self (concat (ht_buckets tab')))"
    using d mset_eq_imp_distinct_iff[of "map hn_self (concat (ht_buckets tab))" "hn_self n # map hn_self (concat (ht_buckets tab'))"]
    by simp
  have sh': "shape tab'" by (rule shape_shrink[OF sh i(2) ps(3)]) (simp_all add: tab')
  have cnt: "unat (ht_count tab) = Suc (size (contents tab'))" using form by (simp add: ht_form_def cont)
  then have "unat (ht_count tab - 1) = unat (ht_count tab) - 1" by (intro unat_minus_one) auto
  then have cnt': "unat (ht_count tab') = size (contents tab')" using cnt by (simp add: tab')
  have h': "hash_of hash cmp tab'" using h by (simp add: hash_of_def tab')
  have all: "size {#x \<in># contents tab. cmp y (hn_key x) = 0#} \<le> 1" for y
    using form by (simp add: ht_form_def keys_ok_def)
  have "size {#x \<in># contents tab'. cmp y (hn_key x) = 0#} \<le> 1" for y
    by (rule order_trans[OF _ all[of y]]) (simp add: cont)
  then have form': "ht_form hash cmp tab'"
    using form sh' cnt' h' d' by (auto simp: ht_form_def keys_ok_def cont)
  have only: "cmp y (hn_key x) \<noteq> 0" if "x \<in># contents tab'" "cmp y key = 0" for x y
  proof
    assume x: "cmp y (hn_key x) = 0"
    have "cmp y (hn_key n) = 0" using n(2) that(2) cmp_trans by blast
    then have "{#x \<in># contents tab'. cmp y (hn_key x) = 0#} = {#}" using all[of y] by (simp add: cont)
    then show False using x that(1) by (simp add: filter_mset_empty)
  qed
  have "ht_view tab' x = (if cmp x key = 0 then None else ht_view tab x)" for x
  proof (rule form_view_eqI[OF form'])
    fix v
    have "cmp x (hn_key n) = 0 \<longleftrightarrow> cmp x key = 0" using cmp_cong2[OF n(2)] by blast
    then show "((if cmp x key = 0 then None else ht_view tab x) = Some v) \<longleftrightarrow>
        (\<exists>n. n \<in># contents tab' \<and> cmp x (hn_key n) = 0 \<and> hn_value n = v)"
      using only by (auto simp: form_view[OF form] cont)
  qed
  then show "ht_view tab' = (\<lambda>x. if cmp x key = 0 then None else ht_view tab x)" by blast
  show "ht_form hash cmp tab'" "contents tab = add_mset (unplaced n) (contents tab')"
    "m' = ls_data_free (Some (hn_self n)) (call_cleaner (hn_cleaner n) False True (hn_key n) (hn_value n) m)"
    by (rule form' cont m')+
  show "ht_self tab' = ht_self tab" "ht_block tab' = ht_block tab" by (simp_all add: tab')
qed

lemma remove_ok:
  assumes inv: "ht_inv B k tab m" and h: "hash_of hash cmp tab"
    and r: "ls_htable_remove tab key m = (tab', m')"
  shows "ht_inv B k tab' m' \<and> hash_of hash cmp tab' \<and> size (contents tab') \<le> size (contents tab) \<and>
         ht_view tab' = (\<lambda>x. if cmp x key = 0 then None else ht_view tab x)"
proof (cases "find_node tab key (-1) 0")
  case None
  have "ht_view tab x = None" if "cmp x key = 0" for x
    using None view_None[OF inv h] cmp_cong[OF that] by (auto simp: ht_view_def ls_htable_get_node_def)
  then show ?thesis using None r inv h by (auto simp: ls_htable_remove_def fun_eq_iff)
next
  case (Some n)
  note rem = remove_form[OF inv_form[OF inv h] Some r]
  have "neutral_cleaner (hn_cleaner n)" using inv rem(2) by (auto simp: ht_inv_def)
  moreover have "owns B k (add_mset (hn_self n) (ht_owned tab')) m"
    using inv by (simp add: ht_inv_def ht_owned_def rem add_mset_commute)
  ultimately have ow: "owns B k (ht_owned tab') m'"
    unfolding rem(3) by (intro owns_free call_cleaner_owns)
  then have "ht_inv B k tab' m'" using inv rem(1) by (auto simp: ht_inv_def ht_form_def hash_of_def rem(2))
  then show ?thesis using rem by (simp add: ht_form_def)
qed

lemma clear_ok:
  assumes inv: "ht_inv B k tab m" and h: "hash_of hash cmp tab"
    and r: "ls_htable_clear tab m = (tab', m')"
  shows "ht_inv B k tab' m' \<and> hash_of hash cmp tab' \<and> contents tab' = {#} \<and> ht_view tab' = (\<lambda>x. None)"
proof -
  have tab': "tab' = tab\<lparr>ht_buckets := map (\<lambda>b. []) (ht_buckets tab), ht_count := 0\<rparr>"
    and m': "m' = clean_buckets (take (unat (ht_bcount tab)) (ht_buckets tab)) m"
    using r by (simp_all add: ls_htable_clear_def)
  have "concat (map (\<lambda>b. []) bs) = []" for bs :: "('a, 'b, 'c mem_scheme) hnode list list"
    by (induction bs) auto
  then have cont: "contents tab' = {#}" by (simp add: contents_def tab')
  have "owns B k (ht_owned tab') m'"
    using clean_all_owns[OF inv] unfolding m' by (simp add: ht_owned_def cont) (simp add: tab')
  moreover have "shape tab'" using inv by (simp add: ht_inv_def shape_def tab')
  ultimately have inv': "ht_inv B k tab' m'" by (simp add: ht_inv_def cont keys_ok_def) (simp add: tab')
  have h': "hash_of hash cmp tab'" using h by (simp add: hash_of_def tab')
  have "ht_view tab' x = None" for x using view_None[OF inv' h'] cont by simp
  then show ?thesis using inv' h' cont by auto
qed

end

context hash_key
begin

text \<open>With memory available, a key that is not in the table is put into it.\<close>

lemma put_new_form:
  assumes form: "ht_form hash cmp tab" and below: "\<forall>n \<in># contents tab. hn_self n < next_addr m"
    and new: "ht_view tab key = None" and size: "size (contents tab) < 2 ^ 28"
    and mem: "\<And>n k. malloc_func m n k"
  shows "\<exists>tab' m' n. ls_htable_put tab key val cl m = (Inr (), tab', m') \<and> ht_form hash cmp tab' \<and>
    contents tab' = add_mset n (contents tab) \<and> hn_self n < next_addr m' \<and> hn_key n = key \<and> hn_value n = val \<and>
    hn_cleaner n = cl \<and> mem_grows m m' \<and> ht_view tab' = (\<lambda>x. if cmp x key = 0 then Some val else ht_view tab x)"
proof -
  have sh: "shape tab" and khash: "ht_hash tab key = hash key" and cnt: "unat (ht_count tab) < 2 ^ 28"
    using form size by (simp_all add: ht_form_def hash_of_def)
  have none: "\<forall>n. n \<in># contents tab \<longrightarrow> cmp key (hn_key n) \<noteq> 0"
    using form_view[OF form, of key] new by fastforce
  have find: "find_node tab key (sint (bucket_from_khash tab (hash key))) (hash key) = None"
    using new find_node_bucket[OF sh, of key] by (simp add: khash ht_view_def ls_htable_get_node_def)
  let ?big = "ht_count tab + 1 > drop_bit 2 (ht_bcount tab * 3)"
  let ?b = "push_bit 1 (ht_bcount tab) + 1"
  have "\<exists>t m1. (if ?big then resize_hashtable tab ?b m else (Inr tab, m)) = (Inr t, m1) \<and>
      ht_form hash cmp t \<and> contents t = contents tab \<and> mem_grows m m1"
  proof (cases ?big)
    case True
    obtain m0 where c: "ls_data_calloc (unat ?b) sizeof_ptr m = (Some (next_addr m), m0)" "mem_grows m m0"
      using calloc_grows[OF mem, where k = "unat ?b" and sz = sizeof_ptr] by blast
    then obtain t m1 where r: "resize_hashtable tab ?b m = (Inr t, m1)" by (simp add: resize_hashtable_def Let_def)
    note re = resize_form[OF grown_size[OF sh cnt True] r]
    have "m1 = ls_data_free (Some (ht_block tab)) m0" using re(1) c(1) by simp
    then have "mem_grows m m1" using mem_grows_trans[OF c(2) mem_grows_free] by simp
    moreover have "ht_form hash cmp t"
      using form re same_contents_selves[OF re(3)] by (simp add: ht_form_def hash_of_def)
    ultimately show ?thesis using r re True by auto
  qed (use form in simp)
  then obtain t m1 where t: "(if ?big then resize_hashtable tab ?b m else (Inr tab, m)) = (Inr t, m1)"
    "ht_form hash cmp t" "contents t = contents tab" "mem_grows m m1" by blast
  have "malloc_func m1 n k" for n k using t(4) mem by (simp add: mem_grows_def)
  then obtain m2 where m2: "ls_data_malloc sizeof_hnode m1 = (Some (next_addr m1), m2)" "mem_grows m1 m2"
    "next_addr m1 < next_addr m2"
    using malloc_grows by blast
  let ?n = "\<lparr>hn_self = next_addr m1, hn_key = key, hn_value = val,
      hn_bucket = sint (bucket_from_khash t (hash key)), hn_khash = hash key, hn_cleaner = cl\<rparr>"
  let ?t = "t\<lparr>ht_buckets := (ht_buckets t)[unat (bucket_from_khash t (hash key)) :=
      ?n # ht_buckets t ! unat (bucket_from_khash t (hash key))], ht_count := ht_count t + 1\<rparr>"
  have "next_addr m \<le> next_addr m1" using t(4) by (simp add: mem_grows_def)
  then have fresh: "next_addr m1 \<notin># image_mset hn_self (contents t)" using below t(3) by auto
  note ins = insert_form[OF t(2) none[folded t(3)] size[folded t(3)] fresh refl refl, of val cl]
  have put: "ls_htable_put tab key val cl m = (Inr (), ?t, m2)"
    using find t(1) m2(1) by (simp add: ls_htable_put_def Let_def khash)
  have v: "ht_view t = ht_view tab"
    by (rule ext, rule form_view_eqI[OF t(2)]) (simp add: form_view[OF form] t(3))
  show ?thesis
    using put ins(1) ins(3)[unfolded v] ins(2) t(3) mem_grows_trans[OF t(4) m2(2)] m2(3)
    by (intro exI[of _ ?t] exI[of _ m2] exI[of _ "unplaced ?n"]) simp
qed

end

section \<open>Runs of operations\<close>

datatype ('k, 'v, 's) ht_op =
    Ht_put 'k "'v option" "('k, 'v, 's) ls_htable_cleanfunc option"
  | Ht_remove 'k
  | Ht_clear

text \<open>The outcome of each operation tells whether it returned \<open>true\<close>.\<close>

fun ht_step ::
  "('k, 'v, 'z mem_scheme) ht_op \<Rightarrow> ('k, 'v, 'z mem_scheme) htable \<times> 'z mem_scheme \<Rightarrow>
   bool \<times> ('k, 'v, 'z mem_scheme) htable \<times> 'z mem_scheme" where
  "ht_step (Ht_put key val cl) (t, m) =
     (case ls_htable_put t key val cl m of (r, t1, m1) \<Rightarrow> (\<not> isl r, t1, m1))"
| "ht_step (Ht_remove key) (t, m) = (True, ls_htable_remove t key m)"
| "ht_step Ht_clear (t, m) = (True, ls_htable_clear t m)"

fun ht_run ::
  "('k, 'v, 'z mem_scheme) ht_op list \<Rightarrow> ('k, 'v, 'z mem_scheme) htable \<times> 'z mem_scheme \<Rightarrow>
   bool list \<times> ('k, 'v, 'z mem_scheme) htable \<times> 'z mem_scheme" where
  "ht_run [] tm = ([], tm)"
| "ht_run (opn # ops) tm =
     (case ht_step opn tm of
        (b, tm1) \<Rightarrow> (case ht_run ops tm1 of (bs, tm2) \<Rightarrow> (b # bs, tm2)))"

text \<open>What a table promises: a finite map on keys up to the comparison function, changed by each
  operation that succeeded.\<close>

fun map_step ::
  "('k \<Rightarrow> 'k \<Rightarrow> int) \<Rightarrow> ('k, 'v, 's) ht_op \<times> bool \<Rightarrow> ('k \<Rightarrow> 'v option option) \<Rightarrow> ('k \<Rightarrow> 'v option option)" where
  "map_step cmp (Ht_put key val cl, ok) M =
     (if ok then (\<lambda>x. if cmp x key = 0 then Some val else M x) else M)"
| "map_step cmp (Ht_remove key, ok) M = (\<lambda>x. if cmp x key = 0 then None else M x)"
| "map_step cmp (Ht_clear, ok) M = (\<lambda>x. None)"

definition map_run ::
  "('k \<Rightarrow> 'k \<Rightarrow> int) \<Rightarrow> ('k, 'v, 's) ht_op list \<Rightarrow> bool list \<Rightarrow> ('k \<Rightarrow> 'v option option) \<Rightarrow>
   ('k \<Rightarrow> 'v option option)" where
  "map_run cmp ops oks M = fold (map_step cmp) (zip ops oks) M"

fun ht_op_ok :: "('k, 'v, 'z mem_scheme) ht_op \<Rightarrow> bool" where
  "ht_op_ok (Ht_put key val cl) = neutral_cleaner cl"
| "ht_op_ok opn = True"

context hash_key
begin

lemma step_ok:
  assumes inv: "ht_inv B k tab m" and h: "hash_of hash cmp tab" and ok: "ht_op_ok opn"
    and size: "size (contents tab) < 2 ^ 28" and r: "ht_step opn (tab, m) = (b, tab', m')"
  shows "ht_inv B k tab' m' \<and> hash_of hash cmp tab' \<and> size (contents tab') \<le> size (contents tab) + 1 \<and>
         ht_view tab' = map_step cmp (opn, b) (ht_view tab)"
proof (cases opn)
  case (Ht_put key val cl)
  then obtain res where p: "ls_htable_put tab key val cl m = (res, tab', m')" and b: "b = (\<not> isl res)"
    using r by (auto split: prod.splits)
  have cl: "neutral_cleaner cl" using ok Ht_put by simp
  show ?thesis using put_ok[OF inv h cl size p] b Ht_put by (cases res) auto
next
  case (Ht_remove key)
  then show ?thesis using remove_ok[OF inv h, of key] r by auto
next
  case Ht_clear
  then show ?thesis using clear_ok[OF inv h] r by auto
qed

lemma run_ok:
  assumes "ht_inv B k tab m" and "hash_of hash cmp tab" and "\<forall>opn \<in> set ops. ht_op_ok opn"
    and "size (contents tab) + length ops \<le> 2 ^ 28" and "ht_run ops (tab, m) = (oks, tab', m')"
  shows "ht_inv B k tab' m' \<and> hash_of hash cmp tab' \<and> ht_view tab' = map_run cmp ops oks (ht_view tab)"
  using assms
proof (induction ops arbitrary: tab m oks)
  case (Cons opn ops)
  obtain b t1 m1 where s: "ht_step opn (tab, m) = (b, t1, m1)" by (metis surj_pair)
  obtain bs where q: "ht_run ops (t1, m1) = (bs, tab', m')" and oks: "oks = b # bs"
    using Cons.prems(5) s by (auto split: prod.splits)
  have "ht_op_ok opn" "size (contents tab) < 2 ^ 28" using Cons.prems(3,4) by auto
  note st = step_ok[OF Cons.prems(1,2) this s]
  have "size (contents t1) + length ops \<le> 2 ^ 28" using st Cons.prems(4) by auto
  then show ?case using Cons.IH[OF _ _ _ _ q] st Cons.prems(3) by (auto simp: oks map_run_def)
qed (auto simp: map_run_def)

lemma view_empty:
  "ht_inv B k tab m \<Longrightarrow> hash_of hash cmp tab \<Longrightarrow> contents tab = {#} \<Longrightarrow> ht_view tab = (\<lambda>x. None)"
  using view_None by (metis (no_types, opaque_lifting) ext empty_iff set_mset_empty)

lemma distinct_keys:
  "\<forall>k. length (filter (\<lambda>n. cmp k (hn_key n) = 0) xs) \<le> 1 \<Longrightarrow>
   sorted_wrt (\<lambda>a b. cmp (hn_key a) (hn_key b) \<noteq> 0) xs"
proof (induction xs)
  case (Cons x xs)
  have "filter (\<lambda>n. cmp (hn_key x) (hn_key n) = 0) xs = []"
    using Cons.prems[rule_format, of "hn_key x"] by (simp add: cmp_refl)
  moreover have "length (filter (\<lambda>n. cmp k (hn_key n) = 0) xs) \<le> 1" for k
    using Cons.prems[rule_format, of k] by (simp split: if_splits)
  ultimately show ?case using Cons.IH by (simp add: filter_empty_conv)
qed simp

end

lemma walk_chain_all:
  "walk_chain (\<lambda>u k v. (1, u @ [(k, v)])) ns (True, c, u) =
     (True, c + of_nat (length ns), u @ map (\<lambda>n. (hn_key n, hn_value n)) ns)"
  by (induction ns arbitrary: c u) (auto simp: algebra_simps)

lemma walk_buckets_all:
  "walk_buckets (\<lambda>u k v. (1, u @ [(k, v)])) bs (True, c, u) =
     (True, c + of_nat (length (concat bs)), u @ map (\<lambda>n. (hn_key n, hn_value n)) (concat bs))"
  by (induction bs arbitrary: c u) (auto simp: walk_chain_all algebra_simps)

text \<open>C4: A hash table is a map.  After any sequence of insertions, removals and clearings on a new
  table, \<open>ls_htable_get\<close> returns for every key the value last stored under an equal key and not
  removed since, \<open>NULL\<close> when there is none; insertions that ran out of memory leave all keys as
  they were, also when they had already enlarged the table.\<close>

theorem ls_htable_is_map:
  assumes "hash_key hash cmp" and "mem_wf m" and "buckets < 2 ^ 30"
    and "ls_htable_create buckets hash cmp m = (Inr tab, m0)"
    and "\<forall>opn \<in> set ops. ht_op_ok opn" and "length ops \<le> 2 ^ 28"
    and "ht_run ops (tab, m0) = (oks, tab', m')"
  shows "ls_htable_get tab' key = Option.bind (map_run cmp ops oks (\<lambda>k. None) key) (\<lambda>v. v)"
proof -
  note c = ls_htable_create_ok(1)[OF assms(2-4)]
  then have inv: "ht_inv (blocks m) (faults m) tab m0" and h: "hash_of hash cmp tab"
    by (simp_all add: hash_of_def)
  have "ht_view tab' = map_run cmp ops oks (ht_view tab)"
    using hash_key.run_ok[OF assms(1) inv h assms(5) _ assms(7)] c assms(6) by simp
  also have "ht_view tab = (\<lambda>k. None)" using hash_key.view_empty[OF assms(1) inv h] c by simp
  finally have e: "map_run cmp ops oks (\<lambda>k. None) key = ht_view tab' key" by simp
  show ?thesis unfolding e
    by (cases "find_node tab' key (-1) 0")
      (auto simp: ht_view_def ls_htable_get_node_def ls_htable_get_def)
qed

text \<open>C26: A table is created, used and destroyed without leaking a block or freeing one twice,
  whichever of its allocations fail: every insertion, resizing, removal and clearing included, the
  heap is afterwards what it was before.\<close>

theorem ls_htable_lifecycle:
  fixes ops :: "('k, 'v, 'z mem_scheme) ht_op list"
  assumes "hash_key hash cmp" and "mem_wf m" and "buckets < 2 ^ 30"
    and "\<forall>opn \<in> set ops. ht_op_ok opn" and "length ops \<le> 2 ^ 28"
  shows "case ls_htable_create buckets hash cmp m of
           (Inl e, m0) \<Rightarrow> e = LS_ERR_NO_MEMORY \<and> blocks m0 = blocks m \<and> faults m0 = faults m
         | (Inr tab, m0) \<Rightarrow>
             (case ht_run ops (tab, m0) of
                (oks, tab', m') \<Rightarrow> blocks (ls_htable_destroy tab' m') = blocks m \<and>
                                 faults (ls_htable_destroy tab' m') = faults m)"
proof (cases "ls_htable_create buckets hash cmp m :: (errcode + ('k, 'v, 'z mem_scheme) htable) \<times> _")
  case (Pair r m0)
  show ?thesis
  proof (cases r)
    case (Inl e)
    then show ?thesis using Pair ls_htable_create_ok(2)[OF assms(2,3) Pair[unfolded Inl]] by simp
  next
    case (Inr tab)
    obtain oks tab' m' where run: "ht_run ops (tab, m0) = (oks, tab', m')" by (metis surj_pair)
    note c = ls_htable_create_ok(1)[OF assms(2,3) Pair[unfolded Inr]]
    then have "ht_inv (blocks m) (faults m) tab' m'"
      using hash_key.run_ok[OF assms(1) _ _ assms(4) _ run] assms(5) by (simp add: hash_of_def)
    then show ?thesis using Pair Inr run owns_empty[OF ls_htable_destroy_owns] by auto
  qed
qed

text \<open>C27: Walking a table visits each entry once: the keys it passes to the callback are pairwise
  different, they are exactly the keys the table has a value for, each comes with its value, and
  their number is what \<open>ls_htable_get_count\<close> returns.\<close>

theorem ls_htable_walk_complete:
  assumes "hash_key hash cmp" and "mem_wf m" and "buckets < 2 ^ 30"
    and "ls_htable_create buckets hash cmp m = (Inr tab, m0)"
    and "\<forall>opn \<in> set ops. ht_op_ok opn" and "length ops \<le> 2 ^ 28"
    and "ht_run ops (tab, m0) = (oks, tab', m')"
    and "ls_htable_walk tab' (\<lambda>u k v. (1, u @ [(k, v)])) [] = (n, kvs)"
  shows "sorted_wrt (\<lambda>(k, v) (l, w). cmp k l \<noteq> 0) kvs \<and>
         (\<forall>key v. map_run cmp ops oks (\<lambda>k. None) key = Some v \<longleftrightarrow> (\<exists>(k, w) \<in> set kvs. cmp key k = 0 \<and> w = v)) \<and>
         n = ls_htable_get_count tab' \<and> unat n = length kvs"
proof -
  note c = ls_htable_create_ok(1)[OF assms(2-4)]
  then have inv: "ht_inv (blocks m) (faults m) tab m0" and h: "hash_of hash cmp tab"
    by (simp_all add: hash_of_def)
  have "ht_view tab = (\<lambda>k. None)" using hash_key.view_empty[OF assms(1) inv h] c by simp
  then have inv': "ht_inv (blocks m) (faults m) tab' m'" and h': "hash_of hash cmp tab'"
    and view: "ht_view tab' = map_run cmp ops oks (\<lambda>k. None)"
    using hash_key.run_ok[OF assms(1) inv h assms(5) _ assms(7)] c assms(6) by simp_all
  let ?ns = "concat (ht_buckets tab')"
  have "take (unat (ht_bcount tab')) (ht_buckets tab') = ht_buckets tab'"
    using inv' by (simp add: ht_inv_def shape_def)
  then have kvs: "kvs = map (\<lambda>n. (hn_key n, hn_value n)) ?ns" and n: "n = of_nat (length ?ns)"
    using assms(8) by (simp_all add: ls_htable_walk_def walk_buckets_all del: length_concat)
  have cnt: "unat (ht_count tab') = length ?ns"
    using inv' by (simp add: ht_inv_def contents_def del: length_concat)
  then have "n = ht_count tab'" unfolding n by (simp flip: cnt del: length_concat)
  moreover have "sorted_wrt (\<lambda>(k, v) (l, w). cmp k l \<noteq> 0) kvs"
  proof -
    have "length (filter (\<lambda>n. cmp key (hn_key n) = 0) ?ns) \<le> 1" for key
    proof -
      have "length (filter (\<lambda>n. cmp key (hn_key n) = 0) ?ns) =
          size {#n \<in># contents tab'. cmp key (hn_key n) = 0#}"
        unfolding contents_def filter_mset_image_mset by (simp flip: mset_filter)
      then show ?thesis using inv' h' by (simp add: ht_inv_def keys_ok_def hash_of_def)
    qed
    then show ?thesis using hash_key.distinct_keys[OF assms(1), of ?ns] by (simp add: kvs sorted_wrt_map case_prod_beta)
  qed
  moreover have "map_run cmp ops oks (\<lambda>k. None) key = Some v \<longleftrightarrow>
      (\<exists>(k, w) \<in> set kvs. cmp key k = 0 \<and> w = v)" for key v
    unfolding view[symmetric] hash_key.view_Some[OF assms(1) inv' h'] by (auto simp: kvs contents_def)
  ultimately show ?thesis using cnt by (simp add: ls_htable_get_count_def kvs del: length_concat)
qed


text \<open>A concrete table for the witnesses: two buckets, integer keys, three insertions, which
  enlarge it, and a removal.\<close>

definition demo_ops :: "(u64, nat, mem) ht_op list" where
  "demo_ops = [Ht_put 1 (Some 10) None, Ht_put 2 (Some 20) None, Ht_put 1 (Some 11) None,
               Ht_put 3 None None, Ht_remove 2]"

lemma demo_ops_ok: "\<forall>opn \<in> set demo_ops. ht_op_ok opn" "length demo_ops \<le> 2 ^ 28"
  by (simp_all add: demo_ops_def neutral_cleaner_def)

lemma demo_create:
  obtains tab m0 where "ls_htable_create 2 ls_int_hashcode ls_int_compare init_mem =
      (Inr (tab :: (u64, nat, mem) htable), m0)" "malloc_func m0 = libc_malloc"
      "contents tab = {#}" "ht_inv (blocks init_mem) (faults init_mem) tab m0" 
proof -
  obtain tab m0 where c: "ls_htable_create 2 ls_int_hashcode ls_int_compare init_mem =
      (Inr (tab :: (u64, nat, mem) htable), m0)" and f: "malloc_func m0 = libc_malloc"
    by (fastforce simp: ls_htable_create_def ls_data_calloc_def ls_data_malloc_def init_mem_def
        libc_malloc_def write_bytes_def fault_def Let_def size_mult_def split: option.splits if_splits)
  then show thesis using ls_htable_create_ok(1)[OF mem_wf_init _ c] that by simp
qed

lemma ls_htable_is_map_witness:
  "\<exists>tab m0 oks tab' m'.
     ls_htable_create 2 ls_int_hashcode ls_int_compare init_mem = (Inr tab, m0) \<and>
     ht_run demo_ops (tab, m0) = (oks, tab', m') \<and>
     ls_htable_get tab' 1 = Option.bind (map_run ls_int_compare demo_ops oks (\<lambda>k. None) 1) (\<lambda>v. v)"
proof -
  obtain tab m0 where c: "ls_htable_create 2 ls_int_hashcode ls_int_compare init_mem =
      (Inr (tab :: (u64, nat, mem) htable), m0)" by (rule demo_create)
  obtain oks tab' m' where r: "ht_run demo_ops (tab, m0) = (oks, tab', m')" by (metis surj_pair)
  have "ls_htable_get tab' 1 = Option.bind (map_run ls_int_compare demo_ops oks (\<lambda>k. None) 1) (\<lambda>v. v)"
    by (rule ls_htable_is_map[OF ik.hash_key_axioms mem_wf_init _ c demo_ops_ok r]) simp
  then show ?thesis using c r by blast
qed

lemma ls_htable_lifecycle_witness:
  "case ls_htable_create 2 ls_int_hashcode ls_int_compare init_mem of
     (Inl e, m0) \<Rightarrow> e = LS_ERR_NO_MEMORY \<and> blocks m0 = blocks init_mem \<and> faults m0 = faults init_mem
   | (Inr tab, m0) \<Rightarrow>
       (case ht_run demo_ops (tab, m0) of
          (oks, tab', m') \<Rightarrow> blocks (ls_htable_destroy tab' m') = blocks init_mem \<and>
                           faults (ls_htable_destroy tab' m') = faults init_mem)"
  by (rule ls_htable_lifecycle[OF ik.hash_key_axioms mem_wf_init _ demo_ops_ok]) simp

lemma ls_htable_walk_complete_witness:
  "\<exists>tab m0 oks tab' m' n kvs.
     ls_htable_create 2 ls_int_hashcode ls_int_compare init_mem = (Inr tab, m0) \<and>
     ht_run demo_ops (tab, m0) = (oks, tab', m') \<and>
     ls_htable_walk tab' (\<lambda>u k v. (1, u @ [(k, v)])) [] = (n, kvs) \<and>
     n = ls_htable_get_count tab' \<and> unat n = length kvs"
proof -
  obtain tab m0 where c: "ls_htable_create 2 ls_int_hashcode ls_int_compare init_mem =
      (Inr (tab :: (u64, nat, mem) htable), m0)" by (rule demo_create)
  obtain oks tab' m' where r: "ht_run demo_ops (tab, m0) = (oks, tab', m')" by (metis surj_pair)
  obtain n kvs where w: "ls_htable_walk tab' (\<lambda>u k v. (1, u @ [(k, v)])) [] = (n, kvs)"
    by (metis surj_pair)
  have "(2 :: int) < 2 ^ 30" by simp
  then show ?thesis
    using ls_htable_walk_complete[OF ik.hash_key_axioms mem_wf_init _ c demo_ops_ok r w] c r w by blast
qed

end
