(* ===== verification/Ls_Queue.thy ===== *)
theory Ls_Queue
  imports Ls_Mem
begin

text \<open>
  The queue of \<open>src/ls_queue.c\<close>: a singly linked list with pointers to its first and last node.

  The nodes are objects of the heap, so the state extends the heap by a map from addresses to
  nodes, and the pointer updates are those of the code.  The contract of a queue is the locale
  \<open>fifo\<close>; what follows from it for any sequence of operations is proved once there.
\<close>

section \<open>State\<close>

record 'v qnode =
  qn_next :: "addr option"
  qn_value :: 'v

record 'v qmem = mem +
  qnodes :: "addr \<Rightarrow> 'v qnode option"

text \<open>A cleaner is given the queue by its address.\<close>

type_synonym ('v, 's) ls_queue_cleanfunc = "addr \<Rightarrow> 'v \<Rightarrow> 's \<Rightarrow> 's"

record ('v, 's) queue =
  q_self :: addr
  q_head :: "addr option"
  q_tail :: "addr option"
  q_cleaner :: "('v, 's) ls_queue_cleanfunc option"

definition sizeof_queue :: nat where "sizeof_queue = 24"
definition sizeof_qnode :: nat where "sizeof_qnode = 16"

section \<open>Operations\<close>

definition ls_queue_create ::
  "('v, ('v, 'z) qmem_scheme) ls_queue_cleanfunc option \<Rightarrow> ('v, 'z) qmem_scheme \<Rightarrow>
   (errcode + ('v, ('v, 'z) qmem_scheme) queue) \<times> ('v, 'z) qmem_scheme" where
  "ls_queue_create cleaner m =
     (case ls_data_calloc 1 sizeof_queue m of
        (None, m1) \<Rightarrow> (Inl LS_ERR_NO_MEMORY, m1)
      | (Some self, m1) \<Rightarrow>
          (Inr \<lparr>q_self = self, q_head = None, q_tail = None, q_cleaner = cleaner\<rparr>, m1))"

definition set_next :: "addr \<Rightarrow> addr \<Rightarrow> ('v, 'z) qmem_scheme \<Rightarrow> ('v, 'z) qmem_scheme" where
  "set_next a n m =
     (case qnodes m a of
        None \<Rightarrow> fault m
      | Some nd \<Rightarrow> m\<lparr>qnodes := (qnodes m)(a \<mapsto> nd\<lparr>qn_next := Some n\<rparr>)\<rparr>)"

definition ls_queue_enq ::
  "('v, ('v, 'z) qmem_scheme) queue \<Rightarrow> 'v \<Rightarrow> ('v, 'z) qmem_scheme \<Rightarrow>
   (errcode + unit) \<times> ('v, ('v, 'z) qmem_scheme) queue \<times> ('v, 'z) qmem_scheme" where
  "ls_queue_enq q val m =
     (case ls_data_calloc 1 sizeof_qnode m of
        (None, m1) \<Rightarrow> (Inl LS_ERR_NO_MEMORY, q, m1)
      | (Some n, m1) \<Rightarrow>
          (let m2 = m1\<lparr>qnodes := (qnodes m1)(n \<mapsto> \<lparr>qn_next = None, qn_value = val\<rparr>)\<rparr> in
           case q_tail q of
             Some t \<Rightarrow> (Inr (), q\<lparr>q_tail := Some n\<rparr>, set_next t n m2)
           | None \<Rightarrow> (Inr (), q\<lparr>q_head := Some n, q_tail := Some n\<rparr>, m2)))"

text \<open>\<open>deq\<close>: the node it unlinks with its address.  The address of no node is a stray pointer.\<close>

definition deq_node ::
  "('v, 's) queue \<Rightarrow> ('v, 'z) qmem_scheme \<Rightarrow>
   (addr \<times> 'v qnode) option \<times> ('v, 's) queue \<times> ('v, 'z) qmem_scheme" where
  "deq_node q m =
     (case q_head q of
        None \<Rightarrow> (None, q, m)
      | Some a \<Rightarrow>
          (case qnodes m a of
             None \<Rightarrow> (None, q, fault m)
           | Some nd \<Rightarrow>
               (Some (a, nd),
                q\<lparr>q_head := qn_next nd, q_tail := (if qn_next nd = None then None else q_tail q)\<rparr>, m)))"

definition free_node :: "addr \<Rightarrow> ('v, 'z) qmem_scheme \<Rightarrow> ('v, 'z) qmem_scheme" where
  "free_node a m = ls_data_free (Some a) (m\<lparr>qnodes := (qnodes m)(a := None)\<rparr>)"

definition ls_queue_deq ::
  "('v, 's) queue \<Rightarrow> ('v, 'z) qmem_scheme \<Rightarrow> 'v option \<times> ('v, 's) queue \<times> ('v, 'z) qmem_scheme" where
  "ls_queue_deq q m =
     (case deq_node q m of
        (None, q1, m1) \<Rightarrow> (None, q1, m1)
      | (Some (a, nd), q1, m1) \<Rightarrow> (Some (qn_value nd), q1, free_node a m1))"

text \<open>The loop of \<open>ls_queue_destroy\<close>; a cyclic list would make it run forever, hence the option.\<close>

partial_function (option) drain_queue ::
  "('v, ('v, 'z) qmem_scheme) queue \<Rightarrow> ('v, 'z) qmem_scheme \<Rightarrow>
   (('v, ('v, 'z) qmem_scheme) queue \<times> ('v, 'z) qmem_scheme) option" where
  "drain_queue q m =
     (case deq_node q m of
        (None, q1, m1) \<Rightarrow> Some (q1, m1)
      | (Some (a, nd), q1, m1) \<Rightarrow>
          drain_queue q1
            (free_node a
              (case q_cleaner q1 of None \<Rightarrow> m1 | Some f \<Rightarrow> f (q_self q1) (qn_value nd) m1)))"

definition ls_queue_destroy ::
  "('v, ('v, 'z) qmem_scheme) queue \<Rightarrow> ('v, 'z) qmem_scheme \<Rightarrow> ('v, 'z) qmem_scheme option" where
  "ls_queue_destroy q m =
     map_option (\<lambda>(q1, m1). ls_data_free (Some (q_self q1)) m1) (drain_queue q m)"

section \<open>The contract\<close>

locale fifo =
  fixes holds :: "'q \<Rightarrow> 's \<Rightarrow> 'v list \<Rightarrow> bool"
    and enq :: "'q \<Rightarrow> 'v \<Rightarrow> 's \<Rightarrow> (errcode + unit) \<times> 'q \<times> 's"
    and deq :: "'q \<Rightarrow> 's \<Rightarrow> 'v option \<times> 'q \<times> 's"
  assumes enq_ok: "holds q s vs \<Longrightarrow> enq q v s = (Inr u, q', s') \<Longrightarrow> holds q' s' (vs @ [v])"
    and enq_fails: "holds q s vs \<Longrightarrow> enq q v s = (Inl e, q', s') \<Longrightarrow> holds q' s' vs"
    and deq_ok: "holds q s vs \<Longrightarrow> deq q s = (r, q', s') \<Longrightarrow>
      (case vs of [] \<Rightarrow> r = None \<and> holds q' s' [] | v # vs' \<Rightarrow> r = Some v \<and> holds q' s' vs')"

text \<open>Operations on a queue and what they return: the value that was queued, if it was, or the
  value that was taken out, if there was one.\<close>

datatype 'v qop = Enq 'v | Deq

fun q_run ::
  "('q \<Rightarrow> 'v \<Rightarrow> 's \<Rightarrow> (errcode + unit) \<times> 'q \<times> 's) \<Rightarrow> ('q \<Rightarrow> 's \<Rightarrow> 'v option \<times> 'q \<times> 's) \<Rightarrow>
   'v qop list \<Rightarrow> 'q \<times> 's \<Rightarrow> 'v option list \<times> 'q \<times> 's" where
  "q_run enq deq [] (q, s) = ([], q, s)"
| "q_run enq deq (Enq v # ops) (q, s) =
     (case enq q v s of
        (r, q1, s1) \<Rightarrow> (case q_run enq deq ops (q1, s1) of
           (rs, q2, s2) \<Rightarrow> ((if isl r then None else Some v) # rs, q2, s2)))"
| "q_run enq deq (Deq # ops) (q, s) =
     (case deq q s of
        (r, q1, s1) \<Rightarrow> (case q_run enq deq ops (q1, s1) of (rs, q2, s2) \<Rightarrow> (r # rs, q2, s2)))"

text \<open>The values queued, and the values taken out, in the order of the operations.\<close>

fun enqueued :: "'v qop list \<Rightarrow> 'v option list \<Rightarrow> 'v list" where
  "enqueued (Enq v # ops) (Some w # rs) = w # enqueued ops rs"
| "enqueued (opn # ops) (r # rs) = enqueued ops rs"
| "enqueued ops rs = []"

fun dequeued :: "'v qop list \<Rightarrow> 'v option list \<Rightarrow> 'v list" where
  "dequeued (Deq # ops) (Some w # rs) = w # dequeued ops rs"
| "dequeued (opn # ops) (r # rs) = dequeued ops rs"
| "dequeued ops rs = []"

context fifo
begin

lemma run_fifo:
  "holds q s vs \<Longrightarrow> q_run enq deq ops (q, s) = (rs, q', s') \<Longrightarrow>
   \<exists>vs'. holds q' s' vs' \<and> vs @ enqueued ops rs = dequeued ops rs @ vs'"
proof (induction ops arbitrary: q s vs rs)
  case (Cons opn ops)
  show ?case
  proof (cases opn)
    case (Enq v)
    obtain r q1 s1 where e: "enq q v s = (r, q1, s1)" by (metis surj_pair)
    obtain rs1 where r1: "q_run enq deq ops (q1, s1) = (rs1, q', s')"
      and rs: "rs = (if isl r then None else Some v) # rs1"
      using Cons.prems(2) e Enq by (auto split: prod.splits)
    show ?thesis
    proof (cases r)
      case (Inl x)
      then show ?thesis using Cons.IH[OF enq_fails[OF Cons.prems(1) e[unfolded Inl]] r1] rs Enq by simp
    next
      case (Inr u)
      then show ?thesis using Cons.IH[OF enq_ok[OF Cons.prems(1) e[unfolded Inr]] r1] rs Enq by simp
    qed
  next
    case Deq
    obtain r q1 s1 where e: "deq q s = (r, q1, s1)" by (metis surj_pair)
    obtain rs1 where r1: "q_run enq deq ops (q1, s1) = (rs1, q', s')" and rs: "rs = r # rs1"
      using Cons.prems(2) e Deq by (auto split: prod.splits)
    show ?thesis
    proof (cases vs)
      case Nil
      then have "r = None" "holds q1 s1 []" using deq_ok[OF Cons.prems(1) e] by simp_all
      then show ?thesis using Cons.IH[OF _ r1, of "[]"] rs Deq Nil by simp
    next
      case (Cons v ws)
      then have "r = Some v" "holds q1 s1 ws" using deq_ok[OF Cons.prems(1) e] by simp_all
      then show ?thesis using Cons.IH[OF _ r1, of ws] rs Deq Cons by simp
    qed
  qed
qed auto

end

section \<open>The linked list\<close>

fun path :: "(addr \<Rightarrow> 'v qnode option) \<Rightarrow> addr option \<Rightarrow> addr list \<Rightarrow> bool" where
  "path N p [] \<longleftrightarrow> p = None"
| "path N p (a # as) \<longleftrightarrow> p = Some a \<and> (\<exists>nd. N a = Some nd \<and> path N (qn_next nd) as)"

definition values_at :: "(addr \<Rightarrow> 'v qnode option) \<Rightarrow> addr list \<Rightarrow> 'v list" where
  "values_at N as = map (\<lambda>a. qn_value (the (N a))) as"

definition q_inv ::
  "(addr \<Rightarrow> u8 option list option) \<Rightarrow> nat \<Rightarrow> ('v, 's) queue \<Rightarrow> ('v, 'z) qmem_scheme \<Rightarrow> addr list \<Rightarrow> bool" where
  "q_inv B k q m as \<longleftrightarrow>
     owns B k (add_mset (q_self q) (mset as)) m \<and> path (qnodes m) (q_head q) as \<and>
     q_tail q = (if as = [] then None else Some (last as))"

lemma path_other: "a \<notin> set as \<Longrightarrow> path (N(a := x)) p as = path N p as"
  by (induction as arbitrary: p) auto

lemma values_other: "a \<notin> set as \<Longrightarrow> values_at (N(a := x)) as = values_at N as"
  by (auto simp: values_at_def)

lemma path_append:
  "path N p (as @ [t]) \<Longrightarrow> t \<notin> set as \<Longrightarrow> n \<notin> set (as @ [t]) \<Longrightarrow>
   N t = Some nd \<Longrightarrow>
   path (N(n \<mapsto> \<lparr>qn_next = None, qn_value = v\<rparr>, t \<mapsto> nd\<lparr>qn_next := Some n\<rparr>)) p (as @ [t, n])"
  by (induction as arbitrary: p) auto

lemma path_live: "path N p as \<Longrightarrow> a \<in> set as \<Longrightarrow> N a \<noteq> None"
  by (induction as arbitrary: p) auto

lemma qnodes_simps [simp]:
  "qnodes (fault m) = qnodes m" "qnodes (ls_data_free p m) = qnodes m"
  by (simp_all add: fault_def ls_data_free_def split: option.split)

lemma qnodes_calloc: "ls_data_calloc k sz m = (r, m') \<Longrightarrow> qnodes m' = qnodes m"
  by (cases r) (auto dest: ls_data_calloc_Some ls_data_calloc_None)

lemma owns_qnodes [simp]: "owns B k M (m\<lparr>qnodes := N\<rparr>) = owns B k M m"
  by (simp add: owns_def mem_wf_def)

lemma owns_distinct: "owns B k (mset as + M) m \<Longrightarrow> distinct as"
proof (induction as arbitrary: M)
  case (Cons a as)
  have "owns B k (mset as + add_mset a M) m" using Cons.prems by simp
  then have "distinct as" by (rule Cons.IH)
  moreover have "a \<notin> set as" using owns_once[of B k a "mset as + M" m] Cons.prems by simp
  ultimately show ?case by simp
qed simp

lemma ls_queue_create_ok:
  assumes "mem_wf m"
  shows "ls_queue_create cl m = (Inr q, m') \<Longrightarrow> q_inv (blocks m) (faults m) q m' [] \<and> q_cleaner q = cl"
    and "ls_queue_create cl m = (Inl e, m') \<Longrightarrow>
      e = LS_ERR_NO_MEMORY \<and> blocks m' = blocks m \<and> faults m' = faults m"
  using owns_calloc[OF owns_start[OF assms]] owns_empty[OF owns_calloc_None[OF owns_start[OF assms]]]
  by (auto simp: ls_queue_create_def q_inv_def split: prod.splits option.splits)

lemma ls_queue_enq_ok:
  assumes inv: "q_inv B k q m as" and r: "ls_queue_enq q v m = (res, q', m')"
  shows "case res of
           Inr u \<Rightarrow> \<exists>n. q_inv B k q' m' (as @ [n]) \<and>
                      values_at (qnodes m') (as @ [n]) = values_at (qnodes m) as @ [v]
         | Inl e \<Rightarrow> e = LS_ERR_NO_MEMORY \<and> q' = q \<and> q_inv B k q m' as \<and> qnodes m' = qnodes m"
proof (cases "ls_data_calloc 1 sizeof_qnode m")
  case (Pair p m1)
  have N: "qnodes m1 = qnodes m" using Pair by (rule qnodes_calloc)
  have o: "owns B k (add_mset (q_self q) (mset as)) m" and pa: "path (qnodes m) (q_head q) as"
    and tl: "q_tail q = (if as = [] then None else Some (last as))"
    using inv by (simp_all add: q_inv_def)
  show ?thesis
  proof (cases p)
    case None
    then have "owns B k (add_mset (q_self q) (mset as)) m1"
      using owns_calloc_None[OF o] Pair by simp
    then show ?thesis using None r Pair inv N by (auto simp: ls_queue_enq_def q_inv_def)
  next
    case (Some n)
    have o1: "owns B k (add_mset n (add_mset (q_self q) (mset as))) m1"
      using owns_calloc[OF o] Pair Some by simp
    then have n: "n \<notin> set as" using owns_once by fastforce
    let ?N = "(qnodes m)(n \<mapsto> \<lparr>qn_next = None, qn_value = v\<rparr>)"
    show ?thesis
    proof (cases as rule: rev_cases)
      case Nil
      then show ?thesis using r Pair Some o1 tl N
        by (auto simp: ls_queue_enq_def Let_def q_inv_def values_at_def add_mset_commute)
    next
      case (snoc bs t)
      obtain nd where nd: "qnodes m t = Some nd" using path_live[OF pa] snoc by fastforce
      have t: "t \<notin> set bs" using owns_distinct[of B k as "{#q_self q#}" m] o snoc by simp
      have nt: "n \<noteq> t" "n \<notin> set bs" using n snoc by auto
      have q': "res = Inr ()" "q' = q\<lparr>q_tail := Some n\<rparr>"
        "m' = m1\<lparr>qnodes := ?N(t \<mapsto> nd\<lparr>qn_next := Some n\<rparr>)\<rparr>"
        using r Pair Some tl snoc N nd nt by (auto simp: ls_queue_enq_def Let_def set_next_def)
      have "path (qnodes m') (q_head q') (as @ [n])"
        using path_append[OF pa[unfolded snoc] t _ nd, of n v] nt by (simp add: q' snoc)
      moreover have "values_at (qnodes m') (as @ [n]) = values_at (qnodes m) as @ [v]"
        using n t nt nd by (auto simp: q' snoc values_at_def)
      ultimately show ?thesis using o1 q' by (auto simp: q_inv_def add_mset_commute)
    qed
  qed
qed

lemma deq_node_ok:
  assumes inv: "q_inv B k q m (a # as)"
  obtains nd where "deq_node q m = (Some (a, nd),
      q\<lparr>q_head := qn_next nd, q_tail := (if qn_next nd = None then None else q_tail q)\<rparr>, m)"
    and "qnodes m a = Some nd" and "path (qnodes m) (qn_next nd) as"
    and "qn_next nd = None \<longleftrightarrow> as = []" and "a \<notin> set as"
proof -
  obtain nd where nd: "q_head q = Some a" "qnodes m a = Some nd" "path (qnodes m) (qn_next nd) as"
    using inv by (auto simp: q_inv_def)
  moreover have "qn_next nd = None \<longleftrightarrow> as = []" using nd(3) by (cases as) auto
  moreover have "a \<notin> set as"
    using inv owns_once[of B k a "add_mset (q_self q) (mset as)" m]
    by (simp add: q_inv_def add_mset_commute)
  ultimately show thesis using that by (simp add: deq_node_def)
qed

text \<open>Unlinking and releasing the first node, whatever is done to the rest of the state between.\<close>

lemma free_first:
  assumes inv: "q_inv B k q m (a # as)" and "deq_node q m = (Some (a, nd), q1, m)"
    and o: "owns B k (add_mset (q_self q) (mset (a # as))) m1" and N: "qnodes m1 = qnodes m"
  shows "q_inv B k q1 (free_node a m1) as" and "q_self q1 = q_self q" and "q_cleaner q1 = q_cleaner q"
    and "values_at (qnodes (free_node a m1)) as = values_at (qnodes m) as"
proof -
  obtain nd' where d: "deq_node q m = (Some (a, nd'),
      q\<lparr>q_head := qn_next nd', q_tail := (if qn_next nd' = None then None else q_tail q)\<rparr>, m)"
    "path (qnodes m) (qn_next nd') as" "qn_next nd' = None \<longleftrightarrow> as = []" "a \<notin> set as"
    by (rule deq_node_ok[OF inv])
  have q1: "q1 = q\<lparr>q_head := qn_next nd', q_tail := (if qn_next nd' = None then None else q_tail q)\<rparr>"
    using assms(2) unfolding d(1) by (simp only: prod.inject)
  have "owns B k (add_mset (q_self q) (mset as)) (free_node a m1)"
    unfolding free_node_def by (rule owns_free) (use o in \<open>simp add: add_mset_commute\<close>)
  then show "q_inv B k q1 (free_node a m1) as"
    using inv d by (auto simp: q_inv_def q1 free_node_def N path_other)
  show "q_self q1 = q_self q" "q_cleaner q1 = q_cleaner q" by (simp_all add: q1)
  show "values_at (qnodes (free_node a m1)) as = values_at (qnodes m) as"
    using d(4) by (simp add: free_node_def N values_other)
qed

lemma ls_queue_deq_ok:
  assumes inv: "q_inv B k q m as" and r: "ls_queue_deq q m = (res, q', m')"
  shows "case as of
           [] \<Rightarrow> res = None \<and> q' = q \<and> m' = m
         | a # as' \<Rightarrow> res = Some (hd (values_at (qnodes m) as)) \<and> q_inv B k q' m' as' \<and>
                     values_at (qnodes m') as' = tl (values_at (qnodes m) as)"
proof (cases as)
  case Nil
  then show ?thesis using inv r by (simp add: q_inv_def ls_queue_deq_def deq_node_def)
next
  case (Cons a as')
  note inv' = inv[unfolded Cons]
  obtain nd q1 where d: "deq_node q m = (Some (a, nd), q1, m)" "qnodes m a = Some nd"
    by (rule deq_node_ok[OF inv'])
  have "owns B k (add_mset (q_self q) (mset (a # as'))) m" using inv' by (simp add: q_inv_def)
  note f = free_first[OF inv' d(1) this refl]
  show ?thesis using r d f by (auto simp: ls_queue_deq_def Cons values_at_def)
qed

interpretation lq: fifo
  "\<lambda>q m vs. \<exists>as. q_inv B k q m as \<and> values_at (qnodes m) as = vs" ls_queue_enq ls_queue_deq for B k
proof unfold_locales
  fix q m vs v u q' m'
  assume "\<exists>as. q_inv B k q m as \<and> values_at (qnodes m) as = vs" "ls_queue_enq q v m = (Inr u, q', m')"
  then show "\<exists>as. q_inv B k q' m' as \<and> values_at (qnodes m') as = vs @ [v]"
    using ls_queue_enq_ok by fastforce
next
  fix q m vs v e q' m'
  assume "\<exists>as. q_inv B k q m as \<and> values_at (qnodes m) as = vs" "ls_queue_enq q v m = (Inl e, q', m')"
  then show "\<exists>as. q_inv B k q' m' as \<and> values_at (qnodes m') as = vs"
    using ls_queue_enq_ok by fastforce
next
  fix q m vs r q' m'
  assume "\<exists>as. q_inv B k q m as \<and> values_at (qnodes m) as = vs" and d: "ls_queue_deq q m = (r, q', m')"
  then obtain as where as: "q_inv B k q m as" "values_at (qnodes m) as = vs" by blast
  show "case vs of [] \<Rightarrow> r = None \<and> (\<exists>as. q_inv B k q' m' as \<and> values_at (qnodes m') as = [])
        | v # vs' \<Rightarrow> r = Some v \<and> (\<exists>as. q_inv B k q' m' as \<and> values_at (qnodes m') as = vs')"
    using ls_queue_deq_ok[OF as(1) d] as by (cases as) (auto simp: values_at_def intro!: exI)
qed


section \<open>Order and lifecycle\<close>

text \<open>The state with a log, and a cleaner that appends the value it is given to it.\<close>

record 'v qlog = "'v qmem" +
  q_log :: "'v list"

definition log_value :: "('v, ('v, 'z) qlog_scheme) ls_queue_cleanfunc" where
  "log_value q v s = s\<lparr>q_log := q_log s @ [v]\<rparr>"

lemma q_log_simps [simp]:
  "q_log (fault m) = q_log m" "q_log (ls_data_free p m) = q_log m" "q_log (free_node a m) = q_log m"
  "q_log (set_next a n m) = q_log m"
  by (simp_all add: fault_def ls_data_free_def free_node_def set_next_def split: option.split)

lemma q_log_calloc: "ls_data_calloc k sz m = (r, m') \<Longrightarrow> q_log m' = q_log m"
  by (cases r) (auto dest: ls_data_calloc_Some ls_data_calloc_None)

lemma enq_frame: "ls_queue_enq q v m = (r, q', m') \<Longrightarrow> q_log m' = q_log m \<and> q_cleaner q' = q_cleaner q"
  by (auto simp: ls_queue_enq_def Let_def dest: q_log_calloc split: prod.splits option.splits)

lemma deq_frame: "ls_queue_deq q m = (r, q', m') \<Longrightarrow> q_log m' = q_log m \<and> q_cleaner q' = q_cleaner q"
  by (auto simp: ls_queue_deq_def deq_node_def split: option.splits)

lemma run_frame:
  "q_run ls_queue_enq ls_queue_deq ops (q, m) = (rs, q', m') \<Longrightarrow>
   q_log m' = q_log m \<and> q_cleaner q' = q_cleaner q"
proof (induction ops arbitrary: q m rs)
  case (Cons opn ops)
  then show ?case by (cases opn) (auto split: prod.splits dest!: enq_frame deq_frame)
qed simp

lemma drain_queue_logs:
  "q_inv B k q m as \<Longrightarrow> q_cleaner q = Some log_value \<Longrightarrow>
   \<exists>q' m'. drain_queue q m = Some (q', m') \<and> q_self q' = q_self q \<and> owns B k {#q_self q#} m' \<and>
           q_log m' = q_log m @ values_at (qnodes m) as"
proof (induction as arbitrary: q m)
  case Nil
  then show ?case by (subst drain_queue.simps) (auto simp: deq_node_def q_inv_def values_at_def)
next
  case (Cons a as)
  obtain nd q1 where d: "deq_node q m = (Some (a, nd), q1, m)" "qnodes m a = Some nd"
    by (rule deq_node_ok[OF Cons.prems(1)])
  let ?m = "log_value (q_self q) (qn_value nd) m"
  have N: "qnodes ?m = qnodes m" by (simp add: log_value_def)
  have "owns B k (add_mset (q_self q) (mset (a # as))) ?m"
    using Cons.prems(1) by (auto simp: q_inv_def log_value_def intro: owns_cong)
  note f = free_first[OF Cons.prems(1) d(1) this N]
  have "q_cleaner q1 = Some log_value" using f(3) Cons.prems(2) by simp
  then obtain q' m' where "drain_queue q1 (free_node a ?m) = Some (q', m')" "q_self q' = q_self q1"
      "owns B k {#q_self q1#} m'"
      "q_log m' = q_log (free_node a ?m) @ values_at (qnodes (free_node a ?m)) as"
    using Cons.IH[OF f(1)] by blast
  then show ?case
    using d f Cons.prems(2) by (subst drain_queue.simps) (simp add: log_value_def values_at_def)
qed

text \<open>C17: A queue is first in, first out and gives every value back exactly once: after any sequence
  of operations on a new queue, some of whose allocations may fail, destroying the queue ends; the
  values taken out during the run followed by those handed to the cleaner then are exactly the
  values queued, in order; and the heap is as it was before the queue was created.\<close>

theorem ls_queue_fifo:
  assumes "mem_wf m" and "ls_queue_create (Some log_value) m = (Inr q, m0)"
    and "q_run ls_queue_enq ls_queue_deq ops (q, m0) = (rs, q1, m1)"
  shows "\<exists>m2 cleaned. ls_queue_destroy q1 m1 = Some m2 \<and> q_log m2 = q_log m @ cleaned \<and>
           enqueued ops rs = dequeued ops rs @ cleaned \<and> blocks m2 = blocks m \<and> faults m2 = faults m"
proof -
  have c: "q_inv (blocks m) (faults m) q m0 []" "q_cleaner q = Some log_value"
    using ls_queue_create_ok(1)[OF assms(1,2)] by auto
  then obtain as where as: "q_inv (blocks m) (faults m) q1 m1 as"
    and ops: "enqueued ops rs = dequeued ops rs @ values_at (qnodes m1) as"
    using lq.run_fifo[OF _ assms(3), where vs = "[]"] by (auto simp: values_at_def)
  have fr: "q_log m1 = q_log m" "q_cleaner q1 = Some log_value"
    using run_frame[OF assms(3)] assms(2) c(2)
    by (auto simp: ls_queue_create_def dest!: q_log_calloc split: prod.splits option.splits)
  obtain q2 m2 where d: "drain_queue q1 m1 = Some (q2, m2)" "q_self q2 = q_self q1"
    "owns (blocks m) (faults m) {#q_self q1#} m2" "q_log m2 = q_log m1 @ values_at (qnodes m1) as"
    using drain_queue_logs[OF as fr(2)] by blast
  have "owns (blocks m) (faults m) {#} (ls_data_free (Some (q_self q2)) m2)"
    using d(2,3) by (auto intro: owns_free)
  then show ?thesis using d ops fr owns_empty by (auto simp: ls_queue_destroy_def)
qed

definition init_qlog :: "nat qlog" where
  "init_qlog = mem.extend init_mem \<lparr>qnodes = (\<lambda>a. None), q_log = []\<rparr>"

lemma mem_wf_init_qlog: "mem_wf init_qlog"
  by (simp add: init_qlog_def mem.defs init_mem_def mem_wf_def)

lemma ls_queue_fifo_witness:
  "\<exists>q m0 rs q1 m1 m2. ls_queue_create (Some log_value) init_qlog = (Inr q, m0) \<and>
     q_run ls_queue_enq ls_queue_deq [Enq 1, Enq 2, Deq, Enq 3] (q, m0) = (rs, q1, m1) \<and>
     ls_queue_destroy q1 m1 = Some m2 \<and>
     enqueued [Enq 1, Enq 2, Deq, Enq 3] rs = dequeued [Enq 1, Enq 2, Deq, Enq 3] rs @ q_log m2"
proof -
  let ?ops = "[Enq 1, Enq 2, Deq, Enq 3]"
  obtain q m0 where c: "ls_queue_create (Some log_value) init_qlog = (Inr q, m0)"
    by (fastforce simp: ls_queue_create_def ls_data_calloc_def ls_data_malloc_def init_qlog_def
        mem.defs init_mem_def libc_malloc_def Let_def write_bytes_def fault_def
        split: option.splits if_splits)
  obtain rs q1 m1 where r: "q_run ls_queue_enq ls_queue_deq ?ops (q, m0) = (rs, q1, m1)"
    by (metis surj_pair)
  show ?thesis
    using ls_queue_fifo[OF mem_wf_init_qlog c r] c r by (auto simp: init_qlog_def mem.defs)
qed

end
