(* ===== verification/Ls_Timer.thy ===== *)
theory Ls_Timer
  imports Ls_Mem
begin

text \<open>
  The timers of \<open>src/ls_timer.c\<close> and the \<open>timeval\<close> macros they use.  The fields of a \<open>timeval\<close> are
  64-bit signed integers.  A callback is named by a value of \<open>'c\<close>; who runs timers says what
  the names stand for.
\<close>

section \<open>\<open>struct timeval\<close>\<close>

record timeval =
  tv_sec :: int
  tv_usec :: int

definition long :: "int \<Rightarrow> int" where
  "long x = signed_take_bit 63 x"

definition timeradd :: "timeval \<Rightarrow> timeval \<Rightarrow> timeval" where
  "timeradd a b =
     (let sec = long (tv_sec a + tv_sec b); usec = long (tv_usec a + tv_usec b) in
      if usec \<ge> 1000000 then \<lparr>tv_sec = long (sec + 1), tv_usec = usec - 1000000\<rparr>
      else \<lparr>tv_sec = sec, tv_usec = usec\<rparr>)"

definition timersub :: "timeval \<Rightarrow> timeval \<Rightarrow> timeval" where
  "timersub a b =
     (let sec = long (tv_sec a - tv_sec b); usec = long (tv_usec a - tv_usec b) in
      if usec < 0 then \<lparr>tv_sec = long (sec - 1), tv_usec = usec + 1000000\<rparr>
      else \<lparr>tv_sec = sec, tv_usec = usec\<rparr>)"

definition timercmp :: "timeval \<Rightarrow> timeval \<Rightarrow> (int \<Rightarrow> int \<Rightarrow> bool) \<Rightarrow> bool" where
  "timercmp a b cmp =
     (if tv_sec a = tv_sec b then cmp (tv_usec a) (tv_usec b) else cmp (tv_sec a) (tv_sec b))"

section \<open>Timers\<close>

record 'c timer =
  tm_cb :: 'c
  tm_context :: nat
  tm_tv :: timeval

definition sizeof_timer :: nat where "sizeof_timer = 32"

definition epoch :: timeval where
  "epoch = \<lparr>tv_sec = 0, tv_usec = 0\<rparr>"

definition ls_timer_create ::
  "timeval \<Rightarrow> 'c \<Rightarrow> nat \<Rightarrow> 'z mem_scheme \<Rightarrow> (errcode + addr \<times> 'c timer) \<times> 'z mem_scheme" where
  "ls_timer_create actual cb ctx m =
     (case ls_data_calloc 1 sizeof_timer m of
        (None, m1) \<Rightarrow> (Inl LS_ERR_NO_MEMORY, m1)
      | (Some ret, m1) \<Rightarrow> (Inr (ret, \<lparr>tm_cb = cb, tm_context = ctx, tm_tv = actual\<rparr>), m1))"

text \<open>\<open>ms\<close> is an \<open>unsigned long\<close>.\<close>

definition ls_timer_create_ms ::
  "timeval \<Rightarrow> nat \<Rightarrow> 'c \<Rightarrow> nat \<Rightarrow> 'z mem_scheme \<Rightarrow> (errcode + addr \<times> 'c timer) \<times> 'z mem_scheme" where
  "ls_timer_create_ms now ms cb ctx m =
     (let delta = \<lparr>tv_sec = int (ms div 1000), tv_usec = int (ms mod 1000 * 1000)\<rparr>;
          at = timeradd now delta in
      ls_timer_create at cb ctx m)"

definition ls_timer_destroy :: "addr \<Rightarrow> 'z mem_scheme \<Rightarrow> 'z mem_scheme" where
  "ls_timer_destroy tim m = ls_data_free (Some tim) m"

definition ls_timer_cancel :: "'c timer \<Rightarrow> 'c timer" where
  "ls_timer_cancel tim = tim\<lparr>tm_tv := epoch\<rparr>"

definition ls_timer_is_cancelled :: "'c timer \<Rightarrow> bool" where
  "ls_timer_is_cancelled tim = timercmp (tm_tv tim) epoch (=)"

definition ls_timer_get_context :: "'c timer \<Rightarrow> nat" where
  "ls_timer_get_context tim = tm_context tim"

definition ls_timer_get_time :: "'c timer \<Rightarrow> timeval option" where
  "ls_timer_get_time tim = (if ls_timer_is_cancelled tim then None else Some (tm_tv tim))"

definition ls_timer_less :: "'c timer \<Rightarrow> 'c timer \<Rightarrow> bool" where
  "ls_timer_less a b = timercmp (tm_tv a) (tm_tv b) (<)"

definition ls_timer_greater :: "'c timer \<Rightarrow> 'c timer \<Rightarrow> bool" where
  "ls_timer_greater a b = timercmp (tm_tv a) (tm_tv b) (>)"

definition ls_timer_greater_tv :: "'c timer \<Rightarrow> timeval \<Rightarrow> bool" where
  "ls_timer_greater_tv a b = timercmp (tm_tv a) b (>)"

definition ls_timer_exec :: "('c \<Rightarrow> 'c timer \<Rightarrow> 's \<Rightarrow> 's) \<Rightarrow> 'c timer \<Rightarrow> 's \<Rightarrow> 's" where
  "ls_timer_exec call tim s = call (tm_cb tim) tim s"

section \<open>Time in microseconds\<close>

definition tv_ok :: "timeval \<Rightarrow> bool" where
  "tv_ok t \<longleftrightarrow> 0 \<le> tv_usec t \<and> tv_usec t < 1000000"

definition usecs :: "timeval \<Rightarrow> int" where
  "usecs t = tv_sec t * 1000000 + tv_usec t"

lemma long_id: "- (2 ^ 63) \<le> x \<Longrightarrow> x < 2 ^ 63 \<Longrightarrow> long x = x"
  by (simp add: long_def signed_take_bit_int_eq_self)

lemma timercmp_less: "tv_ok a \<Longrightarrow> tv_ok b \<Longrightarrow> timercmp a b (<) \<longleftrightarrow> usecs a < usecs b"
  by (auto simp: timercmp_def usecs_def tv_ok_def)

lemma timercmp_greater: "tv_ok a \<Longrightarrow> tv_ok b \<Longrightarrow> timercmp a b (>) \<longleftrightarrow> usecs a > usecs b"
  by (auto simp: timercmp_def usecs_def tv_ok_def)

lemma timeradd_usecs:
  assumes "tv_ok a" and "tv_ok b" and "- (2 ^ 63) \<le> tv_sec a + tv_sec b"
    and "tv_sec a + tv_sec b < 2 ^ 63 - 1"
  shows "tv_ok (timeradd a b) \<and> usecs (timeradd a b) = usecs a + usecs b"
proof -
  have "long (tv_sec a + tv_sec b) = tv_sec a + tv_sec b"
    "long (tv_usec a + tv_usec b) = tv_usec a + tv_usec b"
    "long (tv_sec a + tv_sec b + 1) = tv_sec a + tv_sec b + 1"
    using assms by (auto simp: tv_ok_def intro!: long_id)
  then show ?thesis using assms(1,2)
    by (auto simp: timeradd_def Let_def usecs_def tv_ok_def)
qed

text \<open>C35: A timer created for \<open>ms\<close> milliseconds from now is due exactly from then on: compared with
  a clock reading it is still in the future if and only if fewer than \<open>ms\<close> milliseconds have
  passed, to the microsecond, whatever carries from the microseconds into the seconds.\<close>

theorem ls_timer_create_ms_due:
  assumes "tv_ok now" and "tv_ok clock" and "0 \<le> tv_sec now"
    and "tv_sec now + int (ms div 1000) < 2 ^ 63 - 1"
    and "ls_timer_create_ms now ms cb ctx m = (Inr (a, tim), m')"
  shows "tv_ok (tm_tv tim) \<and>
         (ls_timer_greater_tv tim clock \<longleftrightarrow> usecs clock < usecs now + 1000 * int ms)"
proof -
  let ?d = "\<lparr>tv_sec = int (ms div 1000), tv_usec = int (ms mod 1000 * 1000)\<rparr>"
  have d: "tv_ok ?d" by (simp add: tv_ok_def)
  have "int ms = int (ms div 1000) * 1000 + int (ms mod 1000)"
    by (metis div_mult_mod_eq of_nat_add of_nat_mult of_nat_numeral)
  then have u: "usecs ?d = 1000 * int ms" by (simp add: usecs_def algebra_simps)
  have tim: "tm_tv tim = timeradd now ?d"
    using assms(5) by (auto simp: ls_timer_create_ms_def ls_timer_create_def Let_def
        split: prod.splits option.splits)
  have "tv_ok (tm_tv tim) \<and> usecs (tm_tv tim) = usecs now + 1000 * int ms"
    unfolding tim u[symmetric] using assms(3,4) by (intro timeradd_usecs[OF assms(1) d]) simp_all
  then show ?thesis using timercmp_greater[OF _ assms(2)] by (simp add: ls_timer_greater_tv_def)
qed

lemma ls_timer_create_ms_due_witness:
  "\<exists>a tim m'. ls_timer_create_ms \<lparr>tv_sec = 7, tv_usec = 999000\<rparr> 1500 () 0 init_mem = (Inr (a, tim), m') \<and>
     tv_ok (tm_tv tim) \<and>
     (ls_timer_greater_tv tim \<lparr>tv_sec = 9, tv_usec = 498999\<rparr> \<longleftrightarrow> 9498999 < usecs \<lparr>tv_sec = 7, tv_usec = 999000\<rparr> + 1500000)"
proof -
  obtain a tim m' where c: "ls_timer_create_ms \<lparr>tv_sec = 7, tv_usec = 999000\<rparr> 1500 () 0 init_mem =
      (Inr (a, tim), m')"
    by (fastforce simp: ls_timer_create_ms_def ls_timer_create_def ls_data_calloc_def
        ls_data_malloc_def init_mem_def libc_malloc_def Let_def)
  show ?thesis
    using ls_timer_create_ms_due[OF _ _ _ _ c, of "\<lparr>tv_sec = 9, tv_usec = 498999\<rparr>"] c
    by (simp add: tv_ok_def usecs_def)
qed

lemma ls_timer_cancelled_first:
  "tv_ok (tm_tv t) \<Longrightarrow> 0 \<le> tv_sec (tm_tv t) \<Longrightarrow>
   ls_timer_is_cancelled (ls_timer_cancel t) \<and> ls_timer_get_time (ls_timer_cancel t) = None \<and>
   \<not> ls_timer_greater (ls_timer_cancel u) t"
  by (auto simp: ls_timer_is_cancelled_def ls_timer_cancel_def ls_timer_get_time_def timercmp_def
      epoch_def ls_timer_greater_def tv_ok_def)

end
