(* ===== verification/Spud.thy ===== *)
theory Spud
  imports Ls_Mem Ls_Str
begin

unbundle bit_operations_syntax

text \<open>
  The SPUD header of \<open>src/spud.c\<close> and \<open>include/spud.h\<close>: building it, recognising and parsing a
  packet, comparing and printing tube identifiers.

  The CBOR library is not part of the repository: its decoder and its \<open>cn_cbor_free\<close> are arguments
  of the functions that call them, and so is the random source, what reading \<open>/dev/urandom\<close> gives.
  They act on the state \<open>'s\<close>.  A packet is its list of bytes.
\<close>

section \<open>The wire format\<close>

definition SPUD_TUBE_ID_SIZE :: nat where "SPUD_TUBE_ID_SIZE = 8"
definition SPUD_ID_STRING_SIZE :: nat where "SPUD_ID_STRING_SIZE = 2 * SPUD_TUBE_ID_SIZE"
definition SpudMagicCookie :: "u8 list" where "SpudMagicCookie = [0xd8, 0x00, 0x00, 0xd8]"
definition SPUD_MAGIC_COOKIE_SIZE :: nat where "SPUD_MAGIC_COOKIE_SIZE = 4"

datatype spud_command = SPUD_DATA | SPUD_OPEN | SPUD_CLOSE | SPUD_ACK

fun command_bits :: "spud_command \<Rightarrow> u8" where
  "command_bits SPUD_DATA = push_bit 6 0x00"
| "command_bits SPUD_OPEN = push_bit 6 0x01"
| "command_bits SPUD_CLOSE = push_bit 6 0x02"
| "command_bits SPUD_ACK = push_bit 6 0x03"

definition SPUD_ADEC :: u8 where "SPUD_ADEC = 0x20"
definition SPUD_PDEC :: u8 where "SPUD_PDEC = 0x10"
definition SPUD_COMMAND :: u8 where "SPUD_COMMAND = 0xC0"

type_synonym spud_tube_id = "u8 list"

record spud_header =
  magic :: "u8 list"
  tube_id :: spud_tube_id
  flags :: u8

definition sizeof_spud_header :: nat where "sizeof_spud_header = 13"

text \<open>The bytes of a header, and the header that a pointer to bytes is cast to.\<close>

definition header_bytes :: "spud_header \<Rightarrow> u8 list" where
  "header_bytes h = magic h @ tube_id h @ [flags h]"

definition header_at :: "u8 list \<Rightarrow> spud_header" where
  "header_at bs =
     \<lparr>magic = take SPUD_MAGIC_COOKIE_SIZE bs,
      tube_id = take SPUD_TUBE_ID_SIZE (drop SPUD_MAGIC_COOKIE_SIZE bs),
      flags = bs ! (SPUD_MAGIC_COOKIE_SIZE + SPUD_TUBE_ID_SIZE)\<rparr>"

record 'c spud_message =
  msg_header :: "spud_header option"
  msg_cbor :: "'c option"

section \<open>Operations\<close>

definition spud_is_spud :: "u8 list \<Rightarrow> bool" where
  "spud_is_spud payload =
     (if length payload < sizeof_spud_header then False
      else take SPUD_MAGIC_COOKIE_SIZE payload = SpudMagicCookie)"

text \<open>The random source: an \<open>errno\<close> when it cannot be opened, else the bytes it delivers, which may
  be fewer than asked for.  In that case the code reports failure and no error code.\<close>

type_synonym 's rand_source = "nat \<Rightarrow> 's \<Rightarrow> (int + u8 list) \<times> 's"

definition get_rand_buf ::
  "'s rand_source \<Rightarrow> nat \<Rightarrow> 's \<Rightarrow> (errcode option + u8 list) \<times> 's" where
  "get_rand_buf urandom sz s =
     (case urandom sz s of
        (Inl errno, s1) \<Rightarrow> (Inl (Some (- errno)), s1)
      | (Inr bs, s1) \<Rightarrow> if length bs = sz then (Inr bs, s1) else (Inl None, s1))"

definition spud_create_id ::
  "'s rand_source \<Rightarrow> 's \<Rightarrow> (errcode option + spud_tube_id) \<times> 's" where
  "spud_create_id urandom s = get_rand_buf urandom SPUD_TUBE_ID_SIZE s"

definition spud_set_id ::
  "spud_header option \<Rightarrow> spud_tube_id option \<Rightarrow> errcode + spud_header" where
  "spud_set_id hdr tid =
     (case (hdr, tid) of
        (Some h, Some i) \<Rightarrow> Inr (h\<lparr>tube_id := i\<rparr>)
      | _ \<Rightarrow> Inl LS_ERR_INVALID_ARG)"

definition spud_init ::
  "'s rand_source \<Rightarrow> spud_header \<Rightarrow> spud_tube_id option \<Rightarrow> 's \<Rightarrow>
   (errcode option + spud_header) \<times> 's" where
  "spud_init urandom hdr tid s =
     (let hdr1 = hdr\<lparr>magic := SpudMagicCookie, flags := 0\<rparr> in
      case tid of
        Some i \<Rightarrow> (map_sum Some (\<lambda>h. h) (spud_set_id (Some hdr1) tid), s)
      | None \<Rightarrow>
          (case spud_create_id urandom s of
             (Inl e, s1) \<Rightarrow> (Inl e, s1)
           | (Inr i, s1) \<Rightarrow> (Inr (hdr1\<lparr>tube_id := i\<rparr>), s1)))"

text \<open>The decoder returns the tree it built, or the number of its error.\<close>

type_synonym ('c, 's) cbor_decoder = "u8 list \<Rightarrow> 's \<Rightarrow> (int + 'c) \<times> 's"

definition spud_parse ::
  "('c, 's) cbor_decoder \<Rightarrow> u8 list option \<Rightarrow> 'c spud_message \<Rightarrow> 's \<Rightarrow>
   (errcode + unit) \<times> 'c spud_message \<times> 's" where
  "spud_parse cn_cbor_decode payload msg s =
     (case payload of
        None \<Rightarrow> (Inl LS_ERR_INVALID_ARG, msg, s)
      | Some bs \<Rightarrow>
          if \<not> spud_is_spud bs then (Inl LS_ERR_INVALID_ARG, msg, s)
          else
            (let msg1 = msg\<lparr>msg_header := Some (header_at bs)\<rparr> in
             if length bs > sizeof_spud_header then
               (case cn_cbor_decode (drop sizeof_spud_header bs) s of
                  (Inl e, s1) \<Rightarrow> (Inl (LS_ERR_USER + e), msg1\<lparr>msg_cbor := None\<rparr>, s1)
                | (Inr c, s1) \<Rightarrow> (Inr (), msg1\<lparr>msg_cbor := Some c\<rparr>, s1))
             else (Inr (), msg1\<lparr>msg_cbor := None\<rparr>, s)))"

definition spud_unparse ::
  "('c \<Rightarrow> 's \<Rightarrow> 's) \<Rightarrow> 'c spud_message \<Rightarrow> 's \<Rightarrow> 'c spud_message \<times> 's" where
  "spud_unparse cn_cbor_free msg s =
     (let s1 = (case msg_cbor msg of Some c \<Rightarrow> cn_cbor_free c s | None \<Rightarrow> s) in
      (msg\<lparr>msg_header := None, msg_cbor := None\<rparr>, s1))"

definition spud_is_id_equal :: "spud_tube_id option \<Rightarrow> spud_tube_id option \<Rightarrow> bool" where
  "spud_is_id_equal a b =
     (case (a, b) of
        (Some x, Some y) \<Rightarrow> take SPUD_TUBE_ID_SIZE x = take SPUD_TUBE_ID_SIZE y
      | _ \<Rightarrow> False)"

definition hex_digit :: "u8 \<Rightarrow> u8" where
  "hex_digit d = (if d < 10 then 48 + d else 87 + d)"

definition hex_octet :: "u8 \<Rightarrow> cstr" where
  "hex_octet b = [hex_digit (drop_bit 4 b), hex_digit (b AND 0x0f)]"

definition spud_id_to_string :: "nat \<Rightarrow> spud_tube_id \<Rightarrow> cstr option" where
  "spud_id_to_string len tid =
     (if len < SPUD_ID_STRING_SIZE + 1 then None
      else Some (concat (map hex_octet tid)))"

definition spud_copy_id :: "spud_tube_id \<Rightarrow> spud_tube_id" where
  "spud_copy_id src = src"

section \<open>Packets\<close>

lemmas sizes = sizeof_spud_header_def SPUD_MAGIC_COOKIE_SIZE_def SPUD_TUBE_ID_SIZE_def
  SPUD_ID_STRING_SIZE_def

lemma header_at_bytes:
  "length (magic h) = 4 \<Longrightarrow> length (tube_id h) = 8 \<Longrightarrow> header_at (header_bytes h @ body) = h"
  by (cases h) (simp add: header_at_def header_bytes_def sizes nth_append)

lemma parse_of_init:
  assumes "length i = SPUD_TUBE_ID_SIZE" and "spud_init urandom hdr0 (Some i) s0 = (Inr hdr, s1)"
  shows "spud_parse decode (Some (header_bytes (hdr\<lparr>flags := f\<rparr>) @ body)) msg s =
     (if body = [] then (Inr (), \<lparr>msg_header = Some (hdr\<lparr>flags := f\<rparr>), msg_cbor = None\<rparr>, s)
      else case decode body s of
        (Inl e, s') \<Rightarrow> (Inl (LS_ERR_USER + e), \<lparr>msg_header = Some (hdr\<lparr>flags := f\<rparr>), msg_cbor = None\<rparr>, s')
      | (Inr c, s') \<Rightarrow> (Inr (), \<lparr>msg_header = Some (hdr\<lparr>flags := f\<rparr>), msg_cbor = Some c\<rparr>, s')) \<and>
     tube_id hdr = i \<and> magic hdr = SpudMagicCookie \<and> flags hdr = 0"
proof -
  have hdr: "hdr = hdr0\<lparr>magic := SpudMagicCookie, flags := 0, tube_id := i\<rparr>"
    using assms(2) by (simp add: spud_init_def spud_set_id_def)
  let ?h = "hdr\<lparr>flags := f\<rparr>"
  have len: "length (header_bytes ?h) = 13"
    using assms(1) by (simp add: header_bytes_def hdr SpudMagicCookie_def sizes)
  have at: "header_at (header_bytes ?h @ body) = ?h"
    by (rule header_at_bytes) (use assms(1) in \<open>simp_all add: hdr SpudMagicCookie_def sizes\<close>)
  have spud: "spud_is_spud (header_bytes ?h @ body)"
    using len by (simp add: spud_is_spud_def sizes) (simp add: header_bytes_def hdr SpudMagicCookie_def)
  show ?thesis
    using len at spud by (auto simp: spud_parse_def Let_def sizes hdr split: prod.split sum.split)
qed

text \<open>C9: A packet built from an initialised header is recognised and parsed back: for every tube
  identifier, every flags byte put in the header afterwards and every body, parsing the bytes gives
  the same header, and the tree that the decoder makes of the body; an empty body is not given to
  the decoder and leaves no tree.\<close>

theorem spud_init_parse:
  assumes "length i = SPUD_TUBE_ID_SIZE" and "spud_init urandom hdr0 (Some i) s0 = (Inr hdr, s1)"
  shows "spud_parse decode (Some (header_bytes (hdr\<lparr>flags := f\<rparr>) @ body)) msg s =
     (if body = [] then (Inr (), \<lparr>msg_header = Some (hdr\<lparr>flags := f\<rparr>), msg_cbor = None\<rparr>, s)
      else case decode body s of
        (Inl e, s') \<Rightarrow> (Inl (LS_ERR_USER + e), \<lparr>msg_header = Some (hdr\<lparr>flags := f\<rparr>), msg_cbor = None\<rparr>, s')
      | (Inr c, s') \<Rightarrow> (Inr (), \<lparr>msg_header = Some (hdr\<lparr>flags := f\<rparr>), msg_cbor = Some c\<rparr>, s')) \<and>
     tube_id hdr = i \<and> magic hdr = SpudMagicCookie \<and> flags hdr = 0"
  by (rule parse_of_init[OF assms])

lemma spud_init_parse_witness:
  "spud_parse (\<lambda>bs s. (Inr bs, s)) (Some (header_bytes (\<lparr>magic = SpudMagicCookie,
       tube_id = [1, 2, 3, 4, 5, 6, 7, 8], flags = 0\<rparr>\<lparr>flags := 64\<rparr>) @ [160])) \<lparr>msg_header = None, msg_cbor = None\<rparr> () =
   (Inr (), \<lparr>msg_header = Some (\<lparr>magic = SpudMagicCookie, tube_id = [1, 2, 3, 4, 5, 6, 7, 8],
       flags = 64\<rparr>), msg_cbor = Some [160]\<rparr>, ())"
proof -
  have i: "spud_init (\<lambda>n s. (Inr [], s)) \<lparr>magic = [], tube_id = [], flags = 9\<rparr>
      (Some [1, 2, 3, 4, 5, 6, 7, 8]) () =
      (Inr \<lparr>magic = SpudMagicCookie, tube_id = [1, 2, 3, 4, 5, 6, 7, 8], flags = 0\<rparr>, ())"
    by (simp add: spud_init_def spud_set_id_def)
  have "length [1, 2, 3, 4, 5, 6, 7, 8 :: u8] = SPUD_TUBE_ID_SIZE" by (simp add: SPUD_TUBE_ID_SIZE_def)
  from spud_init_parse[OF this i, of "\<lambda>bs s. (Inr bs, s)" 64 "[160]" "\<lparr>msg_header = None, msg_cbor = None\<rparr>" "()"] show ?thesis by simp
qed

text \<open>C28: \<open>spud_parse\<close> accepts a packet exactly when it has at least the 13 bytes of the fixed
  header, begins with the magic number, and has after it nothing or what the decoder accepts; a
  packet of exactly 13 bytes is accepted without a tree.  A packet that is not SPUD leaves the
  message alone, and after any other failure the message holds no tree.\<close>

theorem spud_parse_accepts:
  "case spud_parse decode (Some bs) msg s of (r, msg', s') \<Rightarrow>
     (r = Inr () \<longleftrightarrow> 13 \<le> length bs \<and> take 4 bs = [0xd8, 0, 0, 0xd8] \<and>
        (length bs = 13 \<or> (\<exists>c. fst (decode (drop 13 bs) s) = Inr c))) \<and>
     (\<not> (13 \<le> length bs \<and> take 4 bs = [0xd8, 0, 0, 0xd8]) \<longrightarrow>
        r = Inl LS_ERR_INVALID_ARG \<and> msg' = msg \<and> s' = s) \<and>
     (13 \<le> length bs \<and> take 4 bs = [0xd8, 0, 0, 0xd8] \<and> r \<noteq> Inr () \<longrightarrow> msg_cbor msg' = None) \<and>
     (length bs = 13 \<and> r = Inr () \<longrightarrow> msg_cbor msg' = None \<and> s' = s)"
  by (auto simp: spud_parse_def spud_is_spud_def Let_def sizes SpudMagicCookie_def
      split: prod.split sum.split)

lemma spud_parse_accepts_witness:
  "spud_parse (\<lambda>bs s. (Inl 3, s)) (Some ([0xd8, 0, 0, 0xd8] @ replicate 9 7)) \<lparr>msg_header = None, msg_cbor = None :: unit option\<rparr> () =
     (Inr (), \<lparr>msg_header = Some \<lparr>magic = [0xd8, 0, 0, 0xd8], tube_id = replicate 8 7, flags = 7\<rparr>,
                msg_cbor = None :: unit option\<rparr>, ())"
proof -
  let ?bs = "[0xd8, 0, 0, 0xd8] @ replicate 9 (7 :: u8)"
  have "fst (spud_parse (\<lambda>bs s. (Inl 3, s)) (Some ?bs) \<lparr>msg_header = None, msg_cbor = None :: unit option\<rparr> ()) = Inr ()"
    using spud_parse_accepts[where decode = "\<lambda>bs s. (Inl 3, s)" and bs = ?bs and msg = "\<lparr>msg_header = None, msg_cbor = None :: unit option\<rparr>" and s = "()"] by (auto split: prod.splits)
  then show ?thesis
    by (simp add: spud_parse_def Let_def spud_is_spud_def header_at_def sizes SpudMagicCookie_def
        numeral_nat)
qed

section \<open>Identifiers\<close>

lemma hex_digit_unat:
  assumes "d < 16"
  shows "unat (hex_digit d) = (if unat d < 10 then 48 + unat d else 87 + unat d)"
proof -
  have d: "unat d < 16" using assms by (simp add: word_less_nat_alt)
  have "unat (48 + d) = 48 + unat d" "unat (87 + d) = 87 + unat d"
    using d by (subst unat_add_lem[THEN iffD1]; simp)+
  then show ?thesis by (simp add: hex_digit_def word_less_nat_alt)
qed

lemma hex_digit_inj: "a < 16 \<Longrightarrow> b < 16 \<Longrightarrow> hex_digit a = hex_digit b \<Longrightarrow> a = b"
proof -
  assume ab: "a < 16" "b < 16" and h: "hex_digit a = hex_digit b"
  have "unat a < 16" "unat b < 16" using ab by (simp_all add: word_less_nat_alt)
  moreover have "unat (hex_digit a) = unat (hex_digit b)" using h by simp
  ultimately have "unat a = unat b"
    unfolding hex_digit_unat[OF ab(1)] hex_digit_unat[OF ab(2)] by (simp split: if_splits)
  then show "a = b" by (simp add: word_unat_eq_iff)
qed

lemma nibbles_less: "drop_bit 4 (b :: u8) < 16" "(b AND 0x0f) < 16"
proof -
  have "unat (drop_bit 4 b) = unat b div 16" by (simp add: drop_bit_eq_div unat_div)
  moreover have "unat b < 2 ^ LENGTH(8)" by (rule unsigned_less)
  ultimately have "unat (drop_bit 4 b) < 16" by simp
  then show "drop_bit 4 b < 16" by (simp add: word_less_nat_alt)
  have "b AND 0x0f \<le> 0x0f" by (rule word_and_le1)
  then show "(b AND 0x0f) < 16" by (rule order_le_less_trans) simp
qed

lemma hex_octet_inj: "hex_octet a = hex_octet b \<Longrightarrow> a = b"
proof -
  assume "hex_octet a = hex_octet b"
  then have "drop_bit 4 a = drop_bit 4 b" "a AND 0x0f = b AND 0x0f"
    using hex_digit_inj nibbles_less by (auto simp: hex_octet_def)
  moreover have "x AND 0x0f = take_bit 4 x" for x :: u8
    by (simp add: take_bit_eq_mask mask_eq_exp_minus_1)
  ultimately show "a = b" by (metis bits_ident)
qed

lemma hex_octets_inj: "concat (map hex_octet xs) = concat (map hex_octet ys) \<Longrightarrow> xs = ys"
proof (induction xs arbitrary: ys)
  case Nil
  then show ?case by (cases ys) (auto simp: hex_octet_def)
next
  case (Cons x xs)
  then obtain y ys' where ys: "ys = y # ys'" by (cases ys) (auto simp: hex_octet_def)
  have "length (hex_octet x) = length (hex_octet y)" by (simp add: hex_octet_def)
  then have "hex_octet x = hex_octet y" "concat (map hex_octet xs) = concat (map hex_octet ys')"
    using Cons.prems by (auto simp: ys)
  then show ?case using Cons.IH hex_octet_inj ys by blast
qed

lemma hex_digit_range: "d < 16 \<Longrightarrow> hex_digit d \<in> {48..57} \<union> {97..102}"
  using hex_digit_unat[of d] by (auto simp: word_le_nat_alt word_less_nat_alt split: if_splits)

lemma hex_octet_range: "set (hex_octet b) \<subseteq> {48..57} \<union> {97..102}"
  using hex_digit_range[OF nibbles_less(1)] hex_digit_range[OF nibbles_less(2)]
  unfolding hex_octet_def by (simp del: atLeastAtMost_iff)

text \<open>C38: Printing is faithful: given room for 17 characters, an identifier is printed as 16
  lower-case hexadecimal digits, none of them the terminator, and two identifiers have the same
  string exactly when \<open>spud_is_id_equal\<close> says they are equal; with less room nothing is printed.\<close>

theorem spud_id_to_string_faithful:
  assumes "length a = 8" and "length b = 8"
  shows "(spud_id_to_string len a = None \<longleftrightarrow> len < 17) \<and>
         (\<forall>s. spud_id_to_string len a = Some s \<longrightarrow>
            length s = 16 \<and> set s \<subseteq> {48..57} \<union> {97..102} \<and>
            (spud_id_to_string len b = Some s \<longleftrightarrow> spud_is_id_equal (Some a) (Some b)))"
proof -
  have l: "length (concat (map hex_octet xs)) = 2 * length xs" for xs
    by (induction xs) (auto simp: hex_octet_def)
  have r: "set (concat (map hex_octet xs)) \<subseteq> {48..57} \<union> {97..102}" for xs
    using hex_octet_range unfolding set_concat set_map by blast
  have "concat (map hex_octet b) = concat (map hex_octet a) \<longleftrightarrow> a = b"
    using hex_octets_inj by blast
  then show ?thesis using assms l[of a] r[of a]
    unfolding spud_id_to_string_def sizes spud_is_id_equal_def by simp
qed

lemma spud_id_to_string_faithful_witness:
  "spud_id_to_string 17 [0xde, 0xad, 0, 1, 2, 3, 4, 0xff] =
     Some [100, 101, 97, 100, 48, 48, 48, 49, 48, 50, 48, 51, 48, 52, 102, 102] \<and>
   \<not> spud_is_id_equal (Some [0xde, 0xad, 0, 1, 2, 3, 4, 0xff]) (Some [0xde, 0xad, 0, 1, 2, 3, 4, 0xfe])"
proof -
  let ?a = "[0xde, 0xad, 0, 1, 2, 3, 4, 0xff] :: u8 list" and ?b = "[0xde, 0xad, 0, 1, 2, 3, 4, 0xfe] :: u8 list"
  have "spud_id_to_string 17 ?a =
     Some [100, 101, 97, 100, 48, 48, 48, 49, 48, 50, 48, 51, 48, 52, 102, 102]"
    and "spud_id_to_string 17 ?b =
     Some [100, 101, 97, 100, 48, 48, 48, 49, 48, 50, 48, 51, 48, 52, 102, 101]"
    by (simp_all add: spud_id_to_string_def sizes hex_octet_def hex_digit_def)
  then show ?thesis using spud_id_to_string_faithful[of ?a ?b 17] by simp
qed

end
