(* ===== verification/C_Format.thy ===== *)
theory C_Format
  imports Ls_Str
begin

text \<open>
  Formatting by the C library: the conversions of \<open>printf\<close> that the program uses, and broken-down
  time, with the inverse functions that the properties read the text by.
\<close>

section \<open>Numbers\<close>

text \<open>The bytes of a literal.\<close>

definition ascii :: "string \<Rightarrow> cstr" where
  "ascii s = map of_char s"

text \<open>\<open>%u\<close>.\<close>

fun dec_string :: "nat \<Rightarrow> cstr" where
  "dec_string n = (if n < 10 then [of_nat (48 + n)] else dec_string (n div 10) @ [of_nat (48 + n mod 10)])"

declare dec_string.simps [simp del]

text \<open>\<open>%.<p>d\<close>: at least \<open>p\<close> digits.\<close>

definition d_prec :: "nat \<Rightarrow> int \<Rightarrow> cstr" where
  "d_prec p n =
     (let ds = dec_string (nat \<bar>n\<bar>) in
      (if n < 0 then [45] else []) @ replicate (p - length ds) 48 @ ds)"

text \<open>\<open>%-<w>s\<close>.\<close>

definition left_justified :: "nat \<Rightarrow> cstr \<Rightarrow> cstr" where
  "left_justified w s = s @ replicate (w - length s) 32"

text \<open>\<open>%p\<close>.\<close>

fun hex_string :: "nat \<Rightarrow> cstr" where
  "hex_string n = (if n < 16 then [of_nat (if n < 10 then 48 + n else 87 + n)]
                   else hex_string (n div 16) @ hex_string (n mod 16))"

declare hex_string.simps [simp del]

definition ptr_string :: "nat option \<Rightarrow> cstr" where
  "ptr_string p = (case p of None \<Rightarrow> ascii ''(nil)'' | Some a \<Rightarrow> ascii ''0x'' @ hex_string a)"

definition read_dec :: "cstr \<Rightarrow> int" where
  "read_dec ds = foldl (\<lambda>n d. 10 * n + (uint d - 48)) 0 ds"

lemma ascii_length [simp]: "length (ascii s) = length s"
  by (simp add: ascii_def)

lemma dec_string_length: "0 < k \<Longrightarrow> n < 10 ^ k \<Longrightarrow> length (dec_string n) \<le> k"
proof (induction n arbitrary: k rule: dec_string.induct)
  case (1 n)
  show ?case
  proof (cases "n < 10")
    case False
    then have "1 < k" using 1(2,3) by (cases "k = 1") auto
    then obtain j where k: "k = Suc j" "0 < j" using not0_implies_Suc by fastforce
    then have "n div 10 < 10 ^ j" using 1(3) by (simp add: div_less_iff_less_mult mult.commute)
    then have "length (dec_string (n div 10)) \<le> j" using 1(1) False k by blast
    then show ?thesis using False k by (simp add: dec_string.simps[of n])
  qed (use 1(2) in \<open>simp add: dec_string.simps[of n]\<close>)
qed

lemma dec_string_length_ge: "10 ^ k \<le> n \<Longrightarrow> k < length (dec_string n)"
proof (induction n arbitrary: k rule: dec_string.induct)
  case (1 n)
  show ?case
  proof (cases k)
    case 0
    then show ?thesis by (simp add: dec_string.simps[of n])
  next
    case (Suc j)
    have "10 \<le> (10 :: nat) * 10 ^ j" by simp
    then have n: "10 \<le> n" using 1(2)[unfolded Suc power_Suc] by linarith
    have "10 ^ j \<le> n div 10" using 1(2) Suc by (simp add: less_eq_div_iff_mult_less_eq mult.commute)
    then have "j < length (dec_string (n div 10))" using 1(1) n by simp
    then show ?thesis using n Suc by (simp add: dec_string.simps[of n])
  qed
qed

lemma digit_value: "n < 10 \<Longrightarrow> uint (of_nat (48 + n) :: u8) = 48 + int n"
  by (simp add: unsigned_of_nat take_bit_nat_eq_self uint_nat del: of_nat_add)

lemma int_div_mod: "10 * int (n div 10) + int (n mod 10) = int n"
  by presburger

lemma read_dec_snoc: "read_dec (ds @ [d]) = 10 * read_dec ds + (uint d - 48)"
  by (simp add: read_dec_def)

lemma read_dec_string: "read_dec (dec_string n) = int n"
proof (induction n rule: dec_string.induct)
  case (1 n)
  show ?case
  proof (cases "n < 10")
    case True
    then show ?thesis
      using digit_value[of n] by (simp add: dec_string.simps[of n] read_dec_def del: of_nat_add)
  next
    case False
    then show ?thesis
      using 1 digit_value[of "n mod 10"] int_div_mod[of n]
      by (simp add: dec_string.simps[of n] read_dec_snoc del: of_nat_add)
  qed
qed

lemma read_dec_zeros: "read_dec (replicate k 48 @ ds) = read_dec ds"
proof -
  have "foldl (\<lambda>n d. 10 * n + (uint (d :: u8) - 48)) 0 (replicate k 48) = (0 :: int)" by (induction k) auto
  then show ?thesis by (simp add: read_dec_def)
qed

text \<open>A number that fits its digits is as long as these and is read back.\<close>

lemma d_prec_read:
  assumes "0 \<le> n" and "n < 10 ^ p" and "0 < p"
  shows "length (d_prec p n) = p" and "read_dec (d_prec p n) = n"
proof -
  have "nat n < 10 ^ p" using assms by (simp add: nat_less_iff)
  then have "length (dec_string (nat n)) \<le> p" using assms(3) by (intro dec_string_length)
  then show "length (d_prec p n) = p" using assms(1) by (simp add: d_prec_def Let_def)
  show "read_dec (d_prec p n) = n"
    using assms(1) by (simp add: d_prec_def Let_def read_dec_zeros read_dec_string)
qed

lemma d_prec_length:
  assumes "\<bar>n\<bar> < 10 ^ k" and "0 < k" and "p \<le> k"
  shows "length (d_prec p n) \<le> k + (if n < 0 then 1 else 0)"
proof -
  have "nat \<bar>n\<bar> < 10 ^ k" using assms by (simp add: nat_less_iff)
  then have "length (dec_string (nat \<bar>n\<bar>)) \<le> k" using assms(2) by (intro dec_string_length)
  then show ?thesis using assms(3) by (cases "n < 0") (auto simp: d_prec_def Let_def abs_if)
qed

section \<open>Broken-down time\<close>

text \<open>\<open>tm_year\<close> counts from 1900 and \<open>tm_mon\<close> from 0.\<close>

record tm =
  tm_year :: int
  tm_mon :: int
  tm_mday :: int
  tm_hour :: int
  tm_min :: int
  tm_sec :: int

definition leap :: "int \<Rightarrow> bool" where
  "leap y \<longleftrightarrow> y mod 4 = 0 \<and> (y mod 100 \<noteq> 0 \<or> y mod 400 = 0)"

definition year_days :: "int \<Rightarrow> int" where
  "year_days y = (if leap y then 366 else 365)"

definition month_lengths :: "int \<Rightarrow> int list" where
  "month_lengths y = [31, if leap y then 29 else 28, 31, 30, 31, 30, 31, 31, 30, 31, 30, 31]"

text \<open>The year of day \<open>d\<close> of the year \<open>y\<close>, and the day within it.\<close>

function find_year :: "int \<Rightarrow> int \<Rightarrow> int \<times> int" where
  "find_year y d =
     (if d < 0 then find_year (y - 1) (d + year_days (y - 1))
      else if year_days y \<le> d then find_year (y + 1) (d - year_days y)
      else (y, d))"
  by auto
termination
  by (relation "measure (\<lambda>(y, d). if d < 0 then 400 + nat (- d) else nat d)")
    (auto simp: year_days_def split: if_splits)

declare find_year.simps [simp del]

fun find_month :: "int list \<Rightarrow> int \<Rightarrow> int \<Rightarrow> int \<times> int" where
  "find_month [] m d = (m, d)"
| "find_month (l # ls) m d = (if d < l then (m, d) else find_month ls (m + 1) (d - l))"

text \<open>\<open>None\<close> when the year does not fit an \<open>int\<close>.\<close>

definition gmtime :: "int \<Rightarrow> tm option" where
  "gmtime t =
     (case find_year 1970 (t div 86400) of
        (y, yd) \<Rightarrow>
          (case find_month (month_lengths y) 0 yd of
             (m, md) \<Rightarrow>
               if y - 1900 < - (2 ^ 31) \<or> y - 1900 \<ge> 2 ^ 31 then None
               else Some \<lparr>tm_year = y - 1900, tm_mon = m, tm_mday = md + 1,
                          tm_hour = t mod 86400 div 3600, tm_min = t mod 3600 div 60, tm_sec = t mod 60\<rparr>))"

text \<open>\<open>strftime\<close> with the format \<open>%Y-%m-%dT%H:%M:%S\<close>: the characters written, none when the text and
  its terminator do not fit.\<close>

definition stamp_text :: "tm \<Rightarrow> cstr" where
  "stamp_text g =
     d_prec 1 (tm_year g + 1900) @ [45] @ d_prec 2 (tm_mon g + 1) @ [45] @ d_prec 2 (tm_mday g) @ [84] @
     d_prec 2 (tm_hour g) @ [58] @ d_prec 2 (tm_min g) @ [58] @ d_prec 2 (tm_sec g)"

definition strftime_stamp :: "nat \<Rightarrow> tm \<Rightarrow> cstr" where
  "strftime_stamp maxsize g = (if length (stamp_text g) < maxsize then stamp_text g else [])"

section \<open>The calendar\<close>

text \<open>The days from the first day of 1970 to that of a year, in closed form.\<close>

definition days_before :: "int \<Rightarrow> int" where
  "days_before y = 365 * (y - 1970) + (y - 1) div 4 - (y - 1) div 100 + (y - 1) div 400 - 477"

lemma div_pred:
  assumes "0 < (k :: int)"
  shows "(y - 1) div k = (if y mod k = 0 then y div k - 1 else y div k)"
proof (cases "y mod k = 0")
  case True
  then obtain q where q: "y = k * q" by (auto simp: mod_eq_0_iff_dvd dvd_def)
  have "k * q - 1 = k * (q - 1) + (k - 1)" by (simp only: right_diff_distrib)
  from int_div_pos_eq[OF this] have "(k * q - 1) div k = q - 1" using assms by simp
  then show ?thesis using True assms by (simp add: q)
next
  case False
  then have r: "0 < y mod k" using assms by (simp add: order_less_le)
  have "y - 1 = k * (y div k) + (y mod k - 1)" by simp
  then show ?thesis
    using False r pos_mod_bound[OF assms, of y]
      int_div_pos_eq[of "y - 1" k "y div k" "y mod k - 1"] by simp
qed

lemma leap_div: "y mod 400 = 0 \<Longrightarrow> y mod 100 = 0" "y mod 100 = 0 \<Longrightarrow> y mod 4 = 0" for y :: int
  using mod_mod_cancel[of 100 400 y] mod_mod_cancel[of 4 100 y] by simp_all

lemma days_before_step: "days_before (y + 1) = days_before y + year_days y"
  using leap_div[of y]
  by (auto simp: days_before_def year_days_def leap_def div_pred)

lemma days_before_mono: "a \<le> b \<Longrightarrow> days_before a \<le> days_before b"
proof (induction b rule: int_ge_induct)
  case (step i)
  then show ?case using days_before_step[of i] by (simp add: year_days_def split: if_splits)
qed simp

lemma find_year_day:
  "find_year y d = (y', d') \<Longrightarrow> days_before y' + d' = days_before y + d \<and> 0 \<le> d' \<and> d' < year_days y'"
proof (induction y d rule: find_year.induct)
  case (1 y d)
  show ?case
  proof (cases "d < 0")
    case True
    then show ?thesis using 1 days_before_step[of "y - 1"] by (simp add: find_year.simps[of y d])
  next
    case False
    then show ?thesis using 1(2,3) days_before_step[of y]
      by (auto simp: find_year.simps[of y d] split: if_splits)
  qed
qed

lemma find_month_day:
  assumes "find_month ls m d = (m', d')" and "0 \<le> d" and "d < sum_list ls"
  shows "m \<le> m' \<and> m' < m + int (length ls) \<and> d = sum_list (take (nat (m' - m)) ls) + d' \<and>
         0 \<le> d' \<and> d' < ls ! nat (m' - m)"
  using assms
proof (induction ls arbitrary: m d)
  case (Cons l ls)
  show ?case
  proof (cases "d < l")
    case False
    then have f: "find_month ls (m + 1) (d - l) = (m', d')" using Cons.prems by simp
    then have i: "m + 1 \<le> m' \<and> m' < m + 1 + int (length ls) \<and>
        d - l = sum_list (take (nat (m' - (m + 1))) ls) + d' \<and> 0 \<le> d' \<and> d' < ls ! nat (m' - (m + 1))"
      using Cons.prems False by (intro Cons.IH) simp_all
    then have "m + 1 \<le> m'" by blast
    then have "nat (m' - m) = Suc (nat (m' - (m + 1)))" by (simp add: Suc_nat_eq_nat_zadd1)
    then show ?thesis using i by simp
  qed (use Cons.prems in auto)
qed simp

lemma month_lengths_length [simp]: "length (month_lengths y) = 12"
  by (simp add: month_lengths_def)

lemma month_lengths_sum: "sum_list (month_lengths y) = year_days y"
  by (simp add: month_lengths_def year_days_def)

definition tm_ok :: "tm \<Rightarrow> bool" where
  "tm_ok g \<longleftrightarrow> 0 \<le> tm_mon g \<and> tm_mon g < 12 \<and> 1 \<le> tm_mday g \<and> tm_mday g \<le> 31 \<and>
     0 \<le> tm_hour g \<and> tm_hour g < 24 \<and> 0 \<le> tm_min g \<and> tm_min g < 60 \<and> 0 \<le> tm_sec g \<and> tm_sec g < 60"

text \<open>The seconds since the epoch of a broken-down time.\<close>

definition timegm :: "tm \<Rightarrow> int" where
  "timegm g =
     (days_before (tm_year g + 1900) + sum_list (take (nat (tm_mon g)) (month_lengths (tm_year g + 1900))) +
        (tm_mday g - 1)) * 86400 + tm_hour g * 3600 + tm_min g * 60 + tm_sec g"

lemma month_lengths_bound: "i < 12 \<Longrightarrow> month_lengths y ! i \<le> 31"
proof -
  assume "i < 12"
  then have "month_lengths y ! i \<in> set (month_lengths y)" by (intro nth_mem) (simp add: month_lengths_def)
  then show ?thesis by (auto simp: month_lengths_def)
qed

lemma day_split:
  "t mod 86400 div 3600 * 3600 + t mod 3600 div 60 * 60 + t mod 60 = t mod 86400" for t :: int
proof -
  have "t mod 86400 mod 3600 = t mod 3600" and "t mod 3600 mod 60 = t mod 60" by (simp_all add: mod_mod_cancel)
  then show ?thesis
    using div_mult_mod_eq[of "t mod 86400" 3600] div_mult_mod_eq[of "t mod 3600" 60] by simp
qed

lemma gmtime_timegm:
  assumes "gmtime t = Some g"
  shows "tm_ok g \<and> timegm g = t \<and>
         days_before (tm_year g + 1900) \<le> t div 86400 \<and> t div 86400 < days_before (tm_year g + 1901)"
proof -
  obtain y yd where y: "find_year 1970 (t div 86400) = (y, yd)" by (metis surj_pair)
  obtain m md where m: "find_month (month_lengths y) 0 yd = (m, md)" by (metis surj_pair)
  have g: "g = \<lparr>tm_year = y - 1900, tm_mon = m, tm_mday = md + 1, tm_hour = t mod 86400 div 3600,
                tm_min = t mod 3600 div 60, tm_sec = t mod 60\<rparr>"
    using assms y m by (simp add: gmtime_def split: if_splits)
  have d: "days_before y + yd = t div 86400" "0 \<le> yd" "yd < year_days y"
    using find_year_day[OF y] by (simp_all add: days_before_def)
  have n: "0 \<le> m" "m < 12" "yd = sum_list (take (nat m) (month_lengths y)) + md" "0 \<le> md"
    "md < month_lengths y ! nat m"
    using find_month_day[OF m] d by (simp_all add: month_lengths_sum)
  have "md < 31" using n month_lengths_bound[of "nat m" y] by (simp add: nat_less_iff)
  moreover have "timegm g = t"
  proof -
    have "timegm g = (days_before y + yd) * 86400 +
        (t mod 86400 div 3600 * 3600 + t mod 3600 div 60 * 60 + t mod 60)"
      by (simp add: g timegm_def n(3) add.assoc)
    also have "\<dots> = t div 86400 * 86400 + t mod 86400" by (simp only: d(1) day_split)
    finally show ?thesis by simp
  qed
  moreover have "t mod 86400 div 3600 < 24" "t mod 3600 div 60 < 60"
    using pos_mod_bound[of 86400 t] pos_mod_bound[of 3600 t] by (simp_all add: div_less_iff_less_mult)
  moreover have "0 \<le> t mod 86400 div 3600" "0 \<le> t mod 3600 div 60"
    by (simp_all add: pos_imp_zdiv_nonneg_iff)
  ultimately have ok: "tm_ok g" and time: "timegm g = t" using n(1,2,4) by (simp_all add: g tm_ok_def)
  have "days_before y \<le> t div 86400" "t div 86400 < days_before (y + 1)"
    using d days_before_step[of y] by linarith+
  moreover have "tm_year g + 1900 = y" "tm_year g + 1901 = y + 1" by (simp_all add: g)
  ultimately show ?thesis using ok time by metis
qed

lemma gmtime_year:
  assumes "days_before a \<le> t div 86400" and "t div 86400 < days_before b"
    and "1900 - 2 ^ 31 \<le> a" and "b \<le> 1900 + 2 ^ 31"
  shows "\<exists>g. gmtime t = Some g \<and> a \<le> tm_year g + 1900 \<and> tm_year g + 1900 < b"
proof -
  obtain y yd where y: "find_year 1970 (t div 86400) = (y, yd)" by (metis surj_pair)
  obtain m md where m: "find_month (month_lengths y) 0 yd = (m, md)" by (metis surj_pair)
  have d: "days_before y \<le> t div 86400" "t div 86400 < days_before (y + 1)"
    using find_year_day[OF y] days_before_step[of y] by (simp_all add: days_before_def)
  have "a \<le> y" using d(2) assms(1) days_before_mono[of "y + 1" a] by linarith
  moreover have "y < b" using d(1) assms(2) days_before_mono[of b y] by linarith
  ultimately show ?thesis using y m assms(3,4) by (simp add: gmtime_def)
qed

end
