(* ===== verification/Ls_Sockaddr.thy ===== *)
theory Ls_Sockaddr
  imports Ls_Mem C_Format
begin

unbundle bit_operations_syntax

text \<open>
  The socket address helpers of \<open>src/ls_sockaddr.c\<close>.

  A \<open>struct sockaddr\<close> is one of the structures its family selects; ports and IPv4 addresses are
  stored in network byte order, as read by a little-endian machine.  The resolver \<open>getaddrinfo\<close> and
  the address printer \<open>inet_ntop\<close> of the C library depend on the host and are arguments.
\<close>

section \<open>Addresses\<close>

datatype sockaddr =
    Sockaddr_in (sin_port: u16) (sin_addr: u32)
  | Sockaddr_in6 (sin6_port: u16) (sin6_flowinfo: u32) (sin6_addr: "u8 list") (sin6_scope_id: u32)
  | Sockaddr_other (other_family: u16)

definition AF_INET :: int where "AF_INET = 2"
definition AF_INET6 :: int where "AF_INET6 = 10"

fun sa_family :: "sockaddr \<Rightarrow> int" where
  "sa_family (Sockaddr_in p a) = AF_INET"
| "sa_family (Sockaddr_in6 p f a s) = AF_INET6"
| "sa_family (Sockaddr_other f) = uint f"

definition sizeof_sockaddr_in :: nat where "sizeof_sockaddr_in = 16"
definition sizeof_sockaddr_in6 :: nat where "sizeof_sockaddr_in6 = 28"

definition htons :: "u16 \<Rightarrow> u16" where
  "htons w = push_bit 8 w OR drop_bit 8 w"

definition ntohs :: "u16 \<Rightarrow> u16" where
  "ntohs w = htons w"

section \<open>Resolving\<close>

record addrinfo =
  ai_family :: int
  ai_addr :: sockaddr
  ai_addrlen :: nat

record hints =
  ai_flags :: int
  ai_protocol :: int
  ai_socktype :: int

definition IPPROTO_UDP :: int where "IPPROTO_UDP = 17"
definition SOCK_DGRAM :: int where "SOCK_DGRAM = 2"
definition AI_NUMERICHOST :: int where "AI_NUMERICHOST = 4"

type_synonym resolver = "cstr option \<Rightarrow> cstr option \<Rightarrow> hints \<Rightarrow> int + addrinfo list"

text \<open>The loop over the results, with the candidate found so far.\<close>

fun pick_addr :: "addrinfo option \<Rightarrow> addrinfo list \<Rightarrow> addrinfo option" where
  "pick_addr found [] = found"
| "pick_addr found (p # ps) =
     (if ai_family p = AF_INET6 then Some p
      else if found = None \<and> ai_family p = AF_INET then pick_addr (Some p) ps
      else pick_addr found ps)"

definition get_first_addr ::
  "resolver \<Rightarrow> cstr option \<Rightarrow> cstr option \<Rightarrow> hints \<Rightarrow> nat \<Rightarrow> errcode + sockaddr" where
  "get_first_addr getaddrinfo hostname servname hint addr_len =
     (case getaddrinfo hostname servname hint of
        Inl status \<Rightarrow> Inl (ls_err_gai status)
      | Inr res \<Rightarrow>
          (case pick_addr None res of
             Some found \<Rightarrow>
               if addr_len < ai_addrlen found then Inl LS_ERR_OVERFLOW else Inr (ai_addr found)
           | None \<Rightarrow> Inl LS_ERR_NOT_FOUND))"

definition ls_sockaddr_get_remote_ip_addr ::
  "resolver \<Rightarrow> cstr option \<Rightarrow> cstr option \<Rightarrow> nat \<Rightarrow> errcode + sockaddr" where
  "ls_sockaddr_get_remote_ip_addr getaddrinfo fqdn port addr_len =
     get_first_addr getaddrinfo fqdn port
       \<lparr>ai_flags = 0, ai_protocol = IPPROTO_UDP, ai_socktype = SOCK_DGRAM\<rparr> addr_len"

definition ls_sockaddr_parse :: "resolver \<Rightarrow> cstr option \<Rightarrow> nat \<Rightarrow> errcode + sockaddr" where
  "ls_sockaddr_parse getaddrinfo src addr_len =
     get_first_addr getaddrinfo src None
       \<lparr>ai_flags = AI_NUMERICHOST, ai_protocol = IPPROTO_UDP, ai_socktype = SOCK_DGRAM\<rparr> addr_len"

section \<open>Fields\<close>

text \<open>\<open>-1\<close> as a \<open>size_t\<close> for a family it does not know.\<close>

fun ls_sockaddr_get_length :: "sockaddr \<Rightarrow> nat" where
  "ls_sockaddr_get_length (Sockaddr_in p a) = sizeof_sockaddr_in"
| "ls_sockaddr_get_length (Sockaddr_in6 p f a s) = sizeof_sockaddr_in6"
| "ls_sockaddr_get_length (Sockaddr_other f) = 2 ^ 64 - 1"

fun ls_sockaddr_get_port :: "sockaddr \<Rightarrow> int" where
  "ls_sockaddr_get_port (Sockaddr_in p a) = uint (ntohs p)"
| "ls_sockaddr_get_port (Sockaddr_in6 p f a s) = uint (ntohs p)"
| "ls_sockaddr_get_port (Sockaddr_other f) = -1"

text \<open>The assertion on an unknown family is a failing branch.\<close>

fun ls_sockaddr_set_port :: "sockaddr \<Rightarrow> int \<Rightarrow> sockaddr option" where
  "ls_sockaddr_set_port (Sockaddr_in p a) port = Some (Sockaddr_in (htons (word_of_int port)) a)"
| "ls_sockaddr_set_port (Sockaddr_in6 p f a s) port =
     Some (Sockaddr_in6 (htons (word_of_int port)) f a s)"
| "ls_sockaddr_set_port (Sockaddr_other f) port = None"

definition ls_sockaddr_v6_any :: "int \<Rightarrow> sockaddr" where
  "ls_sockaddr_v6_any port = Sockaddr_in6 (htons (word_of_int port)) 0 (replicate 16 0) 0"

definition ls_sockaddr_v4_any :: "int \<Rightarrow> sockaddr" where
  "ls_sockaddr_v4_any port = Sockaddr_in (htons (word_of_int port)) 0"

text \<open>Copying into a \<open>sockaddr_storage\<close>: \<open>None\<close> when the length it copies exceeds its 128 bytes.\<close>

definition ls_sockaddr_copy :: "sockaddr \<Rightarrow> sockaddr option" where
  "ls_sockaddr_copy src = (if ls_sockaddr_get_length src \<le> 128 then Some src else None)"

section \<open>Printing\<close>

definition INET_ADDRSTRLEN :: nat where "INET_ADDRSTRLEN = 16"
definition INET6_ADDRSTRLEN :: nat where "INET6_ADDRSTRLEN = 46"

text \<open>\<open>snprintf\<close> into what is left of a buffer of \<open>destlen\<close> bytes after the first \<open>r\<close>.\<close>

definition snprintf_at :: "cstr \<Rightarrow> nat \<Rightarrow> nat \<Rightarrow> cstr \<Rightarrow> cstr" where
  "snprintf_at dest r destlen s = take r dest @ take (destlen - r - 1) s"

fun ls_sockaddr_to_string ::
  "(u32 \<Rightarrow> nat \<Rightarrow> cstr option) \<Rightarrow> (u8 list \<Rightarrow> nat \<Rightarrow> cstr option) \<Rightarrow>
   sockaddr option \<Rightarrow> nat \<Rightarrow> bool \<Rightarrow> cstr" where
  "ls_sockaddr_to_string ntop4 ntop6 None destlen addport = []"
| "ls_sockaddr_to_string ntop4 ntop6 (Some (Sockaddr_in p a)) destlen addport =
     (if destlen < INET_ADDRSTRLEN + 8 then []
      else case ntop4 a destlen of
        None \<Rightarrow> []
      | Some dest \<Rightarrow>
          if addport then
            (let r = min (length dest) (INET_ADDRSTRLEN + 1) in
             snprintf_at dest r destlen (58 # dec_string (unat (ntohs p))))
          else dest)"
| "ls_sockaddr_to_string ntop4 ntop6 (Some (Sockaddr_in6 p f a s)) destlen addport =
     (if destlen < INET6_ADDRSTRLEN + 10 then []
      else case ntop6 a destlen of
        None \<Rightarrow> []
      | Some str \<Rightarrow>
          (let dest = (if addport then 91 # str else str);
               r = min (length dest) (INET6_ADDRSTRLEN + 2) in
           if addport then
             snprintf_at (take r dest @ [93]) (Suc r) destlen (58 # dec_string (unat (ntohs p)))
           else dest))"
| "ls_sockaddr_to_string ntop4 ntop6 (Some (Sockaddr_other f)) destlen addport = []"

section \<open>Comparison\<close>

fun memcmp :: "u8 list \<Rightarrow> u8 list \<Rightarrow> nat \<Rightarrow> int" where
  "memcmp (a # as) (b # bs) (Suc n) = (if a = b then memcmp as bs n else uint a - uint b)"
| "memcmp as bs n = 0"

definition ls_addr_cmp6 :: "u8 list \<Rightarrow> u8 list \<Rightarrow> int" where
  "ls_addr_cmp6 a b = memcmp a b 16"

text \<open>The difference of two unsigned addresses is stored in an \<open>int\<close>.\<close>

definition ls_sockaddr_cmp :: "sockaddr option \<Rightarrow> sockaddr option \<Rightarrow> int" where
  "ls_sockaddr_cmp sa sb =
     (case (sa, sb) of
        (None, None) \<Rightarrow> 0
      | (None, Some b) \<Rightarrow> -1
      | (Some a, None) \<Rightarrow> 1
      | (Some a, Some b) \<Rightarrow>
          (let diff = sa_family a - sa_family b in
           if diff \<noteq> 0 then diff
           else case (a, b) of
             (Sockaddr_in pa aa, Sockaddr_in pb ab) \<Rightarrow>
               (let diff = sint (aa - ab) in
                if diff \<noteq> 0 then diff else uint (ntohs pa) - uint (ntohs pb))
           | (Sockaddr_in6 pa fa aa ca, Sockaddr_in6 pb fb ab cb) \<Rightarrow>
               (let diff = ls_addr_cmp6 aa ab in
                if diff \<noteq> 0 then diff else uint (ntohs pa) - uint (ntohs pb))
           | _ \<Rightarrow> 0))"

section \<open>Properties\<close>

lemma htons_htons [simp]: "htons (htons w) = w"
proof (rule bit_word_eqI)
  fix n assume "n < LENGTH(16)"
  then show "bit (htons (htons w)) n = bit w n"
    by (auto simp: htons_def bit_simps)
qed

lemma ntohs_inj: "ntohs a = ntohs b \<longleftrightarrow> a = b"
  by (metis htons_htons ntohs_def)

lemma memcmp_zero: "length a = n \<Longrightarrow> length b = n \<Longrightarrow> memcmp a b n = 0 \<longleftrightarrow> a = b"
  by (induction a b n rule: memcmp.induct) (auto dest: uint_neq)

lemma sint_diff_zero: "sint ((a :: u32) - b) = 0 \<longleftrightarrow> a = b"
  by (simp add: signed_eq_0_iff)

definition addr_ok :: "sockaddr \<Rightarrow> bool" where
  "addr_ok sa = (case sa of
      Sockaddr_in6 p f a s \<Rightarrow> length a = 16
    | Sockaddr_in p a \<Rightarrow> True
    | Sockaddr_other f \<Rightarrow> uint f \<noteq> AF_INET \<and> uint f \<noteq> AF_INET6)"

text \<open>What the comparison looks at: family, address and port.\<close>

fun endpoint :: "sockaddr \<Rightarrow> int \<times> u8 list \<times> u32 \<times> u16" where
  "endpoint (Sockaddr_in p a) = (AF_INET, [], a, p)"
| "endpoint (Sockaddr_in6 p f a s) = (AF_INET6, a, 0, p)"
| "endpoint (Sockaddr_other f) = (uint f, [], 0, 0)"

text \<open>C36: \<open>ls_sockaddr_cmp\<close> is zero exactly for addresses of the same family, host and port (flow and
  scope are not compared, nor anything but the family of other families), but its sign is not an
  order: the difference of two IPv4 addresses is converted to a signed integer, and there are
  addresses each of which compares below the other.\<close>

theorem ls_sockaddr_cmp_equality_only:
  "(\<forall>a b. addr_ok a \<longrightarrow> addr_ok b \<longrightarrow>
      (ls_sockaddr_cmp (Some a) (Some b) = 0 \<longleftrightarrow> endpoint a = endpoint b)) \<and>
   (\<exists>a b. addr_ok a \<and> addr_ok b \<and>
      ls_sockaddr_cmp (Some a) (Some b) < 0 \<and> ls_sockaddr_cmp (Some b) (Some a) < 0)"
proof
  have "ls_sockaddr_cmp (Some a) (Some b) = 0 \<longleftrightarrow> endpoint a = endpoint b"
    if "addr_ok a" "addr_ok b" for a b
  proof (cases a; cases b)
    fix pa aa pb ab assume "a = Sockaddr_in pa aa" "b = Sockaddr_in pb ab"
    then show ?thesis
      by (auto simp: ls_sockaddr_cmp_def Let_def ntohs_inj sint_diff_zero simp flip: word_uint_eq_iff)
  next
    fix pa fa aa ca pb fb ab cb
    assume "a = Sockaddr_in6 pa fa aa ca" "b = Sockaddr_in6 pb fb ab cb"
    then show ?thesis using that memcmp_zero[of aa 16 ab]
      by (auto simp: ls_sockaddr_cmp_def Let_def ntohs_inj ls_addr_cmp6_def addr_ok_def
          simp flip: word_uint_eq_iff)
  qed (use that in \<open>auto simp: ls_sockaddr_cmp_def Let_def addr_ok_def AF_INET_def AF_INET6_def\<close>)
  then show "\<forall>a b. addr_ok a \<longrightarrow> addr_ok b \<longrightarrow>
      (ls_sockaddr_cmp (Some a) (Some b) = 0 \<longleftrightarrow> endpoint a = endpoint b)" by blast
  have "ls_sockaddr_cmp (Some (Sockaddr_in 0 0x80000000)) (Some (Sockaddr_in 0 0)) < 0"
    "ls_sockaddr_cmp (Some (Sockaddr_in 0 0)) (Some (Sockaddr_in 0 0x80000000)) < 0"
    by (simp_all add: ls_sockaddr_cmp_def Let_def)
  then show "\<exists>a b. addr_ok a \<and> addr_ok b \<and>
      ls_sockaddr_cmp (Some a) (Some b) < 0 \<and> ls_sockaddr_cmp (Some b) (Some a) < 0"
    by (intro exI[of _ "Sockaddr_in 0 0x80000000"] exI[of _ "Sockaddr_in 0 0"]) (simp add: addr_ok_def)
qed

lemma ls_sockaddr_cmp_equality_only_witness:
  "ls_sockaddr_cmp (Some (Sockaddr_in 1 2)) (Some (Sockaddr_in 1 2)) = 0"
  using ls_sockaddr_cmp_equality_only by (simp add: addr_ok_def)

text \<open>A port set is the port read back: for every IPv4 or IPv6 address and every port number,
  \<open>ls_sockaddr_get_port\<close> after \<open>ls_sockaddr_set_port\<close> returns it reduced to 16 bits, nothing but the
  port of the address has changed, and the addresses made by the two \<open>any\<close> functions have it.\<close>

lemma ls_sockaddr_port_roundtrip:
  "(case ls_sockaddr_set_port sa port of
      None \<Rightarrow> \<exists>f. sa = Sockaddr_other f
    | Some sa' \<Rightarrow> ls_sockaddr_get_port sa' = port mod 2 ^ 16 \<and> sa_family sa' = sa_family sa \<and>
        ls_sockaddr_set_port sa' (ls_sockaddr_get_port sa) = Some sa) \<and>
   ls_sockaddr_get_port (ls_sockaddr_v4_any port) = port mod 2 ^ 16 \<and>
   ls_sockaddr_get_port (ls_sockaddr_v6_any port) = port mod 2 ^ 16"
  by (cases sa) (simp_all add: ntohs_def uint_word_of_int ls_sockaddr_v4_any_def ls_sockaddr_v6_any_def)

lemma pick_addr_v6:
  "(\<exists>p \<in> set ps. ai_family p = AF_INET6) \<Longrightarrow> pick_addr found ps = find (\<lambda>p. ai_family p = AF_INET6) ps"
  by (induction ps arbitrary: found) auto

lemma pick_addr_v4:
  "\<forall>p \<in> set ps. ai_family p \<noteq> AF_INET6 \<Longrightarrow>
   pick_addr found ps = (if found = None then find (\<lambda>p. ai_family p = AF_INET) ps else found)"
  by (induction ps arbitrary: found) auto

text \<open>Resolving takes the first IPv6 address of the resolver's list, or the first IPv4 address if
  there is no IPv6 address, fails with \<open>LS_ERR_NOT_FOUND\<close> if there is neither and with
  \<open>LS_ERR_OVERFLOW\<close> if the chosen one does not fit, and otherwise delivers it.\<close>

theorem get_first_addr_prefers_v6:
  "get_first_addr resolve host serv hint addr_len =
     (case resolve host serv hint of
        Inl status \<Rightarrow> Inl (ls_err_gai status)
      | Inr res \<Rightarrow>
          let v6 = filter (\<lambda>p. ai_family p = AF_INET6) res;
              v4 = filter (\<lambda>p. ai_family p = AF_INET) res in
          case v6 @ v4 of
            [] \<Rightarrow> Inl LS_ERR_NOT_FOUND
          | p # ps \<Rightarrow> if addr_len < ai_addrlen p then Inl LS_ERR_OVERFLOW else Inr (ai_addr p))"
proof -
  have f: "find P xs = (case filter P xs of [] \<Rightarrow> None | x # ys \<Rightarrow> Some x)"
    for P and xs :: "addrinfo list"
    by (induction xs) auto
  have "pick_addr None res = (case filter (\<lambda>p. ai_family p = AF_INET6) res @
      filter (\<lambda>p. ai_family p = AF_INET) res of [] \<Rightarrow> None | p # ps \<Rightarrow> Some p)" for res
  proof (cases "\<exists>p \<in> set res. ai_family p = AF_INET6")
    case True
    then have "filter (\<lambda>p. ai_family p = AF_INET6) res \<noteq> []" by (simp add: filter_empty_conv)
    then show ?thesis using pick_addr_v6[OF True] by (auto simp: f split: list.split)
  next
    case False
    then have "filter (\<lambda>p. ai_family p = AF_INET6) res = []" by (simp add: filter_empty_conv)
    then show ?thesis using False pick_addr_v4[of res None] by (simp add: f)
  qed
  then show ?thesis by (simp add: get_first_addr_def Let_def split: sum.split list.split)
qed

text \<open>C37: Printing never truncates and never overruns: given an address printer whose results have
  the lengths POSIX promises, \<open>ls_sockaddr_to_string\<close> fills less than the buffer, terminator
  excluded, and when the buffer is big enough to be used the result is the whole address with, if
  asked for, the whole port.\<close>

theorem ls_sockaddr_to_string_fits:
  assumes "\<And>a n s. ntop4 a n = Some s \<Longrightarrow> length s < INET_ADDRSTRLEN"
    and "\<And>a n s. ntop6 a n = Some s \<Longrightarrow> length s < INET6_ADDRSTRLEN" and "0 < destlen"
  shows "length (ls_sockaddr_to_string ntop4 ntop6 sa destlen addport) < destlen \<and>
    (\<forall>p a s. sa = Some (Sockaddr_in p a) \<longrightarrow> INET_ADDRSTRLEN + 8 \<le> destlen \<longrightarrow> ntop4 a destlen = Some s \<longrightarrow>
       ls_sockaddr_to_string ntop4 ntop6 sa destlen addport =
         (if addport then s @ [58] @ dec_string (unat (ntohs p)) else s)) \<and>
    (\<forall>p f a c s. sa = Some (Sockaddr_in6 p f a c) \<longrightarrow> INET6_ADDRSTRLEN + 10 \<le> destlen \<longrightarrow> ntop6 a destlen = Some s \<longrightarrow>
       ls_sockaddr_to_string ntop4 ntop6 sa destlen addport =
         (if addport then [91] @ s @ [93, 58] @ dec_string (unat (ntohs p)) else s))"
proof -
  have port: "length (dec_string (unat (w :: u16))) \<le> 5" for w
  proof -
    have "unat w < 2 ^ LENGTH(16)" by (rule unsigned_less)
    then have "unat w < 10 ^ 5" by simp
    then show ?thesis by (intro dec_string_length) simp_all
  qed
  have four: "ls_sockaddr_to_string ntop4 ntop6 (Some (Sockaddr_in p a)) destlen addport =
      (if addport then s @ [58] @ dec_string (unat (ntohs p)) else s)"
    if "INET_ADDRSTRLEN + 8 \<le> destlen" "ntop4 a destlen = Some s" for p a s
    using that assms(1)[OF that(2)] port[of "ntohs p"]
    by (simp add: snprintf_at_def INET_ADDRSTRLEN_def Let_def take_Cons')
  have six: "ls_sockaddr_to_string ntop4 ntop6 (Some (Sockaddr_in6 p f a c)) destlen addport =
      (if addport then [91] @ s @ [93, 58] @ dec_string (unat (ntohs p)) else s)"
    if "INET6_ADDRSTRLEN + 10 \<le> destlen" "ntop6 a destlen = Some s" for p f a c s
    using that assms(2)[OF that(2)] port[of "ntohs p"]
    by (simp add: snprintf_at_def INET6_ADDRSTRLEN_def Let_def take_Cons')
  have "length (ls_sockaddr_to_string ntop4 ntop6 sa destlen addport) < destlen"
  proof (cases sa)
    case (Some x)
    show ?thesis
    proof (cases x)
      case (Sockaddr_in p a)
      show ?thesis
      proof (cases "ntop4 a destlen")
        case (Some s)
        then show ?thesis using assms(1)[OF Some] port[of "ntohs p"] four[OF _ Some] assms(3)
          \<open>sa = Some x\<close> Sockaddr_in
          by (cases "INET_ADDRSTRLEN + 8 \<le> destlen") (auto simp: INET_ADDRSTRLEN_def)
      qed (use \<open>sa = Some x\<close> Sockaddr_in assms(3) in simp)
    next
      case (Sockaddr_in6 p f a c)
      show ?thesis
      proof (cases "ntop6 a destlen")
        case (Some s)
        then show ?thesis using assms(2)[OF Some] port[of "ntohs p"] six[OF _ Some] assms(3)
          \<open>sa = Some x\<close> Sockaddr_in6
          by (cases "INET6_ADDRSTRLEN + 10 \<le> destlen") (auto simp: INET6_ADDRSTRLEN_def)
      qed (use \<open>sa = Some x\<close> Sockaddr_in6 assms(3) in simp)
    qed (use Some assms(3) in simp)
  qed (use assms(3) in simp)
  then show ?thesis using four six by simp
qed

lemma ls_sockaddr_to_string_fits_witness:
  "ls_sockaddr_to_string (\<lambda>a n. Some [49]) (\<lambda>a n. Some [58, 58]) (Some (Sockaddr_in (htons 80) 0)) 24 True =
     [49, 58, 56, 48]"
proof -
  have "ls_sockaddr_to_string (\<lambda>a n. Some [49]) (\<lambda>a n. Some [58, 58]) (Some (Sockaddr_in (htons 80) 0)) 24 True =
     [49] @ [58] @ dec_string (unat (ntohs (htons 80)))"
    using ls_sockaddr_to_string_fits[of "\<lambda>a n. Some [49]" "\<lambda>a n. Some [58, 58]" 24
        "Some (Sockaddr_in (htons 80) 0)" True]
    by (simp add: INET_ADDRSTRLEN_def INET6_ADDRSTRLEN_def)
  then show ?thesis by (simp add: ntohs_def dec_string.simps)
qed

end
