(* ===== verification/Ls_Pktinfo.thy ===== *)
theory Ls_Pktinfo
  imports Ls_Sockaddr
begin

text \<open>
  The packet information of \<open>src/ls_pktinfo.c\<close>: the local address a datagram was sent to, kept so
  that the answer can be sent from it.  The union in the structure is a datatype: it is what was
  stored last, zero bytes at first.
\<close>

section \<open>State\<close>

record in_pktinfo =
  ipi_ifindex :: u32
  ipi_spec_dst :: u32
  ipi_addr :: u32

record in6_pktinfo =
  ipi6_addr :: "u8 list"
  ipi6_ifindex :: u32

datatype pkt_union = Zeroed | I4 in_pktinfo | I6 in6_pktinfo

definition HAS_INFO_4 :: int where "HAS_INFO_4 = 1"
definition HAS_INFO_6 :: int where "HAS_INFO_6 = 2"

record ls_pktinfo =
  pi_info :: pkt_union
  pi_kind :: int

definition sizeof_pktinfo :: nat where "sizeof_pktinfo = 24"

text \<open>The control message for \<open>sendmsg\<close>, with the interface index that its buffer holds.\<close>

record cmsg =
  cmsg_level :: int
  cmsg_type :: int
  cmsg_len :: nat
  cmsg_data :: pkt_union

definition IPPROTO_IP :: int where "IPPROTO_IP = 0"
definition IPPROTO_IPV6 :: int where "IPPROTO_IPV6 = 41"
definition IP_PKTINFO :: int where "IP_PKTINFO = 8"
definition IPV6_PKTINFO :: int where "IPV6_PKTINFO = 50"
definition sizeof_in_pktinfo :: nat where "sizeof_in_pktinfo = 12"
definition sizeof_in6_pktinfo :: nat where "sizeof_in6_pktinfo = 20"

definition CMSG_LEN :: "nat \<Rightarrow> nat" where
  "CMSG_LEN n = 16 + n"

definition CMSG_SPACE :: "nat \<Rightarrow> nat" where
  "CMSG_SPACE n = 16 + (n + 7) div 8 * 8"

section \<open>Operations\<close>

definition ls_pktinfo_create ::
  "'z mem_scheme \<Rightarrow> (errcode + addr \<times> ls_pktinfo) \<times> 'z mem_scheme" where
  "ls_pktinfo_create m =
     (case ls_data_calloc 1 sizeof_pktinfo m of
        (None, m1) \<Rightarrow> (Inl LS_ERR_NO_MEMORY, m1)
      | (Some ret, m1) \<Rightarrow> (Inr (ret, \<lparr>pi_info = Zeroed, pi_kind = 0\<rparr>), m1))"

definition ls_pktinfo_dup ::
  "ls_pktinfo \<Rightarrow> 'z mem_scheme \<Rightarrow> (errcode + addr \<times> ls_pktinfo) \<times> 'z mem_scheme" where
  "ls_pktinfo_dup source m =
     (case ls_pktinfo_create m of
        (Inl e, m1) \<Rightarrow> (Inl e, m1)
      | (Inr (dest, p), m1) \<Rightarrow> (Inr (dest, source), m1))"

definition ls_pktinfo_clear :: "ls_pktinfo \<Rightarrow> ls_pktinfo" where
  "ls_pktinfo_clear p = p\<lparr>pi_kind := 0\<rparr>"

definition ls_pktinfo_destroy :: "addr \<Rightarrow> 'z mem_scheme \<Rightarrow> 'z mem_scheme" where
  "ls_pktinfo_destroy p m = ls_data_free (Some p) m"

definition ls_pktinfo_set4 :: "ls_pktinfo \<Rightarrow> in_pktinfo \<Rightarrow> ls_pktinfo" where
  "ls_pktinfo_set4 p info = p\<lparr>pi_kind := HAS_INFO_4, pi_info := I4 info\<rparr>"

definition ls_pktinfo_set6 :: "ls_pktinfo \<Rightarrow> in6_pktinfo \<Rightarrow> ls_pktinfo" where
  "ls_pktinfo_set6 p info = p\<lparr>pi_kind := HAS_INFO_6, pi_info := I6 info\<rparr>"

text \<open>The address and its length.  The members of the structure at \<open>addr\<close> that the code does not set
  (\<open>sin6_flowinfo\<close>, \<open>sin6_scope_id\<close>) keep what was there before, the last two arguments.\<close>

definition ls_pktinfo_get_addr ::
  "ls_pktinfo \<Rightarrow> nat \<Rightarrow> u32 \<Rightarrow> u32 \<Rightarrow> errcode + sockaddr \<times> nat" where
  "ls_pktinfo_get_addr p addr_len flow scope =
     (if pi_kind p = HAS_INFO_4 then
        (if addr_len < sizeof_sockaddr_in then Inl LS_ERR_OVERFLOW
         else case pi_info p of
           I4 i \<Rightarrow> Inr (Sockaddr_in (htons (-1)) (ipi_addr i), sizeof_sockaddr_in)
         | _ \<Rightarrow> Inr (Sockaddr_in (htons (-1)) 0, sizeof_sockaddr_in))
      else if pi_kind p = HAS_INFO_6 then
        (if addr_len < sizeof_sockaddr_in6 then Inl LS_ERR_OVERFLOW
         else case pi_info p of
           I6 i \<Rightarrow> Inr (Sockaddr_in6 (htons (-1)) flow (ipi6_addr i) scope, sizeof_sockaddr_in6)
         | _ \<Rightarrow> Inr (Sockaddr_in6 (htons (-1)) flow (replicate 16 0) scope, sizeof_sockaddr_in6))
      else Inl LS_ERR_INVALID_ARG)"

definition ls_pktinfo_get_info :: "ls_pktinfo \<Rightarrow> pkt_union option" where
  "ls_pktinfo_get_info p =
     (if pi_kind p = HAS_INFO_4 \<or> pi_kind p = HAS_INFO_6 then Some (pi_info p) else None)"

definition ls_pktinfo_is_full :: "ls_pktinfo \<Rightarrow> bool" where
  "ls_pktinfo_is_full p = (pi_kind p \<noteq> 0)"

definition ls_pktinfo_cmsg :: "ls_pktinfo \<Rightarrow> u32 \<Rightarrow> nat \<times> cmsg option" where
  "ls_pktinfo_cmsg p ifindex =
     (if pi_kind p = HAS_INFO_4 then
        (CMSG_SPACE sizeof_in_pktinfo,
         Some \<lparr>cmsg_level = IPPROTO_IP, cmsg_type = IP_PKTINFO,
               cmsg_len = CMSG_LEN sizeof_in_pktinfo, cmsg_data = pi_info p\<rparr>)
      else if pi_kind p = HAS_INFO_6 then
        (CMSG_SPACE sizeof_in6_pktinfo,
         Some \<lparr>cmsg_level = IPPROTO_IPV6, cmsg_type = IPV6_PKTINFO,
               cmsg_len = CMSG_LEN sizeof_in6_pktinfo,
               cmsg_data = (case pi_info p of
                  I6 i \<Rightarrow> I6 \<lparr>ipi6_addr = ipi6_addr i, ipi6_ifindex = ifindex\<rparr>
                | u \<Rightarrow> I6 \<lparr>ipi6_addr = replicate 16 0, ipi6_ifindex = ifindex\<rparr>)\<rparr>)
      else (0, None))"

section \<open>Properties\<close>

definition pktinfo_ok :: "ls_pktinfo \<Rightarrow> bool" where
  "pktinfo_ok p \<longleftrightarrow>
     (case pi_info p of
        Zeroed \<Rightarrow> pi_kind p = 0
      | I4 i \<Rightarrow> pi_kind p \<in> {0, HAS_INFO_4}
      | I6 i \<Rightarrow> pi_kind p \<in> {0, HAS_INFO_6})"

text \<open>The operations a packet information goes through, and what a reader of its control message
  stores.\<close>

datatype pi_op = Pi_clear | Pi_set4 in_pktinfo | Pi_set6 in6_pktinfo

fun pi_step :: "pi_op \<Rightarrow> ls_pktinfo \<Rightarrow> ls_pktinfo" where
  "pi_step Pi_clear p = ls_pktinfo_clear p"
| "pi_step (Pi_set4 i) p = ls_pktinfo_set4 p i"
| "pi_step (Pi_set6 i) p = ls_pktinfo_set6 p i"

definition pi_receive :: "cmsg \<Rightarrow> ls_pktinfo \<Rightarrow> ls_pktinfo" where
  "pi_receive c p =
     (case cmsg_data c of
        I6 i \<Rightarrow> if cmsg_level c = IPPROTO_IPV6 \<and> cmsg_type c = IPV6_PKTINFO then ls_pktinfo_set6 p i else p
      | I4 i \<Rightarrow> if cmsg_level c = IPPROTO_IP \<and> cmsg_type c = IP_PKTINFO then ls_pktinfo_set4 p i else p
      | Zeroed \<Rightarrow> p)"

lemma pktinfo_ok_step: "pktinfo_ok p \<Longrightarrow> pktinfo_ok (pi_step opn p)"
  by (cases opn) (auto simp: pktinfo_ok_def ls_pktinfo_clear_def ls_pktinfo_set4_def
      ls_pktinfo_set6_def HAS_INFO_4_def HAS_INFO_6_def split: pkt_union.splits)

lemma pktinfo_ok_run: "pktinfo_ok p \<Longrightarrow> pktinfo_ok (fold pi_step ops p)"
  by (induction ops arbitrary: p) (auto intro: pktinfo_ok_step)

text \<open>C33: The local address survives the way from one datagram to the answer: whatever was stored in
  or cleared from a new packet information, the control message made of a copy of it carries the
  address that was stored last, whole for IPv4; reading the message back gives a packet information
  with the same address.  For IPv6 the interface index is not copied: it is what the buffer held.\<close>

theorem ls_pktinfo_cmsg_roundtrip:
  assumes "ls_pktinfo_create m = (Inr (a, p0), m1)" and "p = fold pi_step ops p0"
    and "ls_pktinfo_dup p m2 = (Inr (b, d), m3)"
  shows "case ls_pktinfo_cmsg d ifindex of
           (n, None) \<Rightarrow> n = 0 \<and> \<not> ls_pktinfo_is_full p \<and> ls_pktinfo_get_info p = None
         | (n, Some c) \<Rightarrow>
             cmsg_len c \<le> n \<and> ls_pktinfo_is_full p \<and>
             ls_pktinfo_get_addr (pi_receive c p0) len f s = ls_pktinfo_get_addr p len f s \<and>
             (\<forall>i. ls_pktinfo_get_info p = Some (I4 i) \<longrightarrow> ls_pktinfo_get_info (pi_receive c p0) = Some (I4 i)) \<and>
             (\<forall>i. ls_pktinfo_get_info p = Some (I6 i) \<longrightarrow>
                ls_pktinfo_get_info (pi_receive c p0) = Some (I6 (i\<lparr>ipi6_ifindex := ifindex\<rparr>)))"
proof -
  have p0: "p0 = \<lparr>pi_info = Zeroed, pi_kind = 0\<rparr>" and d: "d = p"
    using assms(1,3) by (auto simp: ls_pktinfo_create_def ls_pktinfo_dup_def
        split: prod.splits option.splits sum.splits)
  have ok: "pktinfo_ok p" unfolding assms(2) by (rule pktinfo_ok_run) (simp add: pktinfo_ok_def p0)
  show ?thesis
  proof (cases "pi_info p")
    case Zeroed
    then show ?thesis using ok
      by (simp add: d pktinfo_ok_def ls_pktinfo_cmsg_def ls_pktinfo_is_full_def ls_pktinfo_get_info_def
          HAS_INFO_4_def HAS_INFO_6_def)
  next
    case (I4 i)
    then show ?thesis using ok
      by (auto simp: d pktinfo_ok_def ls_pktinfo_cmsg_def ls_pktinfo_is_full_def ls_pktinfo_get_info_def
          HAS_INFO_4_def HAS_INFO_6_def pi_receive_def ls_pktinfo_set4_def ls_pktinfo_get_addr_def
          CMSG_LEN_def CMSG_SPACE_def sizeof_in_pktinfo_def)
  next
    case (I6 i)
    then show ?thesis using ok
      by (auto simp: d pktinfo_ok_def ls_pktinfo_cmsg_def ls_pktinfo_is_full_def ls_pktinfo_get_info_def
          HAS_INFO_4_def HAS_INFO_6_def pi_receive_def ls_pktinfo_set6_def ls_pktinfo_get_addr_def
          CMSG_LEN_def CMSG_SPACE_def sizeof_in6_pktinfo_def)
  qed
qed

lemma ls_pktinfo_cmsg_roundtrip_witness:
  "\<exists>a p0 m1. ls_pktinfo_create init_mem = (Inr (a, p0), m1) \<and>
     (let p = ls_pktinfo_set4 p0 \<lparr>ipi_ifindex = 2, ipi_spec_dst = 3, ipi_addr = 4\<rparr> in
      \<exists>n c. ls_pktinfo_cmsg p 0 = (n, Some c) \<and>
        ls_pktinfo_get_addr (pi_receive c p0) 128 0 0 = Inr (Sockaddr_in (htons (-1)) 4, 16))"
proof -
  let ?i = "\<lparr>ipi_ifindex = 2, ipi_spec_dst = 3, ipi_addr = 4\<rparr>"
  have create: "\<exists>a m'. ls_pktinfo_create m = (Inr (a, \<lparr>pi_info = Zeroed, pi_kind = 0\<rparr>), m')"
    if "malloc_func m = libc_malloc" for m :: mem
    using that by (auto simp: ls_pktinfo_create_def ls_data_calloc_def ls_data_malloc_def libc_malloc_def Let_def)
  obtain a m1 where c: "ls_pktinfo_create init_mem = (Inr (a, \<lparr>pi_info = Zeroed, pi_kind = 0\<rparr>), m1)"
    using create[of init_mem] by (auto simp: init_mem_def)
  let ?z = "\<lparr>pi_info = Zeroed, pi_kind = 0\<rparr>"
  let ?p = "ls_pktinfo_set4 ?z ?i"
  obtain b m2 where d: "ls_pktinfo_dup ?p init_mem = (Inr (b, ?p), m2)"
    using c by (auto simp: ls_pktinfo_dup_def)
  have "?p = fold pi_step [Pi_set4 ?i] ?z" by simp
  from ls_pktinfo_cmsg_roundtrip[OF c this d, where ifindex = 0 and len = 128 and f = 0 and s = 0]
  have "\<exists>n cm. ls_pktinfo_cmsg ?p 0 = (n, Some cm) \<and>
        ls_pktinfo_get_addr (pi_receive cm ?z) 128 0 0 = Inr (Sockaddr_in (htons (-1)) 4, 16)"
    by (cases "snd (ls_pktinfo_cmsg ?p 0)"; cases "ls_pktinfo_cmsg ?p 0")
      (auto simp: ls_pktinfo_is_full_def ls_pktinfo_set4_def HAS_INFO_4_def ls_pktinfo_get_addr_def
        sizeof_sockaddr_in_def)
  then show ?thesis using c by (auto simp: Let_def)
qed

end
