(* ===== verification/Ls_Log.thy ===== *)
theory Ls_Log
  imports Ls_Mem C_Format
begin

text \<open>
  The log and its nested diagnostic contexts, \<open>src/ls_log.c\<close>.

  The state extends the heap by the stack of contexts and by what has been logged: for each line
  its level, the contexts printed with it, oldest first, and the message.  A message is given by its
  formatted text, the library's own warnings by what they report; \<open>Ls_Log_Text\<close> has the text of the
  lines.  Reading the clock is taken to succeed.
\<close>

section \<open>State\<close>

datatype ls_loglevel =
    LS_LOG_NONE | LS_LOG_ERROR | LS_LOG_WARN | LS_LOG_INFO | LS_LOG_VERBOSE | LS_LOG_DEBUG
  | LS_LOG_TRACE | LS_LOG_MEMTRACE

fun level_number :: "ls_loglevel \<Rightarrow> nat" where
  "level_number LS_LOG_NONE = 0"
| "level_number LS_LOG_ERROR = 1"
| "level_number LS_LOG_WARN = 2"
| "level_number LS_LOG_INFO = 3"
| "level_number LS_LOG_VERBOSE = 4"
| "level_number LS_LOG_DEBUG = 5"
| "level_number LS_LOG_TRACE = 6"
| "level_number LS_LOG_MEMTRACE = 7"

fun ls_log_level_name :: "ls_loglevel \<Rightarrow> string" where
  "ls_log_level_name LS_LOG_NONE = ''NONE''"
| "ls_log_level_name LS_LOG_ERROR = ''ERROR''"
| "ls_log_level_name LS_LOG_WARN = ''WARN''"
| "ls_log_level_name LS_LOG_INFO = ''INFO''"
| "ls_log_level_name LS_LOG_VERBOSE = ''VERBOSE''"
| "ls_log_level_name LS_LOG_DEBUG = ''DEBUG''"
| "ls_log_level_name LS_LOG_TRACE = ''TRACE''"
| "ls_log_level_name LS_LOG_MEMTRACE = ''MEMTRACE''"

datatype log_msg =
    Text cstr
  | Reason errcode cstr
  | Chunks cstr "cstr list"
  | Ndc_invalid cstr
  | Ndc_no_memory cstr
  | Ndc_mismatch int int

record ndc_node =
  nd_self :: addr
  nd_id :: u32
  nd_message :: addr
  nd_text :: cstr

record logmem = mem +
  ls_loglevel :: ls_loglevel
  ndc_enabled :: bool
  ndc_depth :: int
  ndc_stack :: "ndc_node list"
  ndc_count :: u32
  log_out :: "(ls_loglevel \<times> (u32 \<times> cstr) list \<times> log_msg) list"

definition sizeof_ndc_node :: nat where "sizeof_ndc_node = 24"

section \<open>Operations\<close>

definition ls_log_set_level :: "ls_loglevel \<Rightarrow> 'z logmem_scheme \<Rightarrow> 'z logmem_scheme" where
  "ls_log_set_level level s = s\<lparr>ls_loglevel := level\<rparr>"

definition ls_log_set_ndc_enabled :: "bool \<Rightarrow> 'z logmem_scheme \<Rightarrow> 'z logmem_scheme" where
  "ls_log_set_ndc_enabled enabled s = s\<lparr>ndc_enabled := enabled\<rparr>"

definition ls_log_get_level :: "'z logmem_scheme \<Rightarrow> ls_loglevel" where
  "ls_log_get_level s = ls_loglevel s"

text \<open>\<open>_log_ndc_stack\<close> prints the rest of the stack before its first node.\<close>

fun log_ndc_stack :: "ndc_node list \<Rightarrow> (u32 \<times> cstr) list" where
  "log_ndc_stack [] = []"
| "log_ndc_stack (n # ns) = log_ndc_stack ns @ [(nd_id n, nd_text n)]"

text \<open>\<open>_log_prefix\<close>: whether the level is logged, and the contexts the line begins with.\<close>

definition log_prefix :: "ls_loglevel \<Rightarrow> 'z logmem_scheme \<Rightarrow> (u32 \<times> cstr) list option" where
  "log_prefix level s =
     (if level_number level > level_number (ls_loglevel s) then None
      else Some (if ndc_enabled s then log_ndc_stack (ndc_stack s) else []))"

definition ls_log :: "ls_loglevel \<Rightarrow> log_msg \<Rightarrow> 'z logmem_scheme \<Rightarrow> 'z logmem_scheme" where
  "ls_log level msg s =
     (case log_prefix level s of
        None \<Rightarrow> s
      | Some ctx \<Rightarrow> s\<lparr>log_out := log_out s @ [(level, ctx, msg)]\<rparr>)"

definition ls_log_err ::
  "ls_loglevel \<Rightarrow> errcode option \<Rightarrow> cstr \<Rightarrow> 'z logmem_scheme \<Rightarrow> 'z logmem_scheme" where
  "ls_log_err level err text s =
     (case err of
        Some code \<Rightarrow> ls_log level (Reason code text) s
      | None \<Rightarrow> ls_log level (Text text) s)"

text \<open>What is printed of a chunk: a length of zero means the whole chunk; any other is cast to \<open>int\<close> and
  passed as a precision, which does not count when it is negative.\<close>

definition print_chunk :: "cstr \<Rightarrow> nat \<Rightarrow> cstr" where
  "print_chunk chunk len =
     (let prec = sint (of_nat len :: 32 word) in
      if len = 0 \<or> prec < 0 then chunk else take (nat prec) chunk)"

text \<open>A generator delivers a chunk, its length and the function that frees it, or \<open>NULL\<close>.\<close>

type_synonym 's ls_log_generator_fn = "'s \<Rightarrow> (cstr \<times> nat \<times> ('s \<Rightarrow> 's) option) option \<times> 's"

partial_function (option) chunk_loop ::
  "'s ls_log_generator_fn \<Rightarrow> cstr list \<Rightarrow> 's \<Rightarrow> (cstr list \<times> 's) option" where
  "chunk_loop generator_fn printed s =
     (case generator_fn s of
        (None, s1) \<Rightarrow> Some (printed, s1)
      | (Some (chunk, len, free_fn), s1) \<Rightarrow>
          chunk_loop generator_fn (printed @ [print_chunk chunk len])
            (case free_fn of None \<Rightarrow> s1 | Some f \<Rightarrow> f s1))"

text \<open>A generator must not log, so the line can be added when the loop is over.\<close>

definition ls_log_chunked ::
  "ls_loglevel \<Rightarrow> 'z logmem_scheme ls_log_generator_fn \<Rightarrow> cstr \<Rightarrow> 'z logmem_scheme \<Rightarrow> 'z logmem_scheme option" where
  "ls_log_chunked level generator_fn text s =
     (case log_prefix level s of
        None \<Rightarrow> Some s
      | Some ctx \<Rightarrow>
          (case chunk_loop generator_fn [] s of
             None \<Rightarrow> None
           | Some (printed, s1) \<Rightarrow> Some (s1\<lparr>log_out := log_out s1 @ [(level, ctx, Chunks text printed)]\<rparr>)))"

text \<open>What \<open>fmt\<close> gives with its arguments is \<open>None\<close> for an invalid format.\<close>

definition ls_log_push_ndc ::
  "cstr \<Rightarrow> cstr option \<Rightarrow> 'z logmem_scheme \<Rightarrow> int \<times> 'z logmem_scheme" where
  "ls_log_push_ndc fmt formatted s =
     (case formatted of
        None \<Rightarrow> (0, ls_log LS_LOG_WARN (Ndc_invalid fmt) s)
      | Some text \<Rightarrow>
          (case ls_data_calloc 1 sizeof_ndc_node s of
             (None, s1) \<Rightarrow> (0, ls_log LS_LOG_WARN (Ndc_no_memory fmt) s1)
           | (Some newNode, s1) \<Rightarrow>
               (case ls_data_malloc (length text + 1) s1 of
                  (None, s2) \<Rightarrow> (0, ls_log LS_LOG_WARN (Ndc_no_memory fmt) (ls_data_free (Some newNode) s2))
                | (Some message, s2) \<Rightarrow>
                    (let s3 = write_bytes (message, 0) (text @ [0]) s2;
                         node = \<lparr>nd_self = newNode, nd_id = ndc_count s3, nd_message = message,
                                 nd_text = text\<rparr> in
                     (ndc_depth s3 + 1,
                      s3\<lparr>ndc_count := ndc_count s3 + 1, ndc_stack := node # ndc_stack s3,
                         ndc_depth := ndc_depth s3 + 1\<rparr>)))))"

text \<open>The loop of \<open>ls_log_pop_ndc\<close>, over the stack it takes nodes from.\<close>

fun pop_loop :: "ndc_node list \<Rightarrow> int \<Rightarrow> 'z logmem_scheme \<Rightarrow> 'z logmem_scheme" where
  "pop_loop [] d s = s"
| "pop_loop (prevHead # rest) d s =
     (if ndc_depth s \<ge> d then
        pop_loop rest d
          (ls_data_free (Some (nd_self prevHead))
            (ls_data_free (Some (nd_message prevHead))
              (s\<lparr>ndc_depth := ndc_depth s - 1, ndc_stack := rest\<rparr>)))
      else s)"

definition ls_log_pop_ndc :: "int \<Rightarrow> 'z logmem_scheme \<Rightarrow> 'z logmem_scheme" where
  "ls_log_pop_ndc d s =
     (if d = 0 then s
      else
        (let s1 = (if d \<noteq> ndc_depth s then ls_log LS_LOG_WARN (Ndc_mismatch (ndc_depth s) d) s else s) in
         pop_loop (ndc_stack s1) d s1))"

section \<open>Contexts nest\<close>

text \<open>The program owns \<open>M\<close>, and the contexts are \<open>ns\<close>.\<close>

definition ndc_owns ::
  "(addr \<Rightarrow> u8 option list option) \<Rightarrow> nat \<Rightarrow> addr multiset \<Rightarrow> ndc_node list \<Rightarrow> 'z logmem_scheme \<Rightarrow> bool" where
  "ndc_owns B k M ns s \<longleftrightarrow> owns B k M s \<and> ndc_stack s = ns \<and> ndc_depth s = int (length ns)"

definition ndc_blocks :: "ndc_node list \<Rightarrow> addr multiset" where
  "ndc_blocks ns = sum_list (map (\<lambda>n. {#nd_self n, nd_message n#}) ns)"

text \<open>The contexts above \<open>base\<close> are what the heap has gained over \<open>B\<close>.\<close>

definition ndc_inv ::
  "(addr \<Rightarrow> u8 option list option) \<Rightarrow> nat \<Rightarrow> ndc_node list \<Rightarrow> ndc_node list \<Rightarrow> 'z logmem_scheme \<Rightarrow> bool" where
  "ndc_inv B k base ns s \<longleftrightarrow> ndc_owns B k (ndc_blocks ns) (ns @ base) s"

lemma ndc_blocks_Cons [simp]:
  "ndc_blocks [] = {#}"
  "ndc_blocks (n # ns) = add_mset (nd_message n) (add_mset (nd_self n) (ndc_blocks ns))"
  by (simp_all add: ndc_blocks_def add_mset_commute)

lemma log_frame [simp]:
  "ndc_stack (ls_log l t s) = ndc_stack s" "ndc_depth (ls_log l t s) = ndc_depth s"
  "blocks (ls_log l t s) = blocks s" "faults (ls_log l t s) = faults s"
  "next_addr (ls_log l t s) = next_addr s" "owns B k M (ls_log l t s) = owns B k M s"
  by (simp_all add: ls_log_def owns_def mem_wf_def split: option.split)

lemma heap_frame [simp]:
  "ndc_stack (fault s) = ndc_stack s" "ndc_depth (fault s) = ndc_depth s"
  "ndc_stack (ls_data_free p s) = ndc_stack s" "ndc_depth (ls_data_free p s) = ndc_depth s"
  "ndc_stack (write_bytes q bs s) = ndc_stack s" "ndc_depth (write_bytes q bs s) = ndc_depth s"
  by (simp_all add: fault_def ls_data_free_def write_bytes_def split: option.split prod.split)

lemma ndc_calloc:
  "ls_data_calloc k n s = (r, s') \<Longrightarrow> ndc_stack s' = ndc_stack s \<and> ndc_depth s' = ndc_depth s"
  by (cases r) (auto dest: ls_data_calloc_Some ls_data_calloc_None)

lemma ndc_malloc:
  "ls_data_malloc n s = (r, s') \<Longrightarrow> ndc_stack s' = ndc_stack s \<and> ndc_depth s' = ndc_depth s"
  by (cases r) (auto dest: ls_data_malloc_Some ls_data_malloc_None)

lemma owns_ndc_fields [simp]:
  "owns B k M (s\<lparr>ndc_count := c, ndc_stack := ns, ndc_depth := d\<rparr>) = owns B k M s"
  "owns B k M (s\<lparr>ndc_depth := d, ndc_stack := ns\<rparr>) = owns B k M s"
  by (simp_all add: owns_def mem_wf_def)

lemma ndc_owns_log [simp]: "ndc_owns B k M ns (ls_log l t s) = ndc_owns B k M ns s"
  by (simp add: ndc_owns_def)

lemma ndc_owns_push:
  assumes inv: "ndc_owns B k M ns s" and r: "ls_log_push_ndc fmt t s = (d, s')"
  shows "d = 0 \<and> ndc_owns B k M ns s' \<or>
         d = int (length ns) + 1 \<and>
         (\<exists>n. ndc_owns B k (add_mset (nd_message n) (add_mset (nd_self n) M)) (n # ns) s' \<and> Some (nd_text n) = t)"
proof (cases t)
  case None
  then show ?thesis using r inv by (auto simp: ls_log_push_ndc_def)
next
  case (Some tx)
  have o: "owns B k M s" and st: "ndc_stack s = ns" and dp: "ndc_depth s = int (length ns)"
    using inv by (simp_all add: ndc_owns_def)
  obtain p s1 where c: "ls_data_calloc 1 sizeof_ndc_node s = (p, s1)" by (metis surj_pair)
  note c' = ndc_calloc[OF c]
  show ?thesis
  proof (cases p)
    case None
    then show ?thesis using r Some c c' owns_calloc_None[OF o] dp st
      by (auto simp: ls_log_push_ndc_def ndc_owns_def)
  next
    case (Some nn)
    have o1: "owns B k (add_mset nn M) s1" using owns_calloc[OF o] c Some by simp
    obtain q s2 where m: "ls_data_malloc (length tx + 1) s1 = (q, s2)" by (metis surj_pair)
    note m' = ndc_malloc[OF m]
    show ?thesis
    proof (cases q)
      case None
      have "owns B k M (ls_data_free (Some nn) s2)"
        using owns_malloc_None[OF o1] m None by (intro owns_free) simp
      then show ?thesis using r \<open>t = Some tx\<close> Some c c' m m' None dp st
        by (auto simp: ls_log_push_ndc_def ndc_owns_def)
    next
      case (Some msg)
      have o2: "owns B k (add_mset msg (add_mset nn M)) s2"
        using owns_malloc[OF o1] m Some by simp
      have blk: "blocks s2 msg = Some (replicate (length tx + 1) None)"
        using ls_data_malloc_Some[OF m[unfolded Some]] by simp
      have "owns B k (add_mset msg (add_mset nn M)) (write_bytes (msg, 0) (tx @ [0]) s2)"
        by (rule owns_write[OF o2 _ blk]) simp_all
      then show ?thesis using r \<open>t = Some tx\<close> \<open>p = Some nn\<close> c c' m m' Some dp st
        by (auto simp: ls_log_push_ndc_def ndc_owns_def Let_def)
    qed
  qed
qed

text \<open>Popping the youngest context.\<close>

lemma ndc_owns_pop_loop:
  assumes "ndc_owns B k (add_mset (nd_message n) (add_mset (nd_self n) M)) (n # ns) s" and "d \<le> int (length ns) + 1"
  shows "\<exists>s'. pop_loop (n # ns) d s = pop_loop ns d s' \<and> ndc_owns B k M ns s'"
proof -
  let ?s = "ls_data_free (Some (nd_self n)) (ls_data_free (Some (nd_message n))
            (s\<lparr>ndc_depth := ndc_depth s - 1, ndc_stack := ns\<rparr>))"
  have "owns B k M ?s" by (intro owns_free) (use assms(1) in \<open>simp add: ndc_owns_def\<close>)
  then have "ndc_owns B k M ns ?s" using assms(1) by (simp add: ndc_owns_def)
  then show ?thesis using assms by (auto simp: ndc_owns_def)
qed

lemma pop_loop_below: "ndc_depth s < d \<Longrightarrow> pop_loop ns d s = s"
  by (cases ns) auto

lemma ndc_owns_pop:
  assumes "ndc_owns B k (add_mset (nd_message n) (add_mset (nd_self n) M)) (n # ns) s"
  shows "ndc_owns B k M ns (ls_log_pop_ndc (int (length ns) + 1) s)"
proof -
  obtain s' where s': "pop_loop (n # ns) (int (length ns) + 1) s = pop_loop ns (int (length ns) + 1) s'"
    "ndc_owns B k M ns s'"
    using ndc_owns_pop_loop[OF assms] by blast
  have "ndc_depth s' < int (length ns) + 1" using s'(2) by (simp add: ndc_owns_def)
  then have "pop_loop (n # ns) (int (length ns) + 1) s = s'" using s'(1) pop_loop_below by metis
  then show ?thesis using assms s'(2) by (simp add: ls_log_pop_ndc_def ndc_owns_def)
qed

lemma pop_loop_ok:
  "ndc_inv B k base (ns @ ms) s \<Longrightarrow> d = int (length (ms @ base)) + 1 \<Longrightarrow>
   ndc_inv B k base ms (pop_loop ((ns @ ms) @ base) d s)"
proof (induction ns arbitrary: s)
  case Nil
  then show ?case by (simp add: ndc_inv_def ndc_owns_def pop_loop_below)
next
  case (Cons n ns)
  obtain s' where "pop_loop (n # ((ns @ ms) @ base)) d s = pop_loop ((ns @ ms) @ base) d s'"
    "ndc_owns B k (ndc_blocks (ns @ ms)) ((ns @ ms) @ base) s'"
    using ndc_owns_pop_loop[of B k n "ndc_blocks (ns @ ms)" "(ns @ ms) @ base" s d] Cons.prems
    by (auto simp: ndc_inv_def)
  then show ?case using Cons.IH[of s'] Cons.prems(2) by (simp add: ndc_inv_def)
qed

text \<open>Pushes, some of which may fail.\<close>

fun push_all :: "(cstr \<times> cstr option) list \<Rightarrow> 'z logmem_scheme \<Rightarrow> 'z logmem_scheme" where
  "push_all [] s = s"
| "push_all ((fmt, t) # ts) s = push_all ts (snd (ls_log_push_ndc fmt t s))"

lemma push_all_ok:
  "ndc_inv B k base ms s \<Longrightarrow> \<exists>ns. ndc_inv B k base (ns @ ms) (push_all ts s)"
proof (induction ts arbitrary: s ms)
  case Nil
  then show ?case by (metis append_Nil push_all.simps(1))
next
  case (Cons ft ts)
  obtain fmt t where ft: "ft = (fmt, t)" by (cases ft)
  obtain d s1 where p: "ls_log_push_ndc fmt t s = (d, s1)" by (metis surj_pair)
  consider "ndc_inv B k base ms s1" | n where "ndc_inv B k base (n # ms) s1"
    using ndc_owns_push[OF Cons.prems[unfolded ndc_inv_def] p] by (auto simp: ndc_inv_def)
  then show ?case
  proof cases
    case 1
    then show ?thesis using Cons.IH[OF 1] p ft by simp
  next
    case (2 n)
    obtain ns where "ndc_inv B k base (ns @ n # ms) (push_all ts s1)" using Cons.IH[OF 2] by blast
    then show ?thesis using p ft by (metis append.assoc append_Cons append_Nil push_all.simps(2) snd_conv)
  qed
qed

text \<open>C29: Contexts nest: popping with what a successful push returned removes that context and all
  those pushed after it, however many of these failed, and nothing below it; the depth is the
  number of contexts again, and the heap is what it was before the push, without a fault.\<close>

theorem ls_log_pop_undoes_push:
  assumes "mem_wf s" and "ndc_depth s = int (length (ndc_stack s))"
    and "ls_log_push_ndc fmt t s = (d, s1)" and "d \<noteq> 0" and "s2 = push_all ts s1"
  shows "ndc_stack (ls_log_pop_ndc d s2) = ndc_stack s \<and>
         ndc_depth (ls_log_pop_ndc d s2) = ndc_depth s \<and>
         blocks (ls_log_pop_ndc d s2) = blocks s \<and> faults (ls_log_pop_ndc d s2) = faults s"
proof -
  let ?b = "ndc_stack s"
  have i: "ndc_inv (blocks s) (faults s) ?b [] s"
    using owns_start[OF assms(1)] assms(2) by (simp add: ndc_inv_def ndc_owns_def)
  obtain n where i1: "ndc_inv (blocks s) (faults s) ?b [n] s1" and d: "d = ndc_depth s + 1"
    using ndc_owns_push[OF i[unfolded ndc_inv_def] assms(3)] assms(2,4) by (auto simp: ndc_inv_def)
  obtain ns where i2: "ndc_inv (blocks s) (faults s) ?b (ns @ [n]) s2"
    using push_all_ok[OF i1] assms(5) by auto
  let ?s = "if d \<noteq> ndc_depth s2 then ls_log LS_LOG_WARN (Ndc_mismatch (ndc_depth s2) d) s2 else s2"
  have i3: "ndc_inv (blocks s) (faults s) ?b ((ns @ [n]) @ []) ?s"
    using i2 by (simp add: ndc_inv_def ndc_owns_def)
  have "ls_log_pop_ndc d s2 = pop_loop (((ns @ [n]) @ []) @ ?b) d ?s"
    using assms(4) i3 by (simp add: ls_log_pop_ndc_def Let_def ndc_inv_def ndc_owns_def)
  moreover have "ndc_inv (blocks s) (faults s) ?b [] (pop_loop (((ns @ [n]) @ []) @ ?b) d ?s)"
    by (rule pop_loop_ok[OF i3]) (simp add: d assms(2))
  ultimately have "ndc_inv (blocks s) (faults s) ?b [] (ls_log_pop_ndc d s2)" by simp
  then show ?thesis using assms(2) owns_empty by (auto simp: ndc_inv_def ndc_owns_def)
qed

section \<open>Generators\<close>

text \<open>What a generator delivers in at most \<open>n\<close> chunks.\<close>

fun delivered :: "nat \<Rightarrow> 's ls_log_generator_fn \<Rightarrow> 's \<Rightarrow> (cstr list \<times> 's) option" where
  "delivered n g s =
     (case g s of
        (None, s1) \<Rightarrow> Some ([], s1)
      | (Some (chunk, len, free_fn), s1) \<Rightarrow>
          (case n of
             0 \<Rightarrow> None
           | Suc m \<Rightarrow> map_option (apfst ((#) (print_chunk chunk len)))
                       (delivered m g (case free_fn of None \<Rightarrow> s1 | Some f \<Rightarrow> f s1))))"

declare delivered.simps [simp del]

lemma delivered_chunk_loop:
  "delivered n g s = Some (cs, s') \<Longrightarrow> chunk_loop g out s = Some (out @ cs, s')"
proof (induction n arbitrary: s cs out)
  case 0
  then show ?case
    by (subst chunk_loop.simps) (auto simp: delivered.simps[of 0] split: prod.splits option.splits)
next
  case (Suc n)
  then show ?case
    by (subst chunk_loop.simps)
      (auto simp: delivered.simps[of "Suc n"] split: prod.splits option.splits nat.splits)
qed

lemma chunk_loop_delivered:
  assumes r: "chunk_loop g out s = Some r"
  shows "\<exists>n cs s'. delivered n g s = Some (cs, s')"
proof (rule chunk_loop.raw_induct[OF _ r, where P = "\<lambda>g out s r. \<exists>n cs s'. delivered n g s = Some (cs, s')"])
  fix loop :: "'a ls_log_generator_fn \<Rightarrow> cstr list \<Rightarrow> 'a \<Rightarrow> (cstr list \<times> 'a) option"
  fix g out s and r :: "cstr list \<times> 'a"
  assume ih: "\<And>g out s r. loop g out s = Some r \<Longrightarrow> \<exists>n cs s'. delivered n g s = Some (cs, s')"
    and step: "(case g s of
        (None, s1) \<Rightarrow> Some (out, s1)
      | (Some (chunk, len, free_fn), s1) \<Rightarrow>
          loop g (out @ [print_chunk chunk len]) (case free_fn of None \<Rightarrow> s1 | Some f \<Rightarrow> f s1)) = Some r"
  show "\<exists>n cs s'. delivered n g s = Some (cs, s')"
  proof (cases "fst (g s)")
    case None
    then show ?thesis using delivered.simps[of 0 g s] by (cases "g s") auto
  next
    case (Some c)
    obtain chunk len free_fn s1 where c: "g s = (Some (chunk, len, free_fn), s1)"
      using Some by (cases "g s"; cases c) auto
    let ?s = "case free_fn of None \<Rightarrow> s1 | Some f \<Rightarrow> f s1"
    obtain n cs s' where "delivered n g ?s = Some (cs, s')" using ih step c by fastforce
    then have "delivered (Suc n) g s = Some (print_chunk chunk len # cs, s')"
      by (simp add: delivered.simps[of "Suc n"] c)
    then show ?thesis by blast
  qed
qed

text \<open>A line is logged exactly when its generator comes to an end, and has what it delivered.\<close>

lemma ls_log_chunked_iff:
  "ls_log_chunked level g text s = Some s' \<longleftrightarrow>
     (case log_prefix level s of
        None \<Rightarrow> s' = s
      | Some ctx \<Rightarrow> \<exists>n cs s1. delivered n g s = Some (cs, s1) \<and>
          s' = s1\<lparr>log_out := log_out s1 @ [(level, ctx, Chunks text cs)]\<rparr>)"
proof (cases "log_prefix level s")
  case (Some ctx)
  have iff: "(\<exists>n. delivered n g s = Some (cs, s1)) \<longleftrightarrow> chunk_loop g [] s = Some (cs, s1)" for cs s1
    using delivered_chunk_loop[of _ g s _ _ "[]"] chunk_loop_delivered[of g "[]" s] by fastforce
  have "ls_log_chunked level g text s = Some s' \<longleftrightarrow>
      (\<exists>cs s1. chunk_loop g [] s = Some (cs, s1) \<and>
        s' = s1\<lparr>log_out := log_out s1 @ [(level, ctx, Chunks text cs)]\<rparr>)"
    using Some by (auto simp: ls_log_chunked_def split: option.split)
  then show ?thesis using Some by (auto simp flip: iff)
qed (auto simp: ls_log_chunked_def)

section \<open>An instance\<close>

definition init_log :: logmem where
  "init_log = mem.extend init_mem \<lparr>ls_loglevel = LS_LOG_INFO, ndc_enabled = True, ndc_depth = 0,
     ndc_stack = [], ndc_count = 0, log_out = []\<rparr>"

lemma init_log_ok: "mem_wf init_log" "ndc_depth init_log = int (length (ndc_stack init_log))"
  by (simp_all add: init_log_def mem.defs init_mem_def mem_wf_def)

lemma ls_log_pop_undoes_push_witness:
  "\<exists>s1. ls_log_push_ndc (ascii ''A'') (Some [65]) init_log = (1, s1) \<and>
     ndc_stack (ls_log_pop_ndc 1 (push_all [(ascii ''%d'', Some [66]), (ascii ''%ls'', None)] s1)) = []"
proof -
  obtain s1 where p: "ls_log_push_ndc (ascii ''A'') (Some [65]) init_log = (1, s1)"
    by (fastforce simp: ls_log_push_ndc_def ls_data_calloc_def ls_data_malloc_def init_log_def mem.defs
        init_mem_def libc_malloc_def Let_def write_bytes_def size_mult_def sizeof_ndc_node_def
        split: option.split)
  have "ndc_stack (ls_log_pop_ndc 1 (push_all [(ascii ''%d'', Some [66]), (ascii ''%ls'', None)] s1)) = ndc_stack init_log"
    using ls_log_pop_undoes_push[OF init_log_ok p _ refl] by (simp del: push_all.simps)
  then show ?thesis using p by (auto simp: init_log_def mem.defs)
qed

end
