(* ===== verification/Ls_Log_Text.thy ===== *)
theory Ls_Log_Text
  imports Ls_Log
begin

text \<open>
  The text of the log, \<open>src/ls_log.c\<close>: what the log function is given for each entry of \<open>log_out\<close>, with
  the time and the colours of its prefix, and the logging of a time stamp.  The local time is an
  argument.
\<close>

section \<open>Lines\<close>

text \<open>The log function gets a text and acts on the program's output; a null pointer selects \<open>vfprintf\<close>.\<close>

type_synonym 'o log_function = "cstr \<Rightarrow> 'o \<Rightarrow> 'o"

definition ls_log_set_function :: "'o log_function \<Rightarrow> 'o log_function option \<Rightarrow> 'o log_function" where
  "ls_log_set_function vfprintf fn = (case fn of None \<Rightarrow> vfprintf | Some f \<Rightarrow> f)"

fun level_colors :: "ls_loglevel \<Rightarrow> int" where
  "level_colors LS_LOG_NONE = 0"
| "level_colors LS_LOG_ERROR = 31"
| "level_colors LS_LOG_WARN = 33"
| "level_colors LS_LOG_INFO = 35"
| "level_colors LS_LOG_VERBOSE = 32"
| "level_colors LS_LOG_DEBUG = 34"
| "level_colors LS_LOG_TRACE = 36"
| "level_colors LS_LOG_MEMTRACE = 36"

definition prefix_text :: "tm \<Rightarrow> ls_loglevel \<Rightarrow> cstr" where
  "prefix_text local level =
     [27] @ ascii ''[1m'' @ d_prec 1 (tm_year local + 1900) @ [45] @ d_prec 2 (tm_mon local + 1) @ [45] @
     d_prec 2 (tm_mday local) @ [84] @ d_prec 2 (tm_hour local) @ [58] @ d_prec 2 (tm_min local) @ [58] @
     d_prec 2 (tm_sec local) @ [27] @ ascii ''[0m ['' @ [27] @ ascii ''['' @ d_prec 1 (level_colors level) @
     ascii ''m'' @ left_justified 8 (ascii (ls_log_level_name level)) @ [27] @ ascii ''[0m]: ''"

definition ndc_text :: "u32 \<times> cstr \<Rightarrow> cstr" where
  "ndc_text c = ascii ''{ndcid='' @ dec_string (unat (fst c)) @ ascii ''; '' @ snd c @ ascii ''} ''"

fun msg_texts :: "(errcode \<Rightarrow> cstr) \<Rightarrow> log_msg \<Rightarrow> cstr list" where
  "msg_texts message (Text t) = [t]"
| "msg_texts message (Reason code t) = [ascii ''reason('' @ message code @ ascii ''): '', t]"
| "msg_texts message (Chunks t cs) = t # cs"
| "msg_texts message (Ndc_invalid fmt) =
     [ascii ''invalid NDC format string: '' @ [39] @ fmt @ [39]]"
| "msg_texts message (Ndc_no_memory fmt) =
     [ascii ''could not push NDC: '' @ [39] @ fmt @ [39] @ ascii '' (out of memory)'']"
| "msg_texts message (Ndc_mismatch expected got) =
     [ascii ''ndc depth mismatch on pop (expected '' @ d_prec 1 expected @ ascii '', got '' @
      d_prec 1 got @ ascii '')'']"

text \<open>The texts of the calls of the log function for an entry, in order.\<close>

definition log_calls ::
  "tm \<Rightarrow> (errcode \<Rightarrow> cstr) \<Rightarrow> ls_loglevel \<times> (u32 \<times> cstr) list \<times> log_msg \<Rightarrow> cstr list" where
  "log_calls local message entry =
     (case entry of (level, ctx, msg) \<Rightarrow>
        prefix_text local level # map ndc_text ctx @ msg_texts message msg @ [[10]])"

definition log_entry ::
  "'o log_function \<Rightarrow> tm \<Rightarrow> (errcode \<Rightarrow> cstr) \<Rightarrow> ls_loglevel \<times> (u32 \<times> cstr) list \<times> log_msg \<Rightarrow> 'o \<Rightarrow> 'o" where
  "log_entry fn local message entry = fold fn (log_calls local message entry)"

section \<open>Time stamps\<close>

text \<open>\<open>w_strftime\<close> characters of the buffer of 28 bytes are written by \<open>strftime\<close>, the microseconds,
  cast to \<open>unsigned\<close>, by \<open>snprintf\<close> into the rest, which it cuts off at the end of the buffer.\<close>

definition ls_log_format_timeval :: "(int \<times> int) option \<Rightarrow> cstr \<Rightarrow> 'z logmem_scheme \<Rightarrow> 'z logmem_scheme" where
  "ls_log_format_timeval tv tag s =
     (case tv of
        None \<Rightarrow> ls_log LS_LOG_INFO (Text (tag @ ascii '': NULL timeval'')) s
      | Some (sec, usec) \<Rightarrow>
          (case gmtime sec of
             None \<Rightarrow> s
           | Some gm \<Rightarrow>
               (let buf = strftime_stamp 28 gm; w_strftime = length buf in
                if w_strftime = 0 \<or> w_strftime > 28 - 1 then s
                else
                  (let buf = buf @ take (28 - w_strftime - 1) ([46] @ d_prec 6 (usec mod 2 ^ 32)) in
                   ls_log LS_LOG_INFO (Text (tag @ ascii '': '' @ buf)) s))))"

section \<open>What is logged\<close>

text \<open>The prefix, the contexts from the oldest to the newest, the message and the newline; nothing
  for a level that is not logged.\<close>

lemma ls_log_entry:
  "log_out (ls_log level msg s) = log_out s @
     (if level_number level \<le> level_number (ls_loglevel s)
      then [(level, if ndc_enabled s then map (\<lambda>n. (nd_id n, nd_text n)) (rev (ndc_stack s)) else [], msg)]
      else [])"
proof -
  have "log_ndc_stack ns = map (\<lambda>n. (nd_id n, nd_text n)) (rev ns)" for ns by (induction ns) auto
  then show ?thesis by (simp add: ls_log_def log_prefix_def)
qed

text \<open>Three calls of the log function make a line only without contexts and for a plain message.\<close>

lemma log_calls_count:
  "length (log_calls local message (level, ctx, msg)) = 3 + length ctx +
     (case msg of Reason code t \<Rightarrow> 1 | Chunks t cs \<Rightarrow> length cs | _ \<Rightarrow> 0)"
  by (cases msg) (simp_all add: log_calls_def)

text \<open>Reading a time stamp of a year of four digits.\<close>

definition field :: "cstr \<Rightarrow> nat \<Rightarrow> nat \<Rightarrow> int" where
  "field w i n = read_dec (take n (drop i w))"

definition read_stamp :: "cstr \<Rightarrow> tm \<times> int" where
  "read_stamp w =
     (\<lparr>tm_year = field w 0 4 - 1900, tm_mon = field w 5 2 - 1, tm_mday = field w 8 2,
       tm_hour = field w 11 2, tm_min = field w 14 2, tm_sec = field w 17 2\<rparr>, field w 20 6)"

lemma stamp_fields:
  assumes ok: "tm_ok g" and y: "1000 \<le> tm_year g + 1900" "tm_year g + 1900 < 10000"
    and u: "0 \<le> usec" "usec < 1000000"
  shows "length (stamp_text g) = 19" and "read_stamp (stamp_text g @ [46] @ d_prec 6 usec) = (g, usec)"
proof -
  let ?y = "tm_year g + 1900"
  have "10 ^ 3 \<le> nat ?y" "nat ?y < 10 ^ 4" using y by simp_all
  then have l: "length (dec_string (nat ?y)) = 4"
    using dec_string_length_ge[of 3 "nat ?y"] dec_string_length[of 4 "nat ?y"] by simp
  then have ly: "length (d_prec 1 ?y) = 4" and ry: "read_dec (d_prec 1 ?y) = ?y"
    using y by (simp_all add: d_prec_def Let_def read_dec_string)
  note two = ok[unfolded tm_ok_def]
  have l2: "length (d_prec 2 (tm_mon g + 1)) = 2" "length (d_prec 2 (tm_mday g)) = 2"
      "length (d_prec 2 (tm_hour g)) = 2" "length (d_prec 2 (tm_min g)) = 2" "length (d_prec 2 (tm_sec g)) = 2"
    and r2: "read_dec (d_prec 2 (tm_mon g + 1)) = tm_mon g + 1" "read_dec (d_prec 2 (tm_mday g)) = tm_mday g"
      "read_dec (d_prec 2 (tm_hour g)) = tm_hour g" "read_dec (d_prec 2 (tm_min g)) = tm_min g"
      "read_dec (d_prec 2 (tm_sec g)) = tm_sec g"
    using two by (simp_all add: d_prec_read)
  have l6: "length (d_prec 6 usec) = 6" and r6: "read_dec (d_prec 6 usec) = usec"
    using u by (simp_all add: d_prec_read)
  show "length (stamp_text g) = 19" using ly l2 by (simp add: stamp_text_def)
  show "read_stamp (stamp_text g @ [46] @ d_prec 6 usec) = (g, usec)"
    using ly ry l2 r2 l6 r6 by (simp add: read_stamp_def field_def stamp_text_def)
qed

text \<open>C40: A time from the year 1000 to the year 9999 is logged completely, microseconds included, and
  can be read back: the 26 bytes after the tag are a date and time of the calendar whose seconds since
  1970 are those logged.\<close>

theorem ls_log_format_timeval_reads_back:
  assumes "-30610224000 \<le> sec" and "sec < 253402300800" and "0 \<le> usec" and "usec < 1000000"
  shows "\<exists>w. ls_log_format_timeval (Some (sec, usec)) tag s =
      ls_log LS_LOG_INFO (Text (tag @ ascii '': '' @ w)) s \<and>
    length w = 26 \<and> tm_ok (fst (read_stamp w)) \<and> timegm (fst (read_stamp w)) = sec \<and> snd (read_stamp w) = usec"
proof -
  have "days_before 1000 \<le> sec div 86400" "sec div 86400 < days_before 10000"
    using assms(1,2) by (simp_all add: days_before_def)
  then obtain g where g: "gmtime sec = Some g" "1000 \<le> tm_year g + 1900" "tm_year g + 1900 < 10000"
    using gmtime_year[of 1000 sec 10000] by auto
  have t: "tm_ok g" "timegm g = sec" using gmtime_timegm[OF g(1)] by simp_all
  note f = stamp_fields[OF t(1) g(2,3) assms(3,4)]
  have "length (d_prec 6 usec) = 6" using assms(3,4) by (simp add: d_prec_read)
  moreover have "stamp_text g \<noteq> []" using f(1) by auto
  ultimately have "ls_log_format_timeval (Some (sec, usec)) tag s =
      ls_log LS_LOG_INFO (Text (tag @ ascii '': '' @ stamp_text g @ [46] @ d_prec 6 usec)) s \<and>
      length (stamp_text g @ [46] @ d_prec 6 usec) = 26"
    using f(1) g(1) assms(3,4) by (simp add: ls_log_format_timeval_def strftime_stamp_def Let_def)
  then show ?thesis using f(2) t by (metis fst_conv snd_conv)
qed

lemma ls_log_format_timeval_reads_back_witness:
  "\<exists>w. ls_log_format_timeval (Some (1456704000, 42)) [116] init_log =
      ls_log LS_LOG_INFO (Text ([116] @ ascii '': '' @ w)) init_log \<and>
    length w = 26 \<and> tm_ok (fst (read_stamp w)) \<and> timegm (fst (read_stamp w)) = 1456704000 \<and>
    snd (read_stamp w) = 42"
  by (rule ls_log_format_timeval_reads_back) simp_all

text \<open>At most 27 bytes are written into the buffer, whatever the time.\<close>

lemma ls_log_format_timeval_fits:
  "\<exists>w. length w \<le> 27 \<and> (ls_log_format_timeval (Some tv) tag s = s \<or>
     ls_log_format_timeval (Some tv) tag s = ls_log LS_LOG_INFO (Text (tag @ ascii '': '' @ w)) s)"
proof (cases tv; cases "gmtime (fst tv)")
  fix sec usec g
  assume tv: "tv = (sec, usec)" and g: "gmtime (fst tv) = Some g"
  let ?b = "strftime_stamp 28 g"
  let ?w = "?b @ take (28 - length ?b - 1) ([46] @ d_prec 6 (usec mod 2 ^ 32))"
  have "length ?w \<le> 27"
    by (auto simp: strftime_stamp_def min_def)
  then show ?thesis using tv g by (intro exI[of _ ?w]) (simp add: ls_log_format_timeval_def Let_def)
qed (auto simp: ls_log_format_timeval_def intro: exI[of _ "[]"])

end
