(* ===== verification/Ls_Eventing.thy ===== *)
theory Ls_Eventing
  imports Ls_Pool_Props Ls_Htable_Props Ls_Log
begin

text \<open>
  The event dispatcher of \<open>src/ls_eventing.c\<close>.

  Bindings, events and moments are objects of the heap, linked by pointers as in the code; the
  state extends that of the log by the maps from addresses to them.  The dispatcher is a value, and
  the operations take it with the state.  A function with a loop over a list returns \<open>None\<close> when
  the code has no defined result: when it runs forever, follows a dangling pointer or fails an
  assertion.

  Callbacks are the program's own code.  What one does is a list of actions on the dispatcher, an
  argument of the functions that call it: a function of the callback, its argument and the event
  data.  The calls made are recorded in the state.
\<close>

section \<open>State\<close>

record binding =
  bi_cb :: nat
  bi_arg :: nat
  bi_next :: "addr option"
  bi_unbound :: bool
  bi_normal_bound :: bool

record event =
  ev_name_block :: addr
  ev_name :: cstr
  ev_source :: nat
  ev_bindings :: "addr option"

record 'd evdata =
  ed_source :: nat
  ed_name :: cstr
  ed_notifier :: addr
  ed_data :: 'd
  ed_selected :: "nat option"
  ed_handled :: bool

text \<open>A moment lives in a pool of its own.\<close>

record 'd moment =
  mo_evt :: "'d evdata"
  mo_pool :: "mem pool"
  mo_result_cb :: "nat option"
  mo_result_arg :: nat
  mo_bindings :: "addr option"
  mo_next :: "addr option"

record 'd evmem = logmem +
  binding_at :: "addr \<Rightarrow> binding option"
  event_at :: "addr \<Rightarrow> event option"
  moment_at :: "addr \<Rightarrow> 'd moment option"
  calls :: "(nat \<times> nat \<times> 'd evdata) list"
  results :: "(nat \<times> nat \<times> 'd evdata) list"

text \<open>The events of a dispatcher are found by name: the key is the pointer with the string it points
  to, which does not change while the event exists.\<close>

type_synonym ev_key = "byte_ptr \<times> cstr"

record 's dispatcher =
  di_self :: addr
  di_source :: nat
  di_events :: "(ev_key, addr, 's) htable"
  di_running :: "addr option"
  di_tail :: "addr option"
  di_next :: "addr option"
  di_destroy_pending :: bool
  di_live :: bool

definition DISPATCH_BUCKETS :: int where "DISPATCH_BUCKETS = 7"
definition MOMENT_POOLSIZE :: nat where "MOMENT_POOLSIZE = 0"
definition sizeof_dispatch :: nat where "sizeof_dispatch = 48"
definition sizeof_event :: nat where "sizeof_event = 32"
definition sizeof_binding :: nat where "sizeof_binding = 32"
definition sizeof_moment :: nat where "sizeof_moment = 88"
definition sizeof_trigger :: nat where "sizeof_trigger = 16"

text \<open>What a callback does, in order: its calls to the dispatcher, and what it does to the rest of the
  state.\<close>

datatype ('d, 's) action =
    Bind addr nat nat
  | Unbind addr nat
  | Trigger addr 'd
  | Handled bool
  | Destroy
  | Work "'s \<Rightarrow> 's"

record ('d, 's) programs =
  pr_notify :: "nat \<Rightarrow> nat \<Rightarrow> 'd evdata \<Rightarrow> ('d, 's) action list"
  pr_result :: "nat \<Rightarrow> nat \<Rightarrow> 'd evdata \<Rightarrow> ('d, 's) action list"

section \<open>Contexts of the log\<close>

definition push_eventing_ndc ::
  "addr option \<Rightarrow> string \<Rightarrow> 'z logmem_scheme \<Rightarrow> int \<times> 'z logmem_scheme" where
  "push_eventing_ndc dispatch entrypoint s =
     ls_log_push_ndc (ascii ''eventing dispatcher=%p; entrypoint=%s'')
       (Some (ascii ''eventing dispatcher='' @ ptr_string dispatch @
       ascii ''; entrypoint='' @ ascii entrypoint)) s"

definition pop_eventing_ndc :: "int \<Rightarrow> 'z logmem_scheme \<Rightarrow> 'z logmem_scheme" where
  "pop_eventing_ndc d s = (if d > 0 then ls_log_pop_ndc d s else s)"

section \<open>Lists of bindings\<close>

definition upd_binding ::
  "addr \<Rightarrow> (binding \<Rightarrow> binding) \<Rightarrow> ('d, 'z) evmem_scheme \<Rightarrow> ('d, 'z) evmem_scheme" where
  "upd_binding a f s =
     (case binding_at s a of None \<Rightarrow> fault s | Some b \<Rightarrow> s\<lparr>binding_at := (binding_at s)(a \<mapsto> f b)\<rparr>)"

definition upd_event :: "addr \<Rightarrow> (event \<Rightarrow> event) \<Rightarrow> ('d, 'z) evmem_scheme \<Rightarrow> ('d, 'z) evmem_scheme" where
  "upd_event e f s =
     (case event_at s e of None \<Rightarrow> fault s | Some ev \<Rightarrow> s\<lparr>event_at := (event_at s)(e \<mapsto> f ev)\<rparr>)"

definition free_binding :: "addr \<Rightarrow> ('d, 'z) evmem_scheme \<Rightarrow> ('d, 'z) evmem_scheme" where
  "free_binding a s = ls_data_free (Some a) (s\<lparr>binding_at := (binding_at s)(a := None)\<rparr>)"

text \<open>The addresses a list pointer leads through.\<close>

partial_function (option) chain_of ::
  "(addr \<Rightarrow> binding option) \<Rightarrow> addr option \<Rightarrow> addr list option" where
  "chain_of B p =
     (case p of
        None \<Rightarrow> Some []
      | Some a \<Rightarrow>
          (case B a of
             None \<Rightarrow> None
           | Some b \<Rightarrow> Option.bind (chain_of B (bi_next b)) (\<lambda>as. Some (a # as))))"

definition bindings_of :: "addr \<Rightarrow> ('d, 'z) evmem_scheme \<Rightarrow> addr list option" where
  "bindings_of e s =
     (case event_at s e of None \<Rightarrow> None | Some ev \<Rightarrow> chain_of (binding_at s) (ev_bindings ev))"

definition has_cb :: "('d, 'z) evmem_scheme \<Rightarrow> nat \<Rightarrow> addr \<Rightarrow> bool" where
  "has_cb s cb a = (\<exists>b. binding_at s a = Some b \<and> bi_cb b = cb)"

definition remove_binding ::
  "addr \<Rightarrow> nat \<Rightarrow> ('d, 'z) evmem_scheme \<Rightarrow> (addr option \<times> addr option \<times> ('d, 'z) evmem_scheme) option" where
  "remove_binding e cb s =
     (case bindings_of e s of
        None \<Rightarrow> None
      | Some as \<Rightarrow>
          (let before = takeWhile (\<lambda>a. \<not> has_cb s cb a) as;
               prev = (if before = [] then None else Some (last before)) in
           case dropWhile (\<lambda>a. \<not> has_cb s cb a) as of
             [] \<Rightarrow> Some (None, prev, s)
           | found # rest \<Rightarrow>
               (let next = (case binding_at s found of Some b \<Rightarrow> bi_next b | None \<Rightarrow> None);
                    s1 = (case prev of
                            None \<Rightarrow> upd_event e (\<lambda>ev. ev\<lparr>ev_bindings := next\<rparr>) s
                          | Some p \<Rightarrow> upd_binding p (\<lambda>b. b\<lparr>bi_next := next\<rparr>) s);
                    s2 = upd_binding found (\<lambda>b. b\<lparr>bi_next := None\<rparr>) s1 in
                Some (Some found, prev, s2))))"

fun pending_loop ::
  "addr \<Rightarrow> addr option \<Rightarrow> addr list \<Rightarrow> ('d, 'z) evmem_scheme \<Rightarrow> ('d, 'z) evmem_scheme" where
  "pending_loop e prev [] s = s"
| "pending_loop e prev (cur # rest) s =
     (case binding_at s cur of
        None \<Rightarrow> fault s
      | Some b \<Rightarrow>
          if \<not> bi_unbound b then pending_loop e (Some cur) rest s
          else
            (let s1 = (case prev of
                         Some p \<Rightarrow> upd_binding p (\<lambda>x. x\<lparr>bi_next := bi_next b\<rparr>) s
                       | None \<Rightarrow> upd_event e (\<lambda>ev. ev\<lparr>ev_bindings := bi_next b\<rparr>) s) in
             pending_loop e prev rest (free_binding cur s1)))"

definition process_pending_unbinds :: "addr \<Rightarrow> ('d, 'z) evmem_scheme \<Rightarrow> ('d, 'z) evmem_scheme option" where
  "process_pending_unbinds e s = map_option (\<lambda>as. pending_loop e None as s) (bindings_of e s)"

definition set_bind_status :: "addr \<Rightarrow> ('d, 'z) evmem_scheme \<Rightarrow> ('d, 'z) evmem_scheme option" where
  "set_bind_status e s =
     map_option (\<lambda>as. fold (\<lambda>a. upd_binding a (\<lambda>b. b\<lparr>bi_normal_bound := True\<rparr>)) as s) (bindings_of e s)"

text \<open>The cleaner of the table of events.\<close>

definition clean_event :: "(ev_key, addr, ('d, 'z) evmem_scheme) ls_htable_cleanfunc" where
  "clean_event replace delete_key key data s =
     (case data of
        None \<Rightarrow> fault s
      | Some e \<Rightarrow>
          (case (event_at s e, bindings_of e s) of
             (Some ev, Some as) \<Rightarrow>
               (let s1 = fold free_binding as s;
                    s2 = ls_data_free (Some (ev_name_block ev)) s1 in
                ls_data_free (Some e) (s2\<lparr>event_at := (event_at s2)(e := None)\<rparr>))
           | _ \<Rightarrow> fault s))"

section \<open>Binding\<close>

definition ls_event_get_name :: "addr \<Rightarrow> ('d, 'z) evmem_scheme \<Rightarrow> cstr option" where
  "ls_event_get_name e s = map_option ev_name (event_at s e)"

definition ls_event_get_source :: "addr \<Rightarrow> ('d, 'z) evmem_scheme \<Rightarrow> nat option" where
  "ls_event_get_source e s = map_option ev_source (event_at s e)"

text \<open>Putting a binding where the search for it ended.\<close>

definition insert_binding ::
  "addr \<Rightarrow> addr \<Rightarrow> addr option \<Rightarrow> ('d, 'z) evmem_scheme \<Rightarrow> ('d, 'z) evmem_scheme option" where
  "insert_binding e a prev s =
     (case event_at s e of
        None \<Rightarrow> None
      | Some ev \<Rightarrow>
          if ev_bindings ev = None then Some (upd_event e (\<lambda>x. x\<lparr>ev_bindings := Some a\<rparr>) s)
          else
            (case prev of
               Some p \<Rightarrow>
                 (case binding_at s p of
                    None \<Rightarrow> None
                  | Some pb \<Rightarrow>
                      if bi_next pb = None then Some (upd_binding p (\<lambda>b. b\<lparr>bi_next := Some a\<rparr>) s)
                      else Some (upd_binding p (\<lambda>b. b\<lparr>bi_next := Some a\<rparr>)
                                  (upd_binding a (\<lambda>b. b\<lparr>bi_next := bi_next pb\<rparr>) s)))
             | None \<Rightarrow>
                 Some (upd_event e (\<lambda>x. x\<lparr>ev_bindings := Some a\<rparr>)
                        (upd_binding a (\<lambda>b. b\<lparr>bi_next := ev_bindings ev\<rparr>) s))))"

definition ls_event_bind ::
  "addr \<Rightarrow> nat \<Rightarrow> nat \<Rightarrow> 's dispatcher \<Rightarrow> ('d, 'z) evmem_scheme \<Rightarrow>
   ((errcode + unit) \<times> ('d, 'z) evmem_scheme) option" where
  "ls_event_bind e cb arg d s =
     (case push_eventing_ndc (Some (di_self d)) ''ls_event_bind'' s of
        (depth, s1) \<Rightarrow>
          (case remove_binding e cb s1 of
             None \<Rightarrow> None
           | Some (None, prev, s2) \<Rightarrow>
               (case ls_data_calloc 1 sizeof_binding s2 of
                  (None, s3) \<Rightarrow> Some (Inl LS_ERR_NO_MEMORY, pop_eventing_ndc depth s3)
                | (Some a, s3) \<Rightarrow>
                    (let b = \<lparr>bi_cb = cb, bi_arg = arg, bi_next = None, bi_unbound = False,
                              bi_normal_bound = False\<rparr>;
                         s4 = s3\<lparr>binding_at := (binding_at s3)(a \<mapsto> b)\<rparr> in
                     map_option (\<lambda>s5. (Inr (), pop_eventing_ndc depth s5)) (insert_binding e a prev s4)))
           | Some (Some a, prev, s2) \<Rightarrow>
               (let s3 = upd_binding a (\<lambda>b. \<lparr>bi_cb = cb, bi_arg = arg, bi_next = None,
                           bi_unbound = False, bi_normal_bound = bi_normal_bound b\<rparr>) s2 in
                map_option (\<lambda>s4. (Inr (), pop_eventing_ndc depth s4)) (insert_binding e a prev s3))))"

text \<open>While the event itself is running, the search is for a binding that must be there.\<close>

definition ls_event_unbind ::
  "addr \<Rightarrow> nat \<Rightarrow> 's dispatcher \<Rightarrow> ('d, 'z) evmem_scheme \<Rightarrow> ('d, 'z) evmem_scheme option" where
  "ls_event_unbind e cb d s =
     (case push_eventing_ndc (Some (di_self d)) ''ls_event_unbind'' s of
        (depth, s1) \<Rightarrow>
          if di_running d \<noteq> Some e then
            (case remove_binding e cb s1 of
               None \<Rightarrow> None
             | Some (None, prev, s2) \<Rightarrow> Some (pop_eventing_ndc depth s2)
             | Some (Some a, prev, s2) \<Rightarrow> Some (pop_eventing_ndc depth (free_binding a s2)))
          else
            (case bindings_of e s1 of
               None \<Rightarrow> None
             | Some as \<Rightarrow>
                 (case dropWhile (\<lambda>a. \<not> has_cb s1 cb a) as of
                    [] \<Rightarrow> None
                  | cur # rest \<Rightarrow>
                      Some (pop_eventing_ndc depth (upd_binding cur (\<lambda>b. b\<lparr>bi_unbound := True\<rparr>) s1)))))"

section \<open>Moments\<close>

text \<open>The pool of a moment works on the heap part of the state.\<close>

definition on_mem :: "(mem \<Rightarrow> 'r \<times> mem) \<Rightarrow> 'z mem_scheme \<Rightarrow> 'r \<times> 'z mem_scheme" where
  "on_mem f s = (case f (mem.truncate s) of (r, m) \<Rightarrow> (r, mem.extend m (mem.more s)))"

definition moment_destroy :: "addr \<Rightarrow> 'd moment \<Rightarrow> ('d, 'z) evmem_scheme \<Rightarrow> ('d, 'z) evmem_scheme" where
  "moment_destroy a mo s =
     snd (on_mem (\<lambda>m. ((), ls_pool_destroy (mo_pool mo) m)) (s\<lparr>moment_at := (moment_at s)(a := None)\<rparr>))"

text \<open>Trigger data: its own address, the moment's and their pool.\<close>

record trigger_data =
  td_self :: byte_ptr
  td_moment :: addr
  td_pool :: "mem pool"

definition prepare_trigger ::
  "('d, 'z) evmem_scheme \<Rightarrow> (errcode + trigger_data) \<times> ('d, 'z) evmem_scheme" where
  "prepare_trigger s =
     on_mem (\<lambda>m.
       case ls_pool_create MOMENT_POOLSIZE m of
         (Inl e, m1) \<Rightarrow> (Inl e, m1)
       | (Inr pool, m1) \<Rightarrow>
           (case ls_pool_calloc pool 1 sizeof_moment m1 of
              (Inr (Some (mo, off)), p2, m2) \<Rightarrow>
                (case ls_pool_malloc p2 sizeof_trigger m2 of
                   (Inr (Some td), p3, m3) \<Rightarrow>
                     (Inr \<lparr>td_self = td, td_moment = mo, td_pool = p3\<rparr>, m3)
                 | (Inr None, p3, m3) \<Rightarrow> (Inl LS_ERR_NONE, fault m3)
                 | (Inl e, p3, m3) \<Rightarrow> (Inl e, ls_pool_destroy p3 m3))
            | (Inr None, p2, m2) \<Rightarrow> (Inl LS_ERR_NONE, fault m2)
            | (Inl e, p2, m2) \<Rightarrow> (Inl e, ls_pool_destroy p2 m2))) s"

text \<open>\<open>_trigger_prepared\<close> up to the call that enqueues: filling in the moment.\<close>

definition setup_moment ::
  "'s dispatcher \<Rightarrow> addr \<Rightarrow> 'd \<Rightarrow> nat option \<Rightarrow> nat \<Rightarrow> trigger_data \<Rightarrow>
   ('d, 'z) evmem_scheme \<Rightarrow> ('d, 'z) evmem_scheme option" where
  "setup_moment d e data result_cb result_arg td s =
     (case event_at s e of
        None \<Rightarrow> None
      | Some ev \<Rightarrow>
          (let evt = \<lparr>ed_source = di_source d, ed_name = ev_name ev, ed_notifier = e, ed_data = data,
                      ed_selected = None, ed_handled = False\<rparr>;
               mo = \<lparr>mo_evt = evt, mo_pool = td_pool td, mo_result_cb = result_cb,
                     mo_result_arg = result_arg, mo_bindings = ev_bindings ev, mo_next = None\<rparr> in
           Some (s\<lparr>moment_at := (moment_at s)(td_moment td \<mapsto> mo)\<rparr>)))"

text \<open>The queue at the beginning of \<open>_dispatch_trigger\<close>.\<close>

definition enqueue_moment ::
  "addr \<Rightarrow> 's dispatcher \<Rightarrow> ('d, 'z) evmem_scheme \<Rightarrow> ('s dispatcher \<times> ('d, 'z) evmem_scheme) option" where
  "enqueue_moment mo d s =
     (case (case di_tail d of
              None \<Rightarrow> Some s
            | Some t \<Rightarrow>
                (case moment_at s t of
                   None \<Rightarrow> None
                 | Some x \<Rightarrow> Some (s\<lparr>moment_at := (moment_at s)(t \<mapsto> x\<lparr>mo_next := Some mo\<rparr>)\<rparr>))) of
        None \<Rightarrow> None
      | Some s1 \<Rightarrow>
          Some (d\<lparr>di_next := (if di_next d = None then Some mo else di_next d), di_tail := Some mo\<rparr>, s1))"


section \<open>Dispatchers\<close>

partial_function (option) destroy_moments ::
  "addr option \<Rightarrow> ('d, 'z) evmem_scheme \<Rightarrow> ('d, 'z) evmem_scheme option" where
  "destroy_moments p s =
     (case p of
        None \<Rightarrow> Some s
      | Some a \<Rightarrow>
          (case moment_at s a of
             None \<Rightarrow> None
           | Some mo \<Rightarrow> destroy_moments (mo_next mo) (moment_destroy a mo s)))"

definition ls_event_dispatcher_destroy ::
  "('d, 'z) evmem_scheme dispatcher \<Rightarrow> ('d, 'z) evmem_scheme \<Rightarrow>
   (('d, 'z) evmem_scheme dispatcher \<times> ('d, 'z) evmem_scheme) option" where
  "ls_event_dispatcher_destroy d s =
     (case push_eventing_ndc (Some (di_self d)) ''ls_event_dispatcher_destroy'' s of
        (depth, s1) \<Rightarrow>
          if di_running d \<noteq> None then Some (d\<lparr>di_destroy_pending := True\<rparr>, pop_eventing_ndc depth s1)
          else
            map_option (\<lambda>s2. (d\<lparr>di_live := False\<rparr>,
                pop_eventing_ndc depth
                  (ls_data_free (Some (di_self d)) (ls_htable_destroy (di_events d) s2))))
              (destroy_moments (di_next d) s1))"

definition ls_event_dispatcher_create ::
  "nat \<Rightarrow> ('d, 'z) evmem_scheme \<Rightarrow> (errcode + ('d, 'z) evmem_scheme dispatcher) \<times> ('d, 'z) evmem_scheme" where
  "ls_event_dispatcher_create source s =
     (case ls_htable_create DISPATCH_BUCKETS (ls_strcase_hashcode snd) (ls_strcase_compare snd) s of
        (Inl e, s1) \<Rightarrow> (Inl e, s1)
      | (Inr events, s1) \<Rightarrow>
          (case ls_data_calloc 1 sizeof_dispatch s1 of
             (None, s2) \<Rightarrow> (Inl LS_ERR_NO_MEMORY, ls_htable_destroy events s2)
           | (Some self, s2) \<Rightarrow>
               (case push_eventing_ndc (Some self) ''ls_event_dispatcher_create'' s2 of
                  (depth, s3) \<Rightarrow>
                    if depth = 0 then
                      (Inl LS_ERR_NO_MEMORY, ls_data_free (Some self) (ls_htable_destroy events s3))
                    else
                      (Inr \<lparr>di_self = self, di_source = source, di_events = events,
                            di_running = None, di_tail = None, di_next = None,
                            di_destroy_pending = False, di_live = True\<rparr>,
                       pop_eventing_ndc depth s3))))"

definition ls_event_dispatcher_get_event ::
  "byte_ptr \<times> cstr \<Rightarrow> ('d, 'z) evmem_scheme dispatcher \<Rightarrow> ('d, 'z) evmem_scheme \<Rightarrow>
   addr option \<times> ('d, 'z) evmem_scheme" where
  "ls_event_dispatcher_get_event name d s =
     (case push_eventing_ndc (Some (di_self d)) ''ls_event_dispatcher_get_event'' s of
        (depth, s1) \<Rightarrow> (ls_htable_get (di_events d) name, pop_eventing_ndc depth s1))"

definition ls_event_dispatcher_create_event ::
  "byte_ptr \<times> cstr \<Rightarrow> ('d, 'z) evmem_scheme dispatcher \<Rightarrow> ('d, 'z) evmem_scheme \<Rightarrow>
   (errcode + addr) \<times> ('d, 'z) evmem_scheme dispatcher \<times> ('d, 'z) evmem_scheme" where
  "ls_event_dispatcher_create_event name d s =
     (case push_eventing_ndc (Some (di_self d)) ''ls_event_dispatcher_create_event'' s of
        (depth, s1) \<Rightarrow>
          if snd name = [] then (Inl LS_ERR_INVALID_ARG, d, pop_eventing_ndc depth s1)
          else if ls_htable_get (di_events d) name \<noteq> None then
            (Inl LS_ERR_INVALID_STATE, d, pop_eventing_ndc depth s1)
          else
            (let nameLen = length (snd name) in
             case ls_data_malloc (nameLen + 1) s1 of
               (None, s2) \<Rightarrow> (Inl LS_ERR_NO_MEMORY, d, pop_eventing_ndc depth s2)
             | (Some evt_name, s2) \<Rightarrow>
                 (let s3 = write_bytes (evt_name, 0) (snd name @ [0]) s2 in
                  case ls_data_calloc 1 sizeof_event s3 of
                    (None, s4) \<Rightarrow>
                      (Inl LS_ERR_NO_MEMORY, d, pop_eventing_ndc depth (ls_data_free (Some evt_name) s4))
                  | (Some notifier, s4) \<Rightarrow>
                      (let ev = \<lparr>ev_name_block = evt_name, ev_name = snd name,
                                 ev_source = di_source d, ev_bindings = None\<rparr>;
                           s5 = s4\<lparr>event_at := (event_at s4)(notifier \<mapsto> ev)\<rparr> in
                       case ls_htable_put (di_events d) ((evt_name, 0), snd name) (Some notifier)
                              (Some clean_event) s5 of
                         (Inl e, t, s6) \<Rightarrow>
                           (Inl e, d\<lparr>di_events := t\<rparr>,
                            pop_eventing_ndc depth
                              (ls_data_free (Some notifier)
                                (ls_data_free (Some evt_name)
                                  (s6\<lparr>event_at := (event_at s6)(notifier := None)\<rparr>))))
                       | (Inr u, t, s6) \<Rightarrow>
                           (Inr notifier, d\<lparr>di_events := t\<rparr>, pop_eventing_ndc depth s6)))))"

section \<open>Triggering from a callback\<close>

text \<open>While a callback runs the dispatcher is running, so a trigger only enqueues a moment.\<close>

definition trigger_while_running ::
  "addr \<Rightarrow> 'd \<Rightarrow> 's dispatcher \<Rightarrow> ('d, 'z) evmem_scheme \<Rightarrow> ('s dispatcher \<times> ('d, 'z) evmem_scheme) option" where
  "trigger_while_running e data d s =
     (if di_running d = None then None
      else
        (case push_eventing_ndc (Some (di_self d)) ''ls_event_trigger'' s of
           (depth, s1) \<Rightarrow>
             (case prepare_trigger s1 of
                (Inl err, s2) \<Rightarrow> Some (d, pop_eventing_ndc depth s2)
              | (Inr td, s2) \<Rightarrow>
                  Option.bind (setup_moment d e data None 0 td s2) (\<lambda>s3.
                    Option.bind (enqueue_moment (td_moment td) d s3) (\<lambda>(d1, s4).
                      Some (d1, pop_eventing_ndc depth s4))))))"

definition set_handled :: "addr \<Rightarrow> bool \<Rightarrow> ('d, 'z) evmem_scheme \<Rightarrow> ('d, 'z) evmem_scheme option" where
  "set_handled mo h s =
     map_option (\<lambda>x. s\<lparr>moment_at := (moment_at s)(mo \<mapsto> x\<lparr>mo_evt := (mo_evt x)\<lparr>ed_handled := h\<rparr>\<rparr>)\<rparr>)
       (moment_at s mo)"

fun run_action ::
  "addr \<Rightarrow> ('d, ('d, 'z) evmem_scheme) action \<Rightarrow> ('d, 'z) evmem_scheme dispatcher \<times> ('d, 'z) evmem_scheme \<Rightarrow>
   (('d, 'z) evmem_scheme dispatcher \<times> ('d, 'z) evmem_scheme) option" where
  "run_action mo (Bind e cb arg) (d, s) = map_option (\<lambda>(r, s1). (d, s1)) (ls_event_bind e cb arg d s)"
| "run_action mo (Unbind e cb) (d, s) = map_option (\<lambda>s1. (d, s1)) (ls_event_unbind e cb d s)"
| "run_action mo (Trigger e data) (d, s) = trigger_while_running e data d s"
| "run_action mo (Handled h) (d, s) = map_option (\<lambda>s1. (d, s1)) (set_handled mo h s)"
| "run_action mo Destroy (d, s) = ls_event_dispatcher_destroy d s"
| "run_action mo (Work f) (d, s) = Some (d, f s)"

fun run_actions ::
  "addr \<Rightarrow> ('d, ('d, 'z) evmem_scheme) action list \<Rightarrow> ('d, 'z) evmem_scheme dispatcher \<times> ('d, 'z) evmem_scheme \<Rightarrow>
   (('d, 'z) evmem_scheme dispatcher \<times> ('d, 'z) evmem_scheme) option" where
  "run_actions mo [] ds = Some ds"
| "run_actions mo (x # xs) ds = Option.bind (run_action mo x ds) (run_actions mo xs)"

section \<open>Running moments\<close>

text \<open>One iteration of the callback loop: the call, and what keeps callbacks from unhandling.\<close>

definition call_binding ::
  "('d, ('d, 'z) evmem_scheme) programs \<Rightarrow> addr \<Rightarrow> binding \<Rightarrow> ('d, 'z) evmem_scheme dispatcher \<times> ('d, 'z) evmem_scheme \<Rightarrow>
   (('d, 'z) evmem_scheme dispatcher \<times> ('d, 'z) evmem_scheme) option" where
  "call_binding prog mo b ds =
     (case ds of (d, s) \<Rightarrow>
        (case moment_at s mo of
           None \<Rightarrow> None
         | Some x \<Rightarrow>
             (let evt = mo_evt x; handled = ed_handled evt;
                  s1 = s\<lparr>calls := calls s @ [(bi_cb b, bi_arg b, evt)]\<rparr> in
              Option.bind (run_actions mo (pr_notify prog (bi_cb b) (bi_arg b) evt) (d, s1)) (\<lambda>(d2, s2).
                case moment_at s2 mo of
                  None \<Rightarrow> None
                | Some y \<Rightarrow>
                    map_option (\<lambda>s3. (d2, s3)) (set_handled mo (handled \<or> ed_handled (mo_evt y)) s2)))))"

partial_function (option) call_bindings ::
  "('d, ('d, 'z) evmem_scheme) programs \<Rightarrow> addr \<Rightarrow> addr option \<Rightarrow> ('d, 'z) evmem_scheme dispatcher \<times> ('d, 'z) evmem_scheme \<Rightarrow>
   (('d, 'z) evmem_scheme dispatcher \<times> ('d, 'z) evmem_scheme) option" where
  "call_bindings prog mo p ds =
     (case p of
        None \<Rightarrow> Some ds
      | Some a \<Rightarrow>
          (case binding_at (snd ds) a of
             None \<Rightarrow> None
           | Some b \<Rightarrow>
               Option.bind (if bi_normal_bound b then call_binding prog mo b ds else Some ds) (\<lambda>ds1.
                 case binding_at (snd ds1) a of
                   None \<Rightarrow> None
                 | Some b1 \<Rightarrow> call_bindings prog mo (bi_next b1) ds1)))"

definition report_result ::
  "('d, ('d, 'z) evmem_scheme) programs \<Rightarrow> addr \<Rightarrow> ('d, 'z) evmem_scheme dispatcher \<times> ('d, 'z) evmem_scheme \<Rightarrow>
   (('d, 'z) evmem_scheme dispatcher \<times> ('d, 'z) evmem_scheme) option" where
  "report_result prog mo ds =
     (case ds of (d, s) \<Rightarrow>
        (case moment_at s mo of
           None \<Rightarrow> None
         | Some x \<Rightarrow>
             (case mo_result_cb x of
                None \<Rightarrow> Some (d, s)
              | Some r \<Rightarrow>
                  run_actions mo (pr_result prog r (mo_result_arg x) (mo_evt x))
                    (d, s\<lparr>results := results s @ [(r, mo_result_arg x, mo_evt x)]\<rparr>))))"

definition handle_trigger_int ::
  "('d, ('d, 'z) evmem_scheme) programs \<Rightarrow> ('d, 'z) evmem_scheme dispatcher \<times> ('d, 'z) evmem_scheme \<Rightarrow>
   (('d, 'z) evmem_scheme dispatcher \<times> ('d, 'z) evmem_scheme) option" where
  "handle_trigger_int prog ds =
     (case ds of (d, s) \<Rightarrow>
        (case di_next d of
           None \<Rightarrow> None
         | Some mo \<Rightarrow>
             (case moment_at s mo of
                None \<Rightarrow> None
              | Some x \<Rightarrow>
                  (let e = ed_notifier (mo_evt x) in
                   if di_running d \<noteq> None then None
                   else
                     Option.bind (set_bind_status e s) (\<lambda>s1.
                     Option.bind (call_bindings prog mo (mo_bindings x) (d\<lparr>di_running := Some e\<rparr>, s1)) (\<lambda>ds2.
                     Option.bind (report_result prog mo ds2) (\<lambda>(d3, s3).
                     Option.bind (process_pending_unbinds e s3) (\<lambda>s4.
                     Option.bind (moment_at s4 mo) (\<lambda>y.
                       let d4 = d3\<lparr>di_next := mo_next y\<rparr>;
                           s5 = moment_destroy mo y s4 in
                       Some (d4\<lparr>di_tail := (if di_next d4 = None then None else di_tail d4),
                                di_running := None\<rparr>, s5)))))))))) "

partial_function (option) dispatch_loop ::
  "('d, ('d, 'z) evmem_scheme) programs \<Rightarrow> ('d, 'z) evmem_scheme dispatcher \<times> ('d, 'z) evmem_scheme \<Rightarrow>
   (('d, 'z) evmem_scheme dispatcher \<times> ('d, 'z) evmem_scheme) option" where
  "dispatch_loop prog ds =
     (if di_next (fst ds) \<noteq> None \<and> \<not> di_destroy_pending (fst ds)
      then Option.bind (handle_trigger_int prog ds) (dispatch_loop prog)
      else Some ds)"

definition dispatch_trigger ::
  "('d, ('d, 'z) evmem_scheme) programs \<Rightarrow> addr \<Rightarrow> ('d, 'z) evmem_scheme dispatcher \<Rightarrow> ('d, 'z) evmem_scheme \<Rightarrow>
   (('d, 'z) evmem_scheme dispatcher \<times> ('d, 'z) evmem_scheme) option" where
  "dispatch_trigger prog mo d s =
     Option.bind (enqueue_moment mo d s) (\<lambda>(d1, s1).
       if di_running d1 \<noteq> None then Some (d1, s1)
       else
         Option.bind (dispatch_loop prog (d1, s1)) (\<lambda>(d2, s2).
           if di_destroy_pending d2 then ls_event_dispatcher_destroy d2 s2 else Some (d2, s2)))"

definition trigger_prepared ::
  "('d, ('d, 'z) evmem_scheme) programs \<Rightarrow> addr \<Rightarrow> 'd \<Rightarrow> nat option \<Rightarrow> nat \<Rightarrow> trigger_data \<Rightarrow>
   ('d, 'z) evmem_scheme dispatcher \<Rightarrow> ('d, 'z) evmem_scheme \<Rightarrow>
   (('d, 'z) evmem_scheme dispatcher \<times> ('d, 'z) evmem_scheme) option" where
  "trigger_prepared prog e data result_cb result_arg td d s =
     Option.bind (setup_moment d e data result_cb result_arg td s) (dispatch_trigger prog (td_moment td) d)"

definition ls_event_prepare_trigger ::
  "'s dispatcher \<Rightarrow> ('d, 'z) evmem_scheme \<Rightarrow> (errcode + trigger_data) \<times> ('d, 'z) evmem_scheme" where
  "ls_event_prepare_trigger d s =
     (case push_eventing_ndc (Some (di_self d)) ''ls_event_prepare_trigger'' s of
        (depth, s1) \<Rightarrow>
          (case prepare_trigger s1 of (r, s2) \<Rightarrow> (r, pop_eventing_ndc depth s2)))"

text \<open>The moment of trigger data that was never used has no event yet, so the context names no
  dispatcher.\<close>

definition ls_event_unprepare_trigger :: "trigger_data \<Rightarrow> ('d, 'z) evmem_scheme \<Rightarrow> ('d, 'z) evmem_scheme" where
  "ls_event_unprepare_trigger td s =
     (case push_eventing_ndc None ''ls_event_unprepare_trigger'' s of
        (depth, s1) \<Rightarrow>
          pop_eventing_ndc depth (snd (on_mem (\<lambda>m. ((), ls_pool_destroy (td_pool td) m)) s1)))"

definition ls_event_trigger_prepared ::
  "('d, ('d, 'z) evmem_scheme) programs \<Rightarrow> addr \<Rightarrow> 'd \<Rightarrow> nat option \<Rightarrow> nat \<Rightarrow> trigger_data \<Rightarrow>
   ('d, 'z) evmem_scheme dispatcher \<Rightarrow> ('d, 'z) evmem_scheme \<Rightarrow>
   (('d, 'z) evmem_scheme dispatcher \<times> ('d, 'z) evmem_scheme) option" where
  "ls_event_trigger_prepared prog e data result_cb result_arg td d s =
     (case push_eventing_ndc (Some (di_self d)) ''ls_event_trigger_prepared'' s of
        (depth, s1) \<Rightarrow>
          map_option (\<lambda>(d2, s2). (d2, pop_eventing_ndc depth s2))
            (trigger_prepared prog e data result_cb result_arg td d s1))"

definition ls_event_trigger ::
  "('d, ('d, 'z) evmem_scheme) programs \<Rightarrow> addr \<Rightarrow> 'd \<Rightarrow> nat option \<Rightarrow> nat \<Rightarrow>
   ('d, 'z) evmem_scheme dispatcher \<Rightarrow> ('d, 'z) evmem_scheme \<Rightarrow>
   ((errcode + unit) \<times> ('d, 'z) evmem_scheme dispatcher \<times> ('d, 'z) evmem_scheme) option" where
  "ls_event_trigger prog e data result_cb result_arg d s =
     (case push_eventing_ndc (Some (di_self d)) ''ls_event_trigger'' s of
        (depth, s1) \<Rightarrow>
          (case prepare_trigger s1 of
             (Inl err, s2) \<Rightarrow> Some (Inl err, d, pop_eventing_ndc depth s2)
           | (Inr td, s2) \<Rightarrow>
               map_option (\<lambda>(d3, s3). (Inr (), d3, pop_eventing_ndc depth s3))
                 (trigger_prepared prog e data result_cb result_arg td d s2)))"

end
