(* ===== verification/Ls_Eventing_Props.thy ===== *)
theory Ls_Eventing_Props
  imports Ls_Eventing "HOL-Library.AList"
begin

text \<open>
  The lists of bindings of the events: that they are association lists from callbacks to arguments,
  and that unbinding is deferred while the event is dispatched.
\<close>

section \<open>Chains\<close>

fun bpath :: "(addr \<Rightarrow> binding option) \<Rightarrow> addr option \<Rightarrow> addr list \<Rightarrow> bool" where
  "bpath B p [] \<longleftrightarrow> p = None"
| "bpath B p (a # as) \<longleftrightarrow> p = Some a \<and> (\<exists>b. B a = Some b \<and> bpath B (bi_next b) as)"

lemma chain_of_bpath: "bpath B p as \<Longrightarrow> chain_of B p = Some as"
proof (induction as arbitrary: p)
  case Nil
  then show ?case by (subst chain_of.simps) simp
next
  case (Cons a as)
  then show ?case by (subst chain_of.simps) auto
qed

lemma bpath_chain_of: "chain_of B p = Some as \<Longrightarrow> bpath B p as"
proof (induction as arbitrary: p)
  case Nil
  then show ?case
    by (subst (asm) chain_of.simps) (auto split: option.splits bind_splits)
next
  case (Cons a as)
  then show ?case
    by (subst (asm) chain_of.simps) (auto split: option.splits bind_splits)
qed

lemma chain_of_iff: "chain_of B p = Some as \<longleftrightarrow> bpath B p as"
  using chain_of_bpath bpath_chain_of by blast

lemma bpath_unique: "bpath B p as \<Longrightarrow> bpath B p bs \<Longrightarrow> as = bs"
  by (metis chain_of_iff option.inject)

lemma bpath_append:
  "bpath B p (as @ bs) \<Longrightarrow> \<exists>q. bpath B q bs \<and> (bs \<noteq> [] \<longrightarrow> q = Some (hd bs))"
  by (induction as arbitrary: p) (auto, metis bpath.simps list.exhaust list.sel(1))

text \<open>A list that ends does not come back to a node.\<close>

lemma bpath_distinct: "bpath B p as \<Longrightarrow> distinct as"
proof (induction as arbitrary: p)
  case (Cons a as)
  have "a \<notin> set as"
  proof
    assume "a \<in> set as"
    then obtain xs ys where as: "as = xs @ a # ys" by (meson split_list)
    have "bpath B p ((a # xs) @ a # ys)" using Cons.prems as by simp
    then have "bpath B (Some a) (a # ys)" using bpath_append by fastforce
    moreover have "bpath B (Some a) (a # as)" using Cons.prems by simp
    ultimately have "ys = as" using bpath_unique by blast
    then show False using as by simp
  qed
  then show ?case using Cons by auto
qed simp

lemma bpath_upd: "a \<notin> set as \<Longrightarrow> bpath (B(a := x)) p as = bpath B p as"
  by (induction as arbitrary: p) auto

lemma bpath_some: "bpath B p as \<Longrightarrow> a \<in> set as \<Longrightarrow> B a \<noteq> None"
  by (induction as arbitrary: p) auto

lemma bpath_prefix:
  "bpath B p (xs @ y # ys) \<Longrightarrow> \<exists>b. B y = Some b \<and> bpath B (bi_next b) ys"
  by (induction xs arbitrary: p) auto

text \<open>Redirecting the end of a prefix.\<close>

lemma bpath_splice:
  "bpath B p (xs @ l # zs) \<Longrightarrow> B' l = Some b' \<Longrightarrow> (\<And>x. x \<in> set xs \<Longrightarrow> B' x = B x) \<Longrightarrow>
   bpath B' (bi_next b') ys \<Longrightarrow> bpath B' p (xs @ l # ys)"
  by (induction xs arbitrary: p) auto

section \<open>The event list is an association list\<close>

definition entry :: "(addr \<Rightarrow> binding option) \<Rightarrow> addr \<Rightarrow> nat \<times> nat" where
  "entry B a = (bi_cb (the (B a)), bi_arg (the (B a)))"

definition bound :: "addr \<Rightarrow> ('d, 'z) evmem_scheme \<Rightarrow> (nat \<times> nat) list" where
  "bound e s = map (entry (binding_at s)) (the (bindings_of e s))"

text \<open>The lists of a set of events end, share no binding and name no callback twice.\<close>

definition lists_ok :: "addr set \<Rightarrow> ('d, 'z) evmem_scheme \<Rightarrow> bool" where
  "lists_ok E s \<longleftrightarrow>
     (\<forall>e \<in> E. \<exists>as. bindings_of e s = Some as \<and> (\<forall>a \<in> set as. a < next_addr s) \<and>
                distinct (map fst (bound e s))) \<and>
     (\<forall>e \<in> E. \<forall>e' \<in> E. e \<noteq> e' \<longrightarrow>
        set (the (bindings_of e s)) \<inter> set (the (bindings_of e' s)) = {})"

lemma bindings_of_iff:
  "bindings_of e s = Some as \<longleftrightarrow>
   (\<exists>ev. event_at s e = Some ev \<and> bpath (binding_at s) (ev_bindings ev) as)"
  by (simp add: bindings_of_def chain_of_iff split: option.split)

text \<open>What log contexts and allocations leave alone.\<close>

definition same_events :: "('d, 'z) evmem_scheme \<Rightarrow> ('d, 'z) evmem_scheme \<Rightarrow> bool" where
  "same_events s s' \<longleftrightarrow> binding_at s' = binding_at s \<and> event_at s' = event_at s \<and>
     moment_at s' = moment_at s \<and> calls s' = calls s \<and> results s' = results s \<and>
     next_addr s \<le> next_addr s' \<and> malloc_func s' = malloc_func s \<and> evmem.more s' = evmem.more s"

lemma same_events_refl [simp]: "same_events s s"
  by (simp add: same_events_def)

lemma same_events_trans: "same_events s s' \<Longrightarrow> same_events s' s'' \<Longrightarrow> same_events s s''"
  by (simp add: same_events_def)

lemma same_events_free: "same_events s (ls_data_free p s)"
  by (auto simp: same_events_def ls_data_free_def fault_def split: option.split)

lemma same_events_write: "same_events s (write_bytes p bs s)"
  by (auto simp: same_events_def write_bytes_def fault_def split: option.split prod.split)

lemma same_events_malloc: "ls_data_malloc n s = (r, s') \<Longrightarrow> same_events s s'"
  by (cases r) (auto simp: same_events_def dest: ls_data_malloc_Some ls_data_malloc_None)

lemma same_events_calloc: "ls_data_calloc k n s = (r, s') \<Longrightarrow> same_events s s'"
  by (cases r) (auto simp: same_events_def dest: ls_data_calloc_Some ls_data_calloc_None)

lemma same_events_log: "same_events s (ls_log l t s)"
  by (auto simp: same_events_def ls_log_def split: option.split)

lemma same_events_ndc [simp]:
  "same_events s (s'\<lparr>ndc_depth := x, ndc_stack := y\<rparr>) = same_events s s'"
  "same_events s (s'\<lparr>ndc_count := z, ndc_stack := y, ndc_depth := x\<rparr>) = same_events s s'"
  by (simp_all add: same_events_def)

lemma same_events_push: "push_eventing_ndc p f s = (d, s') \<Longrightarrow> same_events s s'"
  unfolding push_eventing_ndc_def ls_log_push_ndc_def
  by (auto simp: Let_def split: option.splits prod.splits
      intro!: same_events_log same_events_free same_events_write
      intro: same_events_trans dest!: same_events_calloc same_events_malloc)

lemma same_events_pop_loop: "same_events s (pop_loop ns d s)"
proof (induction ns arbitrary: s)
  case (Cons n ns)
  let ?s = "ls_data_free (Some (nd_self n)) (ls_data_free (Some (nd_message n))
            (s\<lparr>ndc_depth := ndc_depth s - 1, ndc_stack := ns\<rparr>))"
  have "same_events s (s\<lparr>ndc_depth := ndc_depth s - 1, ndc_stack := ns\<rparr>)" by simp
  then have "same_events s ?s" using same_events_free same_events_trans by blast
  then show ?case using Cons.IH[of ?s] same_events_trans by simp blast
qed simp

lemma same_events_pop: "same_events s (pop_eventing_ndc d s)"
  unfolding pop_eventing_ndc_def ls_log_pop_ndc_def Let_def
  using same_events_pop_loop same_events_log same_events_trans by (auto, blast+)

lemma same_bindings:
  assumes "same_events s s'"
  shows "bindings_of e s' = bindings_of e s" "bound e s' = bound e s"
proof -
  have "binding_at s' = binding_at s" "event_at s' = event_at s" using assms by (simp_all add: same_events_def)
  then show "bindings_of e s' = bindings_of e s" by (simp add: bindings_of_def split: option.split)
  then show "bound e s' = bound e s" using \<open>binding_at s' = binding_at s\<close> by (simp add: bound_def)
qed

text \<open>Other bindings keep their lists.\<close>

lemma bpath_cong: "(\<And>x. x \<in> set as \<Longrightarrow> B' x = B x) \<Longrightarrow> bpath B' p as = bpath B p as"
  by (induction as arbitrary: p) auto

text \<open>What an operation on the list of one event may change.\<close>

definition relink ::
  "addr \<Rightarrow> addr list \<Rightarrow> ('d, 'z) evmem_scheme \<Rightarrow> addr list \<Rightarrow> ('d, 'z) evmem_scheme \<Rightarrow> bool" where
  "relink e as s as' s' \<longleftrightarrow>
     bindings_of e s' = Some as' \<and> (\<forall>x. x \<notin> set as \<union> set as' \<longrightarrow> binding_at s' x = binding_at s x) \<and>
     (\<forall>e'. e' \<noteq> e \<longrightarrow> event_at s' e' = event_at s e') \<and> next_addr s' = next_addr s \<and>
     (\<forall>x. entry (binding_at s') x = entry (binding_at s) x \<and> (binding_at s' x = None) = (binding_at s x = None))"

lemma remove_none:
  "bindings_of e s = Some as \<Longrightarrow> \<forall>a \<in> set as. \<not> has_cb s cb a \<Longrightarrow>
   remove_binding e cb s = Some (None, if as = [] then None else Some (last as), s)"
  by (simp add: remove_binding_def takeWhile_eq_all_conv[THEN iffD2] dropWhile_eq_Nil_conv[THEN iffD2])

lemma remove_found:
  assumes "bindings_of e s = Some (xs @ f # ys)" "\<forall>a \<in> set xs. \<not> has_cb s cb a" "has_cb s cb f"
  shows "\<exists>s' b. remove_binding e cb s = Some (Some f, if xs = [] then None else Some (last xs), s') \<and>
           relink e (xs @ f # ys) s (xs @ ys) s' \<and>
           binding_at s f = Some b \<and> binding_at s' f = Some (b\<lparr>bi_next := None\<rparr>)"
proof -
  obtain ev where ev: "event_at s e = Some ev" and p: "bpath (binding_at s) (ev_bindings ev) (xs @ f # ys)"
    using assms(1) bindings_of_iff by blast
  have dist: "distinct (xs @ f # ys)" using bpath_distinct[OF p] .
  obtain b where b: "binding_at s f = Some b" and ysp: "bpath (binding_at s) (bi_next b) ys"
    using bpath_prefix[OF p] by blast
  have tw: "takeWhile (\<lambda>a. \<not> has_cb s cb a) (xs @ f # ys) = xs"
    and dw: "dropWhile (\<lambda>a. \<not> has_cb s cb a) (xs @ f # ys) = f # ys"
    using assms(2,3) by (simp_all add: takeWhile_append2 dropWhile_append2)
  show ?thesis
  proof (cases xs rule: rev_cases)
    case Nil
    let ?s = "s\<lparr>event_at := (event_at s)(e \<mapsto> ev\<lparr>ev_bindings := bi_next b\<rparr>),
               binding_at := (binding_at s)(f \<mapsto> b\<lparr>bi_next := None\<rparr>)\<rparr>"
    have r: "remove_binding e cb s = Some (Some f, None, ?s)"
      using assms(1) tw dw Nil ev b
      by (simp add: remove_binding_def upd_event_def upd_binding_def)
    have "bindings_of e ?s = Some ys"
      using ysp dist by (simp add: bindings_of_iff bpath_upd)
    then show ?thesis using r Nil b by (auto simp: relink_def entry_def)
  next
    case (snoc zs p')
    have "bpath (binding_at s) (ev_bindings ev) (zs @ p' # f # ys)" using p snoc by simp
    then obtain pb where pb: "binding_at s p' = Some pb" and nx: "bpath (binding_at s) (bi_next pb) (f # ys)"
      using bpath_prefix by blast
    have ne: "p' \<noteq> f" "p' \<notin> set ys" "f \<notin> set ys" "p' \<notin> set zs" "f \<notin> set zs" using dist snoc by auto
    let ?B = "(binding_at s)(p' \<mapsto> pb\<lparr>bi_next := bi_next b\<rparr>, f \<mapsto> b\<lparr>bi_next := None\<rparr>)"
    let ?s = "s\<lparr>binding_at := ?B\<rparr>"
    have r: "remove_binding e cb s = Some (Some f, Some p', ?s)"
      using assms(1) tw dw snoc pb b ne by (simp add: remove_binding_def upd_binding_def)
    have "bpath (binding_at s) (ev_bindings ev) (zs @ [p'] @ f # ys)" using p snoc by simp
    have "bpath ?B (ev_bindings ev) (zs @ p' # ys)"
      by (rule bpath_splice[where B = "binding_at s" and zs = "f # ys" and b' = "pb\<lparr>bi_next := bi_next b\<rparr>"])
        (use p snoc ne ysp in \<open>auto simp: bpath_upd\<close>)
    then have "bindings_of e ?s = Some (zs @ p' # ys)" using ev by (simp add: bindings_of_iff)
    then show ?thesis using r snoc b pb ne by (auto simp: relink_def entry_def)
  qed
qed


lemma insert_binding_at:
  assumes "bindings_of e s = Some (xs @ ys)" "binding_at s a = Some b" "bi_next b = None"
    "a \<notin> set (xs @ ys)"
  shows "\<exists>s'. insert_binding e a (if xs = [] then None else Some (last xs)) s = Some s' \<and>
           relink e (xs @ ys) s (xs @ a # ys) s'"
proof -
  obtain ev where ev: "event_at s e = Some ev" and p: "bpath (binding_at s) (ev_bindings ev) (xs @ ys)"
    using assms(1) bindings_of_iff by blast
  have dist: "distinct (xs @ ys)" using bpath_distinct[OF p] .
  show ?thesis
  proof (cases xs rule: rev_cases)
    case Nil
    let ?s = "s\<lparr>event_at := (event_at s)(e \<mapsto> ev\<lparr>ev_bindings := Some a\<rparr>),
               binding_at := (binding_at s)(a \<mapsto> b\<lparr>bi_next := ev_bindings ev\<rparr>)\<rparr>"
    have "insert_binding e a None s = Some ?s"
    proof (cases "ev_bindings ev")
      case None
      then have "b\<lparr>bi_next := ev_bindings ev\<rparr> = b" using assms(3) by simp
      then show ?thesis using ev None assms(2)
        by (simp add: insert_binding_def upd_event_def upd_binding_def fun_upd_idem)
    next
      case (Some h)
      then show ?thesis using ev assms(2) by (simp add: insert_binding_def upd_event_def upd_binding_def)
    qed
    moreover have "bindings_of e ?s = Some (a # ys)"
      using p Nil assms(4) by (simp add: bindings_of_iff bpath_upd)
    ultimately show ?thesis using Nil assms(2) by (auto simp: relink_def entry_def)
  next
    case (snoc zs p')
    have "bpath (binding_at s) (ev_bindings ev) (zs @ p' # ys)" using p snoc by simp
    then obtain pb where pb: "binding_at s p' = Some pb" and nx: "bpath (binding_at s) (bi_next pb) ys"
      using bpath_prefix by blast
    have ne: "p' \<noteq> a" "p' \<notin> set ys" "a \<notin> set ys" "p' \<notin> set zs" "a \<notin> set zs" using dist snoc assms(4) by auto
    let ?B = "(binding_at s)(a \<mapsto> b\<lparr>bi_next := bi_next pb\<rparr>, p' \<mapsto> pb\<lparr>bi_next := Some a\<rparr>)"
    let ?s = "s\<lparr>binding_at := ?B\<rparr>"
    have "ev_bindings ev \<noteq> None" using p snoc by (cases zs) auto
    moreover have "b\<lparr>bi_next := None\<rparr> = b" using assms(3) by simp
    ultimately have r: "insert_binding e a (Some p') s = Some ?s"
      using ev pb ne assms(2) by (auto simp: insert_binding_def upd_binding_def fun_upd_idem fun_upd_twist)
    have "bpath ?B (ev_bindings ev) (zs @ p' # a # ys)"
      by (rule bpath_splice[where B = "binding_at s" and zs = ys and b' = "pb\<lparr>bi_next := Some a\<rparr>"])
        (use p snoc ne nx in \<open>auto simp: bpath_upd\<close>)
    then have "bindings_of e ?s = Some (zs @ p' # a # ys)" using ev by (simp add: bindings_of_iff)
    then show ?thesis using r snoc assms(2) pb ne by (auto simp: relink_def entry_def)
  qed
qed


lemma same_lists:
  assumes "same_events s s'" "lists_ok E s"
  shows "lists_ok E s'"
proof -
  have "next_addr s \<le> next_addr s'" using assms(1) by (simp add: same_events_def)
  then show ?thesis using assms(2) same_bindings[OF assms(1)]
    by (auto simp: lists_ok_def) (meson order_less_le_trans)
qed

lemma pop_lists [simp]:
  "lists_ok E s \<Longrightarrow> lists_ok E (pop_eventing_ndc d s)" "bound e (pop_eventing_ndc d s) = bound e s"
  using same_lists[OF same_events_pop] same_bindings[OF same_events_pop] by blast+

lemma lists_okD:
  "lists_ok E s \<Longrightarrow> e \<in> E \<Longrightarrow>
   \<exists>as. bindings_of e s = Some as \<and> (\<forall>a \<in> set as. a < next_addr s) \<and> distinct (map fst (bound e s))"
  by (simp add: lists_ok_def)

lemma lists_change:
  assumes ok: "lists_ok E s" and e: "e \<in> E" and as: "bindings_of e s = Some as"
    and as': "bindings_of e s' = Some as'" and sub: "set as' \<subseteq> set as \<union> N"
    and N: "\<forall>x \<in> N. next_addr s \<le> x" and lt: "\<forall>a \<in> set as'. a < next_addr s'"
    and nx: "next_addr s \<le> next_addr s'" and dist: "distinct (map fst (bound e s'))"
    and B: "\<And>x. x \<notin> set as \<union> N \<Longrightarrow> binding_at s' x = binding_at s x"
    and ev: "\<And>e'. e' \<noteq> e \<Longrightarrow> event_at s' e' = event_at s e'"
  shows "lists_ok E s' \<and> (\<forall>e' \<in> E. e' \<noteq> e \<longrightarrow> bound e' s' = bound e' s)"
proof -
  have other: "bindings_of e' s' = bindings_of e' s \<and> bound e' s' = bound e' s \<and>
      set (the (bindings_of e' s)) \<inter> (set as \<union> N) = {}"
    if e': "e' \<in> E" "e' \<noteq> e" for e'
  proof -
    obtain bs where bs: "bindings_of e' s = Some bs" and b: "\<forall>a \<in> set bs. a < next_addr s"
      using lists_okD[OF ok e'(1)] by blast
    have "set bs \<inter> set as = {}" using ok e e' as bs unfolding lists_ok_def by fastforce
    moreover have "set bs \<inter> N = {}" using b N by fastforce
    ultimately have dis: "set bs \<inter> (set as \<union> N) = {}" by blast
    then have same: "binding_at s' x = binding_at s x" if "x \<in> set bs" for x using B that by blast
    then have "bpath (binding_at s') q bs = bpath (binding_at s) q bs" for q
      using bpath_cong by blast
    then have "bindings_of e' s' = Some bs" using bs ev[OF e'(2)] by (auto simp: bindings_of_iff)
    moreover have "bound e' s' = bound e' s"
      using same bs \<open>bindings_of e' s' = Some bs\<close> by (auto simp: bound_def entry_def)
    ultimately show ?thesis using bs dis by simp
  qed
  have nx': "a < next_addr s'" if "a < next_addr s" for a using nx that by simp
  have "lists_ok E s'"
    unfolding lists_ok_def
  proof (intro conjI ballI impI)
    fix x assume "x \<in> E"
    then show "\<exists>as. bindings_of x s' = Some as \<and> (\<forall>a\<in>set as. a < next_addr s') \<and> distinct (map fst (bound x s'))"
      using as' lt dist other[of x] lists_okD[OF ok, of x] nx' by (cases "x = e") auto
  next
    fix x y assume xy: "x \<in> E" "y \<in> E" "x \<noteq> y"
    have "set (the (bindings_of x s)) \<inter> set (the (bindings_of y s)) = {}"
      using ok xy by (simp add: lists_ok_def)
    then show "set (the (bindings_of x s')) \<inter> set (the (bindings_of y s')) = {}"
      using other[of x] other[of y] xy as' sub by (cases "x = e"; cases "y = e") auto
  qed
  then show ?thesis using other by blast
qed


lemma fst_entry: "binding_at s a \<noteq> None \<Longrightarrow> has_cb s c a \<longleftrightarrow> fst (entry (binding_at s) a) = c"
  by (auto simp: has_cb_def entry_def)

lemma find_split:
  assumes "bindings_of e s = Some as"
  obtains (absent) "\<forall>a \<in> set as. \<not> has_cb s c a" "c \<notin> fst ` set (bound e s)"
  | (found) xs f ys where "as = xs @ f # ys" "\<forall>a \<in> set xs. \<not> has_cb s c a" "has_cb s c f"
      "c \<notin> fst ` entry (binding_at s) ` set xs" "fst (entry (binding_at s) f) = c"
proof -
  have ne: "\<And>a. a \<in> set as \<Longrightarrow> binding_at s a \<noteq> None"
    using assms bpath_some by (auto simp: bindings_of_iff)
  show ?thesis
  proof (cases "\<exists>a \<in> set as. has_cb s c a")
    case False
    then have "c \<notin> fst ` set (bound e s)" using fst_entry[OF ne] assms by (auto simp: bound_def)
    then show ?thesis using False absent by blast
  next
    case True
    then obtain xs f ys where xf: "as = xs @ f # ys" "has_cb s c f" "\<forall>a \<in> set xs. \<not> has_cb s c a"
      using split_list_first_prop_iff[of as "has_cb s c"] by blast
    then show ?thesis using found[of xs f ys] fst_entry ne by fastforce
  qed
qed

lemma update_append: "c \<notin> fst ` set xs \<Longrightarrow> AList.update c v (xs @ (c, w) # ys) = xs @ (c, v) # ys"
  by (induction xs) auto

lemma update_absent: "c \<notin> fst ` set xs \<Longrightarrow> AList.update c v xs = xs @ [(c, v)]"
  by (induction xs) auto

lemma delete_append:
  "c \<notin> fst ` set xs \<Longrightarrow> c \<notin> fst ` set ys \<Longrightarrow> AList.delete c (xs @ (c, w) # ys) = xs @ ys"
  by (induction xs) (auto simp: AList.delete_id)

section \<open>Binding and unbinding\<close>

lemma bind_absent:
  assumes ok: "lists_ok E s" and e: "e \<in> E" and as: "bindings_of e s = Some as"
    and no: "\<forall>a \<in> set as. \<not> has_cb s cb a" "cb \<notin> fst ` set (bound e s)"
    and s3: "ls_data_calloc 1 sizeof_binding s = (Some a, s3)"
    and s4: "s4 = s3\<lparr>binding_at := (binding_at s3)(a \<mapsto> \<lparr>bi_cb = cb, bi_arg = arg, bi_next = None,
               bi_unbound = False, bi_normal_bound = False\<rparr>)\<rparr>"
  shows "\<exists>s'. insert_binding e a (if as = [] then None else Some (last as)) s4 = Some s' \<and> lists_ok E s' \<and>
           (\<forall>e' \<in> E. bound e' s' = (if e' = e then AList.update cb arg (bound e' s) else bound e' s))"
proof -
  have lt: "\<forall>a \<in> set as. a < next_addr s" and dist: "distinct (map fst (bound e s))"
    using lists_okD[OF ok e] as by auto
  have a: "a = next_addr s" "binding_at s3 = binding_at s" "event_at s3 = event_at s" "next_addr s3 = Suc a"
    using ls_data_calloc_Some[OF s3] by simp_all
  have anew: "a \<notin> set as" using a lt by fastforce
  have "bindings_of e s4 = Some (as @ [])"
    using as anew by (simp add: s4 bindings_of_iff bpath_upd a)
  from insert_binding_at[OF this, of a] obtain s' where
    r: "insert_binding e a (if as = [] then None else Some (last as)) s4 = Some s'"
    and rel: "relink e as s4 (as @ [a]) s'" using anew by (auto simp: s4)
  have bd: "bound e s' = AList.update cb arg (bound e s)"
  proof -
    have "bound e s' = map (entry (binding_at s4)) (as @ [a])" using rel by (simp add: relink_def bound_def)
    also have "\<dots> = bound e s @ [(cb, arg)]" using anew as by (auto simp: s4 entry_def bound_def a)
    finally show ?thesis using update_absent[OF no(2)] by simp
  qed
  have "lists_ok E s' \<and> (\<forall>e' \<in> E. e' \<noteq> e \<longrightarrow> bound e' s' = bound e' s)"
    by (rule lists_change[OF ok e as, where N = "{a}" and as' = "as @ [a]"])
      (use rel lt a bd dist distinct_update[of "bound e s" cb arg] in \<open>auto simp: relink_def s4\<close>)
  then show ?thesis using r bd by auto
qed

lemma bind_found:
  assumes ok: "lists_ok E s" and e: "e \<in> E" and as: "bindings_of e s = Some (xs @ f # ys)"
    and no: "\<forall>a \<in> set xs. \<not> has_cb s cb a" "has_cb s cb f"
      "cb \<notin> fst ` entry (binding_at s) ` set xs" "fst (entry (binding_at s) f) = cb"
  shows "\<exists>prev s2 s'. remove_binding e cb s = Some (Some f, prev, s2) \<and>
           insert_binding e f prev (upd_binding f (\<lambda>b. \<lparr>bi_cb = cb, bi_arg = arg, bi_next = None,
             bi_unbound = False, bi_normal_bound = bi_normal_bound b\<rparr>) s2) = Some s' \<and> lists_ok E s' \<and>
           (\<forall>e' \<in> E. bound e' s' = (if e' = e then AList.update cb arg (bound e' s) else bound e' s))"
proof -
  have lt: "\<forall>a \<in> set (xs @ f # ys). a < next_addr s" and dist: "distinct (map fst (bound e s))"
    using lists_okD[OF ok e] as by auto
  have df: "f \<notin> set xs" "f \<notin> set ys" using as bpath_distinct[of "binding_at s" _ "xs @ f # ys"] by (auto simp: bindings_of_iff)
  let ?prev = "if xs = [] then None else Some (last xs)"
  obtain s2 b where rm: "remove_binding e cb s = Some (Some f, ?prev, s2)"
    and rel: "relink e (xs @ f # ys) s (xs @ ys) s2" and b2: "binding_at s2 f = Some (b\<lparr>bi_next := None\<rparr>)"
    using remove_found[OF as no(1,2)] by blast
  let ?b = "\<lparr>bi_cb = cb, bi_arg = arg, bi_next = None, bi_unbound = False, bi_normal_bound = bi_normal_bound b\<rparr>"
  let ?s3 = "s2\<lparr>binding_at := (binding_at s2)(f \<mapsto> ?b)\<rparr>"
  have s3: "upd_binding f (\<lambda>b. \<lparr>bi_cb = cb, bi_arg = arg, bi_next = None,
             bi_unbound = False, bi_normal_bound = bi_normal_bound b\<rparr>) s2 = ?s3"
    using b2 by (simp add: upd_binding_def)
  have "bindings_of e ?s3 = Some (xs @ ys)"
    using rel df by (simp add: relink_def bindings_of_iff bpath_upd)
  from insert_binding_at[OF this, of f ?b] obtain s' where
    r: "insert_binding e f ?prev ?s3 = Some s'" and rel': "relink e (xs @ ys) ?s3 (xs @ f # ys) s'"
    using df by auto
  have bd: "bound e s' = AList.update cb arg (bound e s)"
  proof -
    have "bound e s' = map (entry (binding_at ?s3)) (xs @ f # ys)" using rel' by (simp add: relink_def bound_def)
    also have "\<dots> = map (entry (binding_at s)) xs @ (cb, arg) # map (entry (binding_at s)) ys"
      using rel df by (auto simp: relink_def entry_def)
    also have "\<dots> = AList.update cb arg (bound e s)"
      using as no(3,4) update_append[of cb "map (entry (binding_at s)) xs" arg "snd (entry (binding_at s) f)"]
      by (simp add: bound_def) (metis prod.collapse)
    finally show ?thesis .
  qed
  have "lists_ok E s' \<and> (\<forall>e' \<in> E. e' \<noteq> e \<longrightarrow> bound e' s' = bound e' s)"
    by (rule lists_change[OF ok e as, where N = "{}" and as' = "xs @ f # ys"])
      (use rel rel' lt bd dist distinct_update[of "bound e s" cb arg] in \<open>auto simp: relink_def\<close>)
  then show ?thesis using rm r s3 bd by auto
qed


lemma unbind_found:
  assumes ok: "lists_ok E s" and e: "e \<in> E" and as: "bindings_of e s = Some (xs @ f # ys)"
    and no: "\<forall>a \<in> set xs. \<not> has_cb s cb a" "has_cb s cb f"
      "cb \<notin> fst ` entry (binding_at s) ` set xs" "fst (entry (binding_at s) f) = cb"
  shows "\<exists>prev s2. remove_binding e cb s = Some (Some f, prev, s2) \<and> lists_ok E (free_binding f s2) \<and>
           (\<forall>e' \<in> E. bound e' (free_binding f s2) =
                     (if e' = e then AList.delete cb (bound e' s) else bound e' s))"
proof -
  have lt: "\<forall>a \<in> set (xs @ f # ys). a < next_addr s" and dist: "distinct (map fst (bound e s))"
    using lists_okD[OF ok e] as by auto
  have df: "f \<notin> set xs" "f \<notin> set ys"
    using as bpath_distinct[of "binding_at s" _ "xs @ f # ys"] by (auto simp: bindings_of_iff)
  obtain prev s2 b where rm: "remove_binding e cb s = Some (Some f, prev, s2)"
    and rel: "relink e (xs @ f # ys) s (xs @ ys) s2" and b2: "binding_at s2 f = Some (b\<lparr>bi_next := None\<rparr>)"
    using remove_found[OF as no(1,2)] by blast
  let ?s3 = "s2\<lparr>binding_at := (binding_at s2)(f := None)\<rparr>"
  have "bindings_of e ?s3 = Some (xs @ ys)"
    using rel df by (simp add: relink_def bindings_of_iff bpath_upd)
  moreover have same: "same_events ?s3 (free_binding f s2)" by (simp add: free_binding_def same_events_free)
  ultimately have bs: "bindings_of e (free_binding f s2) = Some (xs @ ys)" using same_bindings by metis
  have fs: "binding_at (free_binding f s2) = (binding_at s2)(f := None)"
    "event_at (free_binding f s2) = event_at s2" "next_addr s2 \<le> next_addr (free_binding f s2)"
    using same by (simp_all add: same_events_def)
  then have nx: "a < next_addr (free_binding f s2)" if "a < next_addr s" for a
    using that rel fs(3) by (simp add: relink_def)
  have nlt: "\<forall>a \<in> set (xs @ ys). a < next_addr (free_binding f s2)" using nx lt by simp
  have bd: "bound e (free_binding f s2) = AList.delete cb (bound e s)"
  proof -
    have "cb \<notin> fst ` entry (binding_at s) ` set ys"
      using dist as no(4) by (auto simp: bound_def)
    then have "AList.delete cb (bound e s) = map (entry (binding_at s)) (xs @ ys)"
      using delete_append[of cb "map (entry (binding_at s)) xs" "map (entry (binding_at s)) ys"
          "snd (entry (binding_at s) f)"] as no(3,4) by (simp add: bound_def) (metis prod.collapse)
    also have "\<dots> = bound e (free_binding f s2)"
      using bs rel df by (auto simp: bound_def relink_def fs entry_def)
    finally show ?thesis by simp
  qed
  have "lists_ok E (free_binding f s2) \<and> (\<forall>e' \<in> E. e' \<noteq> e \<longrightarrow> bound e' (free_binding f s2) = bound e' s)"
    by (rule lists_change[OF ok e as bs, where N = "{}", OF _ _ nlt])
      (use rel bd dist fs distinct_delete[of "bound e s" cb] in \<open>auto simp: relink_def\<close>)
  then show ?thesis using rm bd by auto
qed

text \<open>The bindings as association lists.\<close>

lemma bind_unbind_alists:
  assumes "lists_ok E s" "e \<in> E"
  shows "(\<exists>r s'. ls_event_bind e cb arg d s = Some (r, s') \<and> lists_ok E s' \<and>
             (r = Inr () \<or> r = Inl LS_ERR_NO_MEMORY \<and> cb \<notin> fst ` set (bound e s)) \<and>
             (\<forall>e' \<in> E. bound e' s' = (if e' = e \<and> r = Inr () then AList.update cb arg (bound e' s)
                                   else bound e' s))) \<and>
         (di_running d \<noteq> Some e \<longrightarrow>
            (\<exists>s'. ls_event_unbind e cb d s = Some s' \<and> lists_ok E s' \<and>
               (\<forall>e' \<in> E. bound e' s' = (if e' = e then AList.delete cb (bound e' s) else bound e' s))))"
proof (intro conjI impI)
  obtain dp s1 where push: "push_eventing_ndc (Some (di_self d)) ''ls_event_bind'' s = (dp, s1)" by fastforce
  note same = same_events_push[OF push]
  have ok: "lists_ok E s1" and b1: "\<And>e'. bound e' s1 = bound e' s"
    using same_lists[OF same assms(1)] same_bindings[OF same] by auto
  obtain as where as: "bindings_of e s1 = Some as" using lists_okD[OF ok assms(2)] by blast
  show "\<exists>r s'. ls_event_bind e cb arg d s = Some (r, s') \<and> lists_ok E s' \<and>
             (r = Inr () \<or> r = Inl LS_ERR_NO_MEMORY \<and> cb \<notin> fst ` set (bound e s)) \<and>
             (\<forall>e' \<in> E. bound e' s' = (if e' = e \<and> r = Inr () then AList.update cb arg (bound e' s)
                                   else bound e' s))"
    using as
  proof (cases rule: find_split[where c = cb])
    case absent
    obtain m s3 where c: "ls_data_calloc 1 sizeof_binding s1 = (m, s3)" by fastforce
    show ?thesis
    proof (cases m)
      case None
      have "same_events s1 s3" using same_events_calloc[OF c] .
      then have "lists_ok E s3" "\<And>e'. bound e' s3 = bound e' s" using ok same_lists same_bindings b1 by metis+
      then show ?thesis using absent(2) remove_none[OF as absent(1)] c None push None b1
        by (simp add: ls_event_bind_def)
    next
      case (Some a)
      show ?thesis
        using bind_absent[OF ok assms(2) as absent c[unfolded Some] refl, of arg] remove_none[OF as absent(1)]
          c Some push b1
        by (auto simp: ls_event_bind_def)
    qed
  next
    case (found xs f ys)
    show ?thesis
      using bind_found[OF ok assms(2) as[unfolded found(1)] found(2-5), of arg] push b1
      by (auto simp: ls_event_bind_def)
  qed
next
  assume run: "di_running d \<noteq> Some e"
  obtain dp s1 where push: "push_eventing_ndc (Some (di_self d)) ''ls_event_unbind'' s = (dp, s1)" by fastforce
  note same = same_events_push[OF push]
  have ok: "lists_ok E s1" and b1: "\<And>e'. bound e' s1 = bound e' s"
    using same_lists[OF same assms(1)] same_bindings[OF same] by auto
  obtain as where as: "bindings_of e s1 = Some as" using lists_okD[OF ok assms(2)] by blast
  show "\<exists>s'. ls_event_unbind e cb d s = Some s' \<and> lists_ok E s' \<and>
          (\<forall>e' \<in> E. bound e' s' = (if e' = e then AList.delete cb (bound e' s) else bound e' s))"
    using as
  proof (cases rule: find_split[where c = cb])
    case absent
    show ?thesis
      using remove_none[OF as absent(1)] absent(2) run push b1 ok
      by (simp add: ls_event_unbind_def AList.delete_id)
  next
    case (found xs f ys)
    show ?thesis
      using unbind_found[OF ok assms(2) as[unfolded found(1)] found(2-5)] push b1 run
      by (auto simp: ls_event_unbind_def)
  qed
qed

text \<open>C6: binding and unbinding, on the linked lists of a set of events, are the updates of
  association lists from callbacks to arguments, in the order of binding: to bind a new callback appends it
  or fails for lack of memory and changes no list; to unbind removes the callback, also when it was
  not bound.  To bind a callback that is bound already cannot fail and keeps its place, but replaces its
  argument: this is what the code does, while the header \<open>ls_eventing.h\<close> says that registering the same function
  again has no effect.  The lists of the other events are not touched.  (An event that is being
  dispatched defers its unbinding, so it is excluded there.)\<close>

theorem ls_event_bindings_are_alists:
  assumes "lists_ok E s" "e \<in> E"
  shows "(\<exists>r s'. ls_event_bind e cb arg d s = Some (r, s') \<and> lists_ok E s' \<and>
             (r = Inr () \<or> r = Inl LS_ERR_NO_MEMORY \<and> cb \<notin> fst ` set (bound e s)) \<and>
             (\<forall>e' \<in> E. bound e' s' = (if e' = e \<and> r = Inr () then AList.update cb arg (bound e' s)
                                   else bound e' s)) \<and>
             (cb \<in> fst ` set (bound e s) \<longrightarrow> r = Inr () \<and> map fst (bound e s') = map fst (bound e s) \<and>
                map_of (bound e s') = (map_of (bound e s))(cb \<mapsto> arg))) \<and>
         (di_running d \<noteq> Some e \<longrightarrow>
            (\<exists>s'. ls_event_unbind e cb d s = Some s' \<and> lists_ok E s' \<and>
               (\<forall>e' \<in> E. bound e' s' = (if e' = e then AList.delete cb (bound e' s) else bound e' s))))"
proof -
  note b = bind_unbind_alists[OF assms, of cb arg d]
  then obtain r s' where r: "ls_event_bind e cb arg d s = Some (r, s')" "lists_ok E s'"
    "r = Inr () \<or> r = Inl LS_ERR_NO_MEMORY \<and> cb \<notin> fst ` set (bound e s)"
    "\<forall>e' \<in> E. bound e' s' = (if e' = e \<and> r = Inr () then AList.update cb arg (bound e' s) else bound e' s)"
    by blast
  have "r = Inr () \<and> map fst (bound e s') = map fst (bound e s) \<and> map_of (bound e s') = (map_of (bound e s))(cb \<mapsto> arg)"
    if "cb \<in> fst ` set (bound e s)"
    using r(3,4) that assms(2) by (simp add: update_keys update_conv')
  with r b show ?thesis by blast
qed

section \<open>Unbinding while the event runs\<close>

definition marked :: "('d, 'z) evmem_scheme \<Rightarrow> addr \<Rightarrow> bool" where
  "marked s a = (\<exists>b. binding_at s a = Some b \<and> bi_unbound b)"

definition pending :: "addr \<Rightarrow> ('d, 'z) evmem_scheme \<Rightarrow> nat set" where
  "pending e s = fst ` entry (binding_at s) ` {a \<in> set (the (bindings_of e s)). marked s a}"

lemma unlink:
  assumes "bindings_of e s = Some (xs @ f # ys)" "binding_at s f = Some b"
  shows "\<exists>s'. (case (if xs = [] then None else Some (last xs)) of
                  Some p \<Rightarrow> upd_binding p (\<lambda>x. x\<lparr>bi_next := bi_next b\<rparr>) s
                | None \<Rightarrow> upd_event e (\<lambda>ev. ev\<lparr>ev_bindings := bi_next b\<rparr>) s) = s' \<and>
           bindings_of e s' = Some (xs @ ys) \<and> next_addr s' = next_addr s \<and>
           (\<forall>x. x \<notin> set xs \<longrightarrow> binding_at s' x = binding_at s x) \<and>
           (\<forall>e'. e' \<noteq> e \<longrightarrow> event_at s' e' = event_at s e') \<and>
           (\<forall>x. entry (binding_at s') x = entry (binding_at s) x \<and> marked s' x = marked s x)"
proof -
  obtain ev where ev: "event_at s e = Some ev" and p: "bpath (binding_at s) (ev_bindings ev) (xs @ f # ys)"
    using assms(1) bindings_of_iff by blast
  have dist: "distinct (xs @ f # ys)" using bpath_distinct[OF p] .
  have ysp: "bpath (binding_at s) (bi_next b) ys" using bpath_prefix[OF p] assms(2) by auto
  show ?thesis
  proof (cases xs rule: rev_cases)
    case Nil
    then show ?thesis using ev ysp
      by (auto simp: upd_event_def bindings_of_iff marked_def)
  next
    case (snoc zs p')
    have "bpath (binding_at s) (ev_bindings ev) (zs @ p' # f # ys)" using p snoc by simp
    then obtain pb where pb: "binding_at s p' = Some pb" using bpath_prefix by blast
    have ne: "p' \<notin> set ys" "p' \<notin> set zs" using dist snoc by auto
    let ?B = "(binding_at s)(p' \<mapsto> pb\<lparr>bi_next := bi_next b\<rparr>)"
    have "bpath ?B (ev_bindings ev) (zs @ p' # ys)"
      by (rule bpath_splice[where B = "binding_at s" and zs = "f # ys" and b' = "pb\<lparr>bi_next := bi_next b\<rparr>"])
        (use p snoc ne ysp in \<open>auto simp: bpath_upd\<close>)
    then show ?thesis using ev snoc pb
      by (auto simp: upd_binding_def bindings_of_iff marked_def entry_def)
  qed
qed

lemma pending_loop_filter:
  "bindings_of e s = Some (xs @ ys) \<Longrightarrow>
   \<exists>s'. pending_loop e (if xs = [] then None else Some (last xs)) ys s = s' \<and>
     bindings_of e s' = Some (xs @ filter (\<lambda>a. \<not> marked s a) ys) \<and> next_addr s \<le> next_addr s' \<and>
     (\<forall>x. x \<notin> set (xs @ ys) \<longrightarrow> binding_at s' x = binding_at s x) \<and>
     (\<forall>e'. e' \<noteq> e \<longrightarrow> event_at s' e' = event_at s e') \<and>
     (\<forall>x \<in> set (xs @ filter (\<lambda>a. \<not> marked s a) ys). entry (binding_at s') x = entry (binding_at s) x)"
proof (induction ys arbitrary: xs s)
  case (Cons f ys)
  have "bpath (binding_at s) (ev_bindings (the (event_at s e))) (xs @ f # ys)"
    using Cons.prems by (auto simp: bindings_of_iff)
  then obtain b where b: "binding_at s f = Some b" and dist: "distinct (xs @ f # ys)"
    using bpath_prefix bpath_distinct by meson
  show ?case
  proof (cases "bi_unbound b")
    case False
    then show ?thesis using Cons.IH[of s "xs @ [f]"] Cons.prems b by (auto simp: marked_def)
  next
    case True
    let ?prev = "if xs = [] then None else Some (last xs)"
    obtain s1 where s1: "(case ?prev of
                  Some p \<Rightarrow> upd_binding p (\<lambda>x. x\<lparr>bi_next := bi_next b\<rparr>) s
                | None \<Rightarrow> upd_event e (\<lambda>ev. ev\<lparr>ev_bindings := bi_next b\<rparr>) s) = s1"
      and r1: "bindings_of e s1 = Some (xs @ ys)" "next_addr s1 = next_addr s"
        "\<forall>x. x \<notin> set xs \<longrightarrow> binding_at s1 x = binding_at s x" "\<forall>e'. e' \<noteq> e \<longrightarrow> event_at s1 e' = event_at s e'"
        "\<forall>x. entry (binding_at s1) x = entry (binding_at s) x \<and> marked s1 x = marked s x"
      using unlink[OF Cons.prems b] by blast
    let ?s2 = "free_binding f s1"
    let ?s2' = "s1\<lparr>binding_at := (binding_at s1)(f := None)\<rparr>"
    have same: "same_events ?s2' ?s2" by (simp add: free_binding_def same_events_free)
    then have s2: "binding_at ?s2 = (binding_at s1)(f := None)" "event_at ?s2 = event_at s1"
      "next_addr s1 \<le> next_addr ?s2" by (simp_all add: same_events_def)
    have "bindings_of e ?s2' = Some (xs @ ys)"
      using r1(1) dist by (simp add: bindings_of_iff bpath_upd)
    then have b2: "bindings_of e ?s2 = Some (xs @ ys)" using same_bindings[OF same] by simp
    have "marked ?s2 x = marked s1 x" if "x \<noteq> f" for x using that by (simp add: marked_def s2)
    moreover have "x \<noteq> f" if "x \<in> set ys" for x using that dist by auto
    ultimately have m2: "marked ?s2 x = marked s x" if "x \<in> set ys" for x using that r1(5) by metis
    then have fl: "filter (\<lambda>a. \<not> marked ?s2 a) ys = filter (\<lambda>a. \<not> marked s a) ys" by (auto intro: filter_cong)
    have e2: "\<And>x. x \<in> set (xs @ ys) \<Longrightarrow> entry (binding_at ?s2) x = entry (binding_at s) x"
      using r1(5) dist by (auto simp: s2 entry_def)
    have B: "\<And>x. x \<notin> set (xs @ f # ys) \<Longrightarrow> binding_at ?s2 x = binding_at s x"
      and ev: "\<And>e'. e' \<noteq> e \<Longrightarrow> event_at ?s2 e' = event_at s e'" and nx: "next_addr s \<le> next_addr ?s2"
      using s2 r1(2,3,4) by auto
    have step: "pending_loop e ?prev (f # ys) s = pending_loop e ?prev ys ?s2"
      using b True s1 by simp
    have mf: "marked s f" using b True by (simp add: marked_def)
    show ?thesis
      unfolding step using Cons.IH[OF b2] e2 B ev nx mf by (auto simp: fl)
  qed
qed simp


lemma bound_cases:
  assumes "lists_ok E s" "e \<in> E"
  obtains as where "bindings_of e s = Some as" "\<forall>a \<in> set as. a < next_addr s"
    "bound e s = map (entry (binding_at s)) as" "distinct (map fst (bound e s))"
  using lists_okD[OF assms] by (auto simp: bound_def)

lemma process_pending_filters:
  assumes ok: "lists_ok E s" and e: "e \<in> E"
  shows "\<exists>s'. process_pending_unbinds e s = Some s' \<and> lists_ok E s' \<and>
           (\<forall>e' \<in> E. bound e' s' = (if e' = e then filter (\<lambda>(c, _). c \<notin> pending e s) (bound e s)
                                 else bound e' s))"
proof -
  obtain as where as: "bindings_of e s = Some as" "\<forall>a \<in> set as. a < next_addr s"
    and bd: "bound e s = map (entry (binding_at s)) as" and dist: "distinct (map fst (bound e s))"
    using bound_cases[OF ok e] by blast
  let ?keep = "filter (\<lambda>a. \<not> marked s a) as"
  obtain s' where pl: "pending_loop e None as s = s'" and r: "bindings_of e s' = Some ?keep"
    "next_addr s \<le> next_addr s'" "\<forall>x. x \<notin> set as \<longrightarrow> binding_at s' x = binding_at s x"
    "\<forall>e'. e' \<noteq> e \<longrightarrow> event_at s' e' = event_at s e'"
    "\<forall>x \<in> set ?keep. entry (binding_at s') x = entry (binding_at s) x"
    using pending_loop_filter[of e s "[]" as] as(1) by auto
  have inj: "inj_on (\<lambda>a. fst (entry (binding_at s) a)) (set as)"
    using dist bd by (simp add: distinct_map inj_on_def)
  have "(fst (entry (binding_at s) a) \<notin> pending e s) = (\<not> marked s a)" if "a \<in> set as" for a
    using that inj as(1) by (auto simp: pending_def inj_on_def)
  then have "filter (\<lambda>(c, _). c \<notin> pending e s) (bound e s) = map (entry (binding_at s)) ?keep"
    by (simp add: bd filter_map o_def case_prod_beta cong: filter_cong)
  also have "\<dots> = bound e s'" using r(1,5) by (simp add: bound_def)
  finally have bd': "bound e s' = filter (\<lambda>(c, _). c \<notin> pending e s) (bound e s)" by simp
  have lt: "\<forall>a \<in> set ?keep. a < next_addr s'" using as(2) r(2) by auto
  have "distinct (map fst (bound e s'))" unfolding bd' using dist by (rule distinct_map_filter)
  then have "lists_ok E s' \<and> (\<forall>e' \<in> E. e' \<noteq> e \<longrightarrow> bound e' s' = bound e' s)"
    by (intro lists_change[OF ok e as(1) r(1), where N = "{}"]) (use r lt in auto)
  then show ?thesis using pl as(1) bd' by (auto simp: process_pending_unbinds_def)
qed

lemma unbind_running:
  assumes ok: "lists_ok E s" and e: "e \<in> E" and as: "bindings_of e s = Some (xs @ f # ys)"
    and no: "fst (entry (binding_at s) f) = cb"
    and s': "s' = upd_binding f (\<lambda>b. b\<lparr>bi_unbound := True\<rparr>) s"
  shows "lists_ok E s' \<and> (\<forall>e' \<in> E. bound e' s' = bound e' s) \<and> pending e s' = insert cb (pending e s)"
proof -
  obtain ev where ev: "event_at s e = Some ev" and p: "bpath (binding_at s) (ev_bindings ev) (xs @ f # ys)"
    using as bindings_of_iff by blast
  obtain b where b: "binding_at s f = Some b" and n: "bpath (binding_at s) (bi_next b) ys"
    using bpath_prefix[OF p] by blast
  have dist: "distinct (xs @ f # ys)" using bpath_distinct[OF p] .
  let ?B = "(binding_at s)(f \<mapsto> b\<lparr>bi_unbound := True\<rparr>)"
  have s'': "s' = s\<lparr>binding_at := ?B\<rparr>" using b by (simp add: s' upd_binding_def)
  have "bpath ?B (ev_bindings ev) (xs @ f # ys)"
    by (rule bpath_splice[where B = "binding_at s" and zs = ys and b' = "b\<lparr>bi_unbound := True\<rparr>"])
      (use p n dist in \<open>auto simp: bpath_upd\<close>)
  then have as': "bindings_of e s' = Some (xs @ f # ys)" using ev by (simp add: s'' bindings_of_iff)
  have en: "entry (binding_at s') = entry (binding_at s)"
    using b by (auto simp: s'' entry_def fun_eq_iff)
  have bd: "bound e s' = bound e s" using as as' en by (simp add: bound_def)
  have "lists_ok E s' \<and> (\<forall>e' \<in> E. e' \<noteq> e \<longrightarrow> bound e' s' = bound e' s)"
    by (rule lists_change[OF ok e as as', where N = "{}"])
      (use lists_okD[OF ok e] as bd in \<open>auto simp: s''\<close>)
  moreover have "{a \<in> set (xs @ f # ys). marked s' a} = insert f {a \<in> set (xs @ f # ys). marked s a}"
    using b by (auto simp: s'' marked_def split: if_splits)
  then have "pending e s' = insert cb (pending e s)" using as as' no by (simp add: pending_def en)
  ultimately show ?thesis using bd by auto
qed

text \<open>C25: unbinding a callback from the event that is being dispatched only marks it: the list stays
  as it is, and after the dispatch exactly the callbacks marked are removed from it.  When the
  callback was not bound the search runs off the end of the list, which the code asserts does not
  happen: it does not return (the header promises that nothing happens).\<close>

theorem ls_event_unbind_deferred:
  assumes "lists_ok E s" "e \<in> E" "di_running d = Some e"
  shows "(cb \<notin> fst ` set (bound e s) \<longrightarrow> ls_event_unbind e cb d s = None) \<and>
         (cb \<in> fst ` set (bound e s) \<longrightarrow>
            (\<exists>s'. ls_event_unbind e cb d s = Some s' \<and> lists_ok E s' \<and>
               (\<forall>e' \<in> E. bound e' s' = bound e' s) \<and> pending e s' = insert cb (pending e s))) \<and>
         (\<exists>s'. process_pending_unbinds e s = Some s' \<and> lists_ok E s' \<and>
            (\<forall>e' \<in> E. bound e' s' = (if e' = e then filter (\<lambda>(c, _). c \<notin> pending e s) (bound e s)
                                  else bound e' s)))"
proof -
  obtain dp s1 where push: "push_eventing_ndc (Some (di_self d)) ''ls_event_unbind'' s = (dp, s1)" by fastforce
  note same = same_events_push[OF push]
  have ok: "lists_ok E s1" and b1: "\<And>e'. bound e' s1 = bound e' s" and p1: "pending e s1 = pending e s"
    using same_lists[OF same assms(1)] same_bindings[OF same] same
    by (auto simp: pending_def same_events_def marked_def)
  have pop: "pending e (pop_eventing_ndc k t) = pending e t" for k and t :: "('d, 'z) evmem_scheme"
    using same_events_pop[of t k] same_bindings[OF same_events_pop[of t k]]
    by (auto simp: pending_def same_events_def marked_def)
  obtain as where as: "bindings_of e s1 = Some as" using lists_okD[OF ok assms(2)] by blast
  have "(cb \<notin> fst ` set (bound e s) \<longrightarrow> ls_event_unbind e cb d s = None) \<and>
         (cb \<in> fst ` set (bound e s) \<longrightarrow>
            (\<exists>s'. ls_event_unbind e cb d s = Some s' \<and> lists_ok E s' \<and>
               (\<forall>e' \<in> E. bound e' s' = bound e' s) \<and> pending e s' = insert cb (pending e s)))"
    using as
  proof (cases rule: find_split[where c = cb])
    case absent
    have dw: "dropWhile (\<lambda>a. \<not> has_cb s1 cb a) as = []" using absent(1) by simp
    show ?thesis using absent(2) as push b1 assms(3) by (simp add: ls_event_unbind_def dw)
  next
    case (found xs f ys)
    have dw: "dropWhile (\<lambda>a. \<not> has_cb s1 cb a) as = f # ys"
      using found(1-3) by (simp add: dropWhile_append2)
    have "entry (binding_at s1) f \<in> set (bound e s1)" using found(1) as by (simp add: bound_def)
    then have "cb \<in> fst ` set (bound e s)" using found(5) b1[of e] by (metis imageI)
    then show ?thesis
      using unbind_running[OF ok assms(2) as[unfolded found(1)] found(5) refl] dw as push b1 p1 assms(3)
      by (simp add: ls_event_unbind_def pop)
  qed
  then show ?thesis using process_pending_filters[OF assms(1,2)] by blast
qed


section \<open>Instances\<close>

text \<open>A dispatcher with one event, whose list is empty.\<close>

definition one_event :: "addr \<Rightarrow> nat evmem" where
  "one_event e = logmem.extend (logmem.truncate init_log)
     \<lparr>binding_at = Map.empty,
      event_at = [e \<mapsto> \<lparr>ev_name_block = 3, ev_name = [97], ev_source = 0, ev_bindings = None\<rparr>],
      moment_at = Map.empty, calls = [], results = []\<rparr>"

definition some_dispatcher :: "addr option \<Rightarrow> nat dispatcher" where
  "some_dispatcher r = \<lparr>di_self = 1, di_source = 0,
     di_events = \<lparr>ht_self = 2, ht_hash = ls_strcase_hashcode snd, ht_cmp = ls_strcase_compare snd, ht_count = 0,
       ht_bcount = 7, ht_resize_count = 0, ht_block = 2, ht_buckets = replicate 7 []\<rparr>, di_running = r, di_tail = None, di_next = None,
     di_destroy_pending = False, di_live = True\<rparr>"

lemma one_event_ok: "lists_ok {e} (one_event e) \<and> bound e (one_event e) = []"
proof -
  have "bindings_of e (one_event e) = Some []"
    by (simp add: bindings_of_iff one_event_def logmem.defs)
  then show ?thesis by (simp add: lists_ok_def bound_def)
qed

theorem ls_event_bindings_are_alists_witness:
  "\<exists>r s'. ls_event_bind 5 7 9 (some_dispatcher None) (one_event 5) = Some (r, s') \<and> lists_ok {5} s' \<and>
     (r = Inr () \<longrightarrow> bound 5 s' = [(7, 9)])"
  using ls_event_bindings_are_alists[OF one_event_ok[of 5, THEN conjunct1], of 5 7 9 "some_dispatcher None"]
    one_event_ok[of 5] by auto

theorem ls_event_unbind_deferred_witness:
  "ls_event_unbind 5 7 (some_dispatcher (Some 5)) (one_event 5) = None"
  using ls_event_unbind_deferred[OF one_event_ok[of 5, THEN conjunct1], of 5 "some_dispatcher (Some 5)" 7]
    one_event_ok[of 5] by (simp add: some_dispatcher_def)

end
