(* ===== verification/Ls_Event_Memory.thy ===== *)
theory Ls_Event_Memory
  imports Ls_Eventing_Props
begin

text \<open>
  The memory of a dispatcher, \<open>src/ls_eventing.c\<close>: which blocks it owns, through its table the events,
  their names and their bindings, and that creating, binding and destroying account for all of them.
\<close>

section \<open>Contexts around an operation\<close>

lemma ndc_owns_mem:
  assumes "ndc_owns B k M ns m" "mem_grows m m'" "owns B k M' m'"
  shows "ndc_owns B k M' ns m'"
proof -
  have "mem.more m' = mem.more m" using assms(2) by (simp add: mem_grows_def)
  then have "ndc_stack m' = ndc_stack m" "ndc_depth m' = ndc_depth m" by (cases m; cases m'; simp)+
  then show ?thesis using assms by (simp add: ndc_owns_def)
qed

lemma ndc_owns_malloc:
  assumes "ndc_owns B k M ns m" "ls_data_malloc sz m = (p, m')"
  shows "ndc_owns B k (case p of None \<Rightarrow> M | Some a \<Rightarrow> add_mset a M) ns m'"
  using assms by (intro ndc_owns_mem[OF assms(1) malloc_mem_grows[OF assms(2)]])
    (auto simp: ndc_owns_def split: option.split intro: owns_malloc owns_malloc_None)

lemma ndc_owns_calloc:
  assumes "ndc_owns B k M ns m" "ls_data_calloc n sz m = (p, m')"
  shows "ndc_owns B k (case p of None \<Rightarrow> M | Some a \<Rightarrow> add_mset a M) ns m'"
  using assms by (intro ndc_owns_mem[OF assms(1) calloc_mem_grows[OF assms(2)]])
    (auto simp: ndc_owns_def split: option.split intro: owns_calloc owns_calloc_None)

lemma ndc_owns_free: "ndc_owns B k (add_mset a M) ns m \<Longrightarrow> ndc_owns B k M ns (ls_data_free (Some a) m)"
  by (rule ndc_owns_mem[OF _ mem_grows_free]) (auto simp: ndc_owns_def intro: owns_free)

text \<open>Between the push and the pop of a context an operation may change what is owned.\<close>

lemma eventing_bracket:
  fixes s :: "'z logmem_scheme"
  assumes o: "ndc_owns B k M ns s" and p: "push_eventing_ndc x f s = (depth, s1)"
  obtains N ns1 where "ndc_owns B k (M + N) ns1 s1" "depth = 0 \<longrightarrow> N = {#} \<and> ns1 = ns"
    "\<And>M' (s2 :: 'z logmem_scheme). ndc_owns B k (M' + N) ns1 s2 \<Longrightarrow> ndc_owns B k M' ns (pop_eventing_ndc depth s2)"
proof -
  consider "depth = 0" "ndc_owns B k M ns s1"
    | n where "depth = int (length ns) + 1"
      "ndc_owns B k (add_mset (nd_message n) (add_mset (nd_self n) M)) (n # ns) s1"
    using ndc_owns_push[OF o p[unfolded push_eventing_ndc_def]] by blast
  then show thesis
  proof cases
    case 1
    then show thesis using that[of "{#}" ns] by (simp add: pop_eventing_ndc_def)
  next
    case (2 n)
    show thesis
    proof (rule that[of "{#nd_message n, nd_self n#}" "n # ns"])
      show "ndc_owns B k (M + {#nd_message n, nd_self n#}) (n # ns) s1" using 2 by simp
      show "ndc_owns B k M' ns (pop_eventing_ndc depth s2)"
        if "ndc_owns B k (M' + {#nd_message n, nd_self n#}) (n # ns) s2" for M' and s2 :: "'z logmem_scheme"
        using ndc_owns_pop[of B k n M' ns s2] that 2(1) by (simp add: pop_eventing_ndc_def)
    qed (use 2 in simp)
  qed
qed

section \<open>What a dispatcher owns\<close>

definition event_blocks :: "('d, 'z) evmem_scheme \<Rightarrow> addr \<Rightarrow> addr multiset" where
  "event_blocks s e =
     add_mset e (add_mset (ev_name_block (the (event_at s e))) (mset (the (bindings_of e s))))"

definition node_blocks ::
  "('d, 'z) evmem_scheme \<Rightarrow> (ev_key, addr, ('d, 'z) evmem_scheme) hnode \<Rightarrow> addr multiset" where
  "node_blocks s n = add_mset (hn_self n) (event_blocks s (the (hn_value n)))"

definition event_node :: "('d, 'z) evmem_scheme \<Rightarrow> (ev_key, addr, ('d, 'z) evmem_scheme) hnode \<Rightarrow> bool" where
  "event_node s n \<longleftrightarrow> hn_cleaner n = Some clean_event \<and> (\<exists>e. hn_value n = Some e \<and> bindings_of e s \<noteq> None)"

definition dispatcher_owned :: "('d, 'z) evmem_scheme dispatcher \<Rightarrow> ('d, 'z) evmem_scheme \<Rightarrow> addr multiset" where
  "dispatcher_owned d s =
     {#di_self d, ht_self (di_events d), ht_block (di_events d)#} +
     sum_mset (image_mset (node_blocks s) (contents (di_events d)))"

definition dispatcher_form :: "('d, 'z) evmem_scheme dispatcher \<Rightarrow> ('d, 'z) evmem_scheme \<Rightarrow> bool" where
  "dispatcher_form d s \<longleftrightarrow>
     shape (di_events d) \<and> unat (ht_count (di_events d)) = size (contents (di_events d)) \<and>
     ht_hash (di_events d) = ls_strcase_hashcode snd \<and> ht_cmp (di_events d) = ls_strcase_compare snd \<and>
     (\<forall>n \<in># contents (di_events d). event_node s n) \<and> di_running d = None \<and> di_next d = None"

lemma node_blocks_simps [simp]: "node_blocks s (unplaced n) = node_blocks s n"
  "event_node s (unplaced n) = event_node s n"
  by (simp_all add: node_blocks_def event_node_def)

text \<open>What does not touch the events keeps all of this.\<close>

definition events_same :: "('d, 'z) evmem_scheme \<Rightarrow> ('d, 'z) evmem_scheme \<Rightarrow> bool" where
  "events_same s s' \<longleftrightarrow> event_at s' = event_at s \<and> binding_at s' = binding_at s"

lemma events_same_blocks:
  assumes "events_same s s'"
  shows "event_blocks s' = event_blocks s" "node_blocks s' = node_blocks s" "event_node s' = event_node s"
    "dispatcher_owned d s' = dispatcher_owned d s" "dispatcher_form d s' = dispatcher_form d s"
proof -
  have b: "bindings_of e s' = bindings_of e s" for e
    using assms by (simp add: events_same_def bindings_of_def split: option.split)
  show "event_blocks s' = event_blocks s" using assms b by (auto simp: event_blocks_def events_same_def)
  then show n: "node_blocks s' = node_blocks s" by (auto simp: node_blocks_def)
  show e: "event_node s' = event_node s" using b by (auto simp: event_node_def)
  show "dispatcher_owned d s' = dispatcher_owned d s" by (simp add: dispatcher_owned_def n)
  show "dispatcher_form d s' = dispatcher_form d s" by (simp add: dispatcher_form_def e)
qed

lemma same_events_same: "same_events s s' \<Longrightarrow> events_same s s' \<and> evmem.more s' = evmem.more s"
  by (simp add: same_events_def events_same_def)

lemma grows_same: "mem_grows s s' \<Longrightarrow> events_same s s' \<and> evmem.more s' = evmem.more s"
  by (cases s; cases s') (simp add: mem_grows_def events_same_def)

section \<open>Cleaning\<close>

lemma free_bindings:
  "ndc_owns B k (mset as + M) ns s \<Longrightarrow> ndc_owns B k M ns (fold free_binding as s) \<and>
   binding_at (fold free_binding as s) = binding_at s |` (- set as) \<and>
   event_at (fold free_binding as s) = event_at s \<and> evmem.more (fold free_binding as s) = evmem.more s"
proof (induction as arbitrary: s)
  case (Cons a as)
  let ?s = "s\<lparr>binding_at := (binding_at s)(a := None)\<rparr>"
  have "ndc_owns B k (add_mset a (mset as + M)) ns ?s" using Cons.prems by (simp add: ndc_owns_def owns_def mem_wf_def)
  then have "ndc_owns B k (mset as + M) ns (free_binding a s)"
    by (simp add: free_binding_def ndc_owns_free)
  moreover have "same_events ?s (free_binding a s)" by (simp add: free_binding_def same_events_free)
  ultimately show ?case using Cons.IH[of "free_binding a s"]
    by (auto simp: same_events_def restrict_map_def fun_eq_iff)
qed (simp add: restrict_map_def)

lemma clean_event_owns:
  assumes o: "ndc_owns B k (event_blocks s e + M) ns s" and as: "bindings_of e s = Some as"
  shows "ndc_owns B k M ns (clean_event r dk key (Some e) s) \<and>
    binding_at (clean_event r dk key (Some e) s) = binding_at s |` (- set as) \<and>
    event_at (clean_event r dk key (Some e) s) = (event_at s)(e := None) \<and>
    evmem.more (clean_event r dk key (Some e) s) = evmem.more s"
proof -
  obtain ev where ev: "event_at s e = Some ev" using as by (auto simp: bindings_of_def split: option.splits)
  let ?s1 = "fold free_binding as s"
  let ?s2 = "ls_data_free (Some (ev_name_block ev)) ?s1"
  let ?s3 = "?s2\<lparr>event_at := (event_at ?s2)(e := None)\<rparr>"
  have c: "clean_event r dk key (Some e) s = ls_data_free (Some e) ?s3"
    by (simp add: clean_event_def ev as Let_def)
  have "ndc_owns B k (mset as + add_mset (ev_name_block ev) (add_mset e M)) ns s"
    using o by (simp add: event_blocks_def ev as add_mset_commute)
  note f = free_bindings[OF this]
  have "ndc_owns B k (add_mset e M) ns ?s2" using f by (simp add: ndc_owns_free)
  then have "ndc_owns B k (add_mset e M) ns ?s3" by (simp add: ndc_owns_def owns_def mem_wf_def)
  then have "ndc_owns B k M ns (ls_data_free (Some e) ?s3)" by (rule ndc_owns_free)
  moreover have "same_events ?s1 ?s2" "same_events ?s3 (ls_data_free (Some e) ?s3)" by (simp_all add: same_events_free)
  ultimately show ?thesis using f by (simp add: c same_events_def)
qed

text \<open>Cleaning one event leaves the others.\<close>

lemma other_event:
  assumes "bindings_of e s = Some as" "bindings_of e' s = Some as'" "e' \<noteq> e" "set as \<inter> set as' = {}"
    and "event_at s' = (event_at s)(e := None)" "binding_at s' = binding_at s |` (- set as)"
  shows "bindings_of e' s' = Some as'" "event_blocks s' e' = event_blocks s e'"
proof -
  obtain ev where ev: "event_at s e' = Some ev" "bpath (binding_at s) (ev_bindings ev) as'"
    using assms(2) by (auto simp: bindings_of_iff)
  have "bpath (binding_at s') (ev_bindings ev) as' = bpath (binding_at s) (ev_bindings ev) as'"
    by (rule bpath_cong) (use assms(4,6) in \<open>auto simp: restrict_map_def disjoint_iff\<close>)
  then show b: "bindings_of e' s' = Some as'" using ev assms(3,5) by (simp add: bindings_of_iff)
  show "event_blocks s' e' = event_blocks s e'" using b assms(2,3,5) by (simp add: event_blocks_def)
qed

lemma clean_chain_events:
  "ndc_owns B k (sum_list (map (node_blocks s) ns) + M) st s \<Longrightarrow> \<forall>n \<in> set ns. event_node s n \<Longrightarrow>
   ndc_owns B k M st (clean_chain ns s) \<and> evmem.more (clean_chain ns s) = evmem.more s"
proof (induction ns arbitrary: s)
  case (Cons n ns)
  obtain e as where n: "hn_cleaner n = Some clean_event" "hn_value n = Some e" "bindings_of e s = Some as"
    using Cons.prems(2) by (auto simp: event_node_def)
  let ?R = "sum_list (map (node_blocks s) ns)"
  let ?s1 = "clean_event False True (hn_key n) (Some e) s"
  let ?s2 = "ls_data_free (Some (hn_self n)) ?s1"
  have o: "ndc_owns B k (event_blocks s e + add_mset (hn_self n) (?R + M)) st s"
  proof -
    have "node_blocks s n = add_mset (hn_self n) (event_blocks s e)" by (simp add: node_blocks_def n)
    then show ?thesis using Cons.prems(1) by (simp add: add.assoc)
  qed
  note c = clean_event_owns[OF o n(3), of False True "hn_key n"]
  have o2: "ndc_owns B k (?R + M) st ?s2" using c by (simp add: ndc_owns_free)
  have s2: "event_at ?s2 = (event_at s)(e := None)" "binding_at ?s2 = binding_at s |` (- set as)"
    "evmem.more ?s2 = evmem.more s"
    using c same_events_free[of ?s1 "Some (hn_self n)"] by (simp_all add: same_events_def)
  have dis: "set_mset (event_blocks s e) \<inter> set_mset (add_mset (hn_self n) (?R + M)) = {}"
    using o owns_disjoint unfolding ndc_owns_def by blast
  have other: "event_node ?s2 m \<and> node_blocks ?s2 m = node_blocks s m" if m: "m \<in> set ns" for m
  proof -
    obtain e' as' where m': "hn_cleaner m = Some clean_event" "hn_value m = Some e'" "bindings_of e' s = Some as'"
      using Cons.prems(2) m by (auto simp: event_node_def)
    have "node_blocks s m \<subseteq># ?R"
      using m by (induction ns) (auto intro: subset_mset.add_increasing subset_mset.add_increasing2)
    then have "set_mset (event_blocks s e') \<subseteq> set_mset ?R"
      using m'(2) by (auto simp: node_blocks_def dest!: set_mset_mono)
    then have d: "set_mset (event_blocks s e) \<inter> set_mset (event_blocks s e') = {}" using dis by auto
    then have "e' \<noteq> e" "set as \<inter> set as' = {}" using n(3) m'(3) by (auto simp: event_blocks_def)
    from other_event[OF n(3) m'(3) this s2(1,2)] show ?thesis using m'(1,2) by (simp add: event_node_def node_blocks_def)
  qed
  have "map (node_blocks ?s2) ns = map (node_blocks s) ns" using other by simp
  then have "ndc_owns B k (sum_list (map (node_blocks ?s2) ns) + M) st ?s2" using o2 by (simp only:)
  then have "ndc_owns B k M st (clean_chain ns ?s2) \<and> evmem.more (clean_chain ns ?s2) = evmem.more ?s2"
    using other by (intro Cons.IH) auto
  then show ?case using n s2(3) by (simp add: call_cleaner_def)
qed simp


section \<open>Creating and destroying\<close>

lemma ls_event_dispatcher_destroy_owns:
  fixes s :: "('d, 'z) evmem_scheme"
  assumes o: "ndc_owns B k (dispatcher_owned d s + M) st s" and form: "dispatcher_form d s"
  shows "\<exists>d' s'. ls_event_dispatcher_destroy d s = Some (d', s') \<and> ndc_owns B k M st s' \<and>
    evmem.more s' = evmem.more s"
proof -
  let ?t = "di_events d"
  obtain depth s1 where p: "push_eventing_ndc (Some (di_self d)) ''ls_event_dispatcher_destroy'' s = (depth, s1)"
    by fastforce
  note same = same_events_same[OF same_events_push[OF p]]
  obtain N st1 where b: "ndc_owns B k (dispatcher_owned d s + M + N) st1 s1"
    "\<And>M' (s2 :: ('d, 'z) evmem_scheme). ndc_owns B k (M' + N) st1 s2 \<Longrightarrow> ndc_owns B k M' st (pop_eventing_ndc depth s2)"
    using eventing_bracket[OF o p] by metis
  let ?ns = "concat (ht_buckets ?t)"
  have len: "take (unat (ht_bcount ?t)) (ht_buckets ?t) = ht_buckets ?t" using form by (simp add: dispatcher_form_def shape_def)
  have sum: "sum_mset (image_mset (node_blocks s) (contents ?t)) = sum_list (map (node_blocks s1) ?ns)"
    using events_same_blocks(2)[of s s1] same
    by (simp add: contents_def multiset.map_comp comp_def sum_mset_sum_list flip: mset_map)
  have "event_node s1 n" if "n \<in> set ?ns" for n
  proof -
    have "event_node s (unplaced n)" using form in_contents[OF that] by (auto simp: dispatcher_form_def)
    then show ?thesis using events_same_blocks(3)[of s s1] same by simp
  qed
  moreover have "ndc_owns B k (sum_list (map (node_blocks s1) ?ns) +
      ({#di_self d, ht_self ?t, ht_block ?t#} + (M + N))) st1 s1"
    using b(1) by (simp add: dispatcher_owned_def sum add.assoc add_mset_commute)
  ultimately have c: "ndc_owns B k ({#di_self d, ht_self ?t, ht_block ?t#} + (M + N)) st1 (clean_chain ?ns s1) \<and>
      evmem.more (clean_chain ?ns s1) = evmem.more s1"
    by (intro clean_chain_events) auto
  let ?s2 = "ls_data_free (Some (di_self d)) (ls_htable_destroy ?t s1)"
  have d: "ls_htable_destroy ?t s1 = ls_data_free (Some (ht_self ?t)) (ls_data_free (Some (ht_block ?t)) (clean_chain ?ns s1))"
    by (simp add: ls_htable_destroy_def clean_buckets_concat len)
  have "ndc_owns B k (M + N) st1 ?s2"
    unfolding d by (intro ndc_owns_free) (use c in \<open>simp add: add_mset_commute\<close>)
  then have "ndc_owns B k M st (pop_eventing_ndc depth ?s2)" by (rule b(2))
  moreover have "evmem.more (pop_eventing_ndc depth ?s2) = evmem.more s"
  proof -
    have "same_events (clean_chain ?ns s1) ?s2" unfolding d using same_events_free same_events_trans by metis
    then have "same_events (clean_chain ?ns s1) (pop_eventing_ndc depth ?s2)" using same_events_pop same_events_trans by metis
    then show ?thesis using c same by (simp add: same_events_def)
  qed
  ultimately show ?thesis using form p
    by (simp add: ls_event_dispatcher_destroy_def dispatcher_form_def destroy_moments.simps[of None])
qed

lemma empty_table_destroy:
  fixes x :: "('d, 'z) evmem_scheme"
  assumes "shape t" "contents t = {#}" and o: "ndc_owns B k (ht_owned t + L) st x"
  shows "ndc_owns B k L st (ls_htable_destroy t x) \<and> same_events x (ls_htable_destroy t x)"
proof -
  have "concat (ht_buckets t) = []" using assms(2) by (simp add: contents_def)
  then have "clean_chain (concat (ht_buckets t)) x = x" by (simp only: clean_chain.simps)
  then have "clean_buckets (take (unat (ht_bcount t)) (ht_buckets t)) x = x"
    using assms(1) by (simp add: clean_buckets_concat shape_def)
  then have d: "ls_htable_destroy t x = ls_data_free (Some (ht_self t)) (ls_data_free (Some (ht_block t)) x)"
    by (simp add: ls_htable_destroy_def)
  have "ndc_owns B k L st (ls_htable_destroy t x)"
    unfolding d by (intro ndc_owns_free) (use o assms(2) in \<open>simp add: ht_owned_def add_mset_commute\<close>)
  moreover have "same_events x (ls_htable_destroy t x)"
    unfolding d using same_events_free same_events_trans by metis
  ultimately show ?thesis by simp
qed

lemma ls_event_dispatcher_create_owns:
  fixes s :: "('d, 'z) evmem_scheme"
  assumes o: "ndc_owns B k M st s" and r: "ls_event_dispatcher_create source s = (res, s')"
  shows "evmem.more s' = evmem.more s \<and> events_same s s' \<and> (case res of
      Inl e \<Rightarrow> ndc_owns B k M st s'
    | Inr d \<Rightarrow> dispatcher_form d s' \<and> contents (di_events d) = {#} \<and> ndc_owns B k (dispatcher_owned d s' + M) st s')"
proof -
  obtain g :: "errcode + (ev_key, addr, ('d, 'z) evmem_scheme) htable" and s1
    where g: "ls_htable_create DISPATCH_BUCKETS (ls_strcase_hashcode snd) (ls_strcase_compare snd) s = (g, s1)"
    by fastforce
  have "owns B k M s" "DISPATCH_BUCKETS < 2 ^ 30" using o by (simp_all add: ndc_owns_def DISPATCH_BUCKETS_def)
  note create = ls_htable_create_owns[OF this g]
  note g1 = grows_same[OF create_mem_grows[OF g]]
  note nd = ndc_owns_mem[OF o create_mem_grows[OF g]]
  show ?thesis
  proof (cases g)
    case (Inl e)
    then show ?thesis using r g create nd g1 by (auto simp: ls_event_dispatcher_create_def)
  next
    case (Inr t)
    have t: "shape t" "contents t = {#}" "ht_count t = 0" "ht_hash t = ls_strcase_hashcode snd"
      "ht_cmp t = ls_strcase_compare snd" and o1: "ndc_owns B k (ht_owned t + M) st s1"
      using create Inr nd by auto
    obtain self s2 where c: "ls_data_calloc 1 sizeof_dispatch s1 = (self, s2)" by fastforce
    note g2 = grows_same[OF calloc_mem_grows[OF c]]
    note destroy = empty_table_destroy[OF t(1,2)]
    show ?thesis
    proof (cases self)
      case None
      have "ndc_owns B k (ht_owned t + M) st s2" using ndc_owns_calloc[OF o1 c] None by simp
      then show ?thesis using r g Inr c None destroy[of B k M st s2] g1 g2
        by (auto simp: ls_event_dispatcher_create_def events_same_def same_events_def)
    next
      case (Some a)
      have o2: "ndc_owns B k (add_mset a (ht_owned t + M)) st s2" using ndc_owns_calloc[OF o1 c] Some by simp
      obtain depth s3 where p: "push_eventing_ndc (Some a) ''ls_event_dispatcher_create'' s2 = (depth, s3)" by fastforce
      note g3 = same_events_push[OF p]
      obtain N st1 where b: "ndc_owns B k (add_mset a (ht_owned t + M) + N) st1 s3"
        "depth = 0 \<longrightarrow> N = {#} \<and> st1 = st"
        "\<And>M' (s2 :: ('d, 'z) evmem_scheme). ndc_owns B k (M' + N) st1 s2 \<Longrightarrow> ndc_owns B k M' st (pop_eventing_ndc depth s2)"
        using eventing_bracket[OF o2 p] by metis
      show ?thesis
      proof (cases "depth = 0")
        case True
        then have "ndc_owns B k (ht_owned t + add_mset a M) st s3" using b by simp
        note d = destroy[OF this]
        have "ndc_owns B k M st (ls_data_free (Some a) (ls_htable_destroy t s3))" using d by (simp add: ndc_owns_free)
        moreover have "same_events s3 (ls_data_free (Some a) (ls_htable_destroy t s3))"
          using d same_events_free same_events_trans by blast
        ultimately show ?thesis using r g Inr c Some p True g1 g2 g3
          by (auto simp: ls_event_dispatcher_create_def events_same_def same_events_def)
      next
        case False
        let ?d = "\<lparr>di_self = a, di_source = source, di_events = t, di_running = None, di_tail = None,
                   di_next = None, di_destroy_pending = False, di_live = True\<rparr>"
        have d: "res = Inr ?d" "s' = pop_eventing_ndc depth s3"
          using r g Inr c Some p False by (auto simp: ls_event_dispatcher_create_def)
        have "dispatcher_owned ?d s' = add_mset a (ht_owned t)" using t(2) by (simp add: dispatcher_owned_def ht_owned_def)
        then have "ndc_owns B k (dispatcher_owned ?d s' + M) st s'" using b(1,3) d(2) by simp
        moreover have "dispatcher_form ?d s'" using t by (simp add: dispatcher_form_def)
        moreover have "same_events s3 s'" using d(2) same_events_pop by simp
        ultimately show ?thesis using d(1) g1 g2 g3 t(2) by (simp add: same_events_def events_same_def)
      qed
    qed
  qed
qed


section \<open>Creating an event\<close>

lemma node_value_owned:
  "n \<in># contents (di_events d) \<Longrightarrow> the (hn_value n) \<in># dispatcher_owned d s"
  by (auto simp: dispatcher_owned_def node_blocks_def event_blocks_def intro!: bexI[of _ n])

lemma event_upd_other:
  assumes "event_node s n" "the (hn_value n) \<noteq> a"
    and "event_at s' = (event_at s)(a := x)" "binding_at s' = binding_at s"
  shows "event_node s' n" "node_blocks s' n = node_blocks s n"
proof -
  obtain e where e: "hn_cleaner n = Some clean_event" "hn_value n = Some e" "bindings_of e s \<noteq> None" "e \<noteq> a"
    using assms(1,2) by (auto simp: event_node_def)
  then have "bindings_of e s' = bindings_of e s" using assms(3,4) by (simp add: bindings_of_def split: option.split)
  then show "event_node s' n" "node_blocks s' n = node_blocks s n"
    using e assms(3) by (simp_all add: event_node_def node_blocks_def event_blocks_def)
qed

lemma ndc_owns_event_at [simp]: "ndc_owns B k M ns (s\<lparr>event_at := f\<rparr>) = ndc_owns B k M ns s"
  by (simp add: ndc_owns_def owns_def mem_wf_def)

lemma ndc_owns_binding_at [simp]: "ndc_owns B k M ns (s\<lparr>binding_at := f\<rparr>) = ndc_owns B k M ns s"
  by (simp add: ndc_owns_def owns_def mem_wf_def)

lemma ndc_owns_write:
  "ndc_owns B k M ns s \<Longrightarrow> a \<in># M \<Longrightarrow> blocks s a = Some old \<Longrightarrow> length bs \<le> length old \<Longrightarrow>
   ndc_owns B k M ns (write_bytes (a, 0) bs s)"
  by (simp add: ndc_owns_def owns_write)

text \<open>The table keeps its form when the state changes elsewhere.\<close>

lemma dispatcher_kept:
  assumes "dispatcher_form d s" "\<And>n. n \<in># contents (di_events d) \<Longrightarrow> event_node s' n \<and> node_blocks s' n = node_blocks s n"
  shows "dispatcher_form d s'" "dispatcher_owned d s' = dispatcher_owned d s"
proof -
  show "dispatcher_form d s'" using assms by (simp add: dispatcher_form_def)
  have "image_mset (node_blocks s') (contents (di_events d)) = image_mset (node_blocks s) (contents (di_events d))"
    using assms(2) by (intro image_mset_cong) simp
  then show "dispatcher_owned d s' = dispatcher_owned d s" by (simp add: dispatcher_owned_def)
qed

definition table_events ::
  "(ev_key, addr, ('d, 'z) evmem_scheme) htable \<Rightarrow> ('d, 'z) evmem_scheme \<Rightarrow> addr multiset" where
  "table_events t s = sum_mset (image_mset (\<lambda>n. event_blocks s (the (hn_value n))) (contents t))"

lemma dispatcher_owned_table:
  "dispatcher_owned d s = ht_owned (di_events d) + add_mset (di_self d) (table_events (di_events d) s)"
proof -
  have "sum_mset (image_mset (node_blocks s) M) =
      image_mset hn_self M + sum_mset (image_mset (\<lambda>n. event_blocks s (the (hn_value n))) M)" for M
    by (induction M) (simp_all add: node_blocks_def)
  then show ?thesis by (simp add: dispatcher_owned_def ht_owned_def table_events_def add_mset_commute)
qed

lemma put_event:
  fixes s :: "('d, 'z) evmem_scheme"
  assumes o: "ndc_owns B k (dispatcher_owned d s + M) st s" and form: "dispatcher_form d s"
    and size: "size (contents (di_events d)) < 2 ^ 28"
    and new: "ls_htable_get (di_events d) key = None" and e: "bindings_of e s = Some []"
    and M: "M = event_blocks s e + M'"
    and r: "ls_htable_put (di_events d) key (Some e) (Some clean_event) s = (res, t, s')"
  shows "mem_grows s s' \<and> size (contents t) \<le> size (contents (di_events d)) + 1 \<and>
    dispatcher_form (d\<lparr>di_events := t\<rparr>) s' \<and>
    ndc_owns B k (dispatcher_owned (d\<lparr>di_events := t\<rparr>) s' + (case res of Inl c \<Rightarrow> M | Inr u \<Rightarrow> M')) st s' \<and>
    (\<forall>c. res = Inl c \<longrightarrow> contents t = contents (di_events d))"
proof -
  let ?t = "di_events d"
  have sh: "shape ?t" "unat (ht_count ?t) = size (contents ?t)" and nodes: "\<And>n. n \<in># contents ?t \<Longrightarrow> event_node s n"
    using form by (simp_all add: dispatcher_form_def)
  have none: "find_node ?t key (-1) 0 = None"
  proof (cases "find_node ?t key (-1) 0")
    case (Some n)
    then have "event_node s n" using nodes in_contents find_node_Some node_blocks_simps(2) by metis
    then show ?thesis using new Some by (auto simp: ls_htable_get_def event_node_def)
  qed
  let ?L = "add_mset (di_self d) (table_events ?t s) + M"
  have "owns B k (ht_owned ?t + ?L) s" using o by (simp add: dispatcher_owned_table ndc_owns_def add.assoc)
  note p = put_absent[OF sh size this none r]
  then have grow: "mem_grows s s'" and o': "ndc_owns B k (ht_owned t + ?L) st s'"
    using ndc_owns_mem[OF o, of s'] by blast+
  note same = events_same_blocks[OF conjunct1[OF grows_same[OF grow]]]
  show ?thesis
  proof (cases res)
    case (Inl c)
    then have c: "contents t = contents ?t" using p by simp
    then have "dispatcher_form (d\<lparr>di_events := t\<rparr>) s'" using p form same(3) by (simp add: dispatcher_form_def)
    moreover have "dispatcher_owned (d\<lparr>di_events := t\<rparr>) s' = ht_owned t + add_mset (di_self d) (table_events ?t s)"
      using c same(1) by (simp add: dispatcher_owned_table table_events_def)
    ultimately show ?thesis using grow o' Inl c by (simp add: add.assoc)
  next
    case (Inr u)
    then obtain n where n: "contents t = add_mset n (contents ?t)" "hn_value n = Some e" "hn_cleaner n = Some clean_event"
      using p by auto
    have "event_node s n" using n(2,3) e by (simp add: event_node_def)
    then have "dispatcher_form (d\<lparr>di_events := t\<rparr>) s'" using p form same(3) n(1) by (auto simp: dispatcher_form_def)
    moreover have "dispatcher_owned (d\<lparr>di_events := t\<rparr>) s' =
        ht_owned t + add_mset (di_self d) (event_blocks s e + table_events ?t s)"
      using n same(1) by (simp add: dispatcher_owned_table table_events_def)
    ultimately show ?thesis using grow o' Inr n(1) by (simp add: M add.assoc add.left_commute)
  qed
qed

text \<open>Only the text of a name matters.\<close>

lemma get_event_name:
  "dispatcher_form d s \<Longrightarrow> snd key = snd name \<Longrightarrow> ls_htable_get (di_events d) key = ls_htable_get (di_events d) name"
  by (simp add: dispatcher_form_def ls_htable_get_def find_node_def bucket_from_khash_def ls_strcase_hashcode_def
      ls_strcase_compare_def)

lemma create_event_owns:
  fixes s :: "('d, 'z) evmem_scheme"
  assumes o: "ndc_owns B k (dispatcher_owned d s + M) st s" and form: "dispatcher_form d s"
    and size: "size (contents (di_events d)) < 2 ^ 28"
    and r: "ls_event_dispatcher_create_event name d s = (res, d', s')"
  shows "dispatcher_form d' s' \<and> ndc_owns B k (dispatcher_owned d' s' + M) st s' \<and> evmem.more s' = evmem.more s \<and>
    size (contents (di_events d')) \<le> size (contents (di_events d)) + 1"
proof -
  obtain depth s1 where p: "push_eventing_ndc (Some (di_self d)) ''ls_event_dispatcher_create_event'' s = (depth, s1)"
    by fastforce
  note e1 = same_events_same[OF same_events_push[OF p]]
  note pop = same_events_same[OF same_events_pop]
  obtain N st1 where b: "ndc_owns B k (dispatcher_owned d s + M + N) st1 s1"
    "\<And>M' (s2 :: ('d, 'z) evmem_scheme). ndc_owns B k (M' + N) st1 s2 \<Longrightarrow> ndc_owns B k M' st (pop_eventing_ndc depth s2)"
    using eventing_bracket[OF o p] by metis
  have unchanged: ?thesis if "d' = d" "s' = pop_eventing_ndc depth s2" "ndc_owns B k (dispatcher_owned d s + M + N) st1 s2"
    "events_same s s2 \<and> evmem.more s2 = evmem.more s" for s2
  proof -
    have "events_same s s' \<and> evmem.more s' = evmem.more s"
      using that(2,4) pop[of s2 depth] by (auto simp: events_same_def)
    then show ?thesis using b(2)[OF that(3)] that(1,2) form events_same_blocks(4,5)[of s s' d] by auto
  qed
  show ?thesis
  proof (cases "snd name = [] \<or> ls_htable_get (di_events d) name \<noteq> None")
    case True
    then have "d' = d" "s' = pop_eventing_ndc depth s1"
      using r p by (auto simp: ls_event_dispatcher_create_event_def split: if_splits)
    then show ?thesis using unchanged b(1) e1 by blast
  next
    case False
    obtain a s2 where m: "ls_data_malloc (length (snd name) + 1) s1 = (a, s2)" by fastforce
    note o2 = ndc_owns_malloc[OF b(1) m] and e2 = grows_same[OF malloc_mem_grows[OF m]]
    have same2: "events_same s s2 \<and> evmem.more s2 = evmem.more s" using e1 e2 by (auto simp: events_same_def)
    show ?thesis
    proof (cases a)
      case None
      then have "d' = d" "s' = pop_eventing_ndc depth s2"
        using r p False m by (auto simp: ls_event_dispatcher_create_event_def Let_def)
      then show ?thesis using unchanged o2 None same2 by simp
    next
      case (Some evt_name)
      let ?s3 = "write_bytes (evt_name, 0) (snd name @ [0]) s2"
      have blk: "blocks s2 evt_name = Some (replicate (length (snd name) + 1) None)"
        using ls_data_malloc_Some[OF m[unfolded Some]] by simp
      have o3: "ndc_owns B k (add_mset evt_name (dispatcher_owned d s + M + N)) st1 ?s3"
        by (rule ndc_owns_write[OF _ _ blk]) (use o2 Some in simp_all)
      have same3: "events_same s ?s3 \<and> evmem.more ?s3 = evmem.more s"
        using same2 same_events_same[OF same_events_write, of s2 "(evt_name, 0)" "snd name @ [0]"]
        by (auto simp: events_same_def)
      obtain c s4 where c: "ls_data_calloc 1 sizeof_event ?s3 = (c, s4)" by fastforce
      note o4 = ndc_owns_calloc[OF o3 c] and e4 = grows_same[OF calloc_mem_grows[OF c]]
      have same4: "events_same s s4 \<and> evmem.more s4 = evmem.more s" using same3 e4 by (auto simp: events_same_def)
      show ?thesis
      proof (cases c)
        case None
        let ?s5 = "ls_data_free (Some evt_name) s4"
        have "d' = d" "s' = pop_eventing_ndc depth ?s5"
          using r p False m Some c None by (auto simp: ls_event_dispatcher_create_event_def Let_def)
        moreover have "ndc_owns B k (dispatcher_owned d s + M + N) st1 ?s5" using o4 None by (simp add: ndc_owns_free)
        moreover have "events_same s ?s5 \<and> evmem.more ?s5 = evmem.more s"
          using same4 same_events_same[OF same_events_free, of s4 "Some evt_name"] by (auto simp: events_same_def)
        ultimately show ?thesis using unchanged by blast
      next
        case (Some notifier)
        let ?ev = "\<lparr>ev_name_block = evt_name, ev_name = snd name, ev_source = di_source d, ev_bindings = None\<rparr>"
        let ?s5 = "s4\<lparr>event_at := (event_at s4)(notifier \<mapsto> ?ev)\<rparr>"
        have o5: "ndc_owns B k (add_mset notifier (add_mset evt_name (dispatcher_owned d s + M + N))) st1 ?s5"
          using o4 Some by simp
        then have "owns B k (add_mset notifier (add_mset evt_name (dispatcher_owned d s + M + N))) ?s5"
          by (simp add: ndc_owns_def)
        from owns_once[OF this] have fresh: "notifier \<notin># dispatcher_owned d s" by simp
        have other: "event_node ?s5 n \<and> node_blocks ?s5 n = node_blocks s n" if "n \<in># contents (di_events d)" for n
        proof -
          have "event_node s n" using form that by (simp add: dispatcher_form_def)
          moreover have "the (hn_value n) \<noteq> notifier" using fresh node_value_owned[OF that] by metis
          ultimately show ?thesis using event_upd_other[of s n notifier ?s5] same4 by (simp add: events_same_def)
        qed
        note kept = dispatcher_kept[OF form other]
        have nb: "bindings_of notifier ?s5 = Some []" by (simp add: bindings_of_iff)
        have eb: "event_blocks ?s5 notifier = {#notifier, evt_name#}" by (simp add: event_blocks_def nb)
        obtain g t s6 where put: "ls_htable_put (di_events d) ((evt_name, 0), snd name) (Some notifier)
            (Some clean_event) ?s5 = (g, t, s6)" by (rule prod_cases3)
        have new: "ls_htable_get (di_events d) ((evt_name, 0), snd name) = None"
          using False get_event_name[OF form, of "((evt_name, 0), snd name)" name] by simp
        have "ndc_owns B k (dispatcher_owned d ?s5 + (event_blocks ?s5 notifier + (M + N))) st1 ?s5"
          using o5 by (simp add: kept eb add.assoc)
        note pe = put_event[OF this kept(1) size new nb refl put]
        note e6 = grows_same[OF conjunct1[OF pe]]
        show ?thesis
        proof (cases g)
          case (Inl x)
          let ?s7 = "s6\<lparr>event_at := (event_at s6)(notifier := None)\<rparr>"
          let ?s8 = "ls_data_free (Some notifier) (ls_data_free (Some evt_name) ?s7)"
          let ?d = "d\<lparr>di_events := t\<rparr>"
          have d': "d' = ?d" "s' = pop_eventing_ndc depth ?s8"
            using r p False m \<open>a = _\<close> c Some put Inl by (auto simp: ls_event_dispatcher_create_event_def Let_def)
          have other7: "event_node ?s7 n \<and> node_blocks ?s7 n = node_blocks s6 n" if "n \<in># contents (di_events ?d)" for n
          proof -
            have n: "event_node s6 n" "n \<in># contents (di_events d)"
              using pe Inl that by (auto simp: dispatcher_form_def)
            moreover have "the (hn_value n) \<noteq> notifier" using fresh node_value_owned[OF n(2)] by metis
            ultimately show ?thesis using event_upd_other[of s6 n notifier ?s7] by simp
          qed
          note k7 = dispatcher_kept[of ?d s6 ?s7, OF _ other7]
          have "ndc_owns B k (add_mset evt_name (add_mset notifier (dispatcher_owned ?d ?s7 + (M + N)))) st1 ?s7"
            using pe Inl k7 by (simp add: eb add_mset_commute)
          then have "ndc_owns B k (dispatcher_owned ?d ?s7 + M + N) st1 ?s8"
            by (intro ndc_owns_free) (simp add: add.assoc)
          then have "ndc_owns B k (dispatcher_owned ?d ?s7 + M) st s'" unfolding d' by (rule b(2))
          moreover have same: "same_events ?s7 s'"
            unfolding d' using same_events_free same_events_pop same_events_trans by metis
          ultimately show ?thesis
            using events_same_blocks(4,5)[OF conjunct1[OF same_events_same[OF same]], of ?d] k7 pe same4 e6 same_events_same[OF same] Inl
            by (simp add: d')
        next
          case (Inr u)
          let ?d = "d\<lparr>di_events := t\<rparr>"
          have d': "d' = ?d" "s' = pop_eventing_ndc depth s6"
            using r p False m \<open>a = _\<close> c Some put Inr by (auto simp: ls_event_dispatcher_create_event_def Let_def)
          have "ndc_owns B k (dispatcher_owned ?d s6 + M + N) st1 s6" using pe Inr by (simp add: add.assoc)
          then have "ndc_owns B k (dispatcher_owned ?d s6 + M) st s'" unfolding d' by (rule b(2))
          moreover have same: "same_events s6 s'" unfolding d' by (rule same_events_pop)
          ultimately show ?thesis
            using events_same_blocks(4,5)[OF conjunct1[OF same_events_same[OF same]], of ?d] pe same4 e6 same_events_same[OF same]
            by (simp add: d')
        qed
      qed
    qed
  qed
qed


section \<open>Binding\<close>

text \<open>Only links change: which blocks there are, and which block has the name of an event, stays.\<close>

definition links_only :: "('d, 'z) evmem_scheme \<Rightarrow> ('d, 'z) evmem_scheme \<Rightarrow> bool" where
  "links_only s s' \<longleftrightarrow> (\<exists>f g. s' = s\<lparr>event_at := f, binding_at := g\<rparr>) \<and>
     (\<forall>x. map_option ev_name_block (event_at s' x) = map_option ev_name_block (event_at s x))"

lemma links_only_owns: "links_only s s' \<Longrightarrow> ndc_owns B k M ns s' = ndc_owns B k M ns s \<and> evmem.more s' = evmem.more s"
  by (auto simp: links_only_def)

lemma links_only_trans: "links_only s s' \<Longrightarrow> links_only s' s'' \<Longrightarrow> links_only s s''"
  by (fastforce simp: links_only_def)

lemma links_only_binding: "binding_at s a \<noteq> None \<Longrightarrow> links_only s (upd_binding a f s)"
  by (auto simp: links_only_def upd_binding_def intro!: exI[of _ "event_at s"])

lemma links_only_event:
  "event_at s e \<noteq> None \<Longrightarrow> (\<And>x. ev_name_block (f x) = ev_name_block x) \<Longrightarrow> links_only s (upd_event e f s)"
  by (auto simp: links_only_def upd_event_def intro!: exI[of _ "binding_at s"])

lemma upd_keeps_bindings: "binding_at s x \<noteq> None \<Longrightarrow> binding_at (upd_binding a f s) x \<noteq> None"
  "binding_at (upd_event e g s) x = binding_at s x"
  by (auto simp: upd_binding_def upd_event_def fault_def split: option.split)

lemma remove_links:
  assumes as: "bindings_of e s = Some as" and r: "remove_binding e cb s = Some (f, prev, s')"
  shows "links_only s s'"
proof -
  have ev: "event_at s e \<noteq> None" and ex: "\<And>a. a \<in> set as \<Longrightarrow> binding_at s a \<noteq> None"
    using as bpath_some by (auto simp: bindings_of_iff)
  let ?b = "takeWhile (\<lambda>a. \<not> has_cb s cb a) as"
  show ?thesis
  proof (cases "dropWhile (\<lambda>a. \<not> has_cb s cb a) as")
    case Nil
    then have "s' = s" using r remove_none[OF as, of cb] by simp
    then show ?thesis by (auto simp: links_only_def intro!: exI[of _ "event_at s"] exI[of _ "binding_at s"])
  next
    case (Cons found rest)
    then have fin: "found \<in> set as" by (metis list.set_intros(1) set_dropWhileD)
    let ?n = "case binding_at s found of Some b \<Rightarrow> bi_next b | None \<Rightarrow> None"
    let ?s1 = "case (if ?b = [] then None else Some (last ?b)) of
        None \<Rightarrow> upd_event e (\<lambda>ev. ev\<lparr>ev_bindings := ?n\<rparr>) s
      | Some p \<Rightarrow> upd_binding p (\<lambda>b. b\<lparr>bi_next := ?n\<rparr>) s"
    have s': "s' = upd_binding found (\<lambda>b. b\<lparr>bi_next := None\<rparr>) ?s1"
      using r unfolding remove_binding_def as Let_def option.case Cons list.case by (simp only: option.inject prod.inject) (elim conjE, hypsubst, rule refl)
    have "links_only s ?s1"
    proof (cases "?b = []")
      case False
      then have "last ?b \<in> set as" by (meson last_in_set set_takeWhileD)
      then show ?thesis using False ex by (simp add: links_only_binding)
    qed (simp add: links_only_event ev)
    moreover have "binding_at ?s1 found \<noteq> None"
      using ex[OF fin] by (cases "?b = []") (simp_all add: upd_keeps_bindings del: not_None_eq)
    ultimately show ?thesis unfolding s' using links_only_trans links_only_binding by blast
  qed
qed

lemma insert_links:
  assumes r: "insert_binding e a prev s = Some s'" and a: "binding_at s a \<noteq> None"
  shows "links_only s s'"
proof -
  have two: "links_only s (upd_binding p f (upd_binding a g s))" if "binding_at s p \<noteq> None" for p f g
    using that a links_only_trans[OF links_only_binding links_only_binding] upd_keeps_bindings(1) by blast
  have three: "links_only s (upd_event e f (upd_binding a g s))"
    if "event_at s e \<noteq> None" "\<And>x. ev_name_block (f x) = ev_name_block x" for f g
  proof -
    have "event_at (upd_binding a g s) e = event_at s e" by (auto simp: upd_binding_def fault_def split: option.split)
    then show ?thesis using that a links_only_trans[OF links_only_binding[OF a] links_only_event] by metis
  qed
  show ?thesis
    using r by (auto simp: insert_binding_def split: option.splits if_splits
        intro: links_only_event links_only_binding two three)
qed

text \<open>New bindings of one event are owned with it.\<close>

lemma relinked_owned:
  assumes form: "dispatcher_form d s" and n: "n \<in># contents (di_events d)" "hn_value n = Some e"
    and o: "owns B k (dispatcher_owned d s + M) s"
    and as: "bindings_of e s = Some as" "bindings_of e s' = Some as'" "mset as' = mset as + A"
    and other: "\<And>x. x \<notin> set as \<union> set as' \<Longrightarrow> binding_at s' x = binding_at s x"
      "\<And>x. x \<noteq> e \<Longrightarrow> event_at s' x = event_at s x"
    and name: "map_option ev_name_block (event_at s' e) = map_option ev_name_block (event_at s e)"
    and new: "\<And>x. x \<in># A \<Longrightarrow> x \<notin># dispatcher_owned d s"
  shows "dispatcher_form d s'" "dispatcher_owned d s' = dispatcher_owned d s + A"
proof -
  obtain C where C: "contents (di_events d) = add_mset n C" using n(1) by (metis insert_DiffM)
  have "dispatcher_owned d s = event_blocks s e + (add_mset (hn_self n) ({#di_self d, ht_self (di_events d),
      ht_block (di_events d)#} + sum_mset (image_mset (node_blocks s) C)))"
    by (simp add: dispatcher_owned_def C node_blocks_def[of s n] n(2))
  then have "owns B k (event_blocks s e + (add_mset (hn_self n) ({#di_self d, ht_self (di_events d),
      ht_block (di_events d)#} + sum_mset (image_mset (node_blocks s) C)) + M)) s"
    using o by (simp only: add.assoc)
  from owns_disjoint[OF this] have dis: "set_mset (event_blocks s e) \<inter>
      set_mset (sum_mset (image_mset (node_blocks s) C)) = {}" by auto
  have others: "event_node s' m \<and> node_blocks s' m = node_blocks s m" if m: "m \<in># C" for m
  proof -
    obtain e' bs where m': "hn_cleaner m = Some clean_event" "hn_value m = Some e'" "bindings_of e' s = Some bs"
      using form m C by (auto simp: dispatcher_form_def event_node_def)
    have "set_mset (event_blocks s e') \<subseteq> set_mset (sum_mset (image_mset (node_blocks s) C))"
      using m m'(2) by (force simp: node_blocks_def)
    then have d: "set_mset (event_blocks s e) \<inter> set_mset (event_blocks s e') = {}" using dis by blast
    then have ne: "e' \<noteq> e" "set as \<inter> set bs = {}" using as(1) m'(3) by (auto simp: event_blocks_def)
    have "set bs \<subseteq> set_mset (dispatcher_owned d s)"
      using m m'(2,3) by (force simp: dispatcher_owned_def C node_blocks_def event_blocks_def)
    then have "set bs \<inter> set_mset A = {}" using new by blast
    then have "x \<notin> set as \<union> set as'" if "x \<in> set bs" for x
      using that ne(2) as(3) by (metis Un_iff disjoint_iff set_mset_mset set_mset_union)
    then have b: "bpath (binding_at s') q bs = bpath (binding_at s) q bs" for q using other(1) bpath_cong by metis
    then have "bindings_of e' s' = Some bs" using m'(3) other(2)[OF ne(1)] by (simp add: bindings_of_iff)
    then show ?thesis using m' other(2)[OF ne(1)] by (simp add: event_node_def node_blocks_def event_blocks_def)
  qed
  have "hn_cleaner n = Some clean_event" using form n(1) by (auto simp: dispatcher_form_def event_node_def)
  then have "event_node s' n" using n(2) as(2) by (simp add: event_node_def)
  then show "dispatcher_form d s'" using form others C by (auto simp: dispatcher_form_def)
  have "ev_name_block (the (event_at s' e)) = ev_name_block (the (event_at s e))"
    using name as(1) by (auto simp: bindings_of_iff)
  then have "node_blocks s' n = node_blocks s n + A" using n(2) as by (simp add: node_blocks_def event_blocks_def)
  moreover have "image_mset (node_blocks s') C = image_mset (node_blocks s) C" using others by (intro image_mset_cong) simp
  ultimately show "dispatcher_owned d s' = dispatcher_owned d s + A" by (simp add: dispatcher_owned_def C)
qed

lemma bind_event_owns:
  fixes s :: "('d, 'z) evmem_scheme"
  assumes o: "ndc_owns B k (dispatcher_owned d s + M) st s" and form: "dispatcher_form d s"
    and n: "n \<in># contents (di_events d)" "hn_value n = Some e"
  shows "\<exists>r s'. ls_event_bind e cb arg d s = Some (r, s') \<and> dispatcher_form d s' \<and>
    ndc_owns B k (dispatcher_owned d s' + M) st s' \<and> evmem.more s' = evmem.more s"
proof -
  obtain depth s1 where p: "push_eventing_ndc (Some (di_self d)) ''ls_event_bind'' s = (depth, s1)" by fastforce
  note e1 = same_events_same[OF same_events_push[OF p]]
  note kept1 = events_same_blocks(4,5)[OF conjunct1[OF e1], of d]
  obtain N st1 where b: "ndc_owns B k (dispatcher_owned d s + M + N) st1 s1"
    "\<And>M' (s2 :: ('d, 'z) evmem_scheme). ndc_owns B k (M' + N) st1 s2 \<Longrightarrow> ndc_owns B k M' st (pop_eventing_ndc depth s2)"
    using eventing_bracket[OF o p] by metis
  have form1: "dispatcher_form d s1" using form kept1 by simp
  have own1: "ndc_owns B k (dispatcher_owned d s1 + (M + N)) st1 s1" using b(1) kept1 by (simp add: add.assoc)
  have fin: ?thesis if "ls_event_bind e cb arg d s = Some (r, pop_eventing_ndc depth s2)" "dispatcher_form d s2"
    "ndc_owns B k (dispatcher_owned d s2 + (M + N)) st1 s2" "evmem.more s2 = evmem.more s" for r s2
  proof -
    have same: "same_events s2 (pop_eventing_ndc depth s2)" by (rule same_events_pop)
    have "ndc_owns B k (dispatcher_owned d s2 + M) st (pop_eventing_ndc depth s2)" by (rule b(2)) (use that(3) in \<open>simp add: add.assoc\<close>)
    then show ?thesis using that events_same_blocks(4,5)[OF conjunct1[OF same_events_same[OF same]], of d] same_events_same[OF same]
      by auto
  qed
  have "event_node s1 n" using form1 n(1) by (simp add: dispatcher_form_def)
  then obtain as where as: "bindings_of e s1 = Some as" using n(2) by (auto simp: event_node_def)
  have o1: "owns B k (dispatcher_owned d s1 + (M + N)) s1" using own1 by (simp add: ndc_owns_def)
  show ?thesis
    using as
  proof (cases rule: find_split[where c = cb])
    case absent
    obtain c s3 where c: "ls_data_calloc 1 sizeof_binding s1 = (c, s3)" by fastforce
    note o3 = ndc_owns_calloc[OF own1 c] and e3 = grows_same[OF calloc_mem_grows[OF c]]
    show ?thesis
    proof (cases c)
      case None
      have "ls_event_bind e cb arg d s = Some (Inl LS_ERR_NO_MEMORY, pop_eventing_ndc depth s3)"
        using remove_none[OF as absent(1)] c None p by (simp add: ls_event_bind_def)
      then show ?thesis
        by (rule fin) (use o3 None e1 e3 form1 events_same_blocks(4,5)[OF conjunct1[OF e3], of d] in simp_all)
    next
      case (Some a)
      let ?s4 = "s3\<lparr>binding_at := (binding_at s3)(a \<mapsto> \<lparr>bi_cb = cb, bi_arg = arg, bi_next = None,
               bi_unbound = False, bi_normal_bound = False\<rparr>)\<rparr>"
      have o4: "ndc_owns B k (add_mset a (dispatcher_owned d s1 + (M + N))) st1 ?s4" using o3 Some by simp
      then have "owns B k (add_mset a (dispatcher_owned d s1 + (M + N))) ?s4" by (simp add: ndc_owns_def)
      from owns_once[OF this] have fresh: "a \<notin># dispatcher_owned d s1" by simp
      have "node_blocks s1 n \<subseteq># dispatcher_owned d s1"
        using n(1) by (auto simp: dispatcher_owned_def dest!: multi_member_split intro: subset_mset.add_increasing)
      then have "set as \<subseteq> set_mset (dispatcher_owned d s1)"
        using n(2) as by (auto simp: node_blocks_def event_blocks_def dest!: set_mset_mono)
      then have anew: "a \<notin> set as" using fresh by blast
      have "bindings_of e ?s4 = Some (as @ [])" using as anew e3 by (simp add: bindings_of_iff bpath_upd events_same_def)
      from insert_binding_at[OF this, of a] obtain s5 where
        r: "insert_binding e a (if as = [] then None else Some (last as)) ?s4 = Some s5"
        and rel: "relink e as ?s4 (as @ [a]) s5" using anew by auto
      have lk: "links_only ?s4 s5" by (rule insert_links[OF r]) simp
      have own5: "dispatcher_form d s5 \<and> dispatcher_owned d s5 = dispatcher_owned d s1 + {#a#}"
      proof (intro conjI; rule relinked_owned[OF form1 n o1 as, where as' = "as @ [a]" and A = "{#a#}"])
      qed (use rel e3 lk fresh in \<open>auto simp: relink_def events_same_def links_only_def\<close>)
      have bind: "ls_event_bind e cb arg d s = Some (Inr (), pop_eventing_ndc depth s5)"
        using remove_none[OF as absent(1)] c Some p r by (simp add: ls_event_bind_def)
      show ?thesis by (rule fin[OF bind]) (use own5 o4 links_only_owns[OF lk] e1 e3 in auto)
    qed
  next
    case (found xs f ys)
    have df: "f \<notin> set xs" "f \<notin> set ys"
      using as bpath_distinct[of "binding_at s1" _ "xs @ f # ys"] found(1) by (auto simp: bindings_of_iff)
    let ?prev = "if xs = [] then None else Some (last xs)"
    obtain s2 x where rm: "remove_binding e cb s1 = Some (Some f, ?prev, s2)"
      and rel: "relink e (xs @ f # ys) s1 (xs @ ys) s2" and b2: "binding_at s2 f = Some (x\<lparr>bi_next := None\<rparr>)"
      using remove_found[OF as[unfolded found(1)] found(2,3)] by blast
    let ?g = "\<lambda>b. \<lparr>bi_cb = cb, bi_arg = arg, bi_next = None, bi_unbound = False, bi_normal_bound = bi_normal_bound b\<rparr>"
    let ?s3 = "upd_binding f ?g s2"
    have s3: "?s3 = s2\<lparr>binding_at := (binding_at s2)(f \<mapsto> ?g x)\<rparr>" using b2 by (simp add: upd_binding_def)
    have "bindings_of e ?s3 = Some (xs @ ys)"
      unfolding s3 using rel df by (simp add: relink_def bindings_of_iff bpath_upd)
    from insert_binding_at[OF this, of f "?g x"] obtain s5 where
      r: "insert_binding e f ?prev ?s3 = Some s5" and rel': "relink e (xs @ ys) ?s3 (xs @ f # ys) s5"
      using df by (auto simp: s3)
    have lk: "links_only s1 s5"
      using links_only_trans[OF remove_links[OF as rm] links_only_trans[OF links_only_binding insert_links[OF r]]] b2
      by (simp add: s3)
    have own5: "dispatcher_form d s5 \<and> dispatcher_owned d s5 = dispatcher_owned d s1 + {#}"
    proof (intro conjI; rule relinked_owned[OF form1 n o1 as, where as' = "xs @ f # ys" and A = "{#}"])
    qed (use rel rel' lk found(1) df in \<open>auto simp: relink_def s3 links_only_def\<close>)
    have bind: "ls_event_bind e cb arg d s = Some (Inr (), pop_eventing_ndc depth s5)"
      using rm r p by (simp add: ls_event_bind_def)
    show ?thesis by (rule fin[OF bind]) (use own5 own1 links_only_owns[OF lk] e1 in auto)
  qed
qed

text \<open>Looking an event up.\<close>

lemma get_event_owns:
  fixes s :: "('d, 'z) evmem_scheme"
  assumes o: "ndc_owns B k M st s" and r: "ls_event_dispatcher_get_event name d s = (res, s')"
  shows "ndc_owns B k M st s'" "same_events s s'"
    "res = Some e \<Longrightarrow> \<exists>n. n \<in># contents (di_events d) \<and> hn_value n = Some e"
proof -
  obtain depth s1 where p: "push_eventing_ndc (Some (di_self d)) ''ls_event_dispatcher_get_event'' s = (depth, s1)"
    by fastforce
  then have s': "s' = pop_eventing_ndc depth s1" "res = ls_htable_get (di_events d) name"
    using r by (simp_all add: ls_event_dispatcher_get_event_def)
  obtain N st1 where b: "ndc_owns B k (M + N) st1 s1"
    "\<And>M' (s2 :: ('d, 'z) evmem_scheme). ndc_owns B k (M' + N) st1 s2 \<Longrightarrow> ndc_owns B k M' st (pop_eventing_ndc depth s2)"
    using eventing_bracket[OF o p] by metis
  show "ndc_owns B k M st s'" unfolding s' by (rule b(2)[OF b(1)])
  show "same_events s s'" unfolding s' using same_events_push[OF p] same_events_pop same_events_trans by metis
  show "\<exists>n. n \<in># contents (di_events d) \<and> hn_value n = Some e" if found: "res = Some e"
  proof -
    obtain n where "find_node (di_events d) name (-1) 0 = Some n" "hn_value n = Some e"
      using found s'(2) by (auto simp: ls_htable_get_def split: option.splits)
    then show ?thesis using find_node_Some in_contents by (intro exI[of _ "unplaced n"]) fastforce
  qed
qed

end
