(* ===== verification/Ls_Dispatch.thy ===== *)
theory Ls_Dispatch
  imports Ls_Eventing_Props
begin

text \<open>
  Dispatching is a queue: what the dispatcher does when an event is triggered, also from the
  callbacks of events that are being dispatched, is what a first-in first-out queue of moments does.

  The specification is the function \<open>run_queue\<close> on lists.  It is for callbacks that trigger events,
  set the flag of their event data and do other work that leaves the dispatcher alone; and memory is
  taken to be available.
\<close>

section \<open>The specification\<close>

text \<open>A moment in the queue: event, data and result callback with its argument.\<close>

type_synonym 'd request = "addr \<times> 'd \<times> nat option \<times> nat"

text \<open>The flag after the actions of a callback, and the events it triggers.\<close>

fun actions_effect :: "('d, 's) action list \<Rightarrow> bool \<Rightarrow> bool \<times> 'd request list" where
  "actions_effect [] h = (h, [])"
| "actions_effect (Trigger e data # xs) h =
     (case actions_effect xs h of (h1, ts) \<Rightarrow> (h1, (e, data, None, 0) # ts))"
| "actions_effect (Handled b # xs) h = actions_effect xs b"
| "actions_effect (_ # xs) h = actions_effect xs h"

text \<open>The calls for the bindings of an event: the event data after them, the calls, and the requests.
  Once the flag is set it stays set.\<close>

fun calls_effect ::
  "('d, 's) programs \<Rightarrow> 'd evdata \<Rightarrow> (nat \<times> nat) list \<Rightarrow>
   'd evdata \<times> (nat \<times> nat \<times> 'd evdata) list \<times> 'd request list" where
  "calls_effect prog evt [] = (evt, [], [])"
| "calls_effect prog evt ((cb, arg) # bs) =
     (case actions_effect (pr_notify prog cb arg evt) (ed_handled evt) of
        (h, ts) \<Rightarrow>
          (case calls_effect prog (evt\<lparr>ed_handled := ed_handled evt \<or> h\<rparr>) bs of
             (evt1, cs, us) \<Rightarrow> (evt1, (cb, arg, evt) # cs, ts @ us)))"

text \<open>A moment: its calls, the call of its result callback, and the requests of all these.\<close>

definition moment_effect ::
  "('d, 's) programs \<Rightarrow> (addr \<Rightarrow> 'd \<Rightarrow> 'd evdata) \<Rightarrow> (addr \<Rightarrow> (nat \<times> nat) list) \<Rightarrow> 'd request \<Rightarrow>
   (nat \<times> nat \<times> 'd evdata) list \<times> (nat \<times> nat \<times> 'd evdata) list \<times> 'd request list" where
  "moment_effect prog evt_of bnd r =
     (case r of
        (e, data, result_cb, result_arg) \<Rightarrow>
          (case calls_effect prog (evt_of e data) (bnd e) of
             (evt, cs, ts) \<Rightarrow>
               (case result_cb of
                  None \<Rightarrow> (cs, [], ts)
                | Some f \<Rightarrow>
                    (cs, [(f, result_arg, evt)],
                     ts @ snd (actions_effect (pr_result prog f result_arg evt) (ed_handled evt))))))"

text \<open>The queue, with fuel: all the calls and all the results, in order.\<close>

fun run_queue ::
  "nat \<Rightarrow> ('d, 's) programs \<Rightarrow> (addr \<Rightarrow> 'd \<Rightarrow> 'd evdata) \<Rightarrow> (addr \<Rightarrow> (nat \<times> nat) list) \<Rightarrow> 'd request list \<Rightarrow>
   ((nat \<times> nat \<times> 'd evdata) list \<times> (nat \<times> nat \<times> 'd evdata) list) option" where
  "run_queue n prog evt_of bnd [] = Some ([], [])"
| "run_queue 0 prog evt_of bnd (r # rs) = None"
| "run_queue (Suc n) prog evt_of bnd (r # rs) =
     (case moment_effect prog evt_of bnd r of
        (cs, res, ts) \<Rightarrow>
          map_option (\<lambda>(cs1, res1). (cs @ cs1, res @ res1)) (run_queue n prog evt_of bnd (rs @ ts)))"

section \<open>Moments in memory\<close>

definition pool_plain :: "'s pool \<Rightarrow> bool" where
  "pool_plain p \<longleftrightarrow> (\<forall>c \<in> set (p_cleaners p). \<forall>f. cc_cleaner c \<noteq> User_cleaner f)"

definition mem_frame :: "mem \<Rightarrow> mem \<Rightarrow> bool" where
  "mem_frame m m' \<longleftrightarrow> next_addr m \<le> next_addr m' \<and> malloc_func m' = malloc_func m"

lemma on_mem_same:
  assumes "on_mem f s = (r, s')" "mem_frame (mem.truncate s) (snd (f (mem.truncate s)))"
  shows "same_events s s'"
proof -
  obtain r1 m where f: "f (mem.truncate s) = (r1, m)" by fastforce
  have s': "s' = mem.extend m (mem.more s)" using assms(1) f by (simp add: on_mem_def)
  show ?thesis using assms(2) unfolding s' f
    by (cases s; cases m) (simp add: same_events_def mem_frame_def mem.defs)
qed

lemma mem_frame_free: "mem_frame m (ls_data_free p m)"
  by (auto simp: mem_frame_def ls_data_free_def fault_def split: option.split)

lemma mem_frame_trans: "mem_frame a b \<Longrightarrow> mem_frame b c \<Longrightarrow> mem_frame a c"
  by (auto simp: mem_frame_def)

lemma mem_frame_page: "mem_frame m (free_page pages a m)"
  by (auto simp: free_page_def fault_def mem_frame_def ls_data_free_def split: option.split)

lemma mem_frame_cleaners:
  "\<forall>c \<in> set cs. \<forall>f. cc_cleaner c \<noteq> User_cleaner f \<Longrightarrow> mem_frame m (destroy_cleaners pages cs m)"
proof (induction cs arbitrary: m)
  case (Cons c cs)
  have "mem_frame m (run_cleaner pages c m)"
    using Cons.prems by (auto simp: run_cleaner_def mem_frame_page mem_frame_free split: cleaner.split)
  moreover have "mem_frame (ls_data_free (Some (cc_self c)) (run_cleaner pages c m)) (destroy_cleaners pages cs
      (ls_data_free (Some (cc_self c)) (run_cleaner pages c m)))" using Cons by simp
  ultimately show ?case using mem_frame_free mem_frame_trans by (simp only: destroy_cleaners.simps) blast
qed (simp add: mem_frame_def)

lemma mem_frame_destroy: "pool_plain p \<Longrightarrow> mem_frame m (ls_pool_destroy p m)"
  unfolding ls_pool_destroy_def pool_plain_def using mem_frame_cleaners mem_frame_free mem_frame_trans by blast

lemma moment_destroy_same:
  assumes "pool_plain (mo_pool mo)"
  shows "same_events (s\<lparr>moment_at := (moment_at s)(a := None)\<rparr>) (moment_destroy a mo s)"
  unfolding moment_destroy_def
  by (rule on_mem_same[where r = "()"])
    (auto simp: on_mem_def mem_frame_destroy[OF assms] split: prod.split)

text \<open>With memory available, trigger data is made: its moment is at a new address.\<close>

lemma prepare_trigger_ok:
  assumes "\<And>n k. malloc_func s n k"
  shows "\<exists>td s'. prepare_trigger s = (Inr td, s') \<and> same_events s s' \<and> pool_plain (td_pool td) \<and>
           next_addr s \<le> td_moment td \<and> td_moment td < next_addr s'"
proof -
  let ?m = "mem.truncate s"
  have m: "\<And>n k. malloc_func ?m n k" "next_addr ?m = next_addr s"
    using assms by (cases s; simp add: mem.defs)+
  let ?f = "\<lambda>m. case ls_pool_create MOMENT_POOLSIZE m of
         (Inl e, m1) \<Rightarrow> (Inl e, m1)
       | (Inr pool, m1) \<Rightarrow>
           (case ls_pool_calloc pool 1 sizeof_moment m1 of
              (Inr (Some (mo, off)), p2, m2) \<Rightarrow>
                (case ls_pool_malloc p2 sizeof_trigger m2 of
                   (Inr (Some td), p3, m3) \<Rightarrow>
                     (Inr \<lparr>td_self = td, td_moment = mo, td_pool = p3\<rparr>, m3)
                 | (Inr None, p3, m3) \<Rightarrow> (Inl LS_ERR_NONE, fault m3)
                 | (Inl e, p3, m3) \<Rightarrow> (Inl e, ls_pool_destroy p3 m3))
            | (Inr None, p2, m2) \<Rightarrow> (Inl LS_ERR_NONE, fault m2)
            | (Inl e, p2, m2) \<Rightarrow> (Inl e, ls_pool_destroy p2 m2))"
  have "\<exists>td m'. ?f ?m = (Inr td, m') \<and> mem_frame ?m m' \<and> pool_plain (td_pool td) \<and>
          next_addr ?m \<le> td_moment td \<and> td_moment td < next_addr m'"
    using m by (simp add: ls_pool_create_def MOMENT_POOLSIZE_def malloc_fnc_def ls_data_malloc_def Let_def
        ls_pool_calloc_def ls_pool_malloc_def malloc_fnc_cleaner_def ls_pool_add_cleaner_def
        sizeof_moment_def sizeof_trigger_def size_mult_def write_bytes_def mem_frame_def pool_plain_def)
  then obtain td m' where f: "?f ?m = (Inr td, m')" "mem_frame ?m m'" "pool_plain (td_pool td)"
    "next_addr ?m \<le> td_moment td" "td_moment td < next_addr m'" by blast
  let ?s = "mem.extend m' (mem.more s)"
  have p: "prepare_trigger s = (Inr td, ?s)" using f(1) by (simp add: prepare_trigger_def on_mem_def)
  have "same_events s ?s"
    using on_mem_same[OF p[unfolded prepare_trigger_def]] f(1,2) by simp
  moreover have "next_addr ?s = next_addr m'" by (cases m') (simp add: mem.defs)
  ultimately show ?thesis using p f m(2) by auto
qed

section \<open>The queue in memory\<close>

fun mpath :: "(addr \<Rightarrow> 'd moment option) \<Rightarrow> addr option \<Rightarrow> addr list \<Rightarrow> bool" where
  "mpath M p [] \<longleftrightarrow> p = None"
| "mpath M p (a # as) \<longleftrightarrow> p = Some a \<and> (\<exists>x. M a = Some x \<and> mpath M (mo_next x) as)"

lemma mpath_cong: "(\<And>x. x \<in> set as \<Longrightarrow> map_option mo_next (M' x) = map_option mo_next (M x)) \<Longrightarrow> mpath M' p as = mpath M p as"
proof (induction as arbitrary: p)
  case (Cons a as)
  have "map_option mo_next (M' a) = map_option mo_next (M a)" using Cons.prems by simp
  then show ?case using Cons by (cases "M a"; cases "M' a") auto
qed simp

lemma mpath_snoc:
  "mpath M p (xs @ [l]) \<Longrightarrow> l \<notin> set xs \<Longrightarrow> M' l = Some y \<Longrightarrow> mo_next y = Some n \<Longrightarrow> M' n = Some z \<Longrightarrow>
   mo_next z = None \<Longrightarrow> (\<And>x. x \<in> set xs \<Longrightarrow> map_option mo_next (M' x) = map_option mo_next (M x)) \<Longrightarrow>
   mpath M' p (xs @ [l, n])"
proof (induction xs arbitrary: p)
  case (Cons a xs)
  have "map_option mo_next (M' a) = map_option mo_next (M a)" using Cons.prems(7) by simp
  then show ?case using Cons by (cases "M a"; cases "M' a") auto
qed auto

lemma mpath_some: "mpath M p as \<Longrightarrow> a \<in> set as \<Longrightarrow> M a \<noteq> None"
  by (induction as arbitrary: p) auto

definition evt_of :: "'s dispatcher \<Rightarrow> ('d, 'z) evmem_scheme \<Rightarrow> addr \<Rightarrow> 'd \<Rightarrow> 'd evdata" where
  "evt_of d s e data =
     \<lparr>ed_source = di_source d, ed_name = ev_name (the (event_at s e)), ed_notifier = e, ed_data = data,
      ed_selected = None, ed_handled = False\<rparr>"

fun holds :: "addr set \<Rightarrow> ('d, 'z) evmem_scheme \<Rightarrow> 'd evdata \<Rightarrow> 'd moment \<Rightarrow> 'd request \<Rightarrow> bool" where
  "holds E s evt x (e, data, rcb, rarg) \<longleftrightarrow>
     e \<in> E \<and> mo_evt x = evt \<and> ed_notifier evt = e \<and> mo_result_cb x = rcb \<and> mo_result_arg x = rarg \<and>
     mo_bindings x = ev_bindings (the (event_at s e)) \<and> pool_plain (mo_pool x)"

definition waits :: "addr set \<Rightarrow> 's dispatcher \<Rightarrow> ('d, 'z) evmem_scheme \<Rightarrow> addr \<Rightarrow> 'd request \<Rightarrow> bool" where
  "waits E d s a r \<longleftrightarrow>
     (\<exists>x. moment_at s a = Some x \<and> holds E s (evt_of d s (fst r) (fst (snd r))) x r)"

text \<open>The moments \<open>ms\<close>, waiting, hold the requests \<open>q\<close>.\<close>

definition linked :: "'s dispatcher \<Rightarrow> ('d, 'z) evmem_scheme \<Rightarrow> addr list \<Rightarrow> bool" where
  "linked d s ms \<longleftrightarrow> mpath (moment_at s) (di_next d) ms \<and> distinct ms \<and>
     di_tail d = (if ms = [] then None else Some (last ms)) \<and> (\<forall>a \<in> set ms. a < next_addr s)"

definition queued :: "addr set \<Rightarrow> 's dispatcher \<Rightarrow> ('d, 'z) evmem_scheme \<Rightarrow> addr list \<Rightarrow> 'd request list \<Rightarrow> bool" where
  "queued E d s ms q \<longleftrightarrow> linked d s ms \<and> list_all2 (waits E d s) ms q"

text \<open>The first moment is being dispatched.\<close>

definition busy ::
  "addr set \<Rightarrow> 's dispatcher \<Rightarrow> ('d, 'z) evmem_scheme \<Rightarrow> addr \<Rightarrow> 'd evdata \<Rightarrow> 'd request \<Rightarrow> addr list \<Rightarrow>
   'd request list \<Rightarrow> bool" where
  "busy E d s mo evt r ms q \<longleftrightarrow>
     linked d s (mo # ms) \<and> list_all2 (waits E d s) ms q \<and> di_running d = Some (fst r) \<and>
     \<not> di_destroy_pending d \<and> (\<exists>x. moment_at s mo = Some x \<and> holds E s evt x r)"

section \<open>What stays\<close>

definition bsim :: "(addr \<Rightarrow> binding option) \<Rightarrow> (addr \<Rightarrow> binding option) \<Rightarrow> bool" where
  "bsim B B' \<longleftrightarrow> (\<forall>a. rel_option (\<lambda>b b'. b' = b\<lparr>bi_normal_bound := bi_normal_bound b'\<rparr>) (B a) (B' a))"

lemma bsim_refl [simp]: "bsim B B"
  by (simp add: bsim_def option.rel_refl)

lemma bsim_trans: "bsim B B' \<Longrightarrow> bsim B' B'' \<Longrightarrow> bsim B B''"
proof -
  assume "bsim B B'" "bsim B' B''"
  moreover have "rel_option (\<lambda>b b'. b' = b\<lparr>bi_normal_bound := bi_normal_bound b'\<rparr>) x z"
    if "rel_option (\<lambda>b b'. b' = b\<lparr>bi_normal_bound := bi_normal_bound b'\<rparr>) x y"
      "rel_option (\<lambda>b b'. b' = b\<lparr>bi_normal_bound := bi_normal_bound b'\<rparr>) y z" for x y z :: "binding option"
    using that by (cases x; cases y; cases z) (auto, metis binding.surjective binding.update_convs(5))
  ultimately show ?thesis unfolding bsim_def by blast
qed

lemma bsim_cases:
  assumes "bsim B B'" "B a = Some b"
  obtains b' where "B' a = Some b'" "bi_cb b' = bi_cb b" "bi_arg b' = bi_arg b" "bi_next b' = bi_next b"
    "bi_unbound b' = bi_unbound b"
proof -
  have "rel_option (\<lambda>b b'. b' = b\<lparr>bi_normal_bound := bi_normal_bound b'\<rparr>) (Some b) (B' a)"
    using assms unfolding bsim_def by metis
  then obtain b' where b': "B' a = Some b'" "b' = b\<lparr>bi_normal_bound := bi_normal_bound b'\<rparr>"
    by (auto simp: option_rel_Some1)
  then have "bi_cb b' = bi_cb b" "bi_arg b' = bi_arg b" "bi_next b' = bi_next b" "bi_unbound b' = bi_unbound b"
    by (metis binding.select_convs binding.surjective binding.update_convs(5))+
  then show ?thesis using that b'(1) by blast
qed

lemma bsim_bpath: "bsim B B' \<Longrightarrow> bpath B p as \<Longrightarrow> bpath B' p as"
proof (induction as arbitrary: p)
  case (Cons a as)
  then obtain b where b: "p = Some a" "B a = Some b" "bpath B (bi_next b) as" by auto
  obtain b' where "B' a = Some b'" "bi_next b' = bi_next b" by (rule bsim_cases[OF Cons.prems(1) b(2)])
  then show ?case using Cons.IH[OF Cons.prems(1) b(3)] b(1) by simp
qed simp

text \<open>The events and their bindings are the same, and memory is available as before.\<close>

definition calm ::
  "(('d, 'z) evmem_scheme \<Rightarrow> ('d, 'z) evmem_scheme \<Rightarrow> bool) \<Rightarrow>
   ('d, 'z) evmem_scheme \<Rightarrow> ('d, 'z) evmem_scheme \<Rightarrow> bool" where
  "calm R s s' \<longleftrightarrow> bsim (binding_at s) (binding_at s') \<and> event_at s' = event_at s \<and>
     next_addr s \<le> next_addr s' \<and> malloc_func s' = malloc_func s \<and> R s s'"

text \<open>The events of a set can be dispatched.\<close>

definition ready :: "addr set \<Rightarrow> ('d, 'z) evmem_scheme \<Rightarrow> bool" where
  "ready E s \<longleftrightarrow> lists_ok E s \<and> (\<forall>e \<in> E. \<forall>a \<in> set (the (bindings_of e s)). \<not> marked s a) \<and>
     (\<forall>n k. malloc_func s n k)"

text \<open>The moments are the same but for their links.\<close>

definition msim :: "('d, 'z) evmem_scheme \<Rightarrow> ('d, 'z) evmem_scheme \<Rightarrow> bool" where
  "msim s s' \<longleftrightarrow> event_at s' = event_at s \<and>
     (\<forall>a. map_option (\<lambda>x. x\<lparr>mo_next := None\<rparr>) (moment_at s' a) =
          map_option (\<lambda>x. x\<lparr>mo_next := None\<rparr>) (moment_at s a))"

lemma msim_cases:
  assumes "msim s s'" "moment_at s a = Some x"
  obtains n where "moment_at s' a = Some (x\<lparr>mo_next := n\<rparr>)"
proof -
  obtain y where y: "moment_at s' a = Some y" "y\<lparr>mo_next := None\<rparr> = x\<lparr>mo_next := None\<rparr>"
  proof -
    have "map_option (\<lambda>x. x\<lparr>mo_next := None\<rparr>) (moment_at s' a) = Some (x\<lparr>mo_next := None\<rparr>)"
      using assms by (simp add: msim_def)
    then show ?thesis using that by auto
  qed
  then have "y = x\<lparr>mo_next := mo_next y\<rparr>" by (cases x; cases y) simp
  then show ?thesis using that y(1) by metis
qed

lemma holds_msim:
  "msim s s' \<Longrightarrow> holds E s evt x r \<Longrightarrow> holds E s' evt (x\<lparr>mo_next := n\<rparr>) r"
  by (cases r) (auto simp: msim_def)

lemma waits_msim:
  assumes "msim s s'" "di_source d' = di_source d" "waits E d s a r"
  shows "waits E d' s' a r"
proof -
  obtain x where x: "moment_at s a = Some x" "holds E s (evt_of d s (fst r) (fst (snd r))) x r"
    using assms(3) by (auto simp: waits_def)
  obtain n where n: "moment_at s' a = Some (x\<lparr>mo_next := n\<rparr>)" by (rule msim_cases[OF assms(1) x(1)])
  have "evt_of d' s' = evt_of d s" using assms(1,2) by (intro ext) (simp add: evt_of_def msim_def)
  then show ?thesis using n holds_msim[OF assms(1) x(2)] by (simp add: waits_def)
qed

lemma enqueue_ok:
  assumes "linked d s ms" "moment_at s n = Some x" "mo_next x = None" "n \<notin> set ms" "n < next_addr s"
  shows "\<exists>M. enqueue_moment n d s =
           Some (d\<lparr>di_next := Some (hd (ms @ [n])), di_tail := Some n\<rparr>, s\<lparr>moment_at := M\<rparr>) \<and>
           linked (d\<lparr>di_next := Some (hd (ms @ [n])), di_tail := Some n\<rparr>) (s\<lparr>moment_at := M\<rparr>) (ms @ [n]) \<and>
           msim s (s\<lparr>moment_at := M\<rparr>)"
proof (cases "ms = []")
  case True
  then have d: "di_next d = None" "di_tail d = None" using assms(1) by (simp_all add: linked_def)
  have "enqueue_moment n d s = Some (d\<lparr>di_next := Some n, di_tail := Some n\<rparr>, s\<lparr>moment_at := moment_at s\<rparr>)"
    using d by (simp add: enqueue_moment_def)
  then show ?thesis using assms True by (intro exI[of _ "moment_at s"]) (simp add: linked_def msim_def)
next
  case False
  then obtain xs t where ms: "ms = xs @ [t]" by (metis rev_exhaust)
  have l: "mpath (moment_at s) (di_next d) (xs @ [t])" "distinct (xs @ [t])" "di_tail d = Some t"
    "\<forall>a \<in> set ms. a < next_addr s"
    using assms(1) ms by (simp_all add: linked_def)
  obtain y where y: "moment_at s t = Some y" using mpath_some[OF l(1)] by fastforce
  let ?M = "(moment_at s)(t \<mapsto> y\<lparr>mo_next := Some n\<rparr>)"
  have nt: "n \<noteq> t" "n \<notin> set xs" using assms(4) ms by auto
  have p: "mpath ?M (di_next d) (xs @ [t, n])"
    by (rule mpath_snoc[OF l(1), where y = "y\<lparr>mo_next := Some n\<rparr>" and z = x])
      (use l(2) nt assms(2,3) in auto)
  have h: "di_next d = Some (hd (ms @ [n]))" using l(1) ms by (cases xs) auto
  have e: "enqueue_moment n d s =
      Some (d\<lparr>di_next := Some (hd (ms @ [n])), di_tail := Some n\<rparr>, s\<lparr>moment_at := ?M\<rparr>)"
    using h l(3) y by (simp add: enqueue_moment_def)
  have "linked (d\<lparr>di_next := Some (hd (ms @ [n])), di_tail := Some n\<rparr>) (s\<lparr>moment_at := ?M\<rparr>) (ms @ [n])"
    using p h l(2,4) nt ms assms(4,5) by (auto simp: linked_def)
  moreover have "msim s (s\<lparr>moment_at := ?M\<rparr>)" using y by (simp add: msim_def)
  ultimately show ?thesis using e by blast
qed

definition still ::
  "(('d, 'z) evmem_scheme \<Rightarrow> ('d, 'z) evmem_scheme \<Rightarrow> bool) \<Rightarrow>
   ('d, 'z) evmem_scheme \<Rightarrow> ('d, 'z) evmem_scheme \<Rightarrow> bool" where
  "still R s s' \<longleftrightarrow> binding_at s' = binding_at s \<and> event_at s' = event_at s \<and>
     moment_at s' = moment_at s \<and> calls s' = calls s \<and> results s' = results s \<and>
     next_addr s \<le> next_addr s' \<and> malloc_func s' = malloc_func s \<and> R s s'"

fun tame ::
  "(('d, 'z) evmem_scheme \<Rightarrow> ('d, 'z) evmem_scheme \<Rightarrow> bool) \<Rightarrow>
   addr set \<Rightarrow> ('d, ('d, 'z) evmem_scheme) action \<Rightarrow> bool" where
  "tame R E (Trigger e data) \<longleftrightarrow> e \<in> E"
| "tame R E (Handled h) \<longleftrightarrow> True"
| "tame R E (Work f) \<longleftrightarrow> (\<forall>s. still R s (f s))"
| "tame R E _ \<longleftrightarrow> False"

text \<open>What the actions of a callback leave.\<close>

definition steady ::
  "(('d, 'z) evmem_scheme \<Rightarrow> ('d, 'z) evmem_scheme \<Rightarrow> bool) \<Rightarrow>
   's dispatcher \<times> ('d, 'z) evmem_scheme \<Rightarrow> 's dispatcher \<times> ('d, 'z) evmem_scheme \<Rightarrow> bool" where
  "steady R ds ds' \<longleftrightarrow>
     binding_at (snd ds') = binding_at (snd ds) \<and> event_at (snd ds') = event_at (snd ds) \<and>
     next_addr (snd ds) \<le> next_addr (snd ds') \<and> malloc_func (snd ds') = malloc_func (snd ds) \<and>
     di_source (fst ds') = di_source (fst ds) \<and> di_self (fst ds') = di_self (fst ds) \<and>
     di_events (fst ds') = di_events (fst ds) \<and> di_live (fst ds') = di_live (fst ds) \<and> R (snd ds) (snd ds')"

definition tame_program ::
  "(('d, 'z) evmem_scheme \<Rightarrow> ('d, 'z) evmem_scheme \<Rightarrow> bool) \<Rightarrow>
   addr set \<Rightarrow> ('d, ('d, 'z) evmem_scheme) programs \<Rightarrow> bool" where
  "tame_program R E prog \<longleftrightarrow>
     (\<forall>cb arg evt. \<forall>x \<in> set (pr_notify prog cb arg evt) \<union> set (pr_result prog cb arg evt). tame R E x)"

lemma bindings_of_record [simp]:
  "bindings_of e (s\<lparr>calls := c\<rparr>) = bindings_of e s" "bindings_of e (s\<lparr>results := c\<rparr>) = bindings_of e s"
  by (simp_all add: bindings_of_def split: option.split)

lemma holds_record [simp]:
  "holds E (s\<lparr>calls := c\<rparr>) evt x r = holds E s evt x r" "holds E (s\<lparr>results := c\<rparr>) evt x r = holds E s evt x r"
  by (cases r; simp)+

lemma waits_record [simp]:
  "waits E d (s\<lparr>calls := c\<rparr>) = waits E d s" "waits E d (s\<lparr>results := c\<rparr>) = waits E d s"
  by (intro ext; simp add: waits_def evt_of_def)+

lemma busy_record [simp]:
  "busy E d (s\<lparr>calls := c\<rparr>) mo evt r ms q = busy E d s mo evt r ms q"
  "busy E d (s\<lparr>results := c\<rparr>) mo evt r ms q = busy E d s mo evt r ms q"
  by (simp_all add: busy_def linked_def)

lemma ready_record [simp]:
  "ready E (s\<lparr>calls := c\<rparr>) = ready E s" "ready E (s\<lparr>results := c\<rparr>) = ready E s"
  by (simp_all add: ready_def lists_ok_def bound_def marked_def)

lemma handled_same: "ed_handled evt = h \<Longrightarrow> evt\<lparr>ed_handled := h\<rparr> = evt"
  by (cases evt) auto

lemma pending_none:
  assumes "ready E s" "e \<in> E"
  shows "process_pending_unbinds e s = Some s"
proof -
  obtain as where as: "bindings_of e s = Some as" using assms by (auto simp: ready_def lists_ok_def)
  then obtain p where p: "bpath (binding_at s) p as" by (auto simp: bindings_of_iff)
  have "\<forall>a \<in> set as. \<exists>b. binding_at s a = Some b \<and> \<not> bi_unbound b"
    using assms as bpath_some[OF p] by (fastforce simp: ready_def marked_def)
  then have "pending_loop e prev as s = s" for prev by (induction as arbitrary: prev) auto
  then show ?thesis using as by (simp add: process_pending_unbinds_def)
qed

lemma fold_status:
  assumes "\<forall>a \<in> set as. binding_at s a \<noteq> None"
  shows "\<exists>B. fold (\<lambda>a. upd_binding a (\<lambda>b. b\<lparr>bi_normal_bound := True\<rparr>)) as s = s\<lparr>binding_at := B\<rparr> \<and>
           bsim (binding_at s) B \<and> (\<forall>a. bi_normal_bound (the (binding_at s a)) \<or> a \<in> set as \<longrightarrow> bi_normal_bound (the (B a)))"
  using assms
proof (induction as arbitrary: s)
  case Nil
  then show ?case by (intro exI[of _ "binding_at s"]) simp
next
  case (Cons a as)
  obtain b where b: "binding_at s a = Some b" using Cons.prems by auto
  let ?B = "(binding_at s)(a \<mapsto> b\<lparr>bi_normal_bound := True\<rparr>)"
  have sim: "bsim (binding_at s) ?B"
    using b by (auto simp: bsim_def option.rel_refl)
  let ?s = "s\<lparr>binding_at := ?B\<rparr>"
  have all: "\<forall>x \<in> set as. binding_at ?s x \<noteq> None" using Cons.prems by simp
  obtain B where B: "fold (\<lambda>a. upd_binding a (\<lambda>b. b\<lparr>bi_normal_bound := True\<rparr>)) as ?s = ?s\<lparr>binding_at := B\<rparr>"
    "bsim (binding_at ?s) B"
    "\<forall>x. bi_normal_bound (the (binding_at ?s x)) \<or> x \<in> set as \<longrightarrow> bi_normal_bound (the (B x))"
    using Cons.IH[OF all] by blast
  have sim': "bsim (binding_at s) B" using bsim_trans[OF sim] B(2) by simp
  have "bi_normal_bound (the (B x))" if "bi_normal_bound (the (binding_at s x)) \<or> x \<in> set (a # as)" for x
    using that B(3) by (cases "x = a") auto
  moreover have "upd_binding a (\<lambda>b. b\<lparr>bi_normal_bound := True\<rparr>) s = ?s" using b by (simp add: upd_binding_def)
  ultimately show ?case using B(1) sim' by (intro exI[of _ B]) simp
qed

lemma busy_bindings [simp]:
  "busy E d (s\<lparr>binding_at := B\<rparr>) mo evt r ms q = busy E d s mo evt r ms q"
proof -
  have h: "holds E (s\<lparr>binding_at := B\<rparr>) evt x r' = holds E s evt x r'" for evt x r' by (cases r') simp
  then have "waits E d (s\<lparr>binding_at := B\<rparr>) = waits E d s" by (intro ext) (simp add: waits_def evt_of_def)
  then show ?thesis by (simp add: busy_def linked_def h)
qed

definition same_dispatcher :: "'s dispatcher \<Rightarrow> 's dispatcher \<Rightarrow> bool" where
  "same_dispatcher d d' \<longleftrightarrow> di_source d' = di_source d \<and> di_self d' = di_self d \<and>
     di_events d' = di_events d \<and> di_live d' = di_live d"

lemma same_dispatcher_trans: "same_dispatcher a b \<Longrightarrow> same_dispatcher b c \<Longrightarrow> same_dispatcher a c"
  by (simp add: same_dispatcher_def)

text \<open>No event is being dispatched.\<close>

definition resting :: "'s dispatcher \<Rightarrow> bool" where
  "resting d \<longleftrightarrow> di_running d = None \<and> \<not> di_destroy_pending d"

lemma busy_start:
  assumes "queued E d s (mo # ms) (r # q)" "resting d"
  shows "busy E (d\<lparr>di_running := Some (fst r)\<rparr>) s mo (evt_of d s (fst r) (fst (snd r))) r ms q"
proof -
  let ?d = "d\<lparr>di_running := Some (fst r)\<rparr>"
  have w: "waits E ?d s = waits E d s" by (intro ext) (simp add: waits_def evt_of_def)
  have "waits E d s mo r" "list_all2 (waits E d s) ms q" "linked d s (mo # ms)"
    using assms(1) by (simp_all add: queued_def)
  then show ?thesis using assms(2) w by (simp add: busy_def linked_def resting_def waits_def)
qed

lemma busy_head:
  assumes "busy E d s mo evt r ms q"
  obtains x where "di_next d = Some mo" "moment_at s mo = Some x" "ed_notifier (mo_evt x) = fst r"
    "mo_bindings x = ev_bindings (the (event_at s (fst r)))" "fst r \<in> E"
  using assms by (cases r) (auto simp: busy_def linked_def)

lemma busy_pending: "busy E d s mo evt r ms q \<Longrightarrow> \<not> di_destroy_pending d"
  by (simp add: busy_def)

lemma waits_in: "waits E d s a r \<Longrightarrow> fst r \<in> E"
  by (cases r) (auto simp: waits_def)

text \<open>No moment waits.\<close>

definition idle :: "'s dispatcher \<Rightarrow> bool" where
  "idle d \<longleftrightarrow> resting d \<and> di_next d = None \<and> di_tail d = None"

section \<open>The dispatcher is a queue\<close>

text \<open>What is known of the rest of the state: a relation that holds over the dispatcher's own changes, and
  which the work of the callbacks keeps.\<close>

locale dispatch_frame =
  fixes R :: "('d, 'z) evmem_scheme \<Rightarrow> ('d, 'z) evmem_scheme \<Rightarrow> bool"
  assumes R_own: "evmem.more s' = evmem.more s \<Longrightarrow> R s s'"
    and R_trans: "R s s' \<Longrightarrow> R s' s'' \<Longrightarrow> R s s''"
begin

lemma R_refl [simp]: "R s s"
  by (simp add: R_own)

lemma R_after: "evmem.more s'' = evmem.more s' \<Longrightarrow> R s s'' = R s s'"
  by (metis R_own R_trans)

lemma R_before: "evmem.more s'' = evmem.more s \<Longrightarrow> R s'' s' = R s s'"
  by (metis R_own R_trans)

lemma R_record [simp]:
  "R s (s'\<lparr>calls := c\<rparr>) = R s s'" "R s (s'\<lparr>results := c\<rparr>) = R s s'" "R s (s'\<lparr>moment_at := M\<rparr>) = R s s'"
  "R s (s'\<lparr>binding_at := B\<rparr>) = R s s'" "R (s\<lparr>calls := c\<rparr>) s' = R s s'" "R (s\<lparr>results := c\<rparr>) s' = R s s'"
  by (rule R_after; simp)+ (rule R_before; simp)+

lemma calm_refl [simp]: "calm R s s"
  by (simp add: calm_def)

lemma calm_trans: "calm R s s' \<Longrightarrow> calm R s' s'' \<Longrightarrow> calm R s s''"
proof -
  assume a: "calm R s s'" and b: "calm R s' s''"
  have "R s s''" using a b R_trans unfolding calm_def by blast
  moreover have "bsim (binding_at s) (binding_at s'')" using a b bsim_trans unfolding calm_def by blast
  ultimately show ?thesis using a b by (simp add: calm_def)
qed

lemma same_calm: "same_events s s' \<Longrightarrow> calm R s s'"
  by (simp add: calm_def same_events_def R_own)

lemma calm_bindings:
  assumes "calm R s s'" "bindings_of e s = Some as"
  shows "bindings_of e s' = Some as" "bound e s' = bound e s" "a \<in> set as \<Longrightarrow> marked s' a = marked s a"
proof -
  have sim: "bsim (binding_at s) (binding_at s')" and ev: "event_at s' = event_at s"
    using assms(1) by (simp_all add: calm_def)
  obtain p where p: "bpath (binding_at s) p as" using assms(2) by (auto simp: bindings_of_iff)
  show b: "bindings_of e s' = Some as"
    using assms(2) ev bsim_bpath[OF sim] by (auto simp: bindings_of_iff)
  have same: "entry (binding_at s') a = entry (binding_at s) a \<and> marked s' a = marked s a" if m: "a \<in> set as" for a
  proof -
    obtain b where b: "binding_at s a = Some b" using bpath_some[OF p m] by auto
    obtain b' where "binding_at s' a = Some b'" "bi_cb b' = bi_cb b" "bi_arg b' = bi_arg b" "bi_next b' = bi_next b"
      "bi_unbound b' = bi_unbound b" by (rule bsim_cases[OF sim b])
    then show ?thesis using b by (simp add: entry_def marked_def)
  qed
  then show "bound e s' = bound e s" using b assms(2) by (simp add: bound_def)
  show "a \<in> set as \<Longrightarrow> marked s' a = marked s a" using same by simp
qed

lemma calm_ready:
  assumes "calm R s s'" "ready E s"
  shows "ready E s'" "e \<in> E \<Longrightarrow> bound e s' = bound e s"
proof -
  have ok: "lists_ok E s" using assms(2) by (simp add: ready_def)
  have b: "bindings_of e s' = bindings_of e s \<and> bound e s' = bound e s \<and>
      (\<forall>a \<in> set (the (bindings_of e s)). marked s' a = marked s a)" if "e \<in> E" for e
    using lists_okD[OF ok that] calm_bindings[OF assms(1)] by force
  then show "e \<in> E \<Longrightarrow> bound e s' = bound e s" by simp
  have "next_addr s \<le> next_addr s'" "malloc_func s' = malloc_func s" using assms(1) by (simp_all add: calm_def)
  then have "a < next_addr s'" if "a < next_addr s" for a using that by simp
  then have "lists_ok E s'" using ok b by (auto simp: lists_ok_def)
  then show "ready E s'" using assms(2) b \<open>malloc_func s' = malloc_func s\<close> by (auto simp: ready_def)
qed

lemma steady_refl [simp]: "steady R ds ds"
  by (simp add: steady_def)

lemma steady_trans: "steady R a b \<Longrightarrow> steady R b c \<Longrightarrow> steady R a c"
  unfolding steady_def using R_trans[of "snd a" "snd b" "snd c"] by simp

lemma steady_calm: "steady R (d, s) (d', s') \<Longrightarrow> calm R s s'"
  by (simp add: steady_def calm_def)

lemma same_still: "same_events s s' \<Longrightarrow> still R s s'"
  by (simp add: same_events_def still_def R_own)

lemma still_trans: "still R s s' \<Longrightarrow> still R s' s'' \<Longrightarrow> still R s s''"
  unfolding still_def using R_trans[of s s' s''] by simp

lemma still_steady: "still R s s' \<Longrightarrow> steady R (d, s) (d, s')"
  by (simp add: still_def steady_def)

lemma linked_still: "still R s s' \<Longrightarrow> linked d s ms \<Longrightarrow> linked d s' ms"
  by (auto simp: still_def linked_def)

lemma waits_still: "still R s s' \<Longrightarrow> waits E d s a r \<Longrightarrow> waits E d s' a r"
  by (cases r) (auto simp: still_def waits_def evt_of_def)

lemma busy_still:
  assumes "still R s s'" "busy E d s mo evt r ms q"
  shows "busy E d s' mo evt r ms q"
proof -
  have "list_all2 (waits E d s) ms q" using assms(2) by (simp add: busy_def)
  then have "list_all2 (waits E d s') ms q"
    by (rule list.rel_mono_strong) (rule waits_still[OF assms(1)])
  moreover have "\<exists>x. moment_at s' mo = Some x \<and> holds E s' evt x r"
    using assms by (cases r) (auto simp: busy_def still_def)
  ultimately show ?thesis using assms linked_still by (auto simp: busy_def)
qed

lemma trigger_running:
  assumes b: "busy E d s mo evt r ms q" and rd: "ready E s" and e: "e \<in> E"
  shows "\<exists>d' s' n. trigger_while_running e data d s = Some (d', s') \<and>
           busy E d' s' mo evt r (ms @ [n]) (q @ [(e, data, None, 0)]) \<and> steady R (d, s) (d', s') \<and>
           calls s' = calls s \<and> results s' = results s"
proof -
  obtain depth s1 where p1: "push_eventing_ndc (Some (di_self d)) ''ls_event_trigger'' s = (depth, s1)" by fastforce
  have s1: "same_events s s1" by (rule same_events_push[OF p1])
  have "\<And>n k. malloc_func s1 n k" using rd s1 by (simp add: ready_def same_events_def)
  then obtain td s2 where p2: "prepare_trigger s1 = (Inr td, s2)" "same_events s1 s2" "pool_plain (td_pool td)"
    "next_addr s1 \<le> td_moment td" "td_moment td < next_addr s2" using prepare_trigger_ok by blast
  have st: "same_events s s2" by (rule same_events_trans[OF s1 p2(2)])
  have b2: "busy E d s2 mo evt r ms q" by (rule busy_still[OF same_still[OF st] b])
  have rd2: "ready E s2" by (rule calm_ready(1)[OF same_calm[OF st] rd])
  obtain ev where ev: "event_at s2 e = Some ev"
    using rd2 e by (auto simp: ready_def lists_ok_def bindings_of_iff)
  let ?n = "td_moment td"
  let ?x = "\<lparr>mo_evt = evt_of d s2 e data, mo_pool = td_pool td, mo_result_cb = None, mo_result_arg = 0,
             mo_bindings = ev_bindings ev, mo_next = None\<rparr>"
  let ?s3 = "s2\<lparr>moment_at := (moment_at s2)(?n \<mapsto> ?x)\<rparr>"
  have p3: "setup_moment d e data None 0 td s2 = Some ?s3"
    using ev by (simp add: setup_moment_def evt_of_def)
  have old: "a < next_addr s1" if "a \<in> set (mo # ms)" for a
    using that b s1 by (fastforce simp: busy_def linked_def same_events_def)
  then have fresh: "?n \<notin> set (mo # ms)" using p2(4) by fastforce
  have l3: "linked d ?s3 (mo # ms)"
  proof -
    have l: "linked d s2 (mo # ms)" using b2 by (simp add: busy_def)
    have "mpath (moment_at ?s3) (di_next d) (mo # ms) = mpath (moment_at s2) (di_next d) (mo # ms)"
      by (rule mpath_cong) (use fresh in auto)
    then show ?thesis using l by (simp add: linked_def)
  qed
  obtain M where M: "enqueue_moment ?n d ?s3 =
         Some (d\<lparr>di_next := Some (hd ((mo # ms) @ [?n])), di_tail := Some ?n\<rparr>, ?s3\<lparr>moment_at := M\<rparr>)"
    "linked (d\<lparr>di_next := Some (hd ((mo # ms) @ [?n])), di_tail := Some ?n\<rparr>) (?s3\<lparr>moment_at := M\<rparr>) ((mo # ms) @ [?n])"
    "msim ?s3 (?s3\<lparr>moment_at := M\<rparr>)"
    using enqueue_ok[OF l3, of ?n ?x] fresh p2(5) by auto
  let ?d = "d\<lparr>di_next := Some mo, di_tail := Some ?n\<rparr>" and ?s4 = "?s3\<lparr>moment_at := M\<rparr>"
  have old3: "waits E d ?s3 a rq" if "a \<in> set ms" "waits E d s2 a rq" for a rq
    using that fresh by (cases rq) (auto simp: waits_def evt_of_def)
  have "list_all2 (waits E d ?s3) ms q"
    using b2 old3 by (auto simp: busy_def elim!: list.rel_mono_strong)
  moreover have "waits E d ?s3 ?n (e, data, None, 0)"
    using e ev p2(3) by (simp add: waits_def evt_of_def)
  ultimately have "list_all2 (waits E d ?s3) (ms @ [?n]) (q @ [(e, data, None, 0)])" by (simp add: list_all2_appendI)
  then have w: "list_all2 (waits E ?d ?s4) (ms @ [?n]) (q @ [(e, data, None, 0)])"
    by (rule list.rel_mono_strong) (rule waits_msim[OF M(3)], simp)
  obtain x where x: "moment_at s2 mo = Some x" "holds E s2 evt x r" using b2 by (auto simp: busy_def)
  have "moment_at ?s3 mo = Some x" "holds E ?s3 evt x r" using x fresh by (cases r; auto)+
  then have "\<exists>x. moment_at ?s4 mo = Some x \<and> holds E ?s4 evt x r"
    using msim_cases[OF M(3)] holds_msim[OF M(3)] by metis
  then have b4: "busy E ?d ?s4 mo evt r (ms @ [?n]) (q @ [(e, data, None, 0)])"
    using M(2) w b2 by (simp add: busy_def)
  let ?s5 = "pop_eventing_ndc depth ?s4"
  have s5: "same_events ?s4 ?s5" by (rule same_events_pop)
  have run: "di_running d \<noteq> None" using b by (auto simp: busy_def)
  have "trigger_while_running e data d s = Some (?d, ?s5)"
    using run p1 p2(1) p3 M(1) by (simp add: trigger_while_running_def)
  moreover have "busy E ?d ?s5 mo evt r (ms @ [?n]) (q @ [(e, data, None, 0)])"
    by (rule busy_still[OF same_still[OF s5] b4])
  moreover have "steady R (d, s) (?d, ?s5) \<and> calls ?s5 = calls s \<and> results ?s5 = results s"
    using st s5 by (simp add: same_events_def steady_def R_own)
  ultimately show ?thesis by blast
qed

lemma steady_record [simp]:
  "steady R (d, s) (d', s'\<lparr>calls := c\<rparr>) = steady R (d, s) (d', s')"
  "steady R (d, s\<lparr>calls := c\<rparr>) (d', s') = steady R (d, s) (d', s')"
  "steady R (d, s\<lparr>results := c\<rparr>) (d', s') = steady R (d, s) (d', s')"
  by (simp_all add: steady_def)

lemma steady_ready: "steady R (d, s) (d', s') \<Longrightarrow> ready E s \<Longrightarrow> ready E s'"
  using calm_ready(1) steady_calm by blast

lemma set_handled_ok:
  assumes "busy E d s mo evt r ms q"
  shows "\<exists>s'. set_handled mo h s = Some s' \<and> busy E d s' mo (evt\<lparr>ed_handled := h\<rparr>) r ms q \<and>
           steady R (d, s) (d, s') \<and> calls s' = calls s \<and> results s' = results s"
proof -
  obtain x where x: "moment_at s mo = Some x" "holds E s evt x r" using assms by (auto simp: busy_def)
  let ?s = "s\<lparr>moment_at := (moment_at s)(mo \<mapsto> x\<lparr>mo_evt := (mo_evt x)\<lparr>ed_handled := h\<rparr>\<rparr>)\<rparr>"
  have l: "linked d s (mo # ms)" and w: "list_all2 (waits E d s) ms q" using assms by (simp_all add: busy_def)
  have "mpath (moment_at ?s) (di_next d) (mo # ms) = mpath (moment_at s) (di_next d) (mo # ms)"
    by (rule mpath_cong) (use x(1) in auto)
  then have l': "linked d ?s (mo # ms)" using l by (simp add: linked_def)
  have "waits E d ?s a rq" if "a \<in> set ms" "waits E d s a rq" for a rq
  proof -
    have "a \<noteq> mo" using that(1) l by (auto simp: linked_def)
    then show ?thesis using that(2) by (cases rq) (simp add: waits_def evt_of_def)
  qed
  then have "list_all2 (waits E d ?s) ms q" using w by (rule list.rel_mono_strong[rotated]) blast
  moreover have "holds E ?s (evt\<lparr>ed_handled := h\<rparr>) (x\<lparr>mo_evt := (mo_evt x)\<lparr>ed_handled := h\<rparr>\<rparr>) r"
    using x(2) by (cases r) auto
  ultimately have "busy E d ?s mo (evt\<lparr>ed_handled := h\<rparr>) r ms q" using assms l' by (simp add: busy_def)
  then show ?thesis using x(1) by (intro exI[of _ ?s]) (simp add: set_handled_def steady_def)
qed

lemma run_actions_ok:
  assumes "busy E d s mo evt r ms q" "ready E s" "\<forall>x \<in> set xs. tame R E x"
    "actions_effect xs h = (h', ts)" "ed_handled evt = h"
  shows "\<exists>d' s' ns. run_actions mo xs (d, s) = Some (d', s') \<and>
           busy E d' s' mo (evt\<lparr>ed_handled := h'\<rparr>) r (ms @ ns) (q @ ts) \<and> steady R (d, s) (d', s') \<and>
           calls s' = calls s \<and> results s' = results s"
  using assms
proof (induction xs arbitrary: d s evt ms q h ts)
  case Nil
  then show ?case by (intro exI[of _ d] exI[of _ s] exI[of _ "[]"]) (simp add: handled_same)
next
  case (Cons y ys)
  have tame: "tame R E y" "\<forall>x \<in> set ys. tame R E x" using Cons.prems(3) by auto
  have step: ?case
    if st: "run_action mo y (d, s) = Some (d1, s1)" "busy E d1 s1 mo evt1 r (ms @ n1) (q @ t1)"
      "steady R (d, s) (d1, s1)" "calls s1 = calls s" "results s1 = results s"
      "actions_effect ys (ed_handled evt1) = (h', t2)" "ts = t1 @ t2"
      "evt1\<lparr>ed_handled := h'\<rparr> = evt\<lparr>ed_handled := h'\<rparr>" for d1 s1 evt1 n1 t1 t2
  proof -
    obtain d2 s2 n2 where r2: "run_actions mo ys (d1, s1) = Some (d2, s2)"
      "busy E d2 s2 mo (evt1\<lparr>ed_handled := h'\<rparr>) r ((ms @ n1) @ n2) ((q @ t1) @ t2)" "steady R (d1, s1) (d2, s2)"
      "calls s2 = calls s1" "results s2 = results s1"
      using Cons.IH[OF st(2) steady_ready[OF st(3) Cons.prems(2)] tame(2) st(6) refl] by blast
    then show ?thesis using st steady_trans[OF st(3) r2(3)]
      by (intro exI[of _ d2] exI[of _ s2] exI[of _ "n1 @ n2"]) simp
  qed
  show ?case
  proof (cases y)
    case (Trigger e data)
    then have "e \<in> E" using tame(1) by simp
    then obtain d1 s1 n where "trigger_while_running e data d s = Some (d1, s1)"
      "busy E d1 s1 mo evt r (ms @ [n]) (q @ [(e, data, None, 0)])" "steady R (d, s) (d1, s1)"
      "calls s1 = calls s" "results s1 = results s"
      using trigger_running[OF Cons.prems(1,2)] by blast
    moreover obtain t2 where "actions_effect ys h = (h', t2)" "ts = [(e, data, None, 0)] @ t2"
      using Cons.prems(4) Trigger by (auto split: prod.splits)
    ultimately show ?thesis using step[of d1 s1 evt "[n]" "[(e, data, None, 0)]" t2] Trigger Cons.prems(5) by simp
  next
    case (Handled b)
    obtain s1 where "set_handled mo b s = Some s1" "busy E d s1 mo (evt\<lparr>ed_handled := b\<rparr>) r ms q"
      "steady R (d, s) (d, s1)" "calls s1 = calls s" "results s1 = results s"
      using set_handled_ok[OF Cons.prems(1)] by blast
    then show ?thesis using step[of d s1 "evt\<lparr>ed_handled := b\<rparr>" "[]" "[]" ts] Handled Cons.prems(4) by simp
  next
    case (Work f)
    then have "still R s (f s)" using tame(1) by simp
    then show ?thesis
      using step[of d "f s" evt "[]" "[]" ts] busy_still[OF _ Cons.prems(1)] still_steady Work Cons.prems(4,5)
      by (simp add: still_def) (auto simp: still_steady still_def busy_still)
  qed (use tame(1) in auto)
qed

lemma call_binding_ok:
  assumes "busy E d s mo evt r ms q" "ready E s" "tame_program R E prog"
    "actions_effect (pr_notify prog (bi_cb b) (bi_arg b) evt) (ed_handled evt) = (h, ts)"
  shows "\<exists>d' s' ns. call_binding prog mo b (d, s) = Some (d', s') \<and>
           busy E d' s' mo (evt\<lparr>ed_handled := ed_handled evt \<or> h\<rparr>) r (ms @ ns) (q @ ts) \<and>
           steady R (d, s) (d', s') \<and>
           calls s' = calls s @ [(bi_cb b, bi_arg b, evt)] \<and> results s' = results s"
proof -
  obtain x where x: "moment_at s mo = Some x" "mo_evt x = evt" using assms(1) by (cases r) (auto simp: busy_def)
  let ?s = "s\<lparr>calls := calls s @ [(bi_cb b, bi_arg b, evt)]\<rparr>"
  have "busy E d ?s mo evt r ms q" "ready E ?s" using assms(1,2) by simp_all
  moreover have "\<forall>x \<in> set (pr_notify prog (bi_cb b) (bi_arg b) evt). tame R E x"
    using assms(3) by (auto simp: tame_program_def)
  ultimately obtain d2 s2 ns where r2: "run_actions mo (pr_notify prog (bi_cb b) (bi_arg b) evt) (d, ?s) = Some (d2, s2)"
    "busy E d2 s2 mo (evt\<lparr>ed_handled := h\<rparr>) r (ms @ ns) (q @ ts)" "steady R (d, ?s) (d2, s2)"
    "calls s2 = calls ?s" "results s2 = results ?s"
    using run_actions_ok assms(4) by blast
  obtain y where y: "moment_at s2 mo = Some y" "mo_evt y = evt\<lparr>ed_handled := h\<rparr>"
    using r2(2) by (cases r) (auto simp: busy_def)
  obtain s3 where s3: "set_handled mo (ed_handled evt \<or> h) s2 = Some s3"
    "busy E d2 s3 mo (evt\<lparr>ed_handled := h\<rparr>\<lparr>ed_handled := ed_handled evt \<or> h\<rparr>) r (ms @ ns) (q @ ts)"
    "steady R (d2, s2) (d2, s3)" "calls s3 = calls s2" "results s3 = results s2"
    using set_handled_ok[OF r2(2)] by blast
  have "call_binding prog mo b (d, s) = Some (d2, s3)"
    using x y r2(1) s3(1) by (simp add: call_binding_def)
  moreover have "steady R (d, s) (d2, s3)" using steady_trans[OF r2(3) s3(3)] by simp
  ultimately show ?thesis using s3 r2 by (intro exI[of _ d2] exI[of _ s3] exI[of _ ns]) simp
qed

lemma call_bindings_ok:
  assumes "bpath (binding_at s) p as" "\<forall>a \<in> set as. bi_normal_bound (the (binding_at s a))"
    "busy E d s mo evt r ms q" "ready E s" "tame_program R E prog"
    "calls_effect prog evt (map (entry (binding_at s)) as) = (evt', cs, ts)"
  shows "\<exists>d' s' ns. call_bindings prog mo p (d, s) = Some (d', s') \<and>
           busy E d' s' mo evt' r (ms @ ns) (q @ ts) \<and> steady R (d, s) (d', s') \<and>
           calls s' = calls s @ cs \<and> results s' = results s"
  using assms
proof (induction as arbitrary: p d s evt ms q cs ts)
  case Nil
  then show ?case
    by (intro exI[of _ d] exI[of _ s] exI[of _ "[]"]) (simp add: call_bindings.simps[of _ _ None])
next
  case (Cons a as)
  obtain b where b: "p = Some a" "binding_at s a = Some b" "bpath (binding_at s) (bi_next b) as"
    using Cons.prems(1) by auto
  have nb: "bi_normal_bound b" using Cons.prems(2) b(2) by simp
  have e: "entry (binding_at s) a = (bi_cb b, bi_arg b)" using b(2) by (simp add: entry_def)
  obtain h t1 cs1 t2 where eff: "actions_effect (pr_notify prog (bi_cb b) (bi_arg b) evt) (ed_handled evt) = (h, t1)"
    "calls_effect prog (evt\<lparr>ed_handled := ed_handled evt \<or> h\<rparr>) (map (entry (binding_at s)) as) = (evt', cs1, t2)"
    "cs = (bi_cb b, bi_arg b, evt) # cs1" "ts = t1 @ t2"
    using Cons.prems(6) e by (auto split: prod.splits)
  obtain d1 s1 n1 where c1: "call_binding prog mo b (d, s) = Some (d1, s1)"
    "busy E d1 s1 mo (evt\<lparr>ed_handled := ed_handled evt \<or> h\<rparr>) r (ms @ n1) (q @ t1)" "steady R (d, s) (d1, s1)"
    "calls s1 = calls s @ [(bi_cb b, bi_arg b, evt)]" "results s1 = results s"
    using call_binding_ok[OF Cons.prems(3,4,5) eff(1)] by blast
  have B: "binding_at s1 = binding_at s" using c1(3) by (simp add: steady_def)
  obtain d2 s2 n2 where c2: "call_bindings prog mo (bi_next b) (d1, s1) = Some (d2, s2)"
    "busy E d2 s2 mo evt' r ((ms @ n1) @ n2) ((q @ t1) @ t2)" "steady R (d1, s1) (d2, s2)"
    "calls s2 = calls s1 @ cs1" "results s2 = results s1"
    using Cons.IH[of s1 "bi_next b" d1 "evt\<lparr>ed_handled := ed_handled evt \<or> h\<rparr>" "ms @ n1" "q @ t1" cs1 t2]
      b(3) c1(2) eff(2) Cons.prems(2,5) steady_ready[OF c1(3) Cons.prems(4)] unfolding B by auto
  have "call_bindings prog mo p (d, s) = Some (d2, s2)"
    using b nb c1(1) c2(1) B by (simp add: call_bindings.simps[of _ _ "Some a"])
  then show ?case using c1 c2 eff steady_trans[OF c1(3) c2(3)]
    by (intro exI[of _ d2] exI[of _ s2] exI[of _ "n1 @ n2"]) simp
qed

lemma status_ok:
  assumes "ready E s" "e \<in> E" "bindings_of e s = Some as"
  shows "\<exists>B. set_bind_status e s = Some (s\<lparr>binding_at := B\<rparr>) \<and> calm R s (s\<lparr>binding_at := B\<rparr>) \<and>
           (\<forall>a \<in> set as. bi_normal_bound (the (B a)))"
proof -
  obtain p where p: "bpath (binding_at s) p as" using assms(3) by (auto simp: bindings_of_iff)
  obtain B where "fold (\<lambda>a. upd_binding a (\<lambda>b. b\<lparr>bi_normal_bound := True\<rparr>)) as s = s\<lparr>binding_at := B\<rparr>"
    "bsim (binding_at s) B" "\<forall>a. bi_normal_bound (the (binding_at s a)) \<or> a \<in> set as \<longrightarrow> bi_normal_bound (the (B a))"
    using fold_status[of as s] bpath_some[OF p] by blast
  then show ?thesis using assms(3) by (intro exI[of _ B]) (simp add: set_bind_status_def calm_def)
qed

lemma report_ok:
  assumes "busy E d s mo evt r ms q" "ready E s" "tame_program R E prog" "r = (e, data, rcb, rarg)"
    "(case rcb of None \<Rightarrow> ([], [])
      | Some f \<Rightarrow> ([(f, rarg, evt)], snd (actions_effect (pr_result prog f rarg evt) (ed_handled evt)))) = (res, ts)"
  shows "\<exists>d' s' evt' ns. report_result prog mo (d, s) = Some (d', s') \<and>
           busy E d' s' mo evt' r (ms @ ns) (q @ ts) \<and> steady R (d, s) (d', s') \<and>
           calls s' = calls s \<and> results s' = results s @ res"
proof -
  obtain x where x: "moment_at s mo = Some x" "mo_evt x = evt" "mo_result_cb x = rcb" "mo_result_arg x = rarg"
    using assms(1,4) by (auto simp: busy_def)
  show ?thesis
  proof (cases rcb)
    case None
    then show ?thesis using x assms(1,5)
      by (intro exI[of _ d] exI[of _ s] exI[of _ evt] exI[of _ "[]"]) (simp add: report_result_def)
  next
    case (Some f)
    let ?s = "s\<lparr>results := results s @ [(f, rarg, evt)]\<rparr>"
    obtain h where "actions_effect (pr_result prog f rarg evt) (ed_handled evt) = (h, ts)"
      using assms(5) Some by (cases "actions_effect (pr_result prog f rarg evt) (ed_handled evt)") simp
    moreover have "\<forall>x \<in> set (pr_result prog f rarg evt). tame R E x" using assms(3) by (auto simp: tame_program_def)
    moreover have "busy E d ?s mo evt r ms q" "ready E ?s" using assms(1,2) by simp_all
    ultimately obtain d' s' ns where "run_actions mo (pr_result prog f rarg evt) (d, ?s) = Some (d', s')"
      "busy E d' s' mo (evt\<lparr>ed_handled := h\<rparr>) r (ms @ ns) (q @ ts)" "steady R (d, ?s) (d', s')"
      "calls s' = calls ?s" "results s' = results ?s" using run_actions_ok by blast
    moreover have "res = [(f, rarg, evt)]" using assms(5) Some by simp
    ultimately show ?thesis using x Some
      by (intro exI[of _ d'] exI[of _ s'] exI[of _ "evt\<lparr>ed_handled := h\<rparr>"] exI[of _ ns])
        (simp add: report_result_def)
  qed
qed

text \<open>Removing the first moment.\<close>

lemma leave_moment:
  assumes "busy E d s mo evt r ms q"
  shows "\<exists>y s'. moment_at s mo = Some y \<and> moment_destroy mo y s = s' \<and> calm R s s' \<and>
           calls s' = calls s \<and> results s' = results s \<and>
           queued E (d\<lparr>di_next := mo_next y, di_tail := (if mo_next y = None then None else di_tail d),
                       di_running := None\<rparr>) s' ms q"
proof -
  obtain y where y: "moment_at s mo = Some y" "holds E s evt y r" using assms by (auto simp: busy_def)
  let ?d = "d\<lparr>di_next := mo_next y, di_tail := (if mo_next y = None then None else di_tail d), di_running := None\<rparr>"
  let ?s = "s\<lparr>moment_at := (moment_at s)(mo := None)\<rparr>"
  have l: "linked d s (mo # ms)" using assms by (simp add: busy_def)
  then have p: "mpath (moment_at s) (mo_next y) ms" "mo \<notin> set ms" using y(1) by (auto simp: linked_def)
  have "mpath (moment_at ?s) (mo_next y) ms = mpath (moment_at s) (mo_next y) ms"
    by (rule mpath_cong) (use p(2) in auto)
  moreover have "mo_next y = None \<longleftrightarrow> ms = []" using p(1) by (cases ms) auto
  ultimately have l': "linked ?d ?s ms" using l p by (auto simp: linked_def)
  have w: "list_all2 (waits E d s) ms q" using assms by (simp add: busy_def)
  have wt: "waits E ?d ?s a rq" if "a \<in> set ms" "waits E d s a rq" for a rq
    using that p(2) by (cases rq) (auto simp: waits_def evt_of_def)
  have "list_all2 (waits E ?d ?s) ms q" using w by (rule list.rel_mono_strong) (rule wt)
  then have q: "queued E ?d ?s ms q" using l' by (simp add: queued_def)
  have pl: "pool_plain (mo_pool y)" using y(2) by (cases r) simp
  have same: "same_events ?s (moment_destroy mo y s)" by (rule moment_destroy_same[OF pl])
  have st: "still R ?s (moment_destroy mo y s)" by (rule same_still[OF same])
  have "list_all2 (waits E ?d (moment_destroy mo y s)) ms q"
    using \<open>list_all2 (waits E ?d ?s) ms q\<close> by (rule list.rel_mono_strong) (rule waits_still[OF st])
  then have "queued E ?d (moment_destroy mo y s) ms q" using linked_still[OF st l'] by (simp add: queued_def)
  moreover have "calm R s (moment_destroy mo y s)" "calls (moment_destroy mo y s) = calls s"
    "results (moment_destroy mo y s) = results s"
    using same by (simp_all add: same_events_def calm_def R_own)
  ultimately show ?thesis using y(1) by simp
qed

lemma steady_same: "steady R (d, s) (d', s') \<Longrightarrow> same_dispatcher d d'"
  by (simp add: steady_def same_dispatcher_def)

lemma handle_ok:
  assumes q: "queued E d s (mo # ms) (r # q)" and idle: "resting d" and rd: "ready E s" and tp: "tame_program R E prog"
    and bnd: "bnd (fst r) = bound (fst r) s"
    and eff: "moment_effect prog (evt_of d s) bnd r = (cs, res, ts)"
  shows "\<exists>d' s' ms'. handle_trigger_int prog (d, s) = Some (d', s') \<and> queued E d' s' ms' (q @ ts) \<and>
           resting d' \<and> same_dispatcher d d' \<and> calm R s s' \<and> calls s' = calls s @ cs \<and> results s' = results s @ res"
proof -
  obtain e data rcb rarg where r: "r = (e, data, rcb, rarg)" by (cases r)
  let ?d = "d\<lparr>di_running := Some e\<rparr>" and ?evt = "evt_of d s e data"
  have b0: "busy E ?d s mo ?evt r ms q" using busy_start[OF q idle] r by simp
  obtain x where x: "di_next ?d = Some mo" "moment_at s mo = Some x" "ed_notifier (mo_evt x) = e"
    "mo_bindings x = ev_bindings (the (event_at s e))" "e \<in> E"
    using busy_head[OF b0] r by (metis fst_conv)
  obtain as where as: "bindings_of e s = Some as" using rd x(5) by (auto simp: ready_def lists_ok_def)
  then have bp: "bpath (binding_at s) (mo_bindings x) as" using x(4) by (auto simp: bindings_of_iff)
  obtain B where B: "set_bind_status e s = Some (s\<lparr>binding_at := B\<rparr>)" "calm R s (s\<lparr>binding_at := B\<rparr>)"
    "\<forall>a \<in> set as. bi_normal_bound (the (B a))" using status_ok[OF rd x(5) as] by blast
  let ?s1 = "s\<lparr>binding_at := B\<rparr>"
  have rd1: "ready E ?s1" by (rule calm_ready(1)[OF B(2) rd])
  have sim: "bsim (binding_at s) B" using B(2) by (simp add: calm_def)
  have bp1: "bpath (binding_at ?s1) (mo_bindings x) as" using bsim_bpath[OF sim bp] by simp
  have bd: "map (entry (binding_at ?s1)) as = bnd e"
    using calm_bindings(1,2)[OF B(2) as] bnd r by (simp add: bound_def)
  obtain evt1 ts1 ts2 where eff1: "calls_effect prog ?evt (bnd e) = (evt1, cs, ts1)" "ts = ts1 @ ts2"
    "(case rcb of None \<Rightarrow> ([], [])
      | Some f \<Rightarrow> ([(f, rarg, evt1)], snd (actions_effect (pr_result prog f rarg evt1) (ed_handled evt1)))) = (res, ts2)"
    using eff r by (auto simp: moment_effect_def split: prod.splits option.splits)
  have b1: "busy E ?d ?s1 mo ?evt r ms q" using b0 by simp
  obtain d2 s2 n2 where c2: "call_bindings prog mo (mo_bindings x) (?d, ?s1) = Some (d2, s2)"
    "busy E d2 s2 mo evt1 r (ms @ n2) (q @ ts1)" "steady R (?d, ?s1) (d2, s2)"
    "calls s2 = calls ?s1 @ cs" "results s2 = results ?s1"
    using call_bindings_ok[OF bp1 _ b1 rd1 tp] B(3) eff1(1) bd by auto
  have rd2: "ready E s2" by (rule steady_ready[OF c2(3) rd1])
  obtain d3 s3 evt3 n3 where c3: "report_result prog mo (d2, s2) = Some (d3, s3)"
    "busy E d3 s3 mo evt3 r ((ms @ n2) @ n3) ((q @ ts1) @ ts2)" "steady R (d2, s2) (d3, s3)"
    "calls s3 = calls s2" "results s3 = results s2 @ res"
    using report_ok[OF c2(2) rd2 tp r eff1(3)] by blast
  have rd3: "ready E s3" by (rule steady_ready[OF c3(3) rd2])
  obtain y s4 where c4: "moment_at s3 mo = Some y" "moment_destroy mo y s3 = s4" "calm R s3 s4"
    "calls s4 = calls s3" "results s4 = results s3"
    "queued E (d3\<lparr>di_next := mo_next y, di_tail := (if mo_next y = None then None else di_tail d3),
                  di_running := None\<rparr>) s4 ((ms @ n2) @ n3) ((q @ ts1) @ ts2)"
    using leave_moment[OF c3(2)] by blast
  let ?d4 = "d3\<lparr>di_next := mo_next y, di_tail := (if mo_next y = None then None else di_tail d3), di_running := None\<rparr>"
  have "handle_trigger_int prog (d, s) = Some (?d4, s4)"
    using x idle B(1) c2(1) c3(1) c4(1,2) pending_none[OF rd3 x(5)]
    by (simp add: handle_trigger_int_def resting_def Let_def)
  moreover have "calm R s s4"
    using calm_trans[OF B(2)] calm_trans[OF steady_calm[OF c2(3)]] calm_trans[OF steady_calm[OF c3(3)] c4(3)] by blast
  moreover have "resting ?d4" using busy_pending[OF c3(2)] by (simp add: resting_def)
  moreover have "same_dispatcher d ?d4"
    using steady_same[OF steady_trans[OF c2(3)]] steady_same[OF c2(3)] steady_same[OF c3(3)]
    by (simp add: same_dispatcher_def)
  ultimately show ?thesis using c4 c3 c2 eff1(2) by (intro exI[of _ ?d4] exI[of _ s4] exI[of _ "ms @ n2 @ n3"]) simp
qed

lemma evt_of_cong: "same_dispatcher d d' \<Longrightarrow> calm R s s' \<Longrightarrow> evt_of d' s' = evt_of d s"
  by (intro ext) (simp add: evt_of_def same_dispatcher_def calm_def)

lemma loop_ok:
  assumes "queued E d s ms q" "resting d" "ready E s" "tame_program R E prog"
    "\<And>e. e \<in> E \<Longrightarrow> bnd e = bound e s" "ev = evt_of d s" "run_queue n prog ev bnd q = Some (cs, rs)"
  shows "\<exists>d' s'. dispatch_loop prog (d, s) = Some (d', s') \<and> queued E d' s' [] [] \<and> resting d' \<and>
           same_dispatcher d d' \<and> calm R s s' \<and> calls s' = calls s @ cs \<and> results s' = results s @ rs"
  using assms
proof (induction n arbitrary: d s ms q cs rs)
  case (0 d s ms q cs rs)
  then have "q = []" by (cases q) simp_all
  moreover from this have "ms = []" using 0(1) by (simp add: queued_def)
  ultimately show ?case using 0
    by (intro exI[of _ d] exI[of _ s]) (simp add: dispatch_loop.simps[of prog] queued_def linked_def same_dispatcher_def)
next
  case (Suc n d s ms q cs rs)
  show ?case
  proof (cases q)
    case Nil
    moreover from this have "ms = []" using Suc(2) by (simp add: queued_def)
    ultimately show ?thesis using Suc
      by (intro exI[of _ d] exI[of _ s]) (simp add: dispatch_loop.simps[of prog] queued_def linked_def same_dispatcher_def)
  next
    case (Cons r q1)
    obtain mo ms1 where ms: "ms = mo # ms1" using Suc(2) Cons by (auto simp: queued_def list_all2_Cons2)
    have q: "queued E d s (mo # ms1) (r # q1)" using Suc(2) Cons ms by simp
    have inE: "fst r \<in> E" using q by (auto simp: queued_def waits_in)
    obtain cs1 rs1 ts cs2 rs2 where run: "moment_effect prog (evt_of d s) bnd r = (cs1, rs1, ts)"
      "run_queue n prog ev bnd (q1 @ ts) = Some (cs2, rs2)" "cs = cs1 @ cs2" "rs = rs1 @ rs2"
      using Suc(7,8) Cons by (auto split: prod.splits)
    obtain d1 s1 ms2 where h: "handle_trigger_int prog (d, s) = Some (d1, s1)" "queued E d1 s1 ms2 (q1 @ ts)"
      "resting d1" "same_dispatcher d d1" "calm R s s1" "calls s1 = calls s @ cs1" "results s1 = results s @ rs1"
      using handle_ok[OF q Suc(3,4,5) Suc(6)[OF inE] run(1)] by blast
    have rd: "ready E s1" by (rule calm_ready(1)[OF h(5) Suc(4)])
    have bnd: "bnd e = bound e s1" if "e \<in> E" for e
      using Suc(6)[OF that] calm_ready(2)[OF h(5) Suc(4) that] by simp
    have ev: "ev = evt_of d1 s1" using Suc(7) evt_of_cong[OF h(4,5)] by simp
    obtain d2 s2 where l: "dispatch_loop prog (d1, s1) = Some (d2, s2)" "queued E d2 s2 [] []" "resting d2"
      "same_dispatcher d1 d2" "calm R s1 s2" "calls s2 = calls s1 @ cs2" "results s2 = results s1 @ rs2"
      using Suc.IH[OF h(2,3) rd Suc(5) bnd ev run(2)] by blast
    have "di_next d \<noteq> None" using q by (simp add: queued_def linked_def)
    then have "dispatch_loop prog (d, s) = Some (d2, s2)"
      using Suc(3) h(1) l(1) by (simp add: dispatch_loop.simps[of prog "(d, s)"] resting_def)
    then show ?thesis using h l run(3,4) same_dispatcher_trans calm_trans
      by (intro exI[of _ d2] exI[of _ s2]) auto
  qed
qed

lemma trigger_start:
  assumes "idle d" "ready E s" "e \<in> E" "pool_plain (td_pool td)" "td_moment td < next_addr s"
  shows "\<exists>d1 s1 ms. queued E d1 s1 ms [(e, data, rcb, rarg)] \<and> resting d1 \<and> same_dispatcher d d1 \<and>
           calm R s s1 \<and> calls s1 = calls s \<and> results s1 = results s \<and>
           trigger_prepared prog e data rcb rarg td d s =
             Option.bind (dispatch_loop prog (d1, s1)) (\<lambda>(d2, s2).
               if di_destroy_pending d2 then ls_event_dispatcher_destroy d2 s2 else Some (d2, s2))"
proof -
  obtain v where v: "event_at s e = Some v" using assms(2,3) by (auto simp: ready_def lists_ok_def bindings_of_iff)
  let ?n = "td_moment td"
  let ?x = "\<lparr>mo_evt = evt_of d s e data, mo_pool = td_pool td, mo_result_cb = rcb, mo_result_arg = rarg,
             mo_bindings = ev_bindings v, mo_next = None\<rparr>"
  let ?s = "s\<lparr>moment_at := (moment_at s)(?n \<mapsto> ?x)\<rparr>" and ?d = "d\<lparr>di_next := Some ?n, di_tail := Some ?n\<rparr>"
  have set: "setup_moment d e data rcb rarg td s = Some ?s" using v by (simp add: setup_moment_def evt_of_def)
  have enq: "enqueue_moment ?n d ?s = Some (?d, ?s)" using assms(1) by (simp add: enqueue_moment_def idle_def)
  have "queued E ?d ?s [?n] [(e, data, rcb, rarg)]"
    using assms(3-5) v by (simp add: queued_def linked_def waits_def evt_of_def)
  moreover have "calm R s ?s" "same_dispatcher d ?d" by (simp_all add: calm_def same_dispatcher_def)
  moreover have "resting ?d" using assms(1) by (simp add: idle_def resting_def)
  moreover from this have "trigger_prepared prog e data rcb rarg td d s =
      Option.bind (dispatch_loop prog (?d, ?s)) (\<lambda>(d2, s2).
        if di_destroy_pending d2 then ls_event_dispatcher_destroy d2 s2 else Some (d2, s2))"
    using set enq by (simp add: trigger_prepared_def dispatch_trigger_def resting_def)
  ultimately show ?thesis by (intro exI[of _ ?d] exI[of _ ?s] exI[of _ "[?n]"]) simp
qed

text \<open>\<open>ls_event_trigger\<close> on an idle dispatcher, up to the loop.\<close>

lemma trigger_to_loop:
  assumes "idle d" "ready E s" "e \<in> E"
  obtains d1 s1 ms depth where "queued E d1 s1 ms [(e, data, rcb, rarg)]" "resting d1" "same_dispatcher d d1"
    "calm R s s1" "calls s1 = calls s" "results s1 = results s"
    "ls_event_trigger prog e data rcb rarg d s =
       map_option (\<lambda>(d3, s3). (Inr (), d3, pop_eventing_ndc depth s3))
         (Option.bind (dispatch_loop prog (d1, s1)) (\<lambda>(d2, s2).
           if di_destroy_pending d2 then ls_event_dispatcher_destroy d2 s2 else Some (d2, s2)))"
proof -
  obtain depth s1 where p1: "push_eventing_ndc (Some (di_self d)) ''ls_event_trigger'' s = (depth, s1)" by fastforce
  have s1: "same_events s s1" by (rule same_events_push[OF p1])
  have "\<And>n k. malloc_func s1 n k" using assms(2) s1 by (simp add: ready_def same_events_def)
  then obtain td s2 where p2: "prepare_trigger s1 = (Inr td, s2)" "same_events s1 s2" "pool_plain (td_pool td)"
    "next_addr s1 \<le> td_moment td" "td_moment td < next_addr s2" using prepare_trigger_ok by blast
  have st: "same_events s s2" by (rule same_events_trans[OF s1 p2(2)])
  have rd: "ready E s2" by (rule calm_ready(1)[OF same_calm[OF st] assms(2)])
  obtain d1 s3 ms where t: "queued E d1 s3 ms [(e, data, rcb, rarg)]" "resting d1" "same_dispatcher d d1"
    "calm R s2 s3" "calls s3 = calls s2" "results s3 = results s2"
    "trigger_prepared prog e data rcb rarg td d s2 =
       Option.bind (dispatch_loop prog (d1, s3)) (\<lambda>(d2, s2).
         if di_destroy_pending d2 then ls_event_dispatcher_destroy d2 s2 else Some (d2, s2))"
    using trigger_start[OF assms(1) rd assms(3) p2(3,5)] by blast
  have "calls s3 = calls s" "results s3 = results s" using t(5,6) st by (simp_all add: same_events_def)
  moreover have "ls_event_trigger prog e data rcb rarg d s =
       map_option (\<lambda>(d3, s3). (Inr (), d3, pop_eventing_ndc depth s3))
         (Option.bind (dispatch_loop prog (d1, s3)) (\<lambda>(d2, s2).
           if di_destroy_pending d2 then ls_event_dispatcher_destroy d2 s2 else Some (d2, s2)))"
    using p1 p2(1) t(7) by (simp add: ls_event_trigger_def)
  ultimately show ?thesis using that t(1-3) calm_trans[OF same_calm[OF st] t(4)] by blast
qed

lemma loop_returns:
  assumes "dispatch_loop prog (d, s) = Some ds'" "queued E d s ms q" "resting d" "ready E s" "tame_program R E prog"
    "\<And>e. e \<in> E \<Longrightarrow> bnd e = bound e s" "ev = evt_of d s"
  shows "\<exists>n. run_queue n prog ev bnd q \<noteq> None"
proof -
  have "\<forall>d s ms q. ds = (d, s) \<longrightarrow> queued E d s ms q \<longrightarrow> resting d \<longrightarrow> ready E s \<longrightarrow>
      (\<forall>e \<in> E. bnd e = bound e s) \<longrightarrow> ev = evt_of d s \<longrightarrow> (\<exists>n. run_queue n prog ev bnd q \<noteq> None)"
    if "dispatch_loop prog ds = Some ds'" for ds
  proof (rule dispatch_loop.raw_induct[OF _ that, where P = "\<lambda>prog1 ds ds'. prog1 = prog \<longrightarrow>
      (\<forall>d s ms q. ds = (d, s) \<longrightarrow> queued E d s ms q \<longrightarrow> resting d \<longrightarrow> ready E s \<longrightarrow>
      (\<forall>e \<in> E. bnd e = bound e s) \<longrightarrow> ev = evt_of d s \<longrightarrow> (\<exists>n. run_queue n prog ev bnd q \<noteq> None))", THEN mp, OF _ refl])
    fix f prog1 ds ds'
    assume ih: "\<And>prog1 ds ds'. f prog1 ds = Some ds' \<Longrightarrow> prog1 = prog \<longrightarrow>
        (\<forall>d s ms q. ds = (d, s) \<longrightarrow> queued E d s ms q \<longrightarrow> resting d \<longrightarrow> ready E s \<longrightarrow>
        (\<forall>e \<in> E. bnd e = bound e s) \<longrightarrow> ev = evt_of d s \<longrightarrow> (\<exists>n. run_queue n prog ev bnd q \<noteq> None))"
      and body: "(if di_next (fst ds) \<noteq> None \<and> \<not> di_destroy_pending (fst ds)
        then Option.bind (handle_trigger_int prog1 ds) (f prog1) else Some ds) = Some ds'"
    show "prog1 = prog \<longrightarrow>
        (\<forall>d s ms q. ds = (d, s) \<longrightarrow> queued E d s ms q \<longrightarrow> resting d \<longrightarrow> ready E s \<longrightarrow>
        (\<forall>e \<in> E. bnd e = bound e s) \<longrightarrow> ev = evt_of d s \<longrightarrow> (\<exists>n. run_queue n prog ev bnd q \<noteq> None))"
    proof (intro impI allI)
      fix d s ms q
      assume a: "prog1 = prog" "ds = (d, s)" "queued E d s ms q" "resting d" "ready E s"
        "\<forall>e \<in> E. bnd e = bound e s" "ev = evt_of d s"
      show "\<exists>n. run_queue n prog ev bnd q \<noteq> None"
      proof (cases q)
        case Nil
        then show ?thesis by simp
      next
        case (Cons r q1)
        obtain mo ms1 where ms: "ms = mo # ms1" using a(3) Cons by (auto simp: queued_def list_all2_Cons2)
        have q: "queued E d s (mo # ms1) (r # q1)" using a(3) Cons ms by simp
        have inE: "fst r \<in> E" using q by (auto simp: queued_def waits_in)
        have bnd1: "bnd (fst r) = bound (fst r) s" using a(6) inE by simp
        obtain cs1 rs1 ts where eff: "moment_effect prog (evt_of d s) bnd r = (cs1, rs1, ts)"
          by (rule prod_cases3)
        obtain d1 s1 ms2 where h: "handle_trigger_int prog (d, s) = Some (d1, s1)" "queued E d1 s1 ms2 (q1 @ ts)"
          "resting d1" "same_dispatcher d d1" "calm R s s1"
          using handle_ok[OF q a(4,5) assms(5) bnd1 eff] by blast
        have "di_next d = Some mo" using q by (simp add: queued_def linked_def)
        then have "f prog (d1, s1) = Some ds'" using body a(1,2,4) h(1) by (simp add: resting_def)
        moreover have "\<forall>e \<in> E. bnd e = bound e s1" using a(6) calm_ready(2)[OF h(5) a(5)] by simp
        moreover have "ev = evt_of d1 s1" using a(7) evt_of_cong[OF h(4,5)] by simp
        ultimately obtain n where "run_queue n prog ev bnd (q1 @ ts) \<noteq> None"
          using ih h(2,3) calm_ready(1)[OF h(5) a(5)] by blast
        then have "run_queue (Suc n) prog ev bnd q \<noteq> None" using eff Cons a(7) by auto
        then show ?thesis by blast
      qed
    qed
  qed
  then show ?thesis using assms by blast
qed

lemma breadth_first:
  assumes "idle d" "ready E s" "tame_program R E prog" "e \<in> E"
    "\<forall>e \<in> E. bnd e = bound e s" "run_queue n prog (evt_of d s) bnd [(e, data, rcb, rarg)] = Some (cs, rs)"
  shows "\<exists>d' s'. ls_event_trigger prog e data rcb rarg d s = Some (Inr (), d', s') \<and>
           calls s' = calls s @ cs \<and> results s' = results s @ rs \<and>
           idle d' \<and> same_dispatcher d d' \<and> ready E s' \<and> calm R s s' \<and> evt_of d' s' = evt_of d s \<and> (\<forall>e \<in> E. bound e s' = bound e s)"
proof -
  obtain d1 s1 ms depth where t: "queued E d1 s1 ms [(e, data, rcb, rarg)]" "resting d1" "same_dispatcher d d1"
    "calm R s s1" "calls s1 = calls s" "results s1 = results s"
    "ls_event_trigger prog e data rcb rarg d s =
       map_option (\<lambda>(d3, s3). (Inr (), d3, pop_eventing_ndc depth s3))
         (Option.bind (dispatch_loop prog (d1, s1)) (\<lambda>(d2, s2).
           if di_destroy_pending d2 then ls_event_dispatcher_destroy d2 s2 else Some (d2, s2)))"
    by (rule trigger_to_loop[OF assms(1,2,4)])
  have rd: "ready E s1" by (rule calm_ready(1)[OF t(4) assms(2)])
  have ev: "evt_of d s = evt_of d1 s1" using evt_of_cong[OF t(3,4)] by simp
  have bnd: "bnd e = bound e s1" if "e \<in> E" for e using assms(5) calm_ready(2)[OF t(4) assms(2) that] that by simp
  obtain d' s' where l: "dispatch_loop prog (d1, s1) = Some (d', s')" "queued E d' s' [] []" "resting d'"
    "same_dispatcher d1 d'" "calm R s1 s'" "calls s' = calls s1 @ cs" "results s' = results s1 @ rs"
    using loop_ok[OF t(1,2) rd assms(3) bnd ev assms(6)] by blast
  let ?s = "pop_eventing_ndc depth s'"
  have s4: "same_events s' ?s" by (rule same_events_pop)
  have calm: "calm R s ?s" using calm_trans[OF t(4) calm_trans[OF l(5) same_calm[OF s4]]] .
  have "ls_event_trigger prog e data rcb rarg d s = Some (Inr (), d', ?s)"
    using t(7) l(1,3) by (simp add: resting_def)
  moreover have "idle d'" using l(2,3) by (simp add: queued_def linked_def idle_def)
  ultimately show ?thesis
    using t(5,6) l(6,7) s4 same_dispatcher_trans[OF t(3) l(4)] calm_ready[OF calm assms(2)] calm
      evt_of_cong[OF same_dispatcher_trans[OF t(3) l(4)] calm]
    by (intro exI[of _ d'] exI[of _ ?s]) (simp add: same_events_def calm_def)
qed

lemma returns_iff:
  assumes "idle d" "ready E s" "tame_program R E prog" "e \<in> E"
  shows "ls_event_trigger prog e data rcb rarg d s \<noteq> None \<longleftrightarrow>
         (\<exists>n. run_queue n prog (evt_of d s) (\<lambda>e. bound e s) [(e, data, rcb, rarg)] \<noteq> None)"
proof -
  obtain d1 s1 ms depth where t: "queued E d1 s1 ms [(e, data, rcb, rarg)]" "resting d1" "same_dispatcher d d1"
    "calm R s s1"
    "ls_event_trigger prog e data rcb rarg d s =
       map_option (\<lambda>(d3, s3). (Inr (), d3, pop_eventing_ndc depth s3))
         (Option.bind (dispatch_loop prog (d1, s1)) (\<lambda>(d2, s2).
           if di_destroy_pending d2 then ls_event_dispatcher_destroy d2 s2 else Some (d2, s2)))"
    by (rule trigger_to_loop[OF assms(1,2,4)])
  have rd: "ready E s1" by (rule calm_ready(1)[OF t(4) assms(2)])
  have ev: "evt_of d s = evt_of d1 s1" using evt_of_cong[OF t(3,4)] by simp
  have bnd: "bound e s = bound e s1" if "e \<in> E" for e using calm_ready(2)[OF t(4) assms(2) that] by simp
  show ?thesis
  proof
    assume "ls_event_trigger prog e data rcb rarg d s \<noteq> None"
    then obtain ds' where "dispatch_loop prog (d1, s1) = Some ds'"
      using t(5) by (cases "dispatch_loop prog (d1, s1)") auto
    then show "\<exists>n. run_queue n prog (evt_of d s) (\<lambda>e. bound e s) [(e, data, rcb, rarg)] \<noteq> None"
      by (rule loop_returns[OF _ t(1,2) rd assms(3) bnd ev])
  next
    assume "\<exists>n. run_queue n prog (evt_of d s) (\<lambda>e. bound e s) [(e, data, rcb, rarg)] \<noteq> None"
    then obtain n cs rs where run: "run_queue n prog (evt_of d s) (\<lambda>e. bound e s) [(e, data, rcb, rarg)] = Some (cs, rs)"
      by auto
    then obtain d' s' where "dispatch_loop prog (d1, s1) = Some (d', s')" "resting d'"
      using loop_ok[OF t(1,2) rd assms(3) bnd ev run] by blast
    then show "ls_event_trigger prog e data rcb rarg d s \<noteq> None" using t(5) by (simp add: resting_def)
  qed
qed

end

definition anything :: "'s \<Rightarrow> 's \<Rightarrow> bool" where
  "anything s s' \<longleftrightarrow> True"

interpretation any_frame: dispatch_frame anything
  by unfold_locales (simp_all add: anything_def)

text \<open>C3: Triggering an event on an idle dispatcher runs moments in the order they were triggered:
  the bindings of the event first, then its result callback, then the events that these callbacks
  triggered, breadth first.  The calls and their event data are those of a queue of requests.  With
  memory available and callbacks that trigger events, set the flag and leave the dispatcher alone, the
  call returns as soon as the queue empties; the dispatcher is idle again, and no binding has changed.\<close>

theorem ls_event_trigger_breadth_first:
  assumes "idle d" "ready E s" "tame_program anything E prog" "e \<in> E"
    "run_queue n prog (evt_of d s) (\<lambda>e. bound e s) [(e, data, rcb, rarg)] = Some (cs, rs)"
  shows "\<exists>d' s'. ls_event_trigger prog e data rcb rarg d s = Some (Inr (), d', s') \<and>
           calls s' = calls s @ cs \<and> results s' = results s @ rs \<and>
           idle d' \<and> same_dispatcher d d' \<and> ready E s' \<and> (\<forall>e \<in> E. bound e s' = bound e s)"
  using any_frame.breadth_first[OF assms(1-4) _ assms(5)] by blast

text \<open>C16: The call returns exactly when the queue of requests empties: when the callbacks trigger
  events again and again, \<open>ls_event_trigger\<close> never returns.\<close>

theorem ls_event_trigger_returns:
  assumes "idle d" "ready E s" "tame_program anything E prog" "e \<in> E"
  shows "ls_event_trigger prog e data rcb rarg d s \<noteq> None \<longleftrightarrow>
         (\<exists>n. run_queue n prog (evt_of d s) (\<lambda>e. bound e s) [(e, data, rcb, rarg)] \<noteq> None)"
  by (rule any_frame.returns_iff[OF assms])

section \<open>Two events\<close>

text \<open>The callback of the first event triggers the second and sets the flag.\<close>

definition two_events :: "nat evmem" where
  "two_events = logmem.extend (logmem.truncate init_log\<lparr>next_addr := 30\<rparr>)
     \<lparr>binding_at = [20 \<mapsto> \<lparr>bi_cb = 1, bi_arg = 6, bi_next = None, bi_unbound = False, bi_normal_bound = False\<rparr>,
                    21 \<mapsto> \<lparr>bi_cb = 2, bi_arg = 7, bi_next = None, bi_unbound = False, bi_normal_bound = False\<rparr>],
      event_at = [10 \<mapsto> \<lparr>ev_name_block = 3, ev_name = [97], ev_source = 0, ev_bindings = Some 20\<rparr>,
                  11 \<mapsto> \<lparr>ev_name_block = 4, ev_name = [98], ev_source = 0, ev_bindings = Some 21\<rparr>],
      moment_at = Map.empty, calls = [], results = []\<rparr>"

definition quiet_dispatcher :: "nat evmem dispatcher" where
  "quiet_dispatcher = \<lparr>di_self = 1, di_source = 0,
     di_events = \<lparr>ht_self = 2, ht_hash = ls_strcase_hashcode snd, ht_cmp = ls_strcase_compare snd, ht_count = 0,
       ht_bcount = 7, ht_resize_count = 0, ht_block = 2, ht_buckets = replicate 7 []\<rparr>,
     di_running = None, di_tail = None, di_next = None, di_destroy_pending = False, di_live = True\<rparr>"

definition relay :: "(nat, 's) programs" where
  "relay = \<lparr>pr_notify = (\<lambda>cb arg evt. if cb = 1 then [Trigger 11 5, Handled True] else []),
            pr_result = (\<lambda>cb arg evt. [])\<rparr>"

definition echo :: "(nat, 's) programs" where
  "echo = \<lparr>pr_notify = (\<lambda>cb arg evt. [Trigger 10 5]), pr_result = (\<lambda>cb arg evt. [])\<rparr>"

lemma two_events_bindings: "bindings_of 10 two_events = Some [20]" "bindings_of 11 two_events = Some [21]"
  by (simp_all add: bindings_of_iff two_events_def logmem.defs)

lemma two_events_bound: "bound 10 two_events = [(1, 6)]" "bound 11 two_events = [(2, 7)]"
  by (simp_all add: bound_def two_events_bindings) (simp_all add: entry_def two_events_def logmem.defs)

lemma two_events_ready: "ready {10, 11} two_events"
  by (simp add: ready_def lists_ok_def two_events_bindings two_events_bound marked_def)
    (simp add: two_events_def logmem.defs init_log_def mem.defs init_mem_def libc_malloc_def[abs_def])

lemma two_events_evt: "evt_of quiet_dispatcher two_events e data =
    \<lparr>ed_source = 0, ed_name = ev_name (the (event_at two_events e)), ed_notifier = e, ed_data = data,
     ed_selected = None, ed_handled = False\<rparr>"
  by (simp add: evt_of_def quiet_dispatcher_def)

lemma quiet_idle: "idle quiet_dispatcher"
  by (simp add: idle_def resting_def quiet_dispatcher_def)

lemma ls_event_trigger_breadth_first_witness:
  "\<exists>d' s'. ls_event_trigger relay 10 4 (Some 9) 8 quiet_dispatcher two_events = Some (Inr (), d', s') \<and>
     calls s' = [(1, 6, \<lparr>ed_source = 0, ed_name = [97], ed_notifier = 10, ed_data = 4, ed_selected = None, ed_handled = False\<rparr>),
                 (2, 7, \<lparr>ed_source = 0, ed_name = [98], ed_notifier = 11, ed_data = 5, ed_selected = None, ed_handled = False\<rparr>)] \<and>
     results s' = [(9, 8, \<lparr>ed_source = 0, ed_name = [97], ed_notifier = 10, ed_data = 4, ed_selected = None, ed_handled = True\<rparr>)]"
proof -
  let ?d = "quiet_dispatcher" and ?s = two_events
  have n: "ev_name (the (event_at ?s 10)) = [97]" "ev_name (the (event_at ?s 11)) = [98]"
    by (simp_all add: two_events_def logmem.defs)
  have run: "run_queue 2 relay (evt_of ?d ?s) (\<lambda>e. bound e ?s) [(10, 4, Some 9, 8)] =
     Some ([(1, 6, \<lparr>ed_source = 0, ed_name = [97], ed_notifier = 10, ed_data = 4, ed_selected = None, ed_handled = False\<rparr>),
            (2, 7, \<lparr>ed_source = 0, ed_name = [98], ed_notifier = 11, ed_data = 5, ed_selected = None, ed_handled = False\<rparr>)],
           [(9, 8, \<lparr>ed_source = 0, ed_name = [97], ed_notifier = 10, ed_data = 4, ed_selected = None, ed_handled = True\<rparr>)])"
    by (simp add: numeral_2_eq_2 moment_effect_def two_events_bound two_events_evt n relay_def)
  have tame: "tame_program anything {10, 11} relay" by (simp add: tame_program_def relay_def)
  have c: "calls ?s = []" "results ?s = []" by (simp_all add: two_events_def logmem.defs)
  show ?thesis
    using ls_event_trigger_breadth_first[OF quiet_idle two_events_ready tame _ run] by (auto simp: c)
qed

lemma ls_event_trigger_returns_witness:
  "ls_event_trigger relay 10 4 None 0 quiet_dispatcher two_events \<noteq> None \<and>
   ls_event_trigger echo 10 4 None 0 quiet_dispatcher two_events = None"
proof -
  let ?d = "quiet_dispatcher" and ?s = two_events
  have tame: "tame_program anything {10, 11} relay" by (simp add: tame_program_def relay_def)
  have "run_queue 2 relay (evt_of ?d ?s) (\<lambda>e. bound e ?s) [(10, 4, None, 0)] \<noteq> None"
    by (simp add: numeral_2_eq_2 moment_effect_def two_events_bound two_events_evt relay_def)
  then have r: "ls_event_trigger relay 10 4 None 0 ?d ?s \<noteq> None"
    using ls_event_trigger_returns[OF quiet_idle two_events_ready tame, of 10 4 None 0] by blast
  let ?echo = "echo :: (nat, nat evmem) programs"
  have none: "run_queue n ?echo (evt_of ?d ?s) (\<lambda>e. bound e ?s) [(10, x, None, 0)] = None" for n x
    by (induction n arbitrary: x)
      (simp_all add: moment_effect_def two_events_bound two_events_evt echo_def)
  have "tame_program anything {10, 11} ?echo" by (simp add: tame_program_def echo_def)
  from ls_event_trigger_returns[OF quiet_idle two_events_ready this, of 10 4 None 0]
  have "ls_event_trigger echo 10 4 None 0 ?d ?s = None"
    by (cases "ls_event_trigger ?echo 10 4 None 0 ?d ?s") (auto simp: none)
  then show ?thesis using r by simp
qed


end
