(* ===== verification/Tube.thy ===== *)
theory Tube
  imports Ls_Eventing_Props Spud Ls_Pktinfo
begin

unbundle bit_operations_syntax

text \<open>
  Tubes, \<open>src/tube.c\<close>, and the function of \<open>src/tube_manager.c\<close> through which they send.

  Tubes and the packet information they own are objects of the heap.  The state extends that of the
  dispatcher by the maps from addresses to them, by the function that sends datagrams (which a
  program may replace) and by the datagrams it was given.  Using a tube that does not exist is
  recorded as a fault.

  The CBOR library is an argument: a record of its functions on values of type \<open>'c\<close>.  Those that
  build values allocate only through the function of their context, here that of the pool.
\<close>

section \<open>State\<close>

datatype tube_states_t = TS_START | TS_UNKNOWN | TS_OPENING | TS_RUNNING | TS_RESUMING

record tube =
  tb_state :: tube_states_t
  tb_peer :: sockaddr
  tb_id :: spud_tube_id
  tb_data :: nat
  tb_pktinfo :: "addr option"
  tb_sock :: int

record datagram =
  dg_sock :: int
  dg_dest :: sockaddr
  dg_namelen :: nat
  dg_control :: "(nat \<times> cmsg option) option"
  dg_iov :: "u8 list list"

text \<open>What the sending function returns for its \<open>n\<close>th call, with the value of \<open>errno\<close> after it.\<close>

type_synonym sendmsg_func = "nat \<Rightarrow> datagram \<Rightarrow> int \<times> int"

record 'd tubemem = "'d evmem" +
  tube_at :: "addr \<Rightarrow> tube option"
  pktinfo_at :: "addr \<Rightarrow> ls_pktinfo option"
  sendmsg_fn :: sendmsg_func
  sent :: "datagram list"

definition MAXBUFLEN :: nat where "MAXBUFLEN = 1500"
definition sizeof_tube :: nat where "sizeof_tube = 168"
definition sizeof_iovec :: nat where "sizeof_iovec = 16"

text \<open>A tube as \<open>calloc\<close> leaves it.\<close>

definition zero_tube :: tube where
  "zero_tube = \<lparr>tb_state = TS_START, tb_peer = Sockaddr_other 0, tb_id = replicate 8 0, tb_data = 0,
     tb_pktinfo = None, tb_sock = 0\<rparr>"

definition upd_tube :: "addr \<Rightarrow> (tube \<Rightarrow> tube) \<Rightarrow> ('d, 'z) tubemem_scheme \<Rightarrow> ('d, 'z) tubemem_scheme" where
  "upd_tube t f s =
     (case tube_at s t of None \<Rightarrow> fault s | Some x \<Rightarrow> s\<lparr>tube_at := (tube_at s)(t \<mapsto> f x)\<rparr>)"

text \<open>The macro \<open>LS_LOG_ERR\<close> logs one line at the error level.  Of its text the model has what was tried and the
  code; the source positions before them and the message after them are not there.\<close>

definition LS_LOG_ERR :: "errcode \<Rightarrow> string \<Rightarrow> 'z logmem_scheme \<Rightarrow> 'z logmem_scheme" where
  "LS_LOG_ERR err what s = ls_log LS_LOG_ERROR (Text (ascii ''('' @ ascii what @ ascii '') '' @ d_prec 1 err)) s"

section \<open>Creating and destroying\<close>

definition tube_create ::
  "('d, 'z) tubemem_scheme \<Rightarrow> (errcode + addr) \<times> ('d, 'z) tubemem_scheme" where
  "tube_create s =
     (case ls_data_calloc 1 sizeof_tube s of
        (None, s1) \<Rightarrow> (Inl LS_ERR_NO_MEMORY, s1)
      | (Some ret, s1) \<Rightarrow>
          (Inr ret, s1\<lparr>tube_at := (tube_at s1)(ret \<mapsto>
             zero_tube\<lparr>tb_sock := -1, tb_state := TS_UNKNOWN\<rparr>)\<rparr>))"

definition tube_destroy :: "addr \<Rightarrow> ('d, 'z) tubemem_scheme \<Rightarrow> ('d, 'z) tubemem_scheme" where
  "tube_destroy t s =
     (case tube_at s t of
        None \<Rightarrow> fault s
      | Some x \<Rightarrow>
          (let s1 = (case tb_pktinfo x of
                       Some p \<Rightarrow> ls_pktinfo_destroy p (s\<lparr>pktinfo_at := (pktinfo_at s)(p := None)\<rparr>)
                     | None \<Rightarrow> s) in
           ls_data_free (Some t) (s1\<lparr>tube_at := (tube_at s1)(t := None)\<rparr>)))"

text \<open>The new packet information replaces the old one, which is not freed.\<close>

definition tube_set_local ::
  "addr \<Rightarrow> ls_pktinfo option \<Rightarrow> ('d, 'z) tubemem_scheme \<Rightarrow> (errcode + unit) \<times> ('d, 'z) tubemem_scheme" where
  "tube_set_local t info s =
     (case info of
        None \<Rightarrow> (Inr (), upd_tube t (\<lambda>x. x\<lparr>tb_pktinfo := None\<rparr>) s)
      | Some source \<Rightarrow>
          (case ls_pktinfo_dup source s of
             (Inl e, s1) \<Rightarrow> (Inl e, upd_tube t (\<lambda>x. x\<lparr>tb_pktinfo := None\<rparr>) s1)
           | (Inr (p, v), s1) \<Rightarrow>
               (Inr (), upd_tube t (\<lambda>x. x\<lparr>tb_pktinfo := Some p\<rparr>)
                          (s1\<lparr>pktinfo_at := (pktinfo_at s1)(p \<mapsto> v)\<rparr>))))"

text \<open>What an address structure holds where that of IPv6 has its flow and scope, before an address is
  written over it (what it was not given is taken as 0).\<close>

fun in6_rest :: "sockaddr \<Rightarrow> u32 \<times> u32" where
  "in6_rest (Sockaddr_in p a) = (a, 0)"
| "in6_rest (Sockaddr_in6 p f a c) = (f, c)"
| "in6_rest (Sockaddr_other f) = (0, 0)"

definition HOST_BUF :: nat where "HOST_BUF = 1025 + 32 + 2"

definition tube_print ::
  "(int \<Rightarrow> int + sockaddr) \<Rightarrow> (u32 \<Rightarrow> nat \<Rightarrow> cstr option) \<Rightarrow> (u8 list \<Rightarrow> nat \<Rightarrow> cstr option) \<Rightarrow>
   addr \<Rightarrow> ('d, 'z) tubemem_scheme \<Rightarrow> (errcode + unit) \<times> ('d, 'z) tubemem_scheme" where
  "tube_print getsockname ntop4 ntop6 t s =
     (case tube_at s t of
        None \<Rightarrow> (Inl LS_ERR_NONE, fault s)
      | Some x \<Rightarrow>
          if tb_sock x = -1 then (Inr (), s)
          else
            (case getsockname (tb_sock x) of
               Inl errno \<Rightarrow> (Inl (- errno), s)
             | Inr addr0 \<Rightarrow>
                 (let port = ls_sockaddr_get_port addr0;
                      addr = (case Option.bind (tb_pktinfo x) (pktinfo_at s) of
                         None \<Rightarrow> addr0
                       | Some p \<Rightarrow>
                           (case ls_pktinfo_get_addr p 128 (fst (in6_rest addr0)) (snd (in6_rest addr0)) of
                              Inl e \<Rightarrow> addr0
                            | Inr (a, n) \<Rightarrow> (case ls_sockaddr_set_port a port of Some b \<Rightarrow> b | None \<Rightarrow> a)));
                      local = ls_sockaddr_to_string ntop4 ntop6 (Some addr) HOST_BUF True;
                      remote = ls_sockaddr_to_string ntop4 ntop6 (Some (tb_peer x)) HOST_BUF True;
                      ids = (case spud_id_to_string (SPUD_ID_STRING_SIZE + 1) (tb_id x) of
                               Some i \<Rightarrow> i | None \<Rightarrow> []) in
                  (Inr (), ls_log LS_LOG_INFO
                     (Text (ascii ''TUBE '' @ ids @ ascii '': '' @ local @ ascii ''->'' @ remote)) s))))"

section \<open>Sending\<close>

text \<open>The control message is built in zeroed memory.  A length is stored as an unsigned 32-bit number.\<close>

definition tube_manager_sendmsg ::
  "int \<Rightarrow> ls_pktinfo option \<Rightarrow> sockaddr \<Rightarrow> u8 list list \<Rightarrow> ('d, 'z) tubemem_scheme \<Rightarrow>
   (errcode + unit) \<times> ('d, 'z) tubemem_scheme" where
  "tube_manager_sendmsg sock source dest iov s =
     (let msg = \<lparr>dg_sock = sock, dg_dest = dest, dg_namelen = ls_sockaddr_get_length dest mod 2 ^ 32,
                 dg_control = map_option (\<lambda>p. ls_pktinfo_cmsg p 0) source, dg_iov = iov\<rparr>;
          s1 = s\<lparr>sent := sent s @ [msg]\<rparr> in
      case sendmsg_fn s (length (sent s)) msg of
        (ret, errno) \<Rightarrow> if ret \<le> 0 then (Inl (- errno), s1) else (Inr (), s1))"

definition tube_manager_set_socket_functions ::
  "sendmsg_func \<Rightarrow> sendmsg_func option \<Rightarrow> ('d, 'z) tubemem_scheme \<Rightarrow> ('d, 'z) tubemem_scheme" where
  "tube_manager_set_socket_functions sendmsg send s =
     s\<lparr>sendmsg_fn := (case send of None \<Rightarrow> sendmsg | Some f \<Rightarrow> f)\<rparr>"

text \<open>The header on the stack before it is initialised, and the random source, which is not used when
  the identifier is given.\<close>

definition raw_header :: spud_header where
  "raw_header = \<lparr>magic = [], tube_id = [], flags = 0\<rparr>"

definition no_urandom :: "'s rand_source" where
  "no_urandom n s = (Inl 0, s)"

definition send_header :: "spud_command \<Rightarrow> bool \<Rightarrow> bool \<Rightarrow> spud_header \<Rightarrow> spud_header" where
  "send_header cmd adec pdec smh =
     (let f0 = 0 OR command_bits cmd;
          f1 = (if adec then f0 OR SPUD_ADEC else f0);
          f2 = (if pdec then f1 OR SPUD_PDEC else f1) in
      smh\<lparr>flags := f2\<rparr>)"

definition tube_send ::
  "addr \<Rightarrow> spud_command \<Rightarrow> bool \<Rightarrow> bool \<Rightarrow> u8 list list \<Rightarrow> ('d, 'z) tubemem_scheme \<Rightarrow>
   (errcode + unit) \<times> ('d, 'z) tubemem_scheme" where
  "tube_send t cmd adec pdec data s =
     (case ls_data_calloc (length data + 1) sizeof_iovec s of
        (None, s1) \<Rightarrow> (Inl LS_ERR_NO_MEMORY, s1)
      | (Some iov, s1) \<Rightarrow>
          (case tube_at s1 t of
             None \<Rightarrow> (Inl LS_ERR_NONE, fault s1)
           | Some x \<Rightarrow>
               (case spud_init no_urandom raw_header (Some (tb_id x)) s1 of
                  (Inl e, s2) \<Rightarrow> (Inl (case e of Some c \<Rightarrow> c | None \<Rightarrow> LS_ERR_NONE), s2)
                | (Inr smh, s2) \<Rightarrow>
                    (let chunks = header_bytes (send_header cmd adec pdec smh) #
                                  filter (\<lambda>c. length c > 0) data in
                     case tube_manager_sendmsg (tb_sock x) (Option.bind (tb_pktinfo x) (pktinfo_at s2))
                            (tb_peer x) chunks s2 of
                       (ret, s3) \<Rightarrow> (ret, ls_data_free (Some iov) s3)))))"

definition tube_close :: "addr \<Rightarrow> ('d, 'z) tubemem_scheme \<Rightarrow> (errcode + unit) \<times> ('d, 'z) tubemem_scheme" where
  "tube_close t s = tube_send t SPUD_CLOSE False False [] (upd_tube t (\<lambda>x. x\<lparr>tb_state := TS_UNKNOWN\<rparr>) s)"

section \<open>CBOR payloads\<close>

text \<open>An allocation function of a CBOR context, and the CBOR library: \<open>None\<close> is a null pointer, a
  failed put, or a negative size.\<close>

type_synonym 's cbor_alloc = "nat \<Rightarrow> nat \<Rightarrow> 's pool \<Rightarrow> 's \<Rightarrow> byte_ptr option \<times> 's pool \<times> 's"

record ('c, 's) cbor_lib =
  cn_cbor_map_create :: "'s cbor_alloc \<Rightarrow> 's pool \<Rightarrow> 's \<Rightarrow> 'c option \<times> 's pool \<times> 's"
  cn_cbor_data_create :: "u8 list \<Rightarrow> 's cbor_alloc \<Rightarrow> 's pool \<Rightarrow> 's \<Rightarrow> 'c option \<times> 's pool \<times> 's"
  cn_cbor_string_create :: "cstr \<Rightarrow> 's cbor_alloc \<Rightarrow> 's pool \<Rightarrow> 's \<Rightarrow> 'c option \<times> 's pool \<times> 's"
  cn_cbor_mapput_int :: "'c \<Rightarrow> int \<Rightarrow> 'c \<Rightarrow> 's cbor_alloc \<Rightarrow> 's pool \<Rightarrow> 's \<Rightarrow> 'c option \<times> 's pool \<times> 's"
  cn_cbor_mapput_string :: "'c \<Rightarrow> cstr \<Rightarrow> 'c \<Rightarrow> 's cbor_alloc \<Rightarrow> 's pool \<Rightarrow> 's \<Rightarrow> 'c option \<times> 's pool \<times> 's"
  cn_cbor_encoder_write :: "nat \<Rightarrow> 'c \<Rightarrow> u8 list option"
  cn_cbor_decode :: "u8 list \<Rightarrow> 's \<Rightarrow> (int + 'c) \<times> 's"
  cn_cbor_free :: "'c \<Rightarrow> 's \<Rightarrow> 's"

text \<open>The CBOR library of a reader: a value of a map by its integer key, the length of a value, and the
  bytes its string member points to, when it is a string.\<close>

record 'c cbor_reader =
  cn_cbor_mapget_int :: "'c \<Rightarrow> int \<Rightarrow> 'c option"
  cn_cbor_length :: "'c \<Rightarrow> nat"
  cn_cbor_str :: "'c \<Rightarrow> u8 list option"

definition pool_calloc :: "('z logmem_scheme) cbor_alloc" where
  "pool_calloc num sz pool s =
     (case ls_pool_calloc pool num sz s of
        (Inl err, p1, s1) \<Rightarrow> (None, p1, LS_LOG_ERR err ''ls_pool_calloc'' s1)
      | (Inr ptr, p1, s1) \<Rightarrow> (ptr, p1, s1))"

definition map_create ::
  "('c, 'z logmem_scheme) cbor_lib \<Rightarrow> 'z logmem_scheme \<Rightarrow>
   (errcode + 'c \<times> ('z logmem_scheme) pool) \<times> 'z logmem_scheme" where
  "map_create lib s =
     (case ls_pool_create 128 s of
        (Inl e, s1) \<Rightarrow> (Inl e, s1)
      | (Inr pool, s1) \<Rightarrow>
          (case cn_cbor_map_create lib pool_calloc pool s1 of
             (None, p2, s2) \<Rightarrow> (Inl LS_ERR_NO_MEMORY, ls_pool_destroy p2 s2)
           | (Some m, p2, s2) \<Rightarrow> (Inr (m, p2), s2)))"

definition mapput_string_data ::
  "('c, 'z logmem_scheme) cbor_lib \<Rightarrow> 'c \<Rightarrow> cstr \<Rightarrow> u8 list \<Rightarrow> ('z logmem_scheme) pool \<Rightarrow>
   'z logmem_scheme \<Rightarrow> (errcode + 'c) \<times> ('z logmem_scheme) pool \<times> 'z logmem_scheme" where
  "mapput_string_data lib mp key data pool s =
     (case cn_cbor_data_create lib data pool_calloc pool s of
        (None, p1, s1) \<Rightarrow> (Inl LS_ERR_NO_MEMORY, p1, s1)
      | (Some cdata, p1, s1) \<Rightarrow>
          (case cn_cbor_mapput_string lib mp key cdata pool_calloc p1 s1 of
             (None, p2, s2) \<Rightarrow> (Inl LS_ERR_NO_MEMORY, p2, s2)
           | (Some m, p2, s2) \<Rightarrow> (Inr m, p2, s2)))"

definition mapput_string_string ::
  "('c, 'z logmem_scheme) cbor_lib \<Rightarrow> 'c \<Rightarrow> cstr \<Rightarrow> cstr \<Rightarrow> ('z logmem_scheme) pool \<Rightarrow>
   'z logmem_scheme \<Rightarrow> (errcode + 'c) \<times> ('z logmem_scheme) pool \<times> 'z logmem_scheme" where
  "mapput_string_string lib mp key data pool s =
     (case cn_cbor_string_create lib data pool_calloc pool s of
        (None, p1, s1) \<Rightarrow> (Inl LS_ERR_NO_MEMORY, p1, s1)
      | (Some cdata, p1, s1) \<Rightarrow>
          (case cn_cbor_mapput_string lib mp key cdata pool_calloc p1 s1 of
             (None, p2, s2) \<Rightarrow> (Inl LS_ERR_NO_MEMORY, p2, s2)
           | (Some m, p2, s2) \<Rightarrow> (Inr m, p2, s2)))"

text \<open>The map is given with the pool it lives in, which is the context of the caller.\<close>

definition path_mandatory_keys_create ::
  "('c, 'z logmem_scheme) cbor_lib \<Rightarrow> u8 list \<Rightarrow> u8 list \<Rightarrow> cstr \<Rightarrow> 'z logmem_scheme \<Rightarrow>
   (errcode + 'c \<times> ('z logmem_scheme) pool) \<times> 'z logmem_scheme" where
  "path_mandatory_keys_create lib ipadress token url s =
     (case map_create lib s of
        (Inl e, s1) \<Rightarrow> (Inl e, s1)
      | (Inr (m, p), s1) \<Rightarrow>
          (case mapput_string_data lib m (ascii ''ipaddr'') ipadress p s1 of
             (Inl e, p2, s2) \<Rightarrow> (Inl e, ls_pool_destroy p2 s2)
           | (Inr m2, p2, s2) \<Rightarrow>
               (case mapput_string_data lib m2 (ascii ''token'') token p2 s2 of
                  (Inl e, p3, s3) \<Rightarrow> (Inl e, ls_pool_destroy p3 s3)
                | (Inr m3, p3, s3) \<Rightarrow>
                    (case mapput_string_string lib m3 (ascii ''url'') url p3 s3 of
                       (Inl e, p4, s4) \<Rightarrow> (Inl e, ls_pool_destroy p4 s4)
                     | (Inr m4, p4, s4) \<Rightarrow> (Inr (m4, p4), s4)))))"

definition tube_send_cbor ::
  "('c, ('d, 'z) tubemem_scheme) cbor_lib \<Rightarrow> addr \<Rightarrow> spud_command \<Rightarrow> bool \<Rightarrow> bool \<Rightarrow> 'c \<Rightarrow>
   ('d, 'z) tubemem_scheme \<Rightarrow> (errcode + unit) \<times> ('d, 'z) tubemem_scheme" where
  "tube_send_cbor lib t cmd adec pdec cbor s =
     (case cn_cbor_encoder_write lib MAXBUFLEN cbor of
        None \<Rightarrow> (Inl LS_ERR_OVERFLOW, s)
      | Some buf \<Rightarrow> tube_send t cmd adec pdec [buf] s)"

definition tube_send_pdec ::
  "('c, ('d, 'z) tubemem_scheme) cbor_lib \<Rightarrow> addr \<Rightarrow> 'c \<Rightarrow> bool \<Rightarrow>
   ('d, 'z) tubemem_scheme \<Rightarrow> (errcode + unit) \<times> ('d, 'z) tubemem_scheme" where
  "tube_send_pdec lib t cbor reflect s = tube_send_cbor lib t SPUD_DATA reflect True cbor s"

definition tube_data ::
  "('c, ('d, 'z) tubemem_scheme) cbor_lib \<Rightarrow> addr \<Rightarrow> u8 list \<Rightarrow>
   ('d, 'z) tubemem_scheme \<Rightarrow> (errcode + unit) \<times> ('d, 'z) tubemem_scheme" where
  "tube_data lib t data s =
     (if length data = 0 then tube_send t SPUD_DATA False False [] s
      else
        (case map_create lib s of
           (Inl e, s1) \<Rightarrow> (Inl e, s1)
         | (Inr (mp, pool), s1) \<Rightarrow>
             (case cn_cbor_data_create lib data pool_calloc pool s1 of
                (None, p2, s2) \<Rightarrow> (Inl LS_ERR_NO_MEMORY, ls_pool_destroy p2 s2)
              | (Some cdata, p2, s2) \<Rightarrow>
                  (case cn_cbor_mapput_int lib mp 0 cdata pool_calloc p2 s2 of
                     (None, p3, s3) \<Rightarrow> (Inl LS_ERR_NO_MEMORY, ls_pool_destroy p3 s3)
                   | (Some m, p3, s3) \<Rightarrow>
                       (case tube_send_cbor lib t SPUD_DATA False False m s3 of
                          (ret, s4) \<Rightarrow> (ret, ls_pool_destroy p3 s4))))))"

section \<open>Members\<close>

definition tube_set_data :: "addr \<Rightarrow> nat \<Rightarrow> ('d, 'z) tubemem_scheme \<Rightarrow> ('d, 'z) tubemem_scheme" where
  "tube_set_data t data s = upd_tube t (\<lambda>x. x\<lparr>tb_data := data\<rparr>) s"

definition tube_get_data :: "addr \<Rightarrow> ('d, 'z) tubemem_scheme \<Rightarrow> nat option" where
  "tube_get_data t s = map_option tb_data (tube_at s t)"

definition tube_id_to_string :: "addr \<Rightarrow> nat \<Rightarrow> ('d, 'z) tubemem_scheme \<Rightarrow> cstr option" where
  "tube_id_to_string t len s = Option.bind (tube_at s t) (\<lambda>x. spud_id_to_string len (tb_id x))"

definition tube_get_state :: "addr \<Rightarrow> ('d, 'z) tubemem_scheme \<Rightarrow> tube_states_t option" where
  "tube_get_state t s = map_option tb_state (tube_at s t)"

definition tube_set_state ::
  "addr \<Rightarrow> tube_states_t \<Rightarrow> ('d, 'z) tubemem_scheme \<Rightarrow> ('d, 'z) tubemem_scheme" where
  "tube_set_state t state s = upd_tube t (\<lambda>x. x\<lparr>tb_state := state\<rparr>) s"

text \<open>The identifier as a key: the pointer to it and what is there.\<close>

definition tube_get_id :: "addr \<Rightarrow> ('d, 'z) tubemem_scheme \<Rightarrow> (addr \<times> spud_tube_id) option" where
  "tube_get_id t s = map_option (\<lambda>x. (t, tb_id x)) (tube_at s t)"

text \<open>\<open>None\<close>: an address of unknown family is copied with a length of \<open>2 ^ 64 - 1\<close> bytes.\<close>

definition tube_set_info ::
  "addr \<Rightarrow> int \<Rightarrow> sockaddr option \<Rightarrow> spud_tube_id option \<Rightarrow> ('d, 'z) tubemem_scheme \<Rightarrow>
   ('d, 'z) tubemem_scheme option" where
  "tube_set_info t socket peer tid s =
     (let s1 = (if socket \<ge> 0 then upd_tube t (\<lambda>x. x\<lparr>tb_sock := socket\<rparr>) s else s) in
      map_option (\<lambda>s2. case tid of
          None \<Rightarrow> s2
        | Some i \<Rightarrow> upd_tube t (\<lambda>x. x\<lparr>tb_id := spud_copy_id i\<rparr>) s2)
        (case peer of
           None \<Rightarrow> Some s1
         | Some p \<Rightarrow> map_option (\<lambda>q. upd_tube t (\<lambda>x. x\<lparr>tb_peer := q\<rparr>) s1) (ls_sockaddr_copy p)))"

end
