(* ===== verification/Gheap.thy ===== *)
theory Gheap
  imports Ls_Mem
begin

text \<open>
  The heap and the priority queue that the tube manager uses for its timers,
  \<open>vendor/gheap/gheap.h\<close> and \<open>vendor/gheap/gpriority_queue.h\<close>.

  The items of a heap are the first \<open>heap_size\<close> items of a list, the array at \<open>base\<close>; \<open>item_mover\<close>
  is assignment.  The shape of the tree is given by \<open>fanout\<close> and \<open>page_chunks\<close> as in the code.
  Indices are natural numbers; the branches on overflow of \<open>size_t\<close> are there.
\<close>

section \<open>The tree\<close>

definition SIZE_MAX :: nat where "SIZE_MAX = 2 ^ 64 - 1"

record 'a gheap_ctx =
  fanout :: nat
  page_chunks :: nat
  less_comparer :: "'a \<Rightarrow> 'a \<Rightarrow> bool"

definition gheap_get_parent_index :: "'a gheap_ctx \<Rightarrow> nat \<Rightarrow> nat" where
  "gheap_get_parent_index ctx u0 =
     (let u = u0 - 1; f = fanout ctx in
      if page_chunks ctx = 1 then u div f
      else if u < f then 0
      else
        (let page_size = f * page_chunks ctx; v = u mod page_size in
         if v \<ge> f then u - v + v div f
         else
           (let v = u div page_size - 1;
                page_leaves = (f - 1) * page_chunks ctx + 1;
                u = v div page_leaves + 1 in
            u * page_size + v mod page_leaves - page_leaves + 1)))"

definition gheap_get_child_index :: "'a gheap_ctx \<Rightarrow> nat \<Rightarrow> nat" where
  "gheap_get_child_index ctx u0 =
     (let f = fanout ctx in
      if page_chunks ctx = 1 then
        (if u0 > (SIZE_MAX - 1) div f then SIZE_MAX else u0 * f + 1)
      else if u0 = 0 then 1
      else
        (let page_size = f * page_chunks ctx; u = u0 - 1; v = u mod page_size + 1 in
         if v < page_size div f then
           (let v = v * (f - 1) in if u > SIZE_MAX - 2 - v then SIZE_MAX else u + v + 2)
         else
           (let page_leaves = (f - 1) * page_chunks ctx + 1;
                v = v + (u div page_size + 1) * page_leaves - page_size in
            if v > (SIZE_MAX - 1) div page_size then SIZE_MAX else v * page_size + 1)))"

lemma page_bound:
  fixes w l p :: nat
  assumes "0 < p" "0 < l"
  shows "(w div l + 1) * p + w mod l \<le> (w + 1) * p"
proof -
  let ?q = "w div l" and ?r = "w mod l"
  have "w = ?q * l + ?r" by (rule div_mult_mod_eq[symmetric])
  moreover have "?q \<le> ?q * l" using assms(2) by simp
  ultimately have "?q + ?r + 1 \<le> w + 1" by linarith
  then have "(?q + ?r + 1) * p \<le> (w + 1) * p" by (rule mult_right_mono) simp
  moreover have "?r \<le> ?r * p" using assms(1) by simp
  moreover have "(?q + ?r + 1) * p = (?q + 1) * p + ?r * p" by (simp add: algebra_simps)
  ultimately show ?thesis by linarith
qed

text \<open>A parent comes before its child, so the loop of \<open>_gheap_sift_up\<close> ends.\<close>

lemma parent_less: "0 < u \<Longrightarrow> gheap_get_parent_index ctx u < u"
proof -
  assume u: "0 < u"
  let ?f = "fanout ctx" and ?pc = "page_chunks ctx"
  let ?L = "(?f - 1) * ?pc + 1" and ?ps = "?f * ?pc"
  let ?v = "(u - 1) mod ?ps" and ?w = "(u - 1) div ?ps - 1"
  have fast: "(u - 1) - ?v + ?v div ?f < u" using u
    by (metis Suc_pred' div_le_dividend le_add_diff_inverse2 less_Suc_eq_le mod_less_eq_dividend nat_add_left_cancel_le)
  have slow: "(?w div ?L + 1) * ?ps + ?w mod ?L - ?L + 1 < u" if "?f \<le> u - 1" "?v < ?f"
  proof -
    have "?ps \<le> u - 1" using that by (metis leI mod_less not_le)
    have ps: "0 < ?ps" using that by (metis gr0I mod_by_0 not_le)
    then have q: "1 \<le> (u - 1) div ?ps" using \<open>?ps \<le> u - 1\<close> by (simp add: div_greater_zero_iff Suc_leI)
    have "(?w div ?L + 1) * ?ps + ?w mod ?L \<le> (?w + 1) * ?ps" using ps by (intro page_bound) auto
    also have "(?w + 1) * ?ps = (u - 1) div ?ps * ?ps" using q by simp
    also have "\<dots> \<le> u - 1" by simp
    finally have le: "(?w div ?L + 1) * ?ps + ?w mod ?L \<le> u - 1" .
    have "a - l + 1 < u" if "a \<le> u - 1" "1 \<le> l" "2 \<le> u" for a l using that by arith
    moreover have "1 \<le> ?L" by simp
    moreover have "2 \<le> u" using \<open>?ps \<le> u - 1\<close> ps by linarith
    ultimately show ?thesis using le by blast
  qed
  have "(u - 1) div ?f \<le> u - 1" by (rule div_le_dividend)
  then have "(u - 1) div ?f < u" using u by linarith
  then show ?thesis using fast slow u unfolding gheap_get_parent_index_def Let_def by auto
qed

section \<open>The operations\<close>

function sift_up :: "'a gheap_ctx \<Rightarrow> nat \<Rightarrow> nat \<Rightarrow> 'a \<Rightarrow> 'a list \<Rightarrow> 'a list" where
  "sift_up ctx root hole item base =
     (if hole > root then
        (let parent = gheap_get_parent_index ctx hole in
         if \<not> less_comparer ctx (base ! parent) item then base[hole := item]
         else sift_up ctx root parent item (base[hole := base ! parent]))
      else base[hole := item])"
  by auto
termination
  by (relation "measure (\<lambda>(ctx, root, hole, item, base). hole)")
    (auto intro: parent_less simp: Let_def)

declare sift_up.simps [simp del]

definition max_child :: "'a gheap_ctx \<Rightarrow> 'a list \<Rightarrow> nat \<Rightarrow> nat \<Rightarrow> nat" where
  "max_child ctx base children_count child =
     fold (\<lambda>i m. if \<not> less_comparer ctx (base ! (child + i)) (base ! m) then child + i else m)
       [1..<children_count] child"

definition move_up_max_child ::
  "'a gheap_ctx \<Rightarrow> 'a list \<Rightarrow> nat \<Rightarrow> nat \<Rightarrow> nat \<Rightarrow> nat \<times> 'a list" where
  "move_up_max_child ctx base children_count hole child =
     (let m = max_child ctx base children_count child in (m, base[hole := base ! m]))"

text \<open>The loop of \<open>_gheap_sift_down\<close>; the hole moves to larger indices below \<open>heap_size\<close>, so
  \<open>heap_size\<close> rounds are enough.\<close>

fun sift_down_loop ::
  "nat \<Rightarrow> 'a gheap_ctx \<Rightarrow> nat \<Rightarrow> nat \<Rightarrow> nat \<Rightarrow> 'a list \<Rightarrow> nat \<times> 'a list" where
  "sift_down_loop 0 ctx heap_size last_full hole base = (hole, base)"
| "sift_down_loop (Suc fuel) ctx heap_size last_full hole base =
     (let child = gheap_get_child_index ctx hole in
      if child \<ge> last_full then
        (if child < heap_size then move_up_max_child ctx base (heap_size - child) hole child
         else (hole, base))
      else
        (case move_up_max_child ctx base (fanout ctx) hole child of
           (hole1, base1) \<Rightarrow> sift_down_loop fuel ctx heap_size last_full hole1 base1))"

definition sift_down :: "'a gheap_ctx \<Rightarrow> nat \<Rightarrow> nat \<Rightarrow> 'a \<Rightarrow> 'a list \<Rightarrow> 'a list" where
  "sift_down ctx heap_size hole item base =
     (let last_full = heap_size - (heap_size - 1) mod fanout ctx in
      case sift_down_loop heap_size ctx heap_size last_full hole base of
        (hole1, base1) \<Rightarrow> sift_up ctx hole hole1 item base1)"

definition gheap_is_heap_until :: "'a gheap_ctx \<Rightarrow> 'a list \<Rightarrow> nat \<Rightarrow> nat" where
  "gheap_is_heap_until ctx base heap_size =
     (case find (\<lambda>u. less_comparer ctx (base ! gheap_get_parent_index ctx u) (base ! u)) [1..<heap_size] of
        Some u \<Rightarrow> u
      | None \<Rightarrow> heap_size)"

definition gheap_is_heap :: "'a gheap_ctx \<Rightarrow> 'a list \<Rightarrow> nat \<Rightarrow> bool" where
  "gheap_is_heap ctx base heap_size = (gheap_is_heap_until ctx base heap_size = heap_size)"

definition gheap_make_heap :: "'a gheap_ctx \<Rightarrow> 'a list \<Rightarrow> nat \<Rightarrow> 'a list" where
  "gheap_make_heap ctx base heap_size =
     (if heap_size > 1 then
        fold (\<lambda>i b. sift_down ctx heap_size i (b ! i) b)
          (rev [0..<Suc (if page_chunks ctx = 1 then (heap_size - 2) div fanout ctx else heap_size - 2)]) base
      else base)"

definition gheap_push_heap :: "'a gheap_ctx \<Rightarrow> 'a list \<Rightarrow> nat \<Rightarrow> 'a list" where
  "gheap_push_heap ctx base heap_size =
     (if heap_size > 1 then sift_up ctx 0 (heap_size - 1) (base ! (heap_size - 1)) base else base)"

text \<open>The item outside the heap, here one of the array, and the greatest of the heap change places.\<close>

definition gheap_swap_max_item :: "'a gheap_ctx \<Rightarrow> 'a list \<Rightarrow> nat \<Rightarrow> nat \<Rightarrow> 'a list" where
  "gheap_swap_max_item ctx base heap_size item =
     sift_down ctx heap_size 0 (base ! item) (base[item := base ! 0])"

definition gheap_pop_max_item :: "'a gheap_ctx \<Rightarrow> 'a list \<Rightarrow> nat \<Rightarrow> 'a list" where
  "gheap_pop_max_item ctx base heap_size = gheap_swap_max_item ctx base heap_size heap_size"

definition gheap_pop_heap :: "'a gheap_ctx \<Rightarrow> 'a list \<Rightarrow> nat \<Rightarrow> 'a list" where
  "gheap_pop_heap ctx base heap_size =
     (if heap_size > 1 then gheap_pop_max_item ctx base (heap_size - 1) else base)"

definition gheap_sort_heap :: "'a gheap_ctx \<Rightarrow> 'a list \<Rightarrow> nat \<Rightarrow> 'a list" where
  "gheap_sort_heap ctx base heap_size =
     fold (\<lambda>i b. gheap_pop_max_item ctx b (i - 1)) (rev [2..<Suc heap_size]) base"

definition gheap_restore_heap_after_item_increase ::
  "'a gheap_ctx \<Rightarrow> 'a list \<Rightarrow> nat \<Rightarrow> nat \<Rightarrow> 'a list" where
  "gheap_restore_heap_after_item_increase ctx base heap_size i =
     (if i > 0 then sift_up ctx 0 i (base ! i) base else base)"

definition gheap_restore_heap_after_item_decrease ::
  "'a gheap_ctx \<Rightarrow> 'a list \<Rightarrow> nat \<Rightarrow> nat \<Rightarrow> 'a list" where
  "gheap_restore_heap_after_item_decrease ctx base heap_size i =
     sift_down ctx heap_size i (base ! i) base"

definition gheap_remove_from_heap :: "'a gheap_ctx \<Rightarrow> 'a list \<Rightarrow> nat \<Rightarrow> nat \<Rightarrow> 'a list" where
  "gheap_remove_from_heap ctx base heap_size i =
     (let n = heap_size - 1 in
      if i < n then
        (let tmp = base ! n; base1 = base[n := base ! i] in
         if less_comparer ctx tmp (base1 ! n) then sift_down ctx n i tmp base1
         else sift_up ctx 0 i tmp base1)
      else base)"

section \<open>The priority queue\<close>

text \<open>The array has room for \<open>gq_capacity\<close> items as far as the code knows; a slot that was never
  written holds \<open>None\<close>.\<close>

record 'a gpriority_queue =
  gq_self :: addr
  gq_block :: addr
  gq_base :: "'a option list"
  gq_size :: nat
  gq_capacity :: nat

definition sizeof_gpriority_queue :: nat where "sizeof_gpriority_queue = 40"

definition gpriority_queue_create ::
  "nat \<Rightarrow> 'z mem_scheme \<Rightarrow> 'a gpriority_queue option \<times> 'z mem_scheme" where
  "gpriority_queue_create item_size s =
     (case ls_data_malloc sizeof_gpriority_queue s of
        (None, s1) \<Rightarrow> (None, s1)
      | (Some q, s1) \<Rightarrow>
          (case ls_data_malloc item_size s1 of
             (None, s2) \<Rightarrow> (None, ls_data_free (Some q) s2)
           | (Some b, s2) \<Rightarrow>
               (Some \<lparr>gq_self = q, gq_block = b, gq_base = [None], gq_size = 0, gq_capacity = 1\<rparr>, s2)))"

definition gpriority_queue_create_from_array ::
  "'a option gheap_ctx \<Rightarrow> nat \<Rightarrow> 'a list \<Rightarrow> 'z mem_scheme \<Rightarrow> 'a gpriority_queue option \<times> 'z mem_scheme" where
  "gpriority_queue_create_from_array ctx item_size a s =
     (case ls_data_malloc sizeof_gpriority_queue s of
        (None, s1) \<Rightarrow> (None, s1)
      | (Some q, s1) \<Rightarrow>
          (case ls_data_malloc (length a * item_size) s1 of
             (None, s2) \<Rightarrow> (None, ls_data_free (Some q) s2)
           | (Some b, s2) \<Rightarrow>
               (Some \<lparr>gq_self = q, gq_block = b,
                      gq_base = gheap_make_heap ctx (map Some a) (length a),
                      gq_size = length a, gq_capacity = length a\<rparr>, s2)))"

definition gpriority_queue_delete ::
  "('a \<Rightarrow> 'z mem_scheme \<Rightarrow> 'z mem_scheme) \<Rightarrow> 'a gpriority_queue \<Rightarrow> 'z mem_scheme \<Rightarrow> 'z mem_scheme" where
  "gpriority_queue_delete item_deleter q s =
     ls_data_free (Some (gq_self q)) (ls_data_free (Some (gq_block q))
       (fold (\<lambda>x s. case x of Some i \<Rightarrow> item_deleter i s | None \<Rightarrow> fault s) (take (gq_size q) (gq_base q)) s))"

definition gpriority_queue_empty :: "'a gpriority_queue \<Rightarrow> bool" where
  "gpriority_queue_empty q = (gq_size q = 0)"

text \<open>A pointer into the array: the index of the slot.\<close>

definition gpriority_queue_top :: "'a gpriority_queue \<Rightarrow> nat option" where
  "gpriority_queue_top q = (if gq_size q = 0 then None else Some 0)"

text \<open>When the new array cannot be allocated, the capacity has been doubled already; the next push
  then writes behind the old array.\<close>

definition gpriority_queue_push ::
  "'a option gheap_ctx \<Rightarrow> nat \<Rightarrow> 'a \<Rightarrow> 'a gpriority_queue \<Rightarrow> 'z mem_scheme \<Rightarrow>
   bool \<times> 'a gpriority_queue \<times> 'z mem_scheme" where
  "gpriority_queue_push ctx item_size item q s =
     (let put = (\<lambda>q s.
            if gq_size q < length (gq_base q) then
              (True,
               q\<lparr>gq_base := gheap_push_heap ctx ((gq_base q)[gq_size q := Some item]) (Suc (gq_size q)),
                 gq_size := Suc (gq_size q)\<rparr>, s)
            else (True, q\<lparr>gq_size := Suc (gq_size q)\<rparr>, fault s)) in
      if gq_size q = gq_capacity q then
        (if gq_capacity q > SIZE_MAX div 2 div item_size then (False, q, s)
         else
           (let q1 = q\<lparr>gq_capacity := gq_capacity q * 2\<rparr> in
            case ls_data_malloc (gq_capacity q1 * item_size) s of
              (None, s1) \<Rightarrow> (False, q1, s1)
            | (Some new_base, s1) \<Rightarrow>
                put (q1\<lparr>gq_block := new_base,
                        gq_base := take (gq_size q1) (gq_base q1) @ replicate (gq_capacity q1 - gq_size q1) None\<rparr>)
                  (ls_data_free (Some (gq_block q1)) s1)))
      else put q s)"

text \<open>The item taken out stays in the array behind the heap.\<close>

definition gpriority_queue_pop ::
  "'a option gheap_ctx \<Rightarrow> ('a \<Rightarrow> 'z mem_scheme \<Rightarrow> 'z mem_scheme) \<Rightarrow> 'a gpriority_queue \<Rightarrow> 'z mem_scheme \<Rightarrow>
   'a gpriority_queue \<times> 'z mem_scheme" where
  "gpriority_queue_pop ctx item_deleter q s =
     (let q1 = q\<lparr>gq_base := gheap_pop_heap ctx (gq_base q) (gq_size q), gq_size := gq_size q - 1\<rparr> in
      (q1, case gq_base q1 ! gq_size q1 of Some i \<Rightarrow> item_deleter i s | None \<Rightarrow> fault s))"

end
