(* ===== verification/Tube_Manager.thy ===== *)
theory Tube_Manager
  imports Tube Gheap Ls_Hash Ls_Timer
begin

unbundle bit_operations_syntax

text \<open>
  The tube manager, \<open>src/tube_manager.c\<close>.

  The members of the manager that callbacks may change are part of the state: the state extends that
  of the tubes by them, by the timers and by the signal contexts.  The table of tubes and the
  dispatcher of its events are in the record \<open>tube_manager\<close>, which the operations take and return.
  The events carry the pointers the code passes: the manager, a tube, or the event data of a message.

  The operating system is an argument: a record of what its functions return (the mutexes of a manager
  are taken by one thread), and for the loop the lists of what \<open>select\<close> and \<open>recvmsg\<close> return.  So
  are the callbacks of timers and signals.  An operation is \<open>None\<close> when the code does not return or
  uses memory that was freed.
\<close>

section \<open>State\<close>

datatype 'c ev_payload =
    Ev_mgr
  | Ev_tube addr
  | Ev_msg addr "'c option" sockaddr

record mgr_vars =
  m_initialized :: bool
  m_sock4 :: int
  m_sock6 :: int
  m_pipe :: "int \<times> int"
  m_max_fd :: int
  m_timer_q :: "addr gpriority_queue option"
  m_last :: timeval
  m_policy :: u32
  m_keep_going :: bool
  m_data :: nat

record sig_context =
  sg_self :: addr
  sg_mgr :: addr
  sg_sig :: int
  sg_cb :: nat

record 'd tmmem = "'d tubemem" +
  mgr :: mgr_vars
  timer_at :: "addr \<Rightarrow> nat timer option"
  sig_contexts :: "sig_context list"
  pipe_out :: "int list"
  fired :: "addr list"

type_synonym ('c, 'z) tms = "('c ev_payload, 'z) tmmem_scheme"

text \<open>The key of a tube is the pointer to its identifier, with the identifier.\<close>

type_synonym tube_key = "addr \<times> spud_tube_id"

record ('c, 'z) tube_manager =
  tm_self :: addr
  tm_tubes :: "(tube_key, addr, ('c, 'z) tms) htable option"
  tm_dispatcher :: "('c, 'z) tms dispatcher option"
  e_loopstart :: "addr option"
  e_running :: "addr option"
  e_data :: "addr option"
  e_close :: "addr option"
  e_add :: "addr option"
  e_remove :: "addr option"

text \<open>Functions of the system: the \<open>errno\<close> of a failure, or the result.\<close>

datatype write_result = Write_error int | Write_nothing | Written

record os =
  os_mutex_init :: "int option"
  os_mutex_destroy :: "int option"
  os_mutex_lock :: "int option"
  os_mutex_unlock :: "int option"
  os_gettimeofday :: "int + timeval"
  os_pipe :: "int + int \<times> int"
  os_fcntl_getfl :: "int \<Rightarrow> int + int"
  os_fcntl_setfl :: "int \<Rightarrow> int \<Rightarrow> int option"
  os_socket :: "int \<Rightarrow> int + int"
  os_setsockopt :: "int \<Rightarrow> string \<Rightarrow> int option"
  os_bind :: "int \<Rightarrow> sockaddr \<Rightarrow> int option"
  os_signal :: "int \<Rightarrow> int option"
  os_write :: "write_result list"

definition EINTR :: int where "EINTR = 4"
definition EAGAIN :: int where "EAGAIN = 11"
definition O_NONBLOCK :: int where "O_NONBLOCK = 2048"
definition DEFAULT_HASH_SIZE :: int where "DEFAULT_HASH_SIZE = 65521"
definition sizeof_tube_manager :: nat where "sizeof_tube_manager = 240"
definition sizeof_sig_context :: nat where "sizeof_sig_context = 32"
definition TP_IGNORE_SOURCE :: u32 where "TP_IGNORE_SOURCE = push_bit 0 1"
definition TP_WILL_RESPOND :: u32 where "TP_WILL_RESPOND = push_bit 1 1"

definition upd_mgr :: "(mgr_vars \<Rightarrow> mgr_vars) \<Rightarrow> ('d, 'z) tmmem_scheme \<Rightarrow> ('d, 'z) tmmem_scheme" where
  "upd_mgr f s = s\<lparr>mgr := f (mgr s)\<rparr>"

definition LS_LOG_PERROR :: "string \<Rightarrow> 'z logmem_scheme \<Rightarrow> 'z logmem_scheme" where
  "LS_LOG_PERROR what s = ls_log LS_LOG_ERROR (Text (ascii what)) s"

text \<open>An identifier read as a 64-bit number, on a little-endian machine.\<close>

definition id_word :: "tube_key \<Rightarrow> u64" where
  "id_word k = foldr (\<lambda>b w. push_bit 8 w OR ucast b) (snd k) 0"

section \<open>Triggering\<close>

definition trigger ::
  "('c ev_payload, ('c, 'z) tms) programs \<Rightarrow> addr option \<Rightarrow> 'c ev_payload \<Rightarrow> ('c, 'z) tube_manager \<Rightarrow> ('c, 'z) tms \<Rightarrow>
   ((errcode + unit) \<times> ('c, 'z) tube_manager \<times> ('c, 'z) tms) option" where
  "trigger prog ev data m s =
     (case (tm_dispatcher m, ev) of
        (Some d, Some e) \<Rightarrow>
          map_option (\<lambda>(r, d1, s1). (r, m\<lparr>tm_dispatcher := Some d1\<rparr>, s1))
            (ls_event_trigger prog e data None 0 d s)
      | _ \<Rightarrow> None)"

section \<open>Interrupting\<close>

text \<open>The loop writes until the pipe takes the byte; the list is what the writes return.\<close>

fun write_loop :: "write_result list \<Rightarrow> (errcode + unit) option" where
  "write_loop [] = None"
| "write_loop (Write_error e # ws) = (if e = EAGAIN then write_loop ws else Some (Inl (- e)))"
| "write_loop (Write_nothing # ws) = None"
| "write_loop (Written # ws) = Some (Inr ())"

definition tube_manager_interrupt ::
  "os \<Rightarrow> int \<Rightarrow> ('d, 'z) tmmem_scheme \<Rightarrow> ((errcode + unit) \<times> ('d, 'z) tmmem_scheme) option" where
  "tube_manager_interrupt os b s =
     map_option (\<lambda>r. (r, case r of Inr u \<Rightarrow> s\<lparr>pipe_out := pipe_out s @ [b]\<rparr> | Inl e \<Rightarrow> s))
       (write_loop (os_write os))"

definition tube_manager_running :: "('d, 'z) tmmem_scheme \<Rightarrow> bool" where
  "tube_manager_running s = m_keep_going (mgr s)"

definition tube_manager_stop ::
  "os \<Rightarrow> ('d, 'z) tmmem_scheme \<Rightarrow> ((errcode + unit) \<times> ('d, 'z) tmmem_scheme) option" where
  "tube_manager_stop os s = tube_manager_interrupt os (-2) (upd_mgr (\<lambda>v. v\<lparr>m_keep_going := False\<rparr>) s)"

text \<open>The handler of a signal writes its number once for each context of the signal, to the manager of the
  context: \<open>None\<close> when that manager was freed.\<close>

fun tm_signal ::
  "os \<Rightarrow> int \<Rightarrow> sig_context list \<Rightarrow> ('d, 'z) tmmem_scheme \<Rightarrow> ('d, 'z) tmmem_scheme option" where
  "tm_signal os sig [] s = Some s"
| "tm_signal os sig (c # cs) s =
     (if sg_sig c = sig then
        (if blocks s (sg_mgr c) = None then None
         else
           (case tube_manager_interrupt os sig s of
              None \<Rightarrow> None
            | Some (Inl e, s1) \<Rightarrow> tm_signal os sig cs (LS_LOG_ERR e ''tube_manager_interrupt'' s1)
            | Some (Inr u, s1) \<Rightarrow> tm_signal os sig cs s1))
      else tm_signal os sig cs s)"

text \<open>A context is not freed again.\<close>

definition tube_manager_signal ::
  "os \<Rightarrow> addr \<Rightarrow> int \<Rightarrow> nat \<Rightarrow> ('d, 'z) tmmem_scheme \<Rightarrow> (errcode + unit) \<times> ('d, 'z) tmmem_scheme" where
  "tube_manager_signal os m sig cb s =
     (case ls_data_malloc sizeof_sig_context s of
        (None, s1) \<Rightarrow> (Inl LS_ERR_NO_MEMORY, s1)
      | (Some ctx, s1) \<Rightarrow>
          (case os_signal os sig of
             Some e \<Rightarrow> (Inl (- e), ls_data_free (Some ctx) s1)
           | None \<Rightarrow>
               (Inr (), s1\<lparr>sig_contexts :=
                  \<lparr>sg_self = ctx, sg_mgr = m, sg_sig = sig, sg_cb = cb\<rparr> # sig_contexts s1\<rparr>)))"

section \<open>Policy\<close>

definition tube_manager_set_policy_responder ::
  "bool \<Rightarrow> ('d, 'z) tmmem_scheme \<Rightarrow> ('d, 'z) tmmem_scheme" where
  "tube_manager_set_policy_responder will_respond s =
     upd_mgr (\<lambda>v. v\<lparr>m_policy := (if will_respond then m_policy v OR TP_WILL_RESPOND
                                 else m_policy v AND NOT TP_WILL_RESPOND)\<rparr>) s"

definition tube_manager_is_responder :: "('d, 'z) tmmem_scheme \<Rightarrow> bool" where
  "tube_manager_is_responder s = (m_policy (mgr s) AND TP_WILL_RESPOND = TP_WILL_RESPOND)"

definition tube_manager_set_data :: "nat \<Rightarrow> ('d, 'z) tmmem_scheme \<Rightarrow> ('d, 'z) tmmem_scheme" where
  "tube_manager_set_data data s = upd_mgr (\<lambda>v. v\<lparr>m_data := data\<rparr>) s"

definition tube_manager_get_data :: "('d, 'z) tmmem_scheme \<Rightarrow> nat" where
  "tube_manager_get_data s = m_data (mgr s)"

section \<open>Timers\<close>

text \<open>A comparison of timers reads them through their pointers.\<close>

definition timer_less :: "('d, 'z) tmmem_scheme \<Rightarrow> addr option \<Rightarrow> addr option \<Rightarrow> bool" where
  "timer_less s a b =
     (case (Option.bind a (timer_at s), Option.bind b (timer_at s)) of
        (Some x, Some y) \<Rightarrow> ls_timer_greater x y
      | _ \<Rightarrow> False)"

definition timer_ctx :: "('d, 'z) tmmem_scheme \<Rightarrow> addr option gheap_ctx" where
  "timer_ctx s = \<lparr>fanout = 2, page_chunks = 512, less_comparer = timer_less s\<rparr>"

definition timer_del :: "addr \<Rightarrow> ('d, 'z) tmmem_scheme \<Rightarrow> ('d, 'z) tmmem_scheme" where
  "timer_del a s = ls_timer_destroy a (s\<lparr>timer_at := (timer_at s)(a := None)\<rparr>)"

definition set_timer_q ::
  "addr gpriority_queue option \<Rightarrow> ('d, 'z) tmmem_scheme \<Rightarrow> ('d, 'z) tmmem_scheme" where
  "set_timer_q q s = upd_mgr (\<lambda>v. v\<lparr>m_timer_q := q\<rparr>) s"

definition unlocked :: "os \<Rightarrow> (errcode + unit) \<times> 's \<Rightarrow> (errcode + unit) \<times> 's" where
  "unlocked os rs =
     (case os_mutex_unlock os of Some e \<Rightarrow> (Inl (- e), snd rs) | None \<Rightarrow> rs)"

definition tube_manager_cancel_timer ::
  "os \<Rightarrow> addr \<Rightarrow> ('d, 'z) tmmem_scheme \<Rightarrow> (errcode + unit) \<times> ('d, 'z) tmmem_scheme" where
  "tube_manager_cancel_timer os tim s =
     (case timer_at s tim of
        None \<Rightarrow> (Inl LS_ERR_NONE, fault s)
      | Some t \<Rightarrow>
          (let s1 = s\<lparr>timer_at := (timer_at s)(tim \<mapsto> ls_timer_cancel t)\<rparr> in
           case os_mutex_lock os of
             Some e \<Rightarrow> (Inl (- e), s1)
           | None \<Rightarrow>
               (case m_timer_q (mgr s1) of
                  None \<Rightarrow> (Inl LS_ERR_NONE, fault s1)
                | Some q \<Rightarrow>
                    unlocked os (Inr (), set_timer_q
                      (Some (q\<lparr>gq_base := gheap_make_heap (timer_ctx s1) (gq_base q) (gq_size q)\<rparr>)) s1))))"

definition tube_manager_schedule_timer ::
  "os \<Rightarrow> addr \<Rightarrow> ('d, 'z) tmmem_scheme \<Rightarrow> (errcode + unit) \<times> ('d, 'z) tmmem_scheme" where
  "tube_manager_schedule_timer os tim s =
     (case os_mutex_lock os of
        Some e \<Rightarrow> (Inl (- e), s)
      | None \<Rightarrow>
          (case m_timer_q (mgr s) of
             None \<Rightarrow> (Inl LS_ERR_NONE, fault s)
           | Some q \<Rightarrow>
               (case gpriority_queue_push (timer_ctx s) sizeof_ptr tim q s of
                  (ok, q1, s1) \<Rightarrow>
                    unlocked os (if ok then Inr () else Inl LS_ERR_NO_MEMORY, set_timer_q (Some q1) s1))))"

text \<open>A timer that could not be scheduled is not freed.\<close>

definition tube_manager_schedule_ms ::
  "os \<Rightarrow> nat \<Rightarrow> nat \<Rightarrow> nat \<Rightarrow> ('d, 'z) tmmem_scheme \<Rightarrow> (errcode + addr) \<times> ('d, 'z) tmmem_scheme" where
  "tube_manager_schedule_ms os ms cb context s =
     (case ls_timer_create_ms (m_last (mgr s)) ms cb context s of
        (Inl e, s1) \<Rightarrow> (Inl e, s1)
      | (Inr (ret, t), s1) \<Rightarrow>
          (case tube_manager_schedule_timer os ret (s1\<lparr>timer_at := (timer_at s1)(ret \<mapsto> t)\<rparr>) of
             (Inl e, s2) \<Rightarrow> (Inl e, s2)
           | (Inr u, s2) \<Rightarrow> (Inr ret, s2)))"

definition tube_manager_schedule ::
  "os \<Rightarrow> timeval \<Rightarrow> nat \<Rightarrow> nat \<Rightarrow> ('d, 'z) tmmem_scheme \<Rightarrow> (errcode + addr) \<times> ('d, 'z) tmmem_scheme" where
  "tube_manager_schedule os tv cb context s =
     (case ls_timer_create tv cb context s of
        (Inl e, s1) \<Rightarrow> (Inl e, s1)
      | (Inr (ret, t), s1) \<Rightarrow>
          (case tube_manager_schedule_timer os ret (s1\<lparr>timer_at := (timer_at s1)(ret \<mapsto> t)\<rparr>) of
             (Inl e, s2) \<Rightarrow> (Inl e, s2)
           | (Inr u, s2) \<Rightarrow> (Inr ret, s2)))"

datatype pending = Pend_error errcode | Pend_none | Pend_at "timeval option" | Pend_stopped

text \<open>The loop of \<open>pending_timers\<close>.  \<open>tim\<close> points to the first slot of the array, and it is read again
  after the queue was popped.\<close>

type_synonym ('d, 'z) timer_calls = "nat \<Rightarrow> nat timer \<Rightarrow> ('d, 'z) tmmem_scheme \<Rightarrow> ('d, 'z) tmmem_scheme"

partial_function (option) pending_timers ::
  "os \<Rightarrow> ('d, 'z) timer_calls \<Rightarrow> ('d, 'z) tmmem_scheme \<Rightarrow> (pending \<times> ('d, 'z) tmmem_scheme) option" where
  "pending_timers os call s =
     (if \<not> m_keep_going (mgr s) then Some (Pend_stopped, s)
      else
        (case os_mutex_lock os of
           Some e \<Rightarrow> Some (Pend_error (- e), s)
         | None \<Rightarrow>
             (case m_timer_q (mgr s) of
                None \<Rightarrow> None
              | Some q \<Rightarrow>
                  (case gpriority_queue_top q of
                     None \<Rightarrow>
                       Some (case os_mutex_unlock os of Some e \<Rightarrow> Pend_error (- e) | None \<Rightarrow> Pend_none, s)
                   | Some tim \<Rightarrow>
                       (case Option.bind (gq_base q ! tim) (timer_at s) of
                          None \<Rightarrow> None
                        | Some t \<Rightarrow>
                            if ls_timer_greater_tv t (m_last (mgr s)) then
                              Some (case os_mutex_unlock os of
                                      Some e \<Rightarrow> Pend_error (- e)
                                    | None \<Rightarrow> Pend_at (ls_timer_get_time t), s)
                            else
                              (case gpriority_queue_pop (timer_ctx s) timer_del q s of
                                 (q1, s1) \<Rightarrow>
                                   (case os_mutex_unlock os of
                                      Some e \<Rightarrow> Some (Pend_error (- e), set_timer_q (Some q1) s1)
                                    | None \<Rightarrow>
                                        (case gq_base q1 ! tim of
                                           None \<Rightarrow> None
                                         | Some a \<Rightarrow>
                                             (case timer_at s1 a of
                                                None \<Rightarrow> None
                                              | Some t1 \<Rightarrow>
                                                  pending_timers os call
                                                    (ls_timer_exec call t1
                                                      ((set_timer_q (Some q1) s1)
                                                        \<lparr>fired := fired s1 @ [a]\<rparr>)))))))))))"


section \<open>Tubes of a manager\<close>

text \<open>The cleaner of the table of tubes: a running tube is closed, then it is destroyed.\<close>

definition clean_tube :: "(tube_key, addr, ('d, 'z) tubemem_scheme) ls_htable_cleanfunc" where
  "clean_tube replace destroy_key key data s =
     (case data of
        None \<Rightarrow> fault s
      | Some t \<Rightarrow>
          (let s1 = (if tube_get_state t s = Some TS_RUNNING then
                       (case tube_close t s of
                          (Inl err, s1) \<Rightarrow> LS_LOG_ERR err ''tube_close'' s1
                        | (Inr u, s1) \<Rightarrow> s1)
                     else s) in
           tube_destroy t s1))"

definition tube_manager_add ::
  "('c ev_payload, ('c, 'z) tms) programs \<Rightarrow> ('c, 'z) tube_manager \<Rightarrow> addr \<Rightarrow> ('c, 'z) tms \<Rightarrow>
   ((errcode + unit) \<times> ('c, 'z) tube_manager \<times> ('c, 'z) tms) option" where
  "tube_manager_add prog m t s =
     (case (tube_get_id t s, tm_tubes m) of
        (Some key, Some tbl) \<Rightarrow>
          (case ls_htable_put tbl key (Some t) (Some clean_tube) s of
             (Inl e, tbl1, s1) \<Rightarrow> Some (Inl e, m\<lparr>tm_tubes := Some tbl1\<rparr>, s1)
           | (Inr u, tbl1, s1) \<Rightarrow>
               trigger prog (e_add m) (Ev_tube t) (m\<lparr>tm_tubes := Some tbl1\<rparr>) s1)
      | _ \<Rightarrow> None)"

definition tube_manager_remove ::
  "('c ev_payload, ('c, 'z) tms) programs \<Rightarrow> ('c, 'z) tube_manager \<Rightarrow> addr \<Rightarrow> ('c, 'z) tms \<Rightarrow>
   (('c, 'z) tube_manager \<times> ('c, 'z) tms) option" where
  "tube_manager_remove prog m t s =
     (case trigger prog (e_remove m) (Ev_tube t) m s of
        None \<Rightarrow> None
      | Some (r, m1, s1) \<Rightarrow>
          (let s2 = (case r of Inl err \<Rightarrow> LS_LOG_ERR err ''ls_event_trigger'' s1 | Inr u \<Rightarrow> s1) in
           case (tube_get_id t s2, tm_tubes m1) of
             (Some key, Some tbl) \<Rightarrow>
               (case ls_htable_remove tbl key s2 of
                  (tbl1, s3) \<Rightarrow> Some (m1\<lparr>tm_tubes := Some tbl1\<rparr>, s3))
           | _ \<Rightarrow> None))"

definition tube_manager_size :: "('c, 'z) tube_manager \<Rightarrow> u32 option" where
  "tube_manager_size m = map_option ls_htable_get_count (tm_tubes m)"

definition log_walk :: "(tube_key, addr, 'z logmem_scheme) ls_htable_walkfunc" where
  "log_walk s key data =
     (1, ls_log LS_LOG_INFO
           (Text (case spud_id_to_string (SPUD_ID_STRING_SIZE + 1) (snd key) of Some t \<Rightarrow> t | None \<Rightarrow> [])) s)"

definition tube_manager_print_tubes :: "('c, 'z) tube_manager \<Rightarrow> ('c, 'z) tms \<Rightarrow> ('c, 'z) tms option" where
  "tube_manager_print_tubes m s =
     map_option (\<lambda>tbl. snd (ls_htable_walk tbl log_walk s)) (tm_tubes m)"

definition tube_manager_foreach ::
  "(tube_key, addr, 'u) ls_htable_walkfunc \<Rightarrow> 'u \<Rightarrow> ('c, 'z) tube_manager \<Rightarrow> 'u option" where
  "tube_manager_foreach walker data m =
     map_option (\<lambda>tbl. snd (ls_htable_walk tbl walker data)) (tm_tubes m)"

text \<open>The callback is called with the manager as its argument.\<close>

definition tube_manager_bind_event ::
  "byte_ptr \<times> cstr \<Rightarrow> nat \<Rightarrow> ('c, 'z) tube_manager \<Rightarrow> ('c, 'z) tms \<Rightarrow> ((errcode + unit) \<times> ('c, 'z) tms) option" where
  "tube_manager_bind_event name cb m s =
     (case tm_dispatcher m of
        None \<Rightarrow> None
      | Some d \<Rightarrow>
          (case ls_event_dispatcher_get_event name d s of
             (None, s1) \<Rightarrow> Some (Inl LS_ERR_BAD_FORMAT, s1)
           | (Some ev, s1) \<Rightarrow> ls_event_bind ev cb (tm_self m) d s1))"

section \<open>Creating and destroying\<close>

definition tube_manager_get_dispatcher :: "('c, 'z) tube_manager \<Rightarrow> ('c, 'z) tms dispatcher option" where
  "tube_manager_get_dispatcher m = tm_dispatcher m"

definition tube_manager_finalize ::
  "os \<Rightarrow> ('c, 'z) tube_manager \<Rightarrow> ('c, 'z) tms \<Rightarrow> (('c, 'z) tube_manager \<times> ('c, 'z) tms) option" where
  "tube_manager_finalize os m s =
     (let s1 = upd_mgr (\<lambda>v. v\<lparr>m_keep_going := False\<rparr>) s in
      case (if m_initialized (mgr s1) then map_option snd (tube_manager_interrupt os (-1) s1) else Some s1) of
        None \<Rightarrow> None
      | Some s2 \<Rightarrow>
          (let s3 = upd_mgr (\<lambda>v. v\<lparr>m_initialized := False\<rparr>) s2;
               s4 = (if os_mutex_destroy os \<noteq> None then LS_LOG_PERROR ''pthread_mutex_destroy'' s3 else s3);
               s5 = (case tm_tubes m of Some tbl \<Rightarrow> ls_htable_destroy tbl s4 | None \<Rightarrow> s4);
               m1 = m\<lparr>tm_tubes := None\<rparr> in
           case (case tm_dispatcher m1 of
                   None \<Rightarrow> Some s5
                 | Some d \<Rightarrow> map_option snd (ls_event_dispatcher_destroy d s5)) of
             None \<Rightarrow> None
           | Some s6 \<Rightarrow>
               Some (m1\<lparr>tm_dispatcher := None\<rparr>,
                 case m_timer_q (mgr s6) of
                   None \<Rightarrow> s6
                 | Some q \<Rightarrow> set_timer_q None (gpriority_queue_delete timer_del q s6))))"

text \<open>The events, in the order they are created; the first failure ends it.\<close>

definition create_event ::
  "string \<Rightarrow> (addr \<Rightarrow> ('c, 'z) tube_manager \<Rightarrow> ('c, 'z) tube_manager) \<Rightarrow>
   errcode option \<times> ('c, 'z) tube_manager \<times> ('c, 'z) tms \<Rightarrow> errcode option \<times> ('c, 'z) tube_manager \<times> ('c, 'z) tms" where
  "create_event name set_ev st =
     (case st of
        (None, m, s) \<Rightarrow>
          (case tm_dispatcher m of
             None \<Rightarrow> (Some LS_ERR_NONE, m, fault s)
           | Some d \<Rightarrow>
               (case ls_event_dispatcher_create_event ((0, 0), ascii name) d s of
                  (Inl e, d1, s1) \<Rightarrow> (Some e, m\<lparr>tm_dispatcher := Some d1\<rparr>, s1)
                | (Inr ev, d1, s1) \<Rightarrow> (None, set_ev ev (m\<lparr>tm_dispatcher := Some d1\<rparr>), s1)))
      | _ \<Rightarrow> st)"

definition create_events ::
  "('c, 'z) tube_manager \<Rightarrow> ('c, 'z) tms \<Rightarrow> errcode option \<times> ('c, 'z) tube_manager \<times> ('c, 'z) tms" where
  "create_events m s =
     create_event ''remove'' (\<lambda>e m. m\<lparr>e_remove := Some e\<rparr>)
     (create_event ''add'' (\<lambda>e m. m\<lparr>e_add := Some e\<rparr>)
     (create_event ''close'' (\<lambda>e m. m\<lparr>e_close := Some e\<rparr>)
     (create_event ''data'' (\<lambda>e m. m\<lparr>e_data := Some e\<rparr>)
     (create_event ''running'' (\<lambda>e m. m\<lparr>e_running := Some e\<rparr>)
     (create_event ''loopstart'' (\<lambda>e m. m\<lparr>e_loopstart := Some e\<rparr>) (None, m, s))))))"

text \<open>Setting one end of the pipe to non-blocking.\<close>

definition set_nonblock :: "os \<Rightarrow> int \<Rightarrow> errcode option" where
  "set_nonblock os fd =
     (case os_fcntl_getfl os fd of
        Inl e \<Rightarrow> Some (- e)
      | Inr fl \<Rightarrow> map_option uminus (os_fcntl_setfl os fd (or fl O_NONBLOCK)))"

definition setup_pipe :: "os \<Rightarrow> ('d, 'z) tmmem_scheme \<Rightarrow> errcode option \<times> ('d, 'z) tmmem_scheme" where
  "setup_pipe os s =
     (case os_pipe os of
        Inl e \<Rightarrow> (Some (- e), s)
      | Inr (r, w) \<Rightarrow>
          (let s1 = upd_mgr (\<lambda>v. v\<lparr>m_pipe := (r, w), m_max_fd := max (m_max_fd v) r\<rparr>) s in
           case set_nonblock os r of
             Some e \<Rightarrow> (Some e, s1)
           | None \<Rightarrow>
               (let s2 = upd_mgr (\<lambda>v. v\<lparr>m_max_fd := max (m_max_fd v) w\<rparr>) s1 in
                (set_nonblock os w, s2))))"

text \<open>\<open>_tube_manager_init\<close> up to its \<open>cleanup\<close> label: the error, if any, with what was set up.\<close>

definition init_parts ::
  "os \<Rightarrow> int \<Rightarrow> ('c, 'z) tube_manager \<Rightarrow> ('c, 'z) tms \<Rightarrow> errcode option \<times> ('c, 'z) tube_manager \<times> ('c, 'z) tms" where
  "init_parts os buckets0 m s0 =
     (let s = upd_mgr (\<lambda>v. v\<lparr>m_initialized := False, m_sock4 := -1, m_sock6 := -1, m_max_fd := -1,
                              m_keep_going := True, m_pipe := (-1, -1)\<rparr>) s0;
          buckets = (if buckets0 \<le> 0 then DEFAULT_HASH_SIZE else buckets0) in
      case os_mutex_init os of
        Some e \<Rightarrow> (Some (- e), m, s)
      | None \<Rightarrow>
          (case ls_htable_create buckets (hash_id id_word) (compare_id id_word) s of
             (Inl e, s1) \<Rightarrow> (Some e, m, s1)
           | (Inr tbl, s1) \<Rightarrow>
               (let m1 = m\<lparr>tm_tubes := Some tbl\<rparr> in
                case ls_event_dispatcher_create (tm_self m) s1 of
                  (Inl e, s2) \<Rightarrow> (Some e, m1, s2)
                | (Inr d, s2) \<Rightarrow>
                    (case create_events (m1\<lparr>tm_dispatcher := Some d\<rparr>) s2 of
                       (Some e, m2, s3) \<Rightarrow> (Some e, m2, s3)
                     | (None, m2, s3) \<Rightarrow>
                         (case gpriority_queue_create sizeof_ptr s3 of
                            (None, s4) \<Rightarrow> (Some LS_ERR_NO_MEMORY, m2, s4)
                          | (Some q, s4) \<Rightarrow>
                              (let s5 = set_timer_q (Some q) s4 in
                               case os_gettimeofday os of
                                 Inl e \<Rightarrow> (Some (- e), m2, s5)
                               | Inr now \<Rightarrow>
                                   (case setup_pipe os (upd_mgr (\<lambda>v. v\<lparr>m_last := now\<rparr>) s5) of
                                      (e, s6) \<Rightarrow> (e, m2, s6))))))))"

definition tube_manager_init ::
  "os \<Rightarrow> int \<Rightarrow> ('c, 'z) tube_manager \<Rightarrow> ('c, 'z) tms \<Rightarrow> ((errcode + unit) \<times> ('c, 'z) tube_manager \<times> ('c, 'z) tms) option" where
  "tube_manager_init os buckets m s =
     (case init_parts os buckets m s of
        (None, m1, s1) \<Rightarrow> Some (Inr (), m1, s1)
      | (Some e, m1, s1) \<Rightarrow> map_option (\<lambda>(m2, s2). (Inl e, m2, s2)) (tube_manager_finalize os m1 s1))"

definition zero_mgr :: mgr_vars where
  "zero_mgr = \<lparr>m_initialized = False, m_sock4 = 0, m_sock6 = 0, m_pipe = (0, 0), m_max_fd = 0,
     m_timer_q = None, m_last = epoch, m_policy = 0, m_keep_going = False, m_data = 0\<rparr>"

definition zero_manager :: "addr \<Rightarrow> ('c, 'z) tube_manager" where
  "zero_manager a = \<lparr>tm_self = a, tm_tubes = None, tm_dispatcher = None, e_loopstart = None,
     e_running = None, e_data = None, e_close = None, e_add = None, e_remove = None\<rparr>"

definition tube_manager_create ::
  "os \<Rightarrow> int \<Rightarrow> ('c, 'z) tms \<Rightarrow> ((errcode + ('c, 'z) tube_manager) \<times> ('c, 'z) tms) option" where
  "tube_manager_create os buckets s =
     (case ls_data_calloc 1 sizeof_tube_manager s of
        (None, s1) \<Rightarrow> Some (Inl LS_ERR_NO_MEMORY, s1)
      | (Some ret, s1) \<Rightarrow>
          (case tube_manager_init os buckets (zero_manager ret) (s1\<lparr>mgr := zero_mgr\<rparr>) of
             None \<Rightarrow> None
           | Some (Inl e, m, s2) \<Rightarrow> Some (Inl e, ls_data_free (Some ret) s2)
           | Some (Inr u, m, s2) \<Rightarrow> Some (Inr m, upd_mgr (\<lambda>v. v\<lparr>m_initialized := True\<rparr>) s2)))"

definition tube_manager_destroy :: "os \<Rightarrow> ('c, 'z) tube_manager option \<Rightarrow> ('c, 'z) tms \<Rightarrow> ('c, 'z) tms option" where
  "tube_manager_destroy os m s =
     (case m of
        None \<Rightarrow> Some s
      | Some m \<Rightarrow>
          map_option (\<lambda>(m1, s1). ls_data_free (Some (tm_self m)) s1) (tube_manager_finalize os m s))"

section \<open>Sockets\<close>

definition PF_INET :: int where "PF_INET = 2"
definition PF_INET6 :: int where "PF_INET6 = 10"

text \<open>The calls on a new socket, in their order: the error of the first that fails.  The flags are read
  with an argument that the system ignores.\<close>

fun first_error :: "int option list \<Rightarrow> errcode option" where
  "first_error [] = None"
| "first_error (Some e # es) = Some (- e)"
| "first_error (None # es) = first_error es"

definition nonblock_calls :: "os \<Rightarrow> int \<Rightarrow> int option list" where
  "nonblock_calls os fd =
     (case os_fcntl_getfl os fd of
        Inl e \<Rightarrow> [Some e]
      | Inr fl \<Rightarrow> [os_fcntl_setfl os fd (or fl O_NONBLOCK)])"

definition tube_manager_socket ::
  "os \<Rightarrow> int \<Rightarrow> ('d, 'z) tmmem_scheme \<Rightarrow> (errcode + unit) \<times> ('d, 'z) tmmem_scheme" where
  "tube_manager_socket os port s0 =
     (let s = tube_manager_set_policy_responder (port \<noteq> 0) s0 in
      case os_socket os PF_INET6 of
        Inl e \<Rightarrow> (Inl (- e), upd_mgr (\<lambda>v. v\<lparr>m_sock6 := -1\<rparr>) s)
      | Inr sock6 \<Rightarrow>
          (let s1 = upd_mgr (\<lambda>v. v\<lparr>m_sock6 := sock6\<rparr>) s in
           case first_error ([os_setsockopt os sock6 ''IPV6_V6ONLY'',
                              os_bind os sock6 (ls_sockaddr_v6_any port),
                              os_setsockopt os sock6 ''IPV6_RECVPKTINFO'',
                              os_setsockopt os sock6 ''SO_TIMESTAMP''] @ nonblock_calls os sock6) of
             Some e \<Rightarrow> (Inl e, s1)
           | None \<Rightarrow>
               (let s2 = upd_mgr (\<lambda>v. v\<lparr>m_max_fd := max (m_max_fd v) sock6\<rparr>) s1 in
                case os_socket os PF_INET of
                  Inl e \<Rightarrow> (Inl (- e), upd_mgr (\<lambda>v. v\<lparr>m_sock4 := -1\<rparr>) s2)
                | Inr sock4 \<Rightarrow>
                    (let s3 = upd_mgr (\<lambda>v. v\<lparr>m_sock4 := sock4\<rparr>) s2 in
                     case first_error ([os_bind os sock4 (ls_sockaddr_v4_any port),
                                        os_setsockopt os sock4 ''IP_PKTINFO'',
                                        os_setsockopt os sock4 ''SO_TIMESTAMP''] @ nonblock_calls os sock4) of
                       Some e \<Rightarrow> (Inl e, s3)
                     | None \<Rightarrow>
                         (Inr (), upd_mgr (\<lambda>v. v\<lparr>m_max_fd := max (m_max_fd v) sock4\<rparr>) s3)))))"

end
