(* ===== verification/Tube_Loop.thy ===== *)
theory Tube_Loop
  imports Tube_Manager
begin

unbundle bit_operations_syntax

text \<open>
  The loop of the tube manager and the opening of tubes, \<open>src/tube_manager.c\<close>: waiting for a socket,
  receiving a message, and what it does to its tube.
\<close>

section \<open>Waiting\<close>

text \<open>What \<open>select\<close> may return: an error, a timeout (with the time read then), or descriptors: the byte
  read from the pipe when it is ready and gives one, and whether the two sockets are ready.\<close>

datatype select_result =
    Sel_error int
  | Sel_timeout "int + timeval"
  | Sel_ready "int option" bool bool

datatype wait_result = Wait_error errcode | Wait_stopped | Wait_socket int

text \<open>The callbacks of a program: of its events, its timers and its signals.\<close>

record ('c, 'z) callbacks =
  cb_events :: "('c ev_payload, ('c, 'z) tms) programs"
  cb_timers :: "nat \<Rightarrow> nat timer \<Rightarrow> ('c, 'z) tms \<Rightarrow> ('c, 'z) tms"
  cb_signals :: "nat \<Rightarrow> int \<Rightarrow> ('c, 'z) tms \<Rightarrow> ('c, 'z) tms"

definition call_signals :: "('c, 'z) callbacks \<Rightarrow> int \<Rightarrow> ('c, 'z) tms \<Rightarrow> ('c, 'z) tms" where
  "call_signals cbs b s =
     fold (\<lambda>c s. if sg_sig c = b then cb_signals cbs (sg_cb c) b s else s) (sig_contexts s) s"

fun tube_manager_wait ::
  "os \<Rightarrow> ('c, 'z) callbacks \<Rightarrow> select_result list \<Rightarrow> ('c, 'z) tms \<Rightarrow>
   (wait_result \<times> select_result list \<times> ('c, 'z) tms) option" where
  "tube_manager_wait os cbs sels s =
     (if \<not> m_keep_going (mgr s) then Some (Wait_stopped, sels, s)
      else
        (case pending_timers os (cb_timers cbs) s of
           None \<Rightarrow> None
         | Some (Pend_error e, s1) \<Rightarrow> Some (Wait_error e, sels, s1)
         | Some (Pend_stopped, s1) \<Rightarrow> Some (Wait_stopped, sels, s1)
         | Some (Pend_at None, s1) \<Rightarrow> None
         | Some (p, s1) \<Rightarrow>
             (case sels of
                [] \<Rightarrow> None
              | Sel_error e # rest \<Rightarrow>
                  if e = EINTR then tube_manager_wait os cbs rest s1 else Some (Wait_error (- e), rest, s1)
              | Sel_timeout (Inl e) # rest \<Rightarrow> Some (Wait_error (- e), rest, s1)
              | Sel_timeout (Inr now) # rest \<Rightarrow>
                  tube_manager_wait os cbs rest (upd_mgr (\<lambda>v. v\<lparr>m_last := now\<rparr>) s1)
              | Sel_ready b r6 r4 # rest \<Rightarrow>
                  (let s2 = (case b of Some c \<Rightarrow> call_signals cbs c s1 | None \<Rightarrow> s1) in
                   if m_sock6 (mgr s2) \<ge> 0 \<and> r6 then Some (Wait_socket (m_sock6 (mgr s2)), rest, s2)
                   else if m_sock4 (mgr s2) \<ge> 0 \<and> r4 then Some (Wait_socket (m_sock4 (mgr s2)), rest, s2)
                   else tube_manager_wait os cbs rest s2))))"

text \<open>The timeout given to \<open>select\<close>.\<close>

definition select_timeout :: "pending \<Rightarrow> ('d, 'z) tmmem_scheme \<Rightarrow> timeval option" where
  "select_timeout p s =
     (case p of Pend_at (Some term) \<Rightarrow> Some (timersub term (m_last (mgr s))) | _ \<Rightarrow> None)"

section \<open>Receiving\<close>

text \<open>Control messages: packet information, and the time stamp of a datagram with its length.\<close>

datatype ctl = Ctl_pktinfo cmsg | Ctl_timestamp nat timeval

record packet =
  pk_bytes :: "u8 list"
  pk_from :: sockaddr
  pk_ctl :: "ctl list"
  pk_now :: "int + timeval"

datatype recv_result = Recv_error int | Recv_msg packet

definition sizeof_timeval :: nat where "sizeof_timeval = 16"

fun read_ctl :: "ctl \<Rightarrow> ls_pktinfo \<times> timeval option \<Rightarrow> ls_pktinfo \<times> timeval option" where
  "read_ctl (Ctl_pktinfo c) (info, t) = (pi_receive c info, t)"
| "read_ctl (Ctl_timestamp len tv) (info, t) =
     (info, if len = CMSG_LEN sizeof_timeval then Some tv else t)"

text \<open>The time of a packet is its time stamp, or that of the clock.\<close>

definition receive_time ::
  "packet \<Rightarrow> ls_pktinfo \<Rightarrow> ('c, 'z) tms \<Rightarrow> (errcode + ls_pktinfo) \<times> ('c, 'z) tms" where
  "receive_time pkt info s =
     (case fold read_ctl (pk_ctl pkt) (info, None) of
        (info1, Some tv) \<Rightarrow> (Inr info1, upd_mgr (\<lambda>v. v\<lparr>m_last := tv\<rparr>) s)
      | (info1, None) \<Rightarrow>
          (case pk_now pkt of
             Inl e \<Rightarrow> (Inl (- e), s)
           | Inr now \<Rightarrow> (Inr info1, upd_mgr (\<lambda>v. v\<lparr>m_last := now\<rparr>) s)))"

definition command_of :: "u8 \<Rightarrow> spud_command" where
  "command_of fl =
     (let c = fl AND SPUD_COMMAND in
      if c = command_bits SPUD_DATA then SPUD_DATA
      else if c = command_bits SPUD_OPEN then SPUD_OPEN
      else if c = command_bits SPUD_CLOSE then SPUD_CLOSE
      else SPUD_ACK)"

text \<open>What happens to a message: the loop goes on, or ends with an error.\<close>

datatype outcome = Go_on | Fail errcode

definition outcome_of :: "(errcode + unit) \<Rightarrow> outcome" where
  "outcome_of r = (case r of Inl e \<Rightarrow> Fail e | Inr u \<Rightarrow> Go_on)"

text \<open>The commands of a message for a tube.\<close>

definition on_command ::
  "('c, 'z) callbacks \<Rightarrow> spud_command \<Rightarrow> addr \<Rightarrow> 'c option \<Rightarrow> sockaddr \<Rightarrow> ('c, 'z) tube_manager \<Rightarrow> ('c, 'z) tms \<Rightarrow>
   (outcome \<times> ('c, 'z) tube_manager \<times> ('c, 'z) tms) option" where
  "on_command cbs cmd t cbor peer m s =
     (case tube_get_state t s of
        None \<Rightarrow> None
      | Some state \<Rightarrow>
          (case cmd of
             SPUD_DATA \<Rightarrow>
               if state = TS_RUNNING then
                 map_option (\<lambda>(r, m1, s1). (outcome_of r, m1, s1))
                   (trigger (cb_events cbs) (e_data m) (Ev_msg t cbor peer) m s)
               else Some (Go_on, m, s)
           | SPUD_CLOSE \<Rightarrow>
               if state \<noteq> TS_UNKNOWN then
                 (case trigger (cb_events cbs) (e_close m) (Ev_msg t cbor peer) m
                         (tube_set_state t TS_UNKNOWN s) of
                    None \<Rightarrow> None
                  | Some (Inl e, m1, s1) \<Rightarrow> Some (Fail e, m1, s1)
                  | Some (Inr u, m1, s1) \<Rightarrow>
                      map_option (\<lambda>(m2, s2). (Go_on, m2, s2)) (tube_manager_remove (cb_events cbs) m1 t s1))
               else Some (Go_on, m, s)
           | SPUD_OPEN \<Rightarrow> Some (Go_on, m, s)
           | SPUD_ACK \<Rightarrow>
               if state = TS_OPENING then
                 map_option (\<lambda>(r, m1, s1). (outcome_of r, m1, s1))
                   (trigger (cb_events cbs) (e_running m) (Ev_msg t cbor peer) m
                     (tube_set_state t TS_RUNNING s))
               else Some (Go_on, m, s)))"

text \<open>An \<open>OPEN\<close> for an unknown tube, at a responder.  The tube is left as it is on the paths to
  \<open>error\<close>.\<close>

definition accept_tube ::
  "('c, 'z) callbacks \<Rightarrow> int \<Rightarrow> sockaddr \<Rightarrow> ls_pktinfo \<Rightarrow> spud_tube_id \<Rightarrow> 'c option \<Rightarrow> ('c, 'z) tube_manager \<Rightarrow> ('c, 'z) tms \<Rightarrow>
   (outcome \<times> ('c, 'z) tube_manager \<times> ('c, 'z) tms) option" where
  "accept_tube cbs sock peer info uid cbor m s =
     (case tube_create s of
        (Inl e, s1) \<Rightarrow> Some (Fail e, m, s1)
      | (Inr t, s1) \<Rightarrow>
          (case map_option (tube_set_local t (Some info)) (tube_set_info t sock (Some peer) (Some uid) s1) of
             None \<Rightarrow> None
           | Some (Inl e, s2) \<Rightarrow> Some (Fail e, m, s2)
           | Some (Inr u, s2) \<Rightarrow>
               (case tube_manager_add (cb_events cbs) m t s2 of
                  None \<Rightarrow> None
                | Some (Inl e, m1, s3) \<Rightarrow> Some (Fail e, m1, s3)
                | Some (Inr u, m1, s3) \<Rightarrow>
                    (case tube_send t SPUD_ACK False False [] (tube_set_state t TS_RUNNING s3) of
                       (Inl e, s4) \<Rightarrow> Some (Go_on, m1, s4)
                     | (Inr u, s4) \<Rightarrow> on_command cbs SPUD_OPEN t cbor peer m1 s4))))"

text \<open>A received message, from \<open>spud_parse\<close> to \<open>cleanup\<close>.\<close>

definition unparse ::
  "('c, ('c, 'z) tms) cbor_lib \<Rightarrow> 'c spud_message \<Rightarrow> outcome \<times> ('c, 'z) tube_manager \<times> ('c, 'z) tms \<Rightarrow>
   outcome \<times> ('c, 'z) tube_manager \<times> ('c, 'z) tms" where
  "unparse lib msg r =
     (case r of
        (Go_on, m, s) \<Rightarrow> (Go_on, m, snd (spud_unparse (cn_cbor_free lib) msg s))
      | _ \<Rightarrow> r)"

text \<open>\<open>err\<close> says whether the caller of the loop gave a pointer for the error.  The error of \<open>spud_parse\<close> is
  logged through that pointer without a test: \<open>None\<close> when it is null.\<close>

definition handle_message ::
  "bool \<Rightarrow> ('c, ('c, 'z) tms) cbor_lib \<Rightarrow> ('c, 'z) callbacks \<Rightarrow> int \<Rightarrow> sockaddr \<Rightarrow> ls_pktinfo \<Rightarrow> u8 list \<Rightarrow>
   ('c, 'z) tube_manager \<Rightarrow> ('c, 'z) tms \<Rightarrow> (outcome \<times> ('c, 'z) tube_manager \<times> ('c, 'z) tms) option" where
  "handle_message err lib cbs sock peer info buf m s =
     (case spud_parse (cn_cbor_decode lib) (Some buf) \<lparr>msg_header = None, msg_cbor = None\<rparr> s of
        (Inl e, msg, s1) \<Rightarrow>
          if err then Some (unparse lib msg (Go_on, m, LS_LOG_ERR e ''spud_parse'' s1)) else None
      | (Inr u, msg, s1) \<Rightarrow>
          (case (msg_header msg, tm_tubes m) of
             (Some h, Some tbl) \<Rightarrow>
               (let uid = spud_copy_id (tube_id h); cmd = command_of (flags h) in
                map_option (unparse lib msg)
                  (case ls_htable_get tbl (0, uid) of
                     Some t \<Rightarrow> on_command cbs cmd t (msg_cbor msg) peer m s1
                   | None \<Rightarrow>
                       if \<not> tube_manager_is_responder s1 \<or> cmd \<noteq> SPUD_OPEN then
                         Some (Go_on, m, ls_log LS_LOG_WARN
                           (Text (ascii ''Invalid tube ID: '' @
                             (case spud_id_to_string (SPUD_ID_STRING_SIZE + 1) uid of
                                Some i \<Rightarrow> i | None \<Rightarrow> []))) s1)
                       else accept_tube cbs sock peer info uid (msg_cbor msg) m s1))
           | _ \<Rightarrow> None))"

section \<open>The loop\<close>

text \<open>The rounds of the loop, over what \<open>recvmsg\<close> returns; \<open>info\<close> is at an address of its own.\<close>

fun loop_rounds ::
  "bool \<Rightarrow> ('c, ('c, 'z) tms) cbor_lib \<Rightarrow> os \<Rightarrow> ('c, 'z) callbacks \<Rightarrow> ls_pktinfo \<Rightarrow> recv_result list \<Rightarrow> select_result list \<Rightarrow>
   ('c, 'z) tube_manager \<Rightarrow> ('c, 'z) tms \<Rightarrow> ((errcode + unit) \<times> ('c, 'z) tube_manager \<times> ('c, 'z) tms) option" where
  "loop_rounds err lib os cbs info0 recvs sels m s =
     (if \<not> m_keep_going (mgr s) then Some (Inr (), m, s)
      else
        (let info = ls_pktinfo_clear info0 in
         case tube_manager_wait os cbs sels s of
           None \<Rightarrow> None
         | Some (Wait_error e, sels1, s1) \<Rightarrow> Some (Inl e, m, s1)
         | Some (Wait_stopped, sels1, s1) \<Rightarrow> if m_keep_going (mgr s1) then None else Some (Inr (), m, s1)
         | Some (Wait_socket sock, sels1, s1) \<Rightarrow>
             (case recvs of
                [] \<Rightarrow> None
              | Recv_error e # rs \<Rightarrow>
                  if e = EINTR then loop_rounds err lib os cbs info rs sels1 m s1
                  else Some (Inl (- e), m, s1)
              | Recv_msg pkt # rs \<Rightarrow>
                  if pk_bytes pkt = [] then None
                  else
                    (case receive_time pkt info s1 of
                       (Inl e, s2) \<Rightarrow> Some (Inl e, m, s2)
                     | (Inr info1, s2) \<Rightarrow>
                         (case handle_message err lib cbs sock (pk_from pkt) info1 (take MAXBUFLEN (pk_bytes pkt)) m s2 of
                            None \<Rightarrow> None
                          | Some (Fail e, m1, s3) \<Rightarrow> Some (Inl e, m1, s3)
                          | Some (Go_on, m1, s3) \<Rightarrow> loop_rounds err lib os cbs info1 rs sels1 m1 s3)))))"

definition tube_manager_loop ::
  "bool \<Rightarrow> ('c, ('c, 'z) tms) cbor_lib \<Rightarrow> os \<Rightarrow> ('c, 'z) callbacks \<Rightarrow> recv_result list \<Rightarrow> select_result list \<Rightarrow>
   ('c, 'z) tube_manager \<Rightarrow> ('c, 'z) tms \<Rightarrow> ((errcode + unit) \<times> ('c, 'z) tube_manager \<times> ('c, 'z) tms) option" where
  "tube_manager_loop err lib os cbs recvs sels m s =
     (case ls_pktinfo_create s of
        (Inl e, s1) \<Rightarrow> Some (Inl e, m, s1)
      | (Inr (p, info), s1) \<Rightarrow>
          (case trigger (cb_events cbs) (e_loopstart m) Ev_mgr m s1 of
             None \<Rightarrow> None
           | Some (Inl e, m1, s2) \<Rightarrow> Some (Inl e, m1, ls_pktinfo_destroy p s2)
           | Some (Inr u, m1, s2) \<Rightarrow>
               map_option (\<lambda>(r, m2, s3). (r, m2, ls_pktinfo_destroy p s3))
                 (loop_rounds err lib os cbs info recvs sels m1 s2)))"

section \<open>Opening\<close>

text \<open>The result has the error code when the code sets one.\<close>

definition tube_manager_open_tube ::
  "('c, 'z) callbacks \<Rightarrow> ('c, 'z) tms rand_source \<Rightarrow> sockaddr \<Rightarrow> ('c, 'z) tube_manager \<Rightarrow> ('c, 'z) tms \<Rightarrow>
   ((errcode option + addr) \<times> ('c, 'z) tube_manager \<times> ('c, 'z) tms) option" where
  "tube_manager_open_tube cbs urandom dest m s =
     (case tube_create s of
        (Inl e, s1) \<Rightarrow> Some (Inl (Some e), m, s1)
      | (Inr ret, s1) \<Rightarrow>
          (case spud_create_id urandom s1 of
             (Inl e, s2) \<Rightarrow> Some (Inl e, m, tube_destroy ret s2)
           | (Inr tid, s2) \<Rightarrow>
               if sa_family dest \<noteq> AF_INET \<and> sa_family dest \<noteq> AF_INET6 then
                 Some (Inl (Some LS_ERR_INVALID_ARG), m, tube_destroy ret s2)
               else
                 (let sock = (if sa_family dest = AF_INET then m_sock4 (mgr s2) else m_sock6 (mgr s2)) in
                  case tube_set_info ret sock (Some dest) (Some tid) s2 of
                    None \<Rightarrow> None
                  | Some s3 \<Rightarrow>
                      (case tube_manager_add (cb_events cbs) m ret (tube_set_state ret TS_OPENING s3) of
                         None \<Rightarrow> None
                       | Some (Inl e, m1, s4) \<Rightarrow> Some (Inl (Some e), m1, tube_destroy ret s4)
                       | Some (Inr u, m1, s4) \<Rightarrow>
                           (case tube_send ret SPUD_OPEN False False [] s4 of
                              (Inr u, s5) \<Rightarrow> Some (Inr ret, m1, s5)
                            | (Inl e, s5) \<Rightarrow>
                                (case tube_manager_remove (cb_events cbs) m1 ret s5 of
                                   None \<Rightarrow> None
                                 | Some (m2, s6) \<Rightarrow> Some (Inl (Some e), m2, tube_destroy ret s6)))))))"

end
