(* ===== verification/Tube_Props.thy ===== *)
theory Tube_Props
  imports Tube_Loop
begin

text \<open>
  What a tube sends is what the receiver of the datagram parses.
\<close>

unbundle bit_operations_syntax

section \<open>Sending and parsing\<close>

lemma concat_chunks: "concat (filter (\<lambda>c. c \<noteq> []) data) = concat data"
  by (induction data) auto

definition sent_flags :: "spud_command \<Rightarrow> bool \<Rightarrow> bool \<Rightarrow> u8" where
  "sent_flags cmd adec pdec = flags (send_header cmd adec pdec raw_header)"

lemma sent_flags_read:
  "command_of (sent_flags cmd adec pdec) = cmd"
  "sent_flags cmd adec pdec AND SPUD_ADEC \<noteq> 0 \<longleftrightarrow> adec"
  "sent_flags cmd adec pdec AND SPUD_PDEC \<noteq> 0 \<longleftrightarrow> pdec"
  by (cases cmd; cases adec; cases pdec;
      simp add: sent_flags_def send_header_def raw_header_def command_of_def SPUD_COMMAND_def SPUD_ADEC_def
        SPUD_PDEC_def push_bit_word_beyond)+

text \<open>What an operation may do to the heap and the log, with everything above them as it was.\<close>

definition heap_and_log :: "'z logmem_scheme \<Rightarrow> 'z logmem_scheme \<Rightarrow> bool" where
  "heap_and_log s s' \<longleftrightarrow> next_addr s \<le> next_addr s' \<and> malloc_func s' = malloc_func s \<and> logmem.more s' = logmem.more s"

lemma heap_and_log_refl [simp]: "heap_and_log s s"
  by (simp add: heap_and_log_def)

lemma heap_and_log_trans: "heap_and_log a b \<Longrightarrow> heap_and_log b c \<Longrightarrow> heap_and_log a c"
  by (simp add: heap_and_log_def)

lemma heap_and_log_ls_log [simp]: "heap_and_log s (ls_log l t s') = heap_and_log s s'"
  by (simp add: heap_and_log_def ls_log_def split: option.split)

lemma heap_and_log_mem:
  "next_addr s \<le> n \<Longrightarrow> heap_and_log s (s\<lparr>blocks := b, next_addr := n, n_calls := c\<rparr>)"
  by (cases s) (simp add: heap_and_log_def)

text \<open>A header with the magic number is parsed with what follows it.\<close>

lemma parse_header:
  assumes "magic h = SpudMagicCookie" "length (tube_id h) = SPUD_TUBE_ID_SIZE"
  shows "spud_parse decode (Some (header_bytes h @ body)) msg z =
    (if body = [] then (Inr (), \<lparr>msg_header = Some h, msg_cbor = None\<rparr>, z)
     else case decode body z of
       (Inl e, z') \<Rightarrow> (Inl (LS_ERR_USER + e), \<lparr>msg_header = Some h, msg_cbor = None\<rparr>, z')
     | (Inr c, z') \<Rightarrow> (Inr (), \<lparr>msg_header = Some h, msg_cbor = Some c\<rparr>, z'))"
proof -
  let ?h = "\<lparr>magic = SpudMagicCookie, tube_id = tube_id h, flags = 0\<rparr>"
  have init: "spud_init no_urandom raw_header (Some (tube_id h)) () = (Inr ?h, ())"
    by (simp add: spud_init_def spud_set_id_def raw_header_def)
  have h: "?h\<lparr>flags := flags h\<rparr> = h" using assms(1) by (cases h) simp
  show ?thesis using parse_of_init[OF assms(2) init, of decode "flags h" body msg z] unfolding h by blast
qed

text \<open>The datagram of a call of \<open>tube_send\<close>.\<close>

lemma tube_send_datagram:
  fixes s :: "('d, 'z) tubemem_scheme"
  assumes "tube_at s t = Some x" "mem_wf s" "tube_send t cmd adec pdec data s = (r, s')"
  shows "blocks s' = blocks s \<and> faults s' = faults s \<and> mem_wf s' \<and>
    (fst (ls_data_calloc (length data + 1) sizeof_iovec s) = None \<and> r = Inl LS_ERR_NO_MEMORY \<and> heap_and_log s s' \<or>
     (\<exists>dg h. heap_and_log (s\<lparr>sent := sent s @ [dg]\<rparr>) s' \<and> dg_sock dg = tb_sock x \<and> dg_dest dg = tb_peer x \<and>
        dg_control dg = map_option (\<lambda>p. ls_pktinfo_cmsg p 0) (Option.bind (tb_pktinfo x) (pktinfo_at s)) \<and>
        (case sendmsg_fn s (length (sent s)) dg of (ret, errno) \<Rightarrow> r = (if ret \<le> 0 then Inl (- errno) else Inr ())) \<and>
        tube_id h = tb_id x \<and> magic h = SpudMagicCookie \<and> flags h = sent_flags cmd adec pdec \<and>
        concat (dg_iov dg) = header_bytes h @ concat data))"
proof -
  obtain iov s1 where c: "ls_data_calloc (length data + 1) sizeof_iovec s = (iov, s1)" by fastforce
  show ?thesis
  proof (cases iov)
    case None
    then have r: "r = Inl LS_ERR_NO_MEMORY" "s' = s1" using assms(3) c by (simp_all add: tube_send_def)
    have "s1 = s\<lparr>n_calls := Suc (n_calls s)\<rparr>" using c None by (auto dest!: ls_data_calloc_None)
    moreover have "heap_and_log s (s\<lparr>n_calls := Suc (n_calls s)\<rparr>)" by (cases s) (simp add: heap_and_log_def)
    ultimately show ?thesis using c None r assms(2) by (simp add: mem_wf_def)
  next
    case (Some a)
    let ?raw = "\<lparr>magic = SpudMagicCookie, tube_id = tb_id x, flags = 0\<rparr>"
    let ?h = "?raw\<lparr>flags := sent_flags cmd adec pdec\<rparr>"
    let ?iov = "header_bytes ?h # filter (\<lambda>c. length c > 0) data"
    have s1: "s1 = s\<lparr>blocks := (blocks s)(a \<mapsto> replicate (size_mult (length data + 1) sizeof_iovec) (Some 0)),
        next_addr := Suc a, n_calls := Suc (n_calls s)\<rparr>" and a: "a = next_addr s"
      using ls_data_calloc_Some c Some by blast+
    have fresh: "blocks s a = None" using assms(2) a by (simp add: mem_wf_fresh)
    have init: "spud_init no_urandom raw_header (Some (tb_id x)) s1 = (Inr ?raw, s1)"
      by (simp add: spud_init_def spud_set_id_def raw_header_def)
    have hd: "send_header cmd adec pdec ?raw = ?h"
      by (simp add: send_header_def sent_flags_def raw_header_def Let_def)
    let ?dg = "\<lparr>dg_sock = tb_sock x, dg_dest = tb_peer x, dg_namelen = ls_sockaddr_get_length (tb_peer x) mod 2 ^ 32,
         dg_control = map_option (\<lambda>p. ls_pktinfo_cmsg p 0) (Option.bind (tb_pktinfo x) (pktinfo_at s)), dg_iov = ?iov\<rparr>"
    obtain ret errno where m: "sendmsg_fn s (length (sent s)) ?dg = (ret, errno)" by fastforce
    have free: "ls_data_free (Some a) (s1\<lparr>sent := sent s @ [?dg]\<rparr>) =
        s1\<lparr>sent := sent s @ [?dg], blocks := blocks s\<rparr>"
      using fresh by (simp add: ls_data_free_def s1 fun_upd_idem)
    have send: "tube_manager_sendmsg (tb_sock x) (Option.bind (tb_pktinfo x) (pktinfo_at s1)) (tb_peer x) ?iov s1 =
        (if ret \<le> 0 then Inl (- errno) else Inr (), s1\<lparr>sent := sent s @ [?dg]\<rparr>)"
      using m by (simp add: tube_manager_sendmsg_def s1)
    have t1: "tube_at s1 t = Some x" using assms(1) by (simp add: s1)
    have rs: "r = (if ret \<le> 0 then Inl (- errno) else Inr ())" "s' = s1\<lparr>sent := sent s @ [?dg], blocks := blocks s\<rparr>"
      using assms(3) unfolding tube_send_def c Some prod.case option.case t1 init sum.case hd Let_def send free
      by (simp_all only: prod.inject)
    have s': "s' = (s\<lparr>sent := sent s @ [?dg]\<rparr>)\<lparr>blocks := blocks s, next_addr := Suc a, n_calls := Suc (n_calls s)\<rparr>"
      using rs(2) s1 by simp
    have "heap_and_log (s\<lparr>sent := sent s @ [?dg]\<rparr>) s'" unfolding s' by (rule heap_and_log_mem) (simp add: a)
    moreover have "mem_wf s'" using s' a assms(2) by (simp add: mem_wf_def)
    moreover have "concat ?iov = header_bytes ?h @ concat data" by (simp add: concat_chunks)
    ultimately show ?thesis
      using m rs by (intro conjI disjI2 exI[of _ ?dg] exI[of _ ?h]) (simp_all add: s1)
  qed
qed

text \<open>C10: What \<open>tube_send\<close> gives to the socket is parsed by the receiver as the tube's own identifier,
  the command and the two flags it was called with, and the concatenation of the chunks of data as
  the body; it goes to the peer from the tube's socket and local address.  The call fails exactly
  when memory is short, with nothing sent, or when the system sends nothing, with its error code; in
  both cases the heap and the tubes are as before.\<close>

theorem tube_send_parsed:
  assumes "tube_at s t = Some x" "length (tb_id x) = SPUD_TUBE_ID_SIZE" "mem_wf s"
    "tube_send t cmd adec pdec data s = (r, s')"
  shows "blocks s' = blocks s \<and> faults s' = faults s \<and> tube_at s' = tube_at s \<and>
    (fst (ls_data_calloc (length data + 1) sizeof_iovec s) = None \<and> r = Inl LS_ERR_NO_MEMORY \<and> sent s' = sent s \<or>
     (\<exists>dg h. sent s' = sent s @ [dg] \<and> dg_sock dg = tb_sock x \<and> dg_dest dg = tb_peer x \<and>
        dg_control dg = map_option (\<lambda>p. ls_pktinfo_cmsg p 0) (Option.bind (tb_pktinfo x) (pktinfo_at s)) \<and>
        (case sendmsg_fn s (length (sent s)) dg of (ret, errno) \<Rightarrow> r = (if ret \<le> 0 then Inl (- errno) else Inr ())) \<and>
        tube_id h = tb_id x \<and> command_of (flags h) = cmd \<and>
        (flags h AND SPUD_ADEC \<noteq> 0 \<longleftrightarrow> adec) \<and> (flags h AND SPUD_PDEC \<noteq> 0 \<longleftrightarrow> pdec) \<and>
        spud_parse decode (Some (concat (dg_iov dg))) msg z =
          (if concat data = [] then (Inr (), \<lparr>msg_header = Some h, msg_cbor = None\<rparr>, z)
           else case decode (concat data) z of
             (Inl e, z') \<Rightarrow> (Inl (LS_ERR_USER + e), \<lparr>msg_header = Some h, msg_cbor = None\<rparr>, z')
           | (Inr c, z') \<Rightarrow> (Inr (), \<lparr>msg_header = Some h, msg_cbor = Some c\<rparr>, z'))))"
proof -
  note p = parse_header[where decode = decode and msg = msg and z = z]
  have keep: "tube_at s' = tube_at s \<and> sent s' = sent z'" if "heap_and_log z' s'" "tube_at z' = tube_at s"
    for z' :: "('a, 'b) tubemem_scheme"
    using that by (cases z'; cases s') (simp add: heap_and_log_def)
  show ?thesis
    using tube_send_datagram[OF assms(1,3,4)]
  proof (elim conjE disjE exE)
    fix dg h
    assume d: "heap_and_log (s\<lparr>sent := sent s @ [dg]\<rparr>) s'" "dg_sock dg = tb_sock x" "dg_dest dg = tb_peer x"
      "dg_control dg = map_option (\<lambda>p. ls_pktinfo_cmsg p 0) (Option.bind (tb_pktinfo x) (pktinfo_at s))"
      "case sendmsg_fn s (length (sent s)) dg of (ret, errno) \<Rightarrow> r = (if ret \<le> 0 then Inl (- errno) else Inr ())"
      "tube_id h = tb_id x" "magic h = SpudMagicCookie" "flags h = sent_flags cmd adec pdec"
      "concat (dg_iov dg) = header_bytes h @ concat data" "blocks s' = blocks s" "faults s' = faults s"
    have "length (tube_id h) = SPUD_TUBE_ID_SIZE" using d(6) assms(2) by simp
    note p = p[OF d(7) this, of "concat data"]
    show ?thesis using keep[OF d(1)] d sent_flags_read[of cmd adec pdec] p
      by (intro conjI disjI2 exI[of _ dg] exI[of _ h]) (simp_all del: concat_eq_Nil_conv)
  qed (use keep[of s] in simp)
qed

text \<open>A tube on a socket that takes every datagram.\<close>

definition one_tube :: "nat tubemem" where
  "one_tube = evmem.extend (one_event 5)
     \<lparr>tube_at = [7 \<mapsto> \<lparr>tb_state = TS_RUNNING, tb_peer = Sockaddr_in 1234 1, tb_id = [1, 2, 3, 4, 5, 6, 7, 8],
        tb_data = 0, tb_pktinfo = None, tb_sock = 3\<rparr>],
      pktinfo_at = Map.empty, sendmsg_fn = (\<lambda>n dg. (1, 0)), sent = []\<rparr>"

lemma one_tube_simps [simp]:
  "mem_wf one_tube" "sent one_tube = []" "pktinfo_at one_tube = Map.empty"
  "sendmsg_fn one_tube = (\<lambda>n dg. (1, 0))"
  by (simp_all add: one_tube_def one_event_def evmem.defs logmem.defs init_log_def mem.defs init_mem_def mem_wf_def)

lemma tube_send_parsed_witness:
  "\<exists>s' dg h. tube_send 7 SPUD_ACK True False [[10], [], [11, 12]] one_tube = (Inr (), s') \<and> sent s' = [dg] \<and>
     spud_parse (\<lambda>bs z. (Inr bs, z)) (Some (concat (dg_iov dg))) \<lparr>msg_header = None, msg_cbor = None\<rparr> () =
       (Inr (), \<lparr>msg_header = Some h, msg_cbor = Some [10, 11, 12]\<rparr>, ()) \<and>
     tube_id h = [1, 2, 3, 4, 5, 6, 7, 8] \<and> command_of (flags h) = SPUD_ACK"
proof -
  obtain r s' where t: "tube_send 7 SPUD_ACK True False [[10], [], [11, 12]] one_tube = (r, s')" by fastforce
  have x: "tube_at one_tube 7 = Some \<lparr>tb_state = TS_RUNNING, tb_peer = Sockaddr_in 1234 1, tb_id = [1, 2, 3, 4, 5, 6, 7, 8],
        tb_data = 0, tb_pktinfo = None, tb_sock = 3\<rparr>"
    by (simp add: one_tube_def evmem.defs)
  have ok: "fst (ls_data_calloc (length [[10], [], [11, 12 :: u8]] + 1) sizeof_iovec one_tube) \<noteq> None"
    by (simp add: ls_data_calloc_def ls_data_malloc_def Let_def one_tube_def one_event_def
        evmem.defs logmem.defs init_log_def mem.defs init_mem_def libc_malloc_def split: prod.split)
  have "length [1, 2, 3, 4, 5, 6, 7, 8 :: u8] = SPUD_TUBE_ID_SIZE" by (simp add: sizes)
  then show ?thesis
    using tube_send_parsed[OF x _ _ t, where decode = "\<lambda>bs z. (Inr bs, z)" and z = "()"
        and msg = "\<lparr>msg_header = None, msg_cbor = None\<rparr>"] ok t
    by (auto simp del: list.size split: if_splits)
qed

end
