(* ===== verification/Gheap_Props.thy ===== *)
theory Gheap_Props
  imports Gheap "HOL-Library.Multiset"
begin

text \<open>
  The heap is correct: the two index functions describe one tree, also in the layout by pages, and
  the operations keep the order of a heap and the items in it.
\<close>

section \<open>Arithmetic\<close>

lemma quot_rem:
  fixes m :: nat
  assumes "r < m"
  shows "(k * m + r) div m = k" "(k * m + r) mod m = r"
proof -
  have m: "m \<noteq> 0" using assms by simp
  show "(k * m + r) div m = k" using div_mult_self3[OF m, of k r] assms by simp
  show "(k * m + r) mod m = r" using assms by simp
qed

lemma quot_shape:
  fixes u m :: nat
  assumes "0 < u" "0 < m"
  shows "\<exists>k q. u = k * m + q + 1 \<and> q < m"
proof (intro exI conjI)
  have "u = (u - 1) + 1" using assms(1) by simp
  then show "u = (u - 1) div m * m + (u - 1) mod m + 1" by (simp only: div_mult_mod_eq)
  show "(u - 1) mod m < m" using assms(2) by simp
qed

lemma greater_div: "0 < m \<Longrightarrow> 0 < (n :: nat) \<Longrightarrow> v > (n - 1) div m \<longleftrightarrow> v * m + 1 > n"
  by (simp add: div_less_iff_less_mult) linarith

lemma greater_diff: "v \<le> p \<Longrightarrow> p + 2 \<le> (m :: nat) \<Longrightarrow> u > m - 2 - v \<longleftrightarrow> u + v + 2 > m"
  by linarith

lemma chunk_sum: "0 < (n :: nat) \<Longrightarrow> p + (p + 1) * (n - 1) + 1 = (p + 1) * n"
  by (cases n) simp_all

lemma leaf_page:
  fixes P C L :: nat
  assumes "P + 1 = C + L" "0 < C"
  shows "C - 1 + t + 1 + (k + 1) * L - P = k * L + t + 1" "(k + 1) * P + t - L + 1 = k * P + C + t"
proof -
  have "(k + 1) * L = k * L + L" "(k + 1) * P = k * P + P" by simp_all
  then show "C - 1 + t + 1 + (k + 1) * L - P = k * L + t + 1" "(k + 1) * P + t - L + 1 = k * P + C + t"
    using assms by linarith+
qed

lemma mult_rem:
  fixes n :: nat
  shows "(x * (n * c) + 1) mod n = 1 mod n" "(x * (n * c) + y * n + 1) mod n = 1 mod n" "(x * n + 1) mod n = 1 mod n"
proof -
  have "x * (n * c) + 1 = 1 + (x * c) * n" "x * (n * c) + y * n + 1 = 1 + (x * c + y) * n" "x * n + 1 = 1 + x * n"
    by (simp_all add: algebra_simps)
  then show "(x * (n * c) + 1) mod n = 1 mod n" "(x * (n * c) + y * n + 1) mod n = 1 mod n" "(x * n + 1) mod n = 1 mod n"
    by (simp_all only: mod_mult_self1)
qed

section \<open>The shape of the tree\<close>

text \<open>The index of the first child, without a bound.\<close>

definition first_child :: "'a gheap_ctx \<Rightarrow> nat \<Rightarrow> nat" where
  "first_child ctx u =
     (let f = fanout ctx; p = f * page_chunks ctx; l = (f - 1) * page_chunks ctx + 1; v = (u - 1) mod p + 1 in
      if page_chunks ctx = 1 then u * f + 1
      else if u = 0 then 1
      else if v < page_chunks ctx then (u - 1) + v * (f - 1) + 2
      else (v + ((u - 1) div p + 1) * l - p) * p + 1)"

locale heap_shape =
  fixes ctx :: "'a gheap_ctx"
  assumes fanout_pos: "0 < fanout ctx"
    and chunks_pos: "0 < page_chunks ctx"
    and page_fits: "fanout ctx * page_chunks ctx + 2 \<le> SIZE_MAX"
begin

abbreviation "f \<equiv> fanout ctx"
abbreviation "pc \<equiv> page_chunks ctx"
abbreviation "ps \<equiv> f * pc"
abbreviation "leaves \<equiv> (f - 1) * pc + 1"

lemma page_leaves: "ps + 1 = pc + leaves"
  using fanout_pos by (cases "fanout ctx") (simp_all add: algebra_simps)

lemma child_min: "gheap_get_child_index ctx u = min SIZE_MAX (first_child ctx u)"
proof -
  have div: "ps div f = pc" using fanout_pos by simp
  consider "pc = 1" | "pc \<noteq> 1" "u = 0" | "pc \<noteq> 1" "0 < u" "(u - 1) mod ps + 1 < pc"
    | "pc \<noteq> 1" "0 < u" "\<not> (u - 1) mod ps + 1 < pc" by blast
  then show ?thesis
  proof cases
    case 1
    have "u > (SIZE_MAX - 1) div f \<longleftrightarrow> u * f + 1 > SIZE_MAX"
      by (rule greater_div[OF fanout_pos]) (simp add: SIZE_MAX_def)
    then show ?thesis using 1 by (auto simp: gheap_get_child_index_def first_child_def Let_def)
  next
    case 2
    then show ?thesis by (simp add: gheap_get_child_index_def first_child_def SIZE_MAX_def)
  next
    case 3
    then have nz: "u \<noteq> 0" by simp
    let ?v = "((u - 1) mod ps + 1) * (f - 1)"
    have "?v \<le> pc * f" using 3(3) by (intro mult_le_mono) simp_all
    then have "u - 1 > SIZE_MAX - 2 - ?v \<longleftrightarrow> u - 1 + ?v + 2 > SIZE_MAX"
      using page_fits by (intro greater_diff[of _ ps]) (simp_all add: mult.commute)
    moreover have "gheap_get_child_index ctx u = (if u - 1 > SIZE_MAX - 2 - ?v then SIZE_MAX else u - 1 + ?v + 2)"
      unfolding gheap_get_child_index_def Let_def div if_not_P[OF 3(1)] if_P[OF 3(3)] if_not_P[OF nz] ..
    moreover have "first_child ctx u = u - 1 + ?v + 2"
      unfolding first_child_def Let_def if_not_P[OF 3(1)] if_P[OF 3(3)] if_not_P[OF nz] ..
    ultimately show ?thesis by (auto simp only: min_def split: if_splits)
  next
    case 4
    then have nz: "u \<noteq> 0" by simp
    let ?v = "(u - 1) mod ps + 1 + ((u - 1) div ps + 1) * leaves - ps"
    have "0 < ps" using fanout_pos chunks_pos by simp
    then have "?v > (SIZE_MAX - 1) div ps \<longleftrightarrow> ?v * ps + 1 > SIZE_MAX"
      by (rule greater_div) (simp add: SIZE_MAX_def)
    moreover have "gheap_get_child_index ctx u = (if ?v > (SIZE_MAX - 1) div ps then SIZE_MAX else ?v * ps + 1)"
      unfolding gheap_get_child_index_def Let_def div if_not_P[OF 4(1)] if_not_P[OF 4(3)] if_not_P[OF nz] ..
    moreover have "first_child ctx u = ?v * ps + 1"
      unfolding first_child_def Let_def if_not_P[OF 4(1)] if_not_P[OF 4(3)] if_not_P[OF nz] ..
    ultimately show ?thesis by (auto simp only: min_def split: if_splits)
  qed
qed

text \<open>An item other than the root, by its page and its place in the page.\<close>

lemma place: "0 < u \<Longrightarrow> \<exists>k q. u = k * ps + q + 1 \<and> q < ps"
  using quot_shape fanout_pos chunks_pos by simp

lemma child_same_page:
  assumes "p + 1 < pc"
  shows "first_child ctx (k * ps + p + 1) = k * ps + (p + 1) * f + 1"
proof -
  have "1 * pc \<le> f * pc" using fanout_pos by (intro mult_le_mono1) simp
  then have p: "p < ps" using assms by linarith
  have u: "k * ps + p + 1 - 1 = k * ps + p" "k * ps + p + 1 \<noteq> 0" "pc \<noteq> 1" using assms by simp_all
  have "first_child ctx (k * ps + p + 1) = k * ps + p + (p + 1) * (f - 1) + 2"
    unfolding first_child_def Let_def u quot_rem(2)[OF p] using u(2,3) assms by simp
  then show ?thesis using chunk_sum[OF fanout_pos, of p] by linarith
qed

lemma child_other_page:
  assumes "t < leaves" "pc \<noteq> 1"
  shows "first_child ctx (k * ps + pc + t) = (k * leaves + t + 1) * ps + 1"
proof -
  let ?p = "pc - 1 + t"
  have u: "k * ps + pc + t = k * ps + ?p + 1" using chunks_pos by simp
  have p: "?p < ps" using assms(1) page_leaves chunks_pos by linarith
  have "\<not> ?p + 1 < pc" using chunks_pos by simp
  moreover have "k * ps + ?p + 1 - 1 = k * ps + ?p" "k * ps + ?p + 1 \<noteq> 0" by simp_all
  ultimately have "first_child ctx (k * ps + ?p + 1) = (?p + 1 + (k + 1) * leaves - ps) * ps + 1"
    unfolding first_child_def Let_def using assms(2) quot_rem[OF p, of k] by presburger
  then show ?thesis unfolding u leaf_page(1)[OF page_leaves chunks_pos] .
qed

lemma parent_same_page:
  assumes "pc \<noteq> 1" "f \<le> q" "q < ps"
  shows "gheap_get_parent_index ctx (k * ps + q + 1) = k * ps + q div f"
proof -
  have "\<not> k * ps + q < f" using assms(2) by simp
  then show ?thesis using assms quot_rem[of q k] by (simp add: gheap_get_parent_index_def Let_def)
qed

lemma parent_root:
  assumes "pc \<noteq> 1" "q < f"
  shows "gheap_get_parent_index ctx (q + 1) = 0"
  using assms by (simp add: gheap_get_parent_index_def Let_def)

lemma parent_other_page:
  assumes "pc \<noteq> 1" "q < f" "t < leaves"
  shows "gheap_get_parent_index ctx ((k * leaves + t + 1) * ps + q + 1) = k * ps + pc + t"
proof -
  let ?w = "k * leaves + t + 1"
  have "f \<le> ps" using chunks_pos by simp
  then have q: "q < ps" using assms(2) by linarith
  have "ps \<le> ?w * ps" by simp
  then have "\<not> ?w * ps + q < f" using \<open>f \<le> ps\<close> by linarith
  moreover have "?w * ps + q + 1 - 1 = ?w * ps + q" by simp
  moreover have "?w - 1 = k * leaves + t" "\<not> f \<le> q" using assms(2) by simp_all
  ultimately have "gheap_get_parent_index ctx (?w * ps + q + 1) = (k + 1) * ps + t - leaves + 1"
    unfolding gheap_get_parent_index_def Let_def
    using assms(1) quot_rem[OF q, of ?w] quot_rem[OF assms(3), of k] by presburger
  then show ?thesis unfolding leaf_page(2)[OF page_leaves chunks_pos] .
qed

text \<open>The children of an item are those that have it as their parent.\<close>

lemma parent_child_pages:
  assumes "pc \<noteq> 1" "i < f"
  shows "gheap_get_parent_index ctx (first_child ctx u + i) = u"
proof (cases "u = 0")
  case True
  then show ?thesis using parent_root[OF assms] assms(1) by (simp add: first_child_def Let_def)
next
  case False
  then obtain k p where u: "u = k * ps + p + 1" "p < ps" using place by blast
  show ?thesis
  proof (cases "p + 1 < pc")
    case True
    let ?q = "(p + 1) * f + i"
    have "(p + 2) * f \<le> pc * f" using True by (intro mult_le_mono1) simp
    then have q: "?q < ps" using assms(2) by (simp add: algebra_simps)
    have c: "first_child ctx u + i = k * ps + ?q + 1" unfolding u(1) child_same_page[OF True] by simp
    have "f \<le> ?q" by simp
    moreover have "?q div f = p + 1" by (rule quot_rem(1)[OF assms(2)])
    ultimately have "gheap_get_parent_index ctx (k * ps + ?q + 1) = k * ps + (p + 1)"
      using parent_same_page[OF assms(1) _ q, of k] by presburger
    then show ?thesis using u(1) by (subst c) simp
  next
    case False
    let ?t = "p + 1 - pc"
    have t: "?t < leaves" using u(2) page_leaves False by linarith
    have u': "u = k * ps + pc + ?t" using u(1) False by simp
    have "first_child ctx u + i = (k * leaves + ?t + 1) * ps + i + 1"
      using child_other_page[OF t assms(1), of k] u' by simp
    then show ?thesis using parent_other_page[OF assms t, of k] u' by simp
  qed
qed

lemma child_parent_pages:
  assumes "pc \<noteq> 1" "0 < c"
  shows "\<exists>i<f. c = first_child ctx (gheap_get_parent_index ctx c) + i"
proof -
  obtain k q where c: "c = k * ps + q + 1" "q < ps" using place[OF assms(2)] by blast
  consider "f \<le> q" | "q < f" "k = 0" | "q < f" "0 < k" by linarith
  then show ?thesis
  proof cases
    case 1
    let ?p = "q div f - 1"
    have "0 < q div f" using 1 fanout_pos by (simp add: div_greater_zero_iff)
    then have p: "?p + 1 = q div f" by simp
    have "q div f < pc" using c(2) by (simp add: less_mult_imp_div_less mult.commute)
    then have "first_child ctx (k * ps + ?p + 1) = k * ps + (?p + 1) * f + 1" using child_same_page[of ?p k] p by simp
    moreover have "gheap_get_parent_index ctx c = k * ps + ?p + 1" using parent_same_page[OF assms(1) 1 c(2), of k] c(1) p by simp
    ultimately have "first_child ctx (gheap_get_parent_index ctx c) = k * ps + q div f * f + 1" unfolding p by simp
    moreover have "q div f * f + q mod f = q" by simp
    ultimately show ?thesis using c(1) fanout_pos by (intro exI[of _ "q mod f"]) simp
  next
    case 2
    then show ?thesis using parent_root[OF assms(1) 2(1)] c(1) assms(1) by (simp add: first_child_def Let_def)
  next
    case 3
    let ?t = "(k - 1) mod leaves" and ?k = "(k - 1) div leaves"
    have t: "?t < leaves" by simp
    have k: "?k * leaves + ?t + 1 = k" using 3(2) by (metis Suc_eq_plus1 Suc_diff_1 div_mult_mod_eq)
    have "gheap_get_parent_index ctx c = ?k * ps + pc + ?t"
      using parent_other_page[OF assms(1) 3(1) t, of ?k] unfolding k c(1) .
    moreover have "first_child ctx (?k * ps + pc + ?t) = k * ps + 1"
      using child_other_page[OF t assms(1), of ?k] unfolding k .
    ultimately have "c = first_child ctx (gheap_get_parent_index ctx c) + q" using c(1) by simp
    then show ?thesis using 3(1) by blast
  qed
qed

lemma parent_child: "i < f \<Longrightarrow> gheap_get_parent_index ctx (first_child ctx u + i) = u"
  using parent_child_pages by (cases "pc = 1") (simp_all add: first_child_def gheap_get_parent_index_def div_mult_self3)

lemma child_parent: "0 < c \<Longrightarrow> \<exists>i<f. c = first_child ctx (gheap_get_parent_index ctx c) + i"
proof (cases "pc = 1")
  case True
  assume "0 < c"
  then have "c = (c - 1) div f * f + 1 + (c - 1) mod f" by simp
  then show ?thesis using True fanout_pos
    by (intro exI[of _ "(c - 1) mod f"]) (simp add: first_child_def gheap_get_parent_index_def)
qed (use child_parent_pages in simp)

lemma is_parent:
  assumes "0 < c" "c < SIZE_MAX"
  shows "gheap_get_parent_index ctx c = u \<longleftrightarrow> gheap_get_child_index ctx u \<le> c \<and> c < gheap_get_child_index ctx u + f"
proof
  assume "gheap_get_parent_index ctx c = u"
  then obtain i where "i < f" "c = first_child ctx u + i" using child_parent[OF assms(1)] by blast
  then show "gheap_get_child_index ctx u \<le> c \<and> c < gheap_get_child_index ctx u + f" using child_min assms(2) by simp
next
  assume a: "gheap_get_child_index ctx u \<le> c \<and> c < gheap_get_child_index ctx u + f"
  then have "gheap_get_child_index ctx u = first_child ctx u" using child_min[of u] assms(2) by (simp add: min_def split: if_splits)
  then have "c = first_child ctx u + (c - first_child ctx u)" "c - first_child ctx u < f" using a by linarith+
  then show "gheap_get_parent_index ctx c = u" using parent_child by metis
qed

lemma first_child_mod: "first_child ctx u mod f = 1 mod f"
proof -
  consider "pc = 1" | "pc \<noteq> 1" "u = 0" | "pc \<noteq> 1" "0 < u" by blast
  then show ?thesis
  proof cases
    case 1
    then have "first_child ctx u = u * f + 1" by (simp add: first_child_def)
    then show ?thesis by (simp only: mult_rem)
  next
    case 2
    then have "first_child ctx u = 1" by (simp add: first_child_def Let_def)
    then show ?thesis by (simp only:)
  next
    case 3
    then obtain k p where u: "u = k * ps + p + 1" "p < ps" using place by blast
    show ?thesis
    proof (cases "p + 1 < pc")
      case True
      show ?thesis unfolding u(1) child_same_page[OF True] by (rule mult_rem)
    next
      case False
      let ?t = "p + 1 - pc"
      have t: "?t < leaves" using u(2) page_leaves False by linarith
      have u': "u = k * ps + pc + ?t" using u(1) False by simp
      show ?thesis using mult_rem(1)[of "k * leaves + ?t + 1" f pc]
        by (subst u', subst child_other_page[OF t 3(1)]) 
    qed
  qed
qed

end

section \<open>Order\<close>

text \<open>The items from index \<open>r\<close> on are not less than their children.\<close>

definition heap_from :: "'a gheap_ctx \<Rightarrow> nat \<Rightarrow> 'a list \<Rightarrow> nat \<Rightarrow> bool" where
  "heap_from ctx r b n \<longleftrightarrow>
     (\<forall>u. 0 < u \<and> u < n \<and> r \<le> gheap_get_parent_index ctx u \<longrightarrow>
        \<not> less_comparer ctx (b ! gheap_get_parent_index ctx u) (b ! u))"

text \<open>The same but for a hole, whose children are not greater than its parent.\<close>

definition holed :: "'a gheap_ctx \<Rightarrow> nat \<Rightarrow> 'a list \<Rightarrow> nat \<Rightarrow> nat \<Rightarrow> bool" where
  "holed ctx r b n h \<longleftrightarrow>
     (\<forall>u. 0 < u \<and> u < n \<and> u \<noteq> h \<and> gheap_get_parent_index ctx u \<noteq> h \<and> r \<le> gheap_get_parent_index ctx u \<longrightarrow>
        \<not> less_comparer ctx (b ! gheap_get_parent_index ctx u) (b ! u)) \<and>
     (\<forall>u. 0 < u \<and> u < n \<and> gheap_get_parent_index ctx u = h \<and> 0 < h \<and> r \<le> gheap_get_parent_index ctx h \<longrightarrow>
        \<not> less_comparer ctx (b ! gheap_get_parent_index ctx h) (b ! u))"

lemma parent_le: "gheap_get_parent_index ctx u \<le> u"
proof (cases "u = 0")
  case True
  then show ?thesis by (simp add: gheap_get_parent_index_def Let_def)
next
  case False
  then show ?thesis using parent_less[of u ctx] by simp
qed

lemma ancestor_le: "(gheap_get_parent_index ctx ^^ k) u \<le> u"
  by (induction k) (auto intro: order_trans[OF parent_le])

lemma heap_is_heap: "gheap_is_heap ctx b n \<longleftrightarrow> heap_from ctx 0 b n"
proof -
  let ?P = "\<lambda>u. less_comparer ctx (b ! gheap_get_parent_index ctx u) (b ! u)"
  have "gheap_is_heap ctx b n \<longleftrightarrow> find ?P [1..<n] = None"
  proof (cases "find ?P [1..<n]")
    case (Some u)
    then have "u \<in> set [1..<n]" by (auto simp: find_Some_iff)
    then show ?thesis using Some by (simp add: gheap_is_heap_def gheap_is_heap_until_def)
  qed (simp add: gheap_is_heap_def gheap_is_heap_until_def)
  then show ?thesis by (auto simp: find_None_iff heap_from_def Suc_le_eq)
qed

section \<open>Items\<close>

lemma mset_hole_move:
  assumes "h < length b" "p < length b"
  shows "mset (b[h := b ! p, p := x]) = mset (b[h := x])"
proof (cases "p = h")
  case False
  let ?b = "b[h := x]"
  have "mset (?b[h := ?b ! p, p := ?b ! h]) = mset ?b" by (rule mset_swap) (use assms in simp_all)
  then show ?thesis using assms False by simp
qed simp

lemma sift_up_length [simp]: "length (sift_up ctx root h item b) = length b"
proof (induction ctx root h item b rule: sift_up.induct)
  case (1 ctx root hole item base)
  then show ?case by (subst sift_up.simps) (auto simp: Let_def)
qed

lemma sift_up_nth: "h < j \<Longrightarrow> sift_up ctx root h item b ! j = b ! j"
proof (induction ctx root h item b rule: sift_up.induct)
  case (1 ctx root hole item base)
  have "gheap_get_parent_index ctx hole < j" using parent_le[of ctx hole] 1(2) by linarith
  then show ?case using 1 by (subst sift_up.simps) (auto simp: Let_def)
qed

lemma sift_up_mset: "h < length b \<Longrightarrow> mset (sift_up ctx root h item b) = mset (b[h := item])"
proof (induction ctx root h item b rule: sift_up.induct)
  case (1 ctx root hole item base)
  have p: "gheap_get_parent_index ctx hole < length base" using parent_le[of ctx hole] 1(2) by linarith
  show ?case
    using 1 p mset_hole_move[OF 1(2) p, of item] by (subst sift_up.simps) (auto simp: Let_def)
qed

section \<open>Sifting\<close>

locale heap_order = heap_shape ctx for ctx :: "'a gheap_ctx" +
  fixes A :: "'a set"
  assumes asym: "x \<in> A \<Longrightarrow> y \<in> A \<Longrightarrow> less_comparer ctx x y \<Longrightarrow> \<not> less_comparer ctx y x"
    and trans: "x \<in> A \<Longrightarrow> y \<in> A \<Longrightarrow> z \<in> A \<Longrightarrow> \<not> less_comparer ctx x y \<Longrightarrow> \<not> less_comparer ctx y z \<Longrightarrow>
                \<not> less_comparer ctx x z"
begin

abbreviation "par \<equiv> gheap_get_parent_index ctx"
abbreviation "lt \<equiv> less_comparer ctx"

lemma irrefl: "x \<in> A \<Longrightarrow> \<not> lt x x"
  using asym by blast

lemma sift_up_heap:
  assumes "holed ctx r b n h" "h < n" "n \<le> length b" "\<And>u. u < n \<Longrightarrow> b ! u \<in> A" "item \<in> A"
    "(par ^^ k) h = root" "r \<le> root"
    "\<And>u. 0 < u \<Longrightarrow> u < n \<Longrightarrow> par u = h \<Longrightarrow> \<not> lt item (b ! u)"
    "0 < root \<Longrightarrow> r \<le> par root \<Longrightarrow> \<not> lt (b ! par root) item"
  shows "heap_from ctx r (sift_up ctx root h item b) n"
  using assms
proof (induction h arbitrary: b k rule: less_induct)
  case (less h)
  have hole: "\<And>u. 0 < u \<Longrightarrow> u < n \<Longrightarrow> u \<noteq> h \<Longrightarrow> par u \<noteq> h \<Longrightarrow> r \<le> par u \<Longrightarrow> \<not> lt (b ! par u) (b ! u)"
    "\<And>u. 0 < u \<Longrightarrow> u < n \<Longrightarrow> par u = h \<Longrightarrow> 0 < h \<Longrightarrow> r \<le> par h \<Longrightarrow> \<not> lt (b ! par h) (b ! u)"
    using less.prems(1) unfolding holed_def by blast+
  have len: "h < length b" using less.prems(2,3) by simp
  have stop: "heap_from ctx r (b[h := item]) n" if top: "0 < h \<Longrightarrow> r \<le> par h \<Longrightarrow> \<not> lt (b ! par h) item"
  proof (unfold heap_from_def, intro allI impI)
    fix u assume u: "0 < u \<and> u < n \<and> r \<le> par u"
    have ne: "par u \<noteq> u" using u parent_less[of u ctx] by fastforce
    show "\<not> lt (b[h := item] ! par u) (b[h := item] ! u)"
      using u ne len hole(1) less.prems(8) top by (cases "u = h"; cases "par u = h") auto
  qed
  have step: "sift_up ctx root h item b =
      (if h > root then (if \<not> lt (b ! par h) item then b[h := item] else sift_up ctx root (par h) item (b[h := b ! par h]))
       else b[h := item])"
    by (subst sift_up.simps) (simp add: Let_def)
  show ?case
  proof (cases "h > root \<and> lt (b ! par h) item")
    case False
    have "\<not> lt (b ! par h) item" if "0 < h" "r \<le> par h"
    proof (cases "h > root")
      case True
      then show ?thesis using False by simp
    next
      case False
      then have "h = root" using ancestor_le[of k ctx h] less.prems(6) by simp
      then show ?thesis using less.prems(9) that by simp
    qed
    then show ?thesis using step stop False by auto
  next
    case True
    then have h: "0 < h" by simp
    let ?p = "par h" and ?b = "b[h := b ! par h]"
    have p: "?p < h" by (rule parent_less[OF h])
    obtain k' where k': "k = Suc k'" using True less.prems(6) by (cases k) auto
    have anc: "(par ^^ k') ?p = root" using less.prems(6) k' by (simp add: funpow_swap1)
    have rp: "root \<le> ?p" using ancestor_le[of k' ctx ?p] anc by simp
    have r: "r \<le> ?p" using rp less.prems(7) by simp
    have inA: "b ! h \<in> A" "b ! ?p \<in> A" using less.prems(2,4) p by auto
    have new: "holed ctx r ?b n ?p"
      unfolding holed_def
    proof (intro conjI allI impI)
      fix u assume u: "0 < u \<and> u < n \<and> u \<noteq> ?p \<and> par u \<noteq> ?p \<and> r \<le> par u"
      then have "u \<noteq> h" by auto
      then show "\<not> lt (?b ! par u) (?b ! u)"
        using u len hole(1) hole(2)[of u] h r by (cases "par u = h") auto
    next
      fix u assume u: "0 < u \<and> u < n \<and> par u = ?p \<and> 0 < ?p \<and> r \<le> par ?p"
      have pp: "par ?p < ?p" using parent_less u by blast
      have up: "\<not> lt (b ! par ?p) (b ! ?p)" using hole(1)[of ?p] u p less.prems(2) pp by fastforce
      have "u \<noteq> ?p" using u pp by auto
      show "\<not> lt (?b ! par ?p) (?b ! u)"
      proof (cases "u = h")
        case True
        then show ?thesis using up pp p len by simp
      next
        case False
        then have "\<not> lt (b ! ?p) (b ! u)" using hole(1)[of u] u p r by auto
        moreover have "par ?p < n" "?p < n" using pp p less.prems(2) by simp_all
        ultimately have "\<not> lt (b ! par ?p) (b ! u)" using up trans less.prems(4) u by blast
        then show ?thesis using False pp p by simp
      qed
    qed
    have kids: "\<not> lt item (?b ! u)" if u: "0 < u" "u < n" "par u = ?p" for u
    proof (cases "u = h")
      case True
      then show ?thesis using \<open>h > root \<and> lt (b ! par h) item\<close> asym inA less.prems(5) len by simp
    next
      case False
      have "u \<noteq> ?p" using parent_less[OF u(1), of ctx] u(3) by auto
      then have "\<not> lt (b ! ?p) (b ! u)" using hole(1)[of u] False u p r by auto
      moreover have "b ! u \<in> A" using less.prems(4) u(2) by blast
      ultimately have "lt (b ! u) item" using trans[of "b ! ?p" "b ! u" item] inA(2) less.prems(5) True by blast
      then have "\<not> lt item (b ! u)" using asym \<open>b ! u \<in> A\<close> less.prems(5) by blast
      then show ?thesis using False by simp
    qed
    have mem: "?b ! u \<in> A" if "u < n" for u using that less.prems(4) inA len by (cases "u = h") auto
    have top: "\<not> lt (?b ! par root) item" if "0 < root" "r \<le> par root"
    proof -
      have "par root < h" using parent_less[OF that(1), of ctx] True by simp
      then show ?thesis using less.prems(9)[OF that] by simp
    qed
    have "?p < n" "n \<le> length ?b" using p less.prems(2,3) by simp_all
    from less.IH[OF p new this mem less.prems(5) anc less.prems(7) kids top]
    have "heap_from ctx r (sift_up ctx root ?p item ?b) n" .
    then show ?thesis using step True by simp
  qed
qed

end

lemma mod_gap:
  fixes x y m :: nat
  assumes "x mod m = y mod m" "x < y"
  shows "x + m \<le> y"
proof -
  have "m dvd y - x" using assms by (metis mod_eq_dvd_iff_nat order_less_imp_le)
  then have "m \<le> y - x" using assms(2) by (intro dvd_imp_le) simp_all
  then show ?thesis using assms(2) by simp
qed

lemma full_mod: "0 < (n :: nat) \<Longrightarrow> (n - (n - 1) mod m) mod m = 1 mod m"
proof -
  assume n: "0 < n"
  have "n = (n - 1) div m * m + (n - 1) mod m + 1" using n by simp
  then have "n - (n - 1) mod m = 1 + (n - 1) div m * m" by linarith
  then show ?thesis by (simp only: mod_mult_self1)
qed

context heap_order
begin

lemma max_child_ok:
  assumes "0 < cnt" "\<And>i. i < cnt \<Longrightarrow> b ! (child + i) \<in> A"
  shows "child \<le> max_child ctx b cnt child \<and> max_child ctx b cnt child < child + cnt \<and>
         (\<forall>i<cnt. \<not> lt (b ! max_child ctx b cnt child) (b ! (child + i)))"
  using assms
proof (induction cnt)
  case (Suc cnt)
  show ?case
  proof (cases "cnt = 0")
    case True
    then show ?thesis using Suc.prems(2)[of 0] irrefl by (simp add: max_child_def)
  next
    case False
    let ?m = "max_child ctx b cnt child"
    have ih: "child \<le> ?m" "?m < child + cnt" "\<forall>i<cnt. \<not> lt (b ! ?m) (b ! (child + i))"
      using Suc.IH False Suc.prems(2) by auto
    have s: "max_child ctx b (Suc cnt) child = (if \<not> lt (b ! (child + cnt)) (b ! ?m) then child + cnt else ?m)"
      using False by (simp add: max_child_def)
    obtain j where j: "?m = child + j" "j < cnt" using ih(1,2) by (metis le_Suc_ex nat_add_left_cancel_less)
    have m: "b ! ?m \<in> A" "b ! (child + cnt) \<in> A" using j Suc.prems(2) by auto
    show ?thesis
    proof (cases "lt (b ! (child + cnt)) (b ! ?m)")
      case True
      then have "\<not> lt (b ! ?m) (b ! (child + i))" if "i < Suc cnt" for i
        using that ih(3) asym[OF m(2,1)] by (cases "i = cnt") simp_all
      then show ?thesis using s True ih by auto
    next
      case False
      have "\<not> lt (b ! (child + cnt)) (b ! (child + i))" if "i < Suc cnt" for i
      proof (cases "i = cnt")
        case True
        then show ?thesis using irrefl m by simp
      next
        case i: False
        then have "\<not> lt (b ! ?m) (b ! (child + i))" using that ih(3) by simp
        then show ?thesis using trans[OF m(2,1) Suc.prems(2)[OF that] False] by simp
      qed
      then show ?thesis using s False by auto
    qed
  qed
qed simp

lemma move_up_ok:
  assumes "holed ctx r b n h" "h < n" "n \<le> length b" "\<And>u. u < n \<Longrightarrow> b ! u \<in> A" "r \<le> h" "0 < cnt"
    "\<And>u. 0 < u \<Longrightarrow> u < n \<Longrightarrow> par u = h \<longleftrightarrow> child \<le> u \<and> u < child + cnt" "0 < child" "child + cnt \<le> n"
    "move_up_max_child ctx b cnt h child = (m, b1)"
  shows "holed ctx r b1 n m" "par m = h" "child \<le> m" "m < n" "h < m" "\<And>u. u < n \<Longrightarrow> b1 ! u \<in> A"
    "b1 = b[h := b ! m]"
proof -
  have m: "m = max_child ctx b cnt child" and b1: "b1 = b[h := b ! m]"
    using assms(10) by (auto simp: move_up_max_child_def Let_def)
  have "\<And>i. i < cnt \<Longrightarrow> b ! (child + i) \<in> A" using assms(4,9) by simp
  from max_child_ok[OF assms(6) this]
  have mx: "child \<le> m" "m < child + cnt" "\<forall>i<cnt. \<not> lt (b ! m) (b ! (child + i))" using m by auto
  have big: "\<not> lt (b ! m) (b ! u)" if "0 < u" "u < n" "par u = h" for u
  proof -
    have "child \<le> u" "u < child + cnt" using assms(7) that by auto
    then show ?thesis using mx(3)[rule_format, of "u - child"] by simp
  qed
  have mn: "m < n" "0 < m" using mx assms(8,9) by simp_all
  have pm: "par m = h" using assms(7)[OF mn(2,1)] mx by simp
  have hm: "h < m" using parent_less[OF mn(2), of ctx] pm by simp
  have hole: "\<And>u. 0 < u \<Longrightarrow> u < n \<Longrightarrow> u \<noteq> h \<Longrightarrow> par u \<noteq> h \<Longrightarrow> r \<le> par u \<Longrightarrow> \<not> lt (b ! par u) (b ! u)"
    "\<And>u. 0 < u \<Longrightarrow> u < n \<Longrightarrow> par u = h \<Longrightarrow> 0 < h \<Longrightarrow> r \<le> par h \<Longrightarrow> \<not> lt (b ! par h) (b ! u)"
    using assms(1) unfolding holed_def by blast+
  have len: "h < length b" using assms(2,3) by simp
  show "holed ctx r b1 n m"
    unfolding holed_def
  proof (intro conjI allI impI)
    fix u assume u: "0 < u \<and> u < n \<and> u \<noteq> m \<and> par u \<noteq> m \<and> r \<le> par u"
    have ne: "par u \<noteq> u" using u parent_less[of u ctx] by fastforce
    show "\<not> lt (b1 ! par u) (b1 ! u)"
    proof (cases "par u = h")
      case True
      then show ?thesis using big[of u] u ne len b1 by simp
    next
      case False
      show ?thesis
      proof (cases "u = h")
        case True
        then have "\<not> lt (b ! par h) (b ! m)" using hole(2)[OF mn(2,1) pm] u by simp
        then show ?thesis using True ne len b1 by simp
      next
        case False
        then show ?thesis using hole(1)[of u] u \<open>par u \<noteq> h\<close> b1 by simp
      qed
    qed
  next
    fix u assume u: "0 < u \<and> u < n \<and> par u = m \<and> 0 < m \<and> r \<le> par m"
    have "u \<noteq> h" using parent_less[of u ctx] u hm by auto
    moreover have "\<not> lt (b ! m) (b ! u)" using hole(1)[of u] u \<open>u \<noteq> h\<close> hm assms(5) pm by auto
    ultimately show "\<not> lt (b1 ! par m) (b1 ! u)" using pm b1 len by simp
  qed
  show "b1 ! u \<in> A" if "u < n" for u using that assms(4) b1 len mn by (cases "u = h") auto
  show "par m = h" "child \<le> m" "m < n" "h < m" "b1 = b[h := b ! m]" using pm mx(1) mn(1) hm b1 by simp_all
qed

end

context heap_order
begin

lemma no_child:
  assumes "n \<le> SIZE_MAX" "n \<le> gheap_get_child_index ctx h" "0 < u" "u < n"
  shows "par u \<noteq> h"
  using is_parent[of u h] assms by auto

lemma move_tail:
  assumes "child = gheap_get_child_index ctx h" "n \<le> SIZE_MAX" "0 < n" "n - (n - 1) mod f \<le> child" "child < n"
    "0 < u" "u < n"
  shows "par u = h \<longleftrightarrow> child \<le> u \<and> u < child + (n - child)"
proof -
  have "(n - 1) mod f < f" using fanout_pos by simp
  then have "n < child + f" using assms(3,4) by linarith
  then show ?thesis using is_parent[of u h] assms by auto
qed

lemma leaf_after_tail:
  assumes "n \<le> SIZE_MAX" "0 < n" "n - (n - 1) mod f \<le> m" "0 < u" "u < n"
  shows "par u \<noteq> m"
proof
  assume "par u = m"
  then have c: "gheap_get_child_index ctx m \<le> u" using is_parent[of u m] assms by auto
  then have fc: "gheap_get_child_index ctx m = first_child ctx m" using child_min[of m] assms by simp
  have "gheap_get_parent_index ctx (first_child ctx m + 0) = m" using parent_child fanout_pos by blast
  moreover have "0 < first_child ctx m" by (simp add: first_child_def Let_def)
  ultimately have "m < first_child ctx m" using parent_less[of "first_child ctx m" ctx] by simp
  then have "n - (n - 1) mod f < first_child ctx m" using assms(3) by simp
  then have "n - (n - 1) mod f + f \<le> first_child ctx m"
    by (intro mod_gap) (use full_mod[OF assms(2), of f] first_child_mod[of m] in simp_all)
  moreover have "(n - 1) mod f < f" using fanout_pos by simp
  ultimately have "n \<le> first_child ctx m" by linarith
  then show False using c fc assms(5) by simp
qed

lemma full_children:
  assumes "n \<le> SIZE_MAX" "0 < n" "gheap_get_child_index ctx h < n - (n - 1) mod f"
  shows "gheap_get_child_index ctx h + f \<le> n" "0 < gheap_get_child_index ctx h"
proof -
  have le: "n - (n - 1) mod f \<le> n" by simp
  then have fc: "gheap_get_child_index ctx h = first_child ctx h" using child_min[of h] assms by simp
  have "first_child ctx h + f \<le> n - (n - 1) mod f"
    by (intro mod_gap) (use full_mod[OF assms(2), of f] first_child_mod[of h] assms(3) fc in simp_all)
  then show "gheap_get_child_index ctx h + f \<le> n" using fc le by simp
  show "0 < gheap_get_child_index ctx h" using fc by (simp add: first_child_def Let_def)
qed

lemma child_pos: "0 < gheap_get_child_index ctx h"
  using child_min[of h] by (simp add: SIZE_MAX_def first_child_def Let_def)

lemma sift_loop_ok:
  assumes "sift_down_loop fuel ctx n (n - (n - 1) mod f) h b = (h', b')"
    "holed ctx r b n h" "h < n" "n \<le> length b" "n \<le> SIZE_MAX" "\<And>u. u < n \<Longrightarrow> b ! u \<in> A" "r \<le> h" "n - h \<le> fuel"
  shows "holed ctx r b' n h' \<and> h \<le> h' \<and> h' < n \<and> length b' = length b \<and> (\<forall>u<n. b' ! u \<in> A) \<and>
         (\<forall>u. 0 < u \<longrightarrow> u < n \<longrightarrow> par u \<noteq> h') \<and> (\<exists>k. (par ^^ k) h' = h) \<and>
         (\<forall>j. j < h \<or> n \<le> j \<longrightarrow> b' ! j = b ! j) \<and> (\<forall>x. mset (b'[h' := x]) = mset (b[h := x]))"
  using assms
proof (induction fuel arbitrary: h b)
  case 0
  then show ?case by simp
next
  case (Suc fuel)
  let ?c = "gheap_get_child_index ctx h" and ?l = "n - (n - 1) mod f"
  have n: "0 < n" using Suc.prems(3) by simp
  have none: "\<exists>k. (par ^^ k) h = h" by (rule exI[of _ 0]) simp
  consider "?l \<le> ?c" "n \<le> ?c" | "?l \<le> ?c" "?c < n" | "?c < ?l" by linarith
  then show ?case
  proof cases
    case 1
    then have "h' = h" "b' = b" using Suc.prems(1) by (simp_all add: Let_def)
    then show ?thesis using Suc.prems no_child[OF Suc.prems(5) 1(2)] none by simp
  next
    case 2
    have mv: "move_up_max_child ctx b (n - ?c) h ?c = (h', b')" using Suc.prems(1) 2 by (simp add: Let_def)
    have kids: "par u = h \<longleftrightarrow> ?c \<le> u \<and> u < ?c + (n - ?c)" if "0 < u" "u < n" for u
      by (rule move_tail[OF refl Suc.prems(5) n 2 that])
    have m: "holed ctx r b' n h'" "par h' = h" "?c \<le> h'" "h' < n" "h < h'" "\<And>u. u < n \<Longrightarrow> b' ! u \<in> A"
      "b' = b[h := b ! h']"
      using move_up_ok[OF Suc.prems(2,3,4,6,7) _ kids child_pos _ mv] 2(2) by simp_all
    have "par u \<noteq> h'" if "0 < u" "u < n" for u
      by (rule leaf_after_tail[OF Suc.prems(5) n _ that]) (use m(3) 2(1) in simp)
    moreover have "\<exists>k. (par ^^ k) h' = h" by (rule exI[of _ 1]) (simp add: m(2))
    moreover have "mset (b'[h' := x]) = mset (b[h := x])" for x
      unfolding m(7) by (rule mset_hole_move) (use m(4) Suc.prems(3,4) in simp_all)
    ultimately show ?thesis using m Suc.prems(3) by simp
  next
    case 3
    obtain h1 b1 where mv: "move_up_max_child ctx b f h ?c = (h1, b1)" by fastforce
    have rest: "sift_down_loop fuel ctx n ?l h1 b1 = (h', b')" using Suc.prems(1) 3 mv by (simp add: Let_def)
    have fit: "?c + f \<le> n" by (rule full_children[OF Suc.prems(5) n 3])
    have kids: "par u = h \<longleftrightarrow> ?c \<le> u \<and> u < ?c + f" if "0 < u" "u < n" for u
      using is_parent[of u h] that Suc.prems(5) by simp
    have m: "holed ctx r b1 n h1" "par h1 = h" "?c \<le> h1" "h1 < n" "h < h1" "\<And>u. u < n \<Longrightarrow> b1 ! u \<in> A"
      "b1 = b[h := b ! h1]"
      using move_up_ok[OF Suc.prems(2,3,4,6,7) fanout_pos kids child_pos fit mv] by simp_all
    have len: "length b1 = length b" using m(7) by simp
    have "n \<le> length b1" "r \<le> h1" "n - h1 \<le> fuel" using len Suc.prems(3,4,7,8) m(5) by simp_all
    from Suc.IH[OF rest m(1,4) this(1) Suc.prems(5) m(6) this(2,3)]
    have ih: "holed ctx r b' n h'" "h1 \<le> h'" "h' < n" "length b' = length b1" "\<forall>u<n. b' ! u \<in> A"
      "\<forall>u. 0 < u \<longrightarrow> u < n \<longrightarrow> par u \<noteq> h'" "\<exists>k. (par ^^ k) h' = h1" "\<forall>j. j < h1 \<or> n \<le> j \<longrightarrow> b' ! j = b1 ! j"
      "\<forall>x. mset (b'[h' := x]) = mset (b1[h1 := x])"
      by simp_all
    obtain k where "(par ^^ k) h' = h1" using ih(7) by blast
    then have "(par ^^ Suc k) h' = h" using m(2) by simp
    then have "\<exists>k. (par ^^ k) h' = h" by blast
    moreover have "mset (b1[h1 := x]) = mset (b[h := x])" for x
      unfolding m(7) by (rule mset_hole_move) (use m(4) Suc.prems(3,4) in simp_all)
    moreover have "b' ! j = b ! j" if "j < h \<or> n \<le> j" for j
      using that ih(8) m(5,7) Suc.prems(3) by auto
    ultimately show ?thesis using ih len m(5) by simp
  qed
qed

lemma sift_down_ok:
  assumes "holed ctx r b n h" "h < n" "n \<le> length b" "n \<le> SIZE_MAX" "\<And>u. u < n \<Longrightarrow> b ! u \<in> A" "item \<in> A" "r \<le> h"
    "0 < h \<Longrightarrow> r \<le> par h \<Longrightarrow> \<not> lt (b ! par h) item"
  shows "heap_from ctx r (sift_down ctx n h item b) n" "mset (sift_down ctx n h item b) = mset (b[h := item])"
    "length (sift_down ctx n h item b) = length b" "\<And>j. n \<le> j \<Longrightarrow> sift_down ctx n h item b ! j = b ! j"
proof -
  obtain h' b' where l: "sift_down_loop n ctx n (n - (n - 1) mod f) h b = (h', b')" by fastforce
  have sd: "sift_down ctx n h item b = sift_up ctx h h' item b'" using l by (simp add: sift_down_def)
  from sift_loop_ok[OF l assms(1-5) assms(7)]
  have ok: "holed ctx r b' n h'" "h \<le> h'" "h' < n" "length b' = length b" "\<And>u. u < n \<Longrightarrow> b' ! u \<in> A"
    "\<And>u. 0 < u \<Longrightarrow> u < n \<Longrightarrow> par u \<noteq> h'" "\<exists>k. (par ^^ k) h' = h" "\<forall>j. j < h \<or> n \<le> j \<longrightarrow> b' ! j = b ! j"
    "\<forall>x. mset (b'[h' := x]) = mset (b[h := x])"
    by simp_all
  obtain k where k: "(par ^^ k) h' = h" using ok(7) by blast
  have "\<not> lt (b' ! par h) item" if "0 < h" "r \<le> par h"
    using assms(8)[OF that] ok(8) parent_less[OF that(1), of ctx] by simp
  moreover have "n \<le> length b'" using ok(4) assms(3) by simp
  ultimately show "heap_from ctx r (sift_down ctx n h item b) n"
    unfolding sd by (intro sift_up_heap[OF ok(1,3) _ ok(5) assms(6) k assms(7)]) (use ok(6) in auto)
  show "mset (sift_down ctx n h item b) = mset (b[h := item])"
    unfolding sd using sift_up_mset[of h' b' ctx h item] ok(3,4,9) assms(3) by simp
  show "length (sift_down ctx n h item b) = length b" unfolding sd using ok(4) by simp
  show "sift_down ctx n h item b ! j = b ! j" if "n \<le> j" for j
    unfolding sd using sift_up_nth[of h' j ctx h item b'] ok(3,8) that by simp
qed

end

context heap_order
begin

lemma root_ancestor: "\<exists>k. (par ^^ k) u = 0"
proof (induction u rule: less_induct)
  case (less u)
  show ?case
  proof (cases "u = 0")
    case True
    then show ?thesis by (intro exI[of _ 0]) simp
  next
    case False
    then obtain k where "(par ^^ k) (par u) = 0" using less parent_less[of u ctx] by blast
    then show ?thesis by (intro exI[of _ "Suc k"]) (simp add: funpow_swap1)
  qed
qed

text \<open>The result of an operation: a heap of the same items, and the same items behind it.\<close>

lemma push_ok:
  assumes "heap_from ctx 0 b (n - 1)" "0 < n" "n \<le> length b" "\<And>u. u < n \<Longrightarrow> b ! u \<in> A"
  shows "heap_from ctx 0 (gheap_push_heap ctx b n) n" "mset (gheap_push_heap ctx b n) = mset b"
    "\<And>j. n \<le> j \<Longrightarrow> gheap_push_heap ctx b n ! j = b ! j"
proof -
  have "heap_from ctx 0 (gheap_push_heap ctx b n) n \<and> mset (gheap_push_heap ctx b n) = mset b \<and>
      (\<forall>j. n \<le> j \<longrightarrow> gheap_push_heap ctx b n ! j = b ! j)"
  proof (cases "n > 1")
    case False
    then show ?thesis by (auto simp: gheap_push_heap_def heap_from_def)
  next
    case True
    let ?l = "n - 1"
    have par: "par u < ?l" if "0 < u" "u < n" for u using parent_less[OF that(1), of ctx] that(2) by simp
    have hole: "holed ctx 0 b n ?l"
      unfolding holed_def
    proof (intro conjI allI impI)
      fix u assume u: "0 < u \<and> u < n \<and> u \<noteq> ?l \<and> par u \<noteq> ?l \<and> 0 \<le> par u"
      then have "u < ?l" by linarith
      then show "\<not> lt (b ! par u) (b ! u)" using assms(1) u unfolding heap_from_def by blast
    next
      fix u assume "0 < u \<and> u < n \<and> par u = ?l \<and> 0 < ?l \<and> 0 \<le> par ?l"
      then show "\<not> lt (b ! par ?l) (b ! u)" using par[of u] by simp
    qed
    obtain k where k: "(par ^^ k) ?l = 0" using root_ancestor by blast
    have kids: "\<not> lt (b ! ?l) (b ! u)" if "0 < u" "u < n" "par u = ?l" for u using par[OF that(1,2)] that(3) by simp
    have "heap_from ctx 0 (sift_up ctx 0 ?l (b ! ?l) b) n"
      by (rule sift_up_heap[OF hole _ assms(3,4) _ k _ kids]) (use True assms(4) in simp_all)
    moreover have "mset (sift_up ctx 0 ?l (b ! ?l) b) = mset b" using sift_up_mset[of ?l b ctx 0 "b ! ?l"] True assms(3) by simp
    ultimately show ?thesis using True by (simp add: gheap_push_heap_def sift_up_nth)
  qed
  then show "heap_from ctx 0 (gheap_push_heap ctx b n) n" "mset (gheap_push_heap ctx b n) = mset b"
    "\<And>j. n \<le> j \<Longrightarrow> gheap_push_heap ctx b n ! j = b ! j" by blast+
qed

lemma make_step:
  assumes "heap_from ctx (Suc i) b n" "i < n" "n \<le> length b" "n \<le> SIZE_MAX" "\<And>u. u < n \<Longrightarrow> b ! u \<in> A"
  shows "heap_from ctx i (sift_down ctx n i (b ! i) b) n" "mset (sift_down ctx n i (b ! i) b) = mset b"
    "length (sift_down ctx n i (b ! i) b) = length b" "\<And>j. n \<le> j \<Longrightarrow> sift_down ctx n i (b ! i) b ! j = b ! j"
proof -
  have up: "\<not> i \<le> par i" if "0 < i" using parent_less[OF that, of ctx] by simp
  have "holed ctx i b n i" using assms(1) up unfolding holed_def heap_from_def by auto
  note d = sift_down_ok[OF this assms(2,3,4,5) assms(5)[OF assms(2)] order_refl]
  show "heap_from ctx i (sift_down ctx n i (b ! i) b) n" "mset (sift_down ctx n i (b ! i) b) = mset b"
    "length (sift_down ctx n i (b ! i) b) = length b" "\<And>j. n \<le> j \<Longrightarrow> sift_down ctx n i (b ! i) b ! j = b ! j"
    using d up by auto
qed

text \<open>The items of the heap are in \<open>A\<close> whatever is done to them.\<close>

lemma items_kept:
  assumes "mset b' = mset b" "\<And>j. n \<le> j \<Longrightarrow> b' ! j = b ! j" "n \<le> length b"
  shows "mset (take n b') = mset (take n b)" "drop n b' = drop n b" "(\<forall>u<n. b' ! u \<in> A) \<longleftrightarrow> (\<forall>u<n. b ! u \<in> A)"
proof -
  have len: "length b' = length b" using assms(1) by (metis size_mset)
  show d: "drop n b' = drop n b" by (rule nth_equalityI) (use len assms(2) in simp_all)
  have "mset (take n b') + mset (drop n b') = mset (take n b) + mset (drop n b)"
    using assms(1) by (metis append_take_drop_id mset_append)
  then show m: "mset (take n b') = mset (take n b)" using d by simp
  have "set (take n b') = set (take n b)" using m by (metis set_mset_mset)
  moreover have "(\<forall>u<n. x ! u \<in> A) \<longleftrightarrow> set (take n x) \<subseteq> A" if "n \<le> length x" for x :: "'a list"
    unfolding nth_image[OF that, symmetric] by auto
  ultimately show "(\<forall>u<n. b' ! u \<in> A) \<longleftrightarrow> (\<forall>u<n. b ! u \<in> A)" using len assms(3) by simp
qed

lemma make_fold:
  assumes "heap_from ctx k b n" "k \<le> n" "n \<le> length b" "n \<le> SIZE_MAX" "\<And>u. u < n \<Longrightarrow> b ! u \<in> A"
  shows "heap_from ctx 0 (fold (\<lambda>i b. sift_down ctx n i (b ! i) b) (rev [0..<k]) b) n \<and>
         mset (fold (\<lambda>i b. sift_down ctx n i (b ! i) b) (rev [0..<k]) b) = mset b \<and>
         (\<forall>j. n \<le> j \<longrightarrow> fold (\<lambda>i b. sift_down ctx n i (b ! i) b) (rev [0..<k]) b ! j = b ! j)"
  using assms
proof (induction k arbitrary: b)
  case (Suc k)
  let ?b = "sift_down ctx n k (b ! k) b"
  have k: "k < n" using Suc.prems(2) by simp
  note st = make_step[OF Suc.prems(1) k Suc.prems(3,4,5)]
  have mem: "\<And>u. u < n \<Longrightarrow> ?b ! u \<in> A" using items_kept(3)[OF st(2,4) Suc.prems(3)] Suc.prems(5) by blast
  have "n \<le> length ?b" "k \<le> n" using st(3) Suc.prems(3) k by simp_all
  from Suc.IH[OF st(1) this(2,1) Suc.prems(4) mem] show ?case using st by simp
qed simp

lemma make_ok:
  assumes "n \<le> length b" "n \<le> SIZE_MAX" "\<And>u. u < n \<Longrightarrow> b ! u \<in> A"
  shows "heap_from ctx 0 (gheap_make_heap ctx b n) n" "mset (gheap_make_heap ctx b n) = mset b"
    "\<And>j. n \<le> j \<Longrightarrow> gheap_make_heap ctx b n ! j = b ! j"
proof -
  have "heap_from ctx 0 (gheap_make_heap ctx b n) n \<and> mset (gheap_make_heap ctx b n) = mset b \<and>
      (\<forall>j. n \<le> j \<longrightarrow> gheap_make_heap ctx b n ! j = b ! j)"
  proof (cases "n > 1")
    case False
    then show ?thesis by (auto simp: gheap_make_heap_def heap_from_def)
  next
    case True
    let ?k = "Suc (if pc = 1 then (n - 2) div f else n - 2)"
    have "par u < ?k" if "0 < u" "u < n" for u
    proof (cases "pc = 1")
      case True
      have "(u - 1) div f \<le> (n - 2) div f" using that by (intro div_le_mono) simp
      then show ?thesis using True by (simp add: gheap_get_parent_index_def Let_def)
    next
      case False
      then show ?thesis using parent_less[OF that(1), of ctx] that(2) by simp
    qed
    then have "heap_from ctx ?k b n" unfolding heap_from_def by (meson not_le)
    moreover have "Suc ((n - 2) div f) \<le> n" using div_le_dividend[of "n - 2" f] True by linarith
    then have "?k \<le> n" using True by (simp, arith?)
    ultimately show ?thesis
      using make_fold[OF _ _ assms] True unfolding gheap_make_heap_def if_P[OF True] by blast
  qed
  then show "heap_from ctx 0 (gheap_make_heap ctx b n) n" "mset (gheap_make_heap ctx b n) = mset b"
    "\<And>j. n \<le> j \<Longrightarrow> gheap_make_heap ctx b n ! j = b ! j" by blast+
qed

lemma root_max:
  assumes "heap_from ctx 0 b n" "\<And>u. u < n \<Longrightarrow> b ! u \<in> A" "u < n"
  shows "\<not> lt (b ! 0) (b ! u)"
  using assms(3)
proof (induction u rule: less_induct)
  case (less u)
  show ?case
  proof (cases "u = 0")
    case True
    then show ?thesis using irrefl assms(2) less.prems by simp
  next
    case False
    have p: "par u < u" using parent_less False by simp
    then have "\<not> lt (b ! 0) (b ! par u)" using less by simp
    moreover have "\<not> lt (b ! par u) (b ! u)" using assms(1) False less.prems by (simp add: heap_from_def)
    moreover have "0 < n" "par u < n" using p less.prems by simp_all
    ultimately show ?thesis using trans assms(2) less.prems by blast
  qed
qed

lemma swap_ok:
  assumes "heap_from ctx 0 b n" "0 < n" "n \<le> k" "k < length b" "n \<le> SIZE_MAX" "\<And>u. u < n \<Longrightarrow> b ! u \<in> A" "b ! k \<in> A"
  shows "heap_from ctx 0 (gheap_swap_max_item ctx b n k) n" "mset (gheap_swap_max_item ctx b n k) = mset b"
    "gheap_swap_max_item ctx b n k ! k = b ! 0"
    "\<And>j. n \<le> j \<Longrightarrow> j \<noteq> k \<Longrightarrow> gheap_swap_max_item ctx b n k ! j = b ! j"
proof -
  let ?b = "b[k := b ! 0]"
  have nth: "?b ! u = b ! u" if "u < n" for u using that assms(3) by simp
  have "?b ! par u = b ! par u \<and> ?b ! u = b ! u" if "0 < u" "u < n" for u
    using nth parent_less[OF that(1), of ctx] that by simp
  then have hole: "holed ctx 0 ?b n 0" using assms(1) unfolding holed_def heap_from_def by fastforce
  have "n \<le> length ?b" using assms(3,4) by simp
  moreover have "\<And>u. u < n \<Longrightarrow> ?b ! u \<in> A" using nth assms(6) by simp
  ultimately have d: "heap_from ctx 0 (sift_down ctx n 0 (b ! k) ?b) n" "mset (sift_down ctx n 0 (b ! k) ?b) = mset (?b[0 := b ! k])"
    "\<And>j. n \<le> j \<Longrightarrow> sift_down ctx n 0 (b ! k) ?b ! j = ?b ! j"
    using sift_down_ok[OF hole assms(2) _ assms(5) _ assms(7) order_refl] by auto
  have pos: "0 < length b" using assms(4) by linarith
  have "mset (?b[0 := b ! k]) = mset b" using mset_swap[OF pos assms(4)] .
  then show "mset (gheap_swap_max_item ctx b n k) = mset b" using d(2) by (simp add: gheap_swap_max_item_def)
  show "heap_from ctx 0 (gheap_swap_max_item ctx b n k) n" using d(1) by (simp add: gheap_swap_max_item_def)
  show "gheap_swap_max_item ctx b n k ! k = b ! 0" using d(3)[OF assms(3)] assms(4) by (simp add: gheap_swap_max_item_def)
  show "gheap_swap_max_item ctx b n k ! j = b ! j" if "n \<le> j" "j \<noteq> k" for j
    using d(3)[OF that(1)] that(2) by (simp add: gheap_swap_max_item_def)
qed

lemma heap_less: "heap_from ctx r b n \<Longrightarrow> m \<le> n \<Longrightarrow> heap_from ctx r b m"
  by (simp add: heap_from_def)

lemma pop_ok:
  assumes "heap_from ctx 0 b n" "0 < n" "n \<le> length b" "n \<le> SIZE_MAX" "\<And>u. u < n \<Longrightarrow> b ! u \<in> A"
  shows "heap_from ctx 0 (gheap_pop_heap ctx b n) (n - 1)" "mset (gheap_pop_heap ctx b n) = mset b"
    "gheap_pop_heap ctx b n ! (n - 1) = b ! 0" "\<And>j. n \<le> j \<Longrightarrow> gheap_pop_heap ctx b n ! j = b ! j"
proof -
  have "heap_from ctx 0 (gheap_pop_heap ctx b n) (n - 1) \<and> mset (gheap_pop_heap ctx b n) = mset b \<and>
      gheap_pop_heap ctx b n ! (n - 1) = b ! 0 \<and> (\<forall>j. n \<le> j \<longrightarrow> gheap_pop_heap ctx b n ! j = b ! j)"
  proof (cases "n > 1")
    case False
    then show ?thesis using assms(2) by (simp add: gheap_pop_heap_def heap_from_def)
  next
    case True
    have "heap_from ctx 0 b (n - 1)" by (rule heap_less[OF assms(1)]) simp
    from swap_ok[OF this, of "n - 1"] show ?thesis
      using True assms(3,4,5) by (simp add: gheap_pop_heap_def gheap_pop_max_item_def)
  qed
  then show "heap_from ctx 0 (gheap_pop_heap ctx b n) (n - 1)" "mset (gheap_pop_heap ctx b n) = mset b"
    "gheap_pop_heap ctx b n ! (n - 1) = b ! 0" "\<And>j. n \<le> j \<Longrightarrow> gheap_pop_heap ctx b n ! j = b ! j" by blast+
qed

end

lemma upt_rev_Suc: "1 \<le> m \<Longrightarrow> rev [2..<Suc (Suc m)] = Suc m # rev [2..<Suc m]"
  by simp

context heap_order
begin

lemma sort_fold:
  assumes "heap_from ctx 0 b m" "m \<le> n" "n \<le> length b" "n \<le> SIZE_MAX" "\<And>u. u < n \<Longrightarrow> b ! u \<in> A"
    "\<And>j k. j < k \<Longrightarrow> m \<le> k \<Longrightarrow> k < n \<Longrightarrow> \<not> lt (b ! k) (b ! j)"
  shows "mset (fold (\<lambda>i b. gheap_pop_max_item ctx b (i - 1)) (rev [2..<Suc m]) b) = mset b \<and>
         (\<forall>j k. j < k \<longrightarrow> k < n \<longrightarrow>
            \<not> lt (fold (\<lambda>i b. gheap_pop_max_item ctx b (i - 1)) (rev [2..<Suc m]) b ! k)
                 (fold (\<lambda>i b. gheap_pop_max_item ctx b (i - 1)) (rev [2..<Suc m]) b ! j)) \<and>
         (\<forall>j. n \<le> j \<longrightarrow> fold (\<lambda>i b. gheap_pop_max_item ctx b (i - 1)) (rev [2..<Suc m]) b ! j = b ! j)"
  using assms
proof (induction m arbitrary: b)
  case 0
  then show ?case by simp
next
  case (Suc m)
  show ?case
  proof (cases "m = 0")
    case True
    then show ?thesis using Suc.prems(6) by simp
  next
    case False
    let ?b = "gheap_pop_max_item ctx b m"
    have m: "m \<le> n" "m < length b" "m \<le> SIZE_MAX" "m < n" using Suc.prems(2,3,4) by simp_all
    have "heap_from ctx 0 b m" by (rule heap_less[OF Suc.prems(1)]) simp
    note sw = swap_ok[OF this _ order_refl m(2,3), folded gheap_pop_max_item_def]
    have b1: "heap_from ctx 0 ?b m" "mset ?b = mset b" "?b ! m = b ! 0" "\<And>j. m \<le> j \<Longrightarrow> j \<noteq> m \<Longrightarrow> ?b ! j = b ! j"
      using sw False Suc.prems(5) m by simp_all
    have len: "length ?b = length b" using b1(2) by (metis size_mset)
    have out: "\<And>j. n \<le> j \<Longrightarrow> ?b ! j = b ! j" "\<And>j. Suc m \<le> j \<Longrightarrow> ?b ! j = b ! j" using b1(4) m(4) by simp_all
    have mem: "\<And>u. u < n \<Longrightarrow> ?b ! u \<in> A" using items_kept(3)[OF b1(2) out(1) Suc.prems(3)] Suc.prems(5) by blast
    have front: "\<exists>u. u < Suc m \<and> ?b ! j = b ! u" if "j < Suc m" for j
    proof -
      have "Suc m \<le> length b" using Suc.prems(2,3) by simp
      from items_kept(1)[OF b1(2) out(2) this] have "set (take (Suc m) ?b) = set (take (Suc m) b)" by (metis set_mset_mset)
      moreover have "?b ! j \<in> set (take (Suc m) ?b)" using that m(2) len by (force simp: in_set_conv_nth)
      ultimately show ?thesis by (auto simp: in_set_conv_nth)
    qed
    have tail: "\<not> lt (?b ! k) (?b ! j)" if jk: "j < k" "m \<le> k" "k < n" for j k
    proof (cases "k = m")
      case True
      then obtain u where "u < Suc m" "?b ! j = b ! u" using front[of j] jk(1) by auto
      moreover have "\<not> lt (b ! 0) (b ! u)" if "u < Suc m" for u
        using root_max[OF Suc.prems(1) _ that] Suc.prems(2,5) by simp
      ultimately show ?thesis using True b1(3) by simp
    next
      case False
      then have k: "Suc m \<le> k" "?b ! k = b ! k" using jk(2) b1(4) by simp_all
      show ?thesis
      proof (cases "j < Suc m")
        case True
        then obtain u where u: "u < Suc m" "?b ! j = b ! u" using front by blast
        then have "u < k" using k(1) by simp
        then show ?thesis using Suc.prems(6)[OF _ k(1) jk(3)] u(2) k(2) by simp
      next
        case False
        then show ?thesis using Suc.prems(6)[OF jk(1) k(1) jk(3)] out(2) k(2) by simp
      qed
    qed
    have "n \<le> length ?b" using len Suc.prems(3) by simp
    from Suc.IH[OF b1(1) m(1) this Suc.prems(4) mem tail] show ?thesis
      using False b1(2) out(1) by (subst (1 2 3 4) upt_rev_Suc) simp_all
  qed
qed

lemma sort_ok:
  assumes "heap_from ctx 0 b n" "n \<le> length b" "n \<le> SIZE_MAX" "\<And>u. u < n \<Longrightarrow> b ! u \<in> A"
  shows "mset (gheap_sort_heap ctx b n) = mset b" "\<And>j. n \<le> j \<Longrightarrow> gheap_sort_heap ctx b n ! j = b ! j"
    "\<And>j k. j < k \<Longrightarrow> k < n \<Longrightarrow> \<not> lt (gheap_sort_heap ctx b n ! k) (gheap_sort_heap ctx b n ! j)"
  using sort_fold[OF assms(1) order_refl assms(2,3,4)] unfolding gheap_sort_heap_def by simp_all

text \<open>One item of a heap is changed: the rest is a heap with a hole.\<close>

lemma hole_of_heap:
  assumes "heap_from ctx 0 b n" "\<And>u. u < n \<Longrightarrow> b ! u \<in> A" "i < n" "\<And>u. u < n \<Longrightarrow> u \<noteq> i \<Longrightarrow> c ! u = b ! u"
  shows "holed ctx 0 c n i"
  unfolding holed_def
proof (intro conjI allI impI)
  fix u assume u: "0 < u \<and> u < n \<and> u \<noteq> i \<and> par u \<noteq> i \<and> 0 \<le> par u"
  then have "par u < n" using parent_less[of u ctx] by simp
  then show "\<not> lt (c ! par u) (c ! u)" using assms(1,4) u by (simp add: heap_from_def)
next
  fix u assume u: "0 < u \<and> u < n \<and> par u = i \<and> 0 < i \<and> 0 \<le> par i"
  have p: "par i < i" "i < u" using u parent_less[of i ctx] parent_less[of u ctx] by auto
  have "\<not> lt (b ! par i) (b ! i)" "\<not> lt (b ! i) (b ! u)" using assms(1,3) u by (auto simp: heap_from_def)
  moreover have pn: "par i < n" using p assms(3) by simp
  ultimately have "\<not> lt (b ! par i) (b ! u)" using trans assms(2,3) u by blast
  then show "\<not> lt (c ! par i) (c ! u)" using p pn u assms(4) by simp
qed

lemma lower_ok:
  assumes "heap_from ctx 0 b n" "\<And>u. u < n \<Longrightarrow> b ! u \<in> A" "i < n" "\<And>u. u < n \<Longrightarrow> u \<noteq> i \<Longrightarrow> c ! u = b ! u"
    "c ! i \<in> A" "n \<le> length c" "n \<le> SIZE_MAX" "x \<in> A" "lt x (b ! i)"
  shows "heap_from ctx 0 (sift_down ctx n i x c) n" "mset (sift_down ctx n i x c) = mset (c[i := x])"
    "\<And>j. n \<le> j \<Longrightarrow> sift_down ctx n i x c ! j = c ! j"
proof -
  have mem: "\<And>u. u < n \<Longrightarrow> c ! u \<in> A" using assms(2,4,5) by metis
  have up: "\<not> lt (c ! par i) x" if i: "0 < i" "0 \<le> par i"
  proof -
    have p: "par i < i" by (rule parent_less[OF i(1)])
    have m: "b ! par i \<in> A" "b ! i \<in> A" using p assms(2,3) by simp_all
    have "\<not> lt (b ! par i) (b ! i)" using assms(1,3) i by (simp add: heap_from_def)
    moreover have "\<not> lt (b ! i) x" using asym assms(8,9) m(2) by blast
    ultimately have "\<not> lt (b ! par i) x" using trans m assms(8) by blast
    then show ?thesis using p assms(3,4) by simp
  qed
  note d = sift_down_ok[OF hole_of_heap[OF assms(1-4)] assms(3,6,7) mem assms(8) le0 up]
  show "heap_from ctx 0 (sift_down ctx n i x c) n" "mset (sift_down ctx n i x c) = mset (c[i := x])"
    "\<And>j. n \<le> j \<Longrightarrow> sift_down ctx n i x c ! j = c ! j"
    by (rule d; assumption)+
qed

lemma raise_ok:
  assumes "heap_from ctx 0 b n" "\<And>u. u < n \<Longrightarrow> b ! u \<in> A" "i < n" "\<And>u. u < n \<Longrightarrow> u \<noteq> i \<Longrightarrow> c ! u = b ! u"
    "c ! i \<in> A" "n \<le> length c" "x \<in> A" "\<not> lt x (b ! i)"
  shows "heap_from ctx 0 (sift_up ctx 0 i x c) n" "mset (sift_up ctx 0 i x c) = mset (c[i := x])"
    "\<And>j. n \<le> j \<Longrightarrow> sift_up ctx 0 i x c ! j = c ! j"
proof -
  have mem: "\<And>u. u < n \<Longrightarrow> c ! u \<in> A" using assms(2,4,5) by metis
  obtain k where k: "(par ^^ k) i = 0" using root_ancestor by blast
  have kids: "\<not> lt x (c ! u)" if u: "0 < u" "u < n" "par u = i" for u
  proof -
    have "\<not> lt (b ! i) (b ! u)" using assms(1) u by (auto simp: heap_from_def)
    then have "\<not> lt x (b ! u)" using trans assms(2,3,7,8) u by blast
    moreover have "u \<noteq> i" using parent_less[OF u(1), of ctx] u(3) by auto
    ultimately show ?thesis using assms(4) u by simp
  qed
  show "heap_from ctx 0 (sift_up ctx 0 i x c) n"
    by (rule sift_up_heap[OF hole_of_heap[OF assms(1-4)] assms(3,6) mem assms(7) k le0 kids]) simp_all
  show "mset (sift_up ctx 0 i x c) = mset (c[i := x])" using sift_up_mset assms(3,6) by (metis order_less_le_trans)
  show "\<And>j. n \<le> j \<Longrightarrow> sift_up ctx 0 i x c ! j = c ! j" using sift_up_nth assms(3) by (metis order_less_le_trans)
qed

lemma remove_ok:
  assumes "heap_from ctx 0 b n" "i < n" "n \<le> length b" "n \<le> SIZE_MAX" "\<And>u. u < n \<Longrightarrow> b ! u \<in> A"
  shows "heap_from ctx 0 (gheap_remove_from_heap ctx b n i) (n - 1)" "mset (gheap_remove_from_heap ctx b n i) = mset b"
    "gheap_remove_from_heap ctx b n i ! (n - 1) = b ! i"
    "\<And>j. n \<le> j \<Longrightarrow> gheap_remove_from_heap ctx b n i ! j = b ! j"
proof -
  let ?r = "gheap_remove_from_heap ctx b n i"
  have "heap_from ctx 0 ?r (n - 1) \<and> mset ?r = mset b \<and> ?r ! (n - 1) = b ! i \<and> (\<forall>j. n \<le> j \<longrightarrow> ?r ! j = b ! j)"
  proof (cases "i < n - 1")
    case False
    then have "i = n - 1" using assms(2) by simp
    then show ?thesis using heap_less[OF assms(1), of "n - 1"] by (simp add: gheap_remove_from_heap_def)
  next
    case True
    let ?m = "n - 1" and ?x = "b ! (n - 1)"
    let ?c = "b[?m := b ! i]"
    have h: "heap_from ctx 0 b ?m" by (rule heap_less[OF assms(1)]) simp
    have A: "\<And>u. u < ?m \<Longrightarrow> b ! u \<in> A" "?x \<in> A" "?c ! i \<in> A" "b ! i \<in> A" using assms(2,5) True by simp_all
    have same: "\<And>u. u < ?m \<Longrightarrow> u \<noteq> i \<Longrightarrow> ?c ! u = b ! u" by simp
    have len: "?m \<le> length ?c" "?m \<le> SIZE_MAX" "?m < length b" "i < length b" using assms(2-4) by simp_all
    have sw: "mset (?c[i := ?x]) = mset b" by (rule mset_swap[OF len(4,3)])
    have c: "?c ! ?m = b ! i" "\<And>j. n \<le> j \<Longrightarrow> ?c ! j = b ! j" using len(3) assms(2) by auto
    have le: "?m \<le> j" if "n \<le> j" for j using that by simp
    show ?thesis
    proof (cases "lt ?x (b ! i)")
      case lt: True
      note d = lower_ok[OF h A(1) True same A(3) len(1,2) A(2) lt]
      have "?r = sift_down ctx ?m i ?x ?c" using True lt c(1) by (simp add: gheap_remove_from_heap_def Let_def)
      then show ?thesis using d sw c le by simp
    next
      case ge: False
      note d = raise_ok[OF h A(1) True same A(3) len(1) A(2) ge]
      have "?r = sift_up ctx 0 i ?x ?c" using True ge c(1) by (simp add: gheap_remove_from_heap_def Let_def)
      then show ?thesis using d sw c le by simp
    qed
  qed
  then show "heap_from ctx 0 ?r (n - 1)" "mset ?r = mset b" "?r ! (n - 1) = b ! i" "\<And>j. n \<le> j \<Longrightarrow> ?r ! j = b ! j"
    by blast+
qed

lemma restore_ok:
  assumes "heap_from ctx 0 b n" "i < n" "n \<le> length b" "n \<le> SIZE_MAX" "\<And>u. u < n \<Longrightarrow> b ! u \<in> A" "x \<in> A"
  shows "lt (b ! i) x \<Longrightarrow> heap_from ctx 0 (gheap_restore_heap_after_item_increase ctx (b[i := x]) n i) n"
    "lt x (b ! i) \<Longrightarrow> heap_from ctx 0 (gheap_restore_heap_after_item_decrease ctx (b[i := x]) n i) n"
    "lt (b ! i) x \<Longrightarrow> mset (gheap_restore_heap_after_item_increase ctx (b[i := x]) n i) = mset (b[i := x]) \<and>
       (\<forall>j \<ge> n. gheap_restore_heap_after_item_increase ctx (b[i := x]) n i ! j = b ! j)"
    "lt x (b ! i) \<Longrightarrow> mset (gheap_restore_heap_after_item_decrease ctx (b[i := x]) n i) = mset (b[i := x]) \<and>
       (\<forall>j \<ge> n. gheap_restore_heap_after_item_decrease ctx (b[i := x]) n i ! j = b ! j)"
proof -
  have i: "i < length b" using assms(2,3) by simp
  have x: "b[i := x] ! i = x" using i by simp
  have same: "\<And>u. u < n \<Longrightarrow> u \<noteq> i \<Longrightarrow> b[i := x] ! u = b ! u" by simp
  have beyond: "b[i := x] ! j = b ! j" if "n \<le> j" for j using assms(2) that by simp
  have A: "b[i := x] ! i \<in> A" "b ! i \<in> A" using x assms(2,5,6) by simp_all
  have len: "n \<le> length (b[i := x])" using assms(3) by simp
  show "heap_from ctx 0 (gheap_restore_heap_after_item_decrease ctx (b[i := x]) n i) n"
    "mset (gheap_restore_heap_after_item_decrease ctx (b[i := x]) n i) = mset (b[i := x]) \<and>
       (\<forall>j \<ge> n. gheap_restore_heap_after_item_decrease ctx (b[i := x]) n i ! j = b ! j)" if "lt x (b ! i)"
    using lower_ok[OF assms(1,5,2) same A(1) len assms(4,6) that] x beyond
    by (simp_all add: gheap_restore_heap_after_item_decrease_def)
  show "heap_from ctx 0 (gheap_restore_heap_after_item_increase ctx (b[i := x]) n i) n"
    "mset (gheap_restore_heap_after_item_increase ctx (b[i := x]) n i) = mset (b[i := x]) \<and>
       (\<forall>j \<ge> n. gheap_restore_heap_after_item_increase ctx (b[i := x]) n i ! j = b ! j)" if "lt (b ! i) x"
  proof -
    have nl: "\<not> lt x (b ! i)" using asym A(2) assms(6) that by blast
    note r = raise_ok[OF assms(1,5,2) same A(1) len assms(6) nl]
    have "sift_up ctx 0 0 x (b[0 := x]) = b[0 := x]" by (subst sift_up.simps) simp
    then show "heap_from ctx 0 (gheap_restore_heap_after_item_increase ctx (b[i := x]) n i) n"
      "mset (gheap_restore_heap_after_item_increase ctx (b[i := x]) n i) = mset (b[i := x]) \<and>
       (\<forall>j \<ge> n. gheap_restore_heap_after_item_increase ctx (b[i := x]) n i ! j = b ! j)"
      using r x beyond by (cases "i = 0"; simp add: gheap_restore_heap_after_item_increase_def)+
  qed
qed

end

section \<open>The properties of the heap\<close>

text \<open>The parameters the code allows, and a comparison that is a strict weak order on some items.\<close>

definition well_shaped :: "'a gheap_ctx \<Rightarrow> bool" where
  "well_shaped ctx \<longleftrightarrow> 0 < fanout ctx \<and> 0 < page_chunks ctx \<and> fanout ctx * page_chunks ctx + 2 \<le> SIZE_MAX"

definition weak_order :: "('a \<Rightarrow> 'a \<Rightarrow> bool) \<Rightarrow> 'a set \<Rightarrow> bool" where
  "weak_order lt A \<longleftrightarrow> (\<forall>x \<in> A. \<forall>y \<in> A. lt x y \<longrightarrow> \<not> lt y x) \<and>
     (\<forall>x \<in> A. \<forall>y \<in> A. \<forall>z \<in> A. \<not> lt x y \<longrightarrow> \<not> lt y z \<longrightarrow> \<not> lt x z)"

lemma heap_shapeI: "well_shaped ctx \<Longrightarrow> heap_shape ctx"
  by (simp add: well_shaped_def heap_shape_def)

lemma heap_orderI: "well_shaped ctx \<Longrightarrow> weak_order (less_comparer ctx) A \<Longrightarrow> heap_order ctx A"
  unfolding weak_order_def by (intro heap_order.intro heap_order_axioms.intro heap_shapeI) blast+

text \<open>C18: The two index functions describe one tree, for every fanout and every size of the pages:
  the children of an item are the \<open>fanout\<close> items from its child index on, and no other item has it as
  its parent; the parent comes before the child.\<close>

theorem gheap_parent_of_child:
  assumes "well_shaped ctx" "0 < c" "c < SIZE_MAX"
  shows "(gheap_get_parent_index ctx c = u \<longleftrightarrow>
            gheap_get_child_index ctx u \<le> c \<and> c < gheap_get_child_index ctx u + fanout ctx) \<and>
         gheap_get_parent_index ctx c < c"
  using heap_shape.is_parent[OF heap_shapeI[OF assms(1)] assms(2,3)] parent_less[OF assms(2)] by blast

definition timer_shape :: "nat gheap_ctx" where
  "timer_shape = \<lparr>fanout = 2, page_chunks = 512, less_comparer = (<)\<rparr>"

lemma timer_shape_ok: "well_shaped timer_shape" "weak_order (less_comparer timer_shape) A"
  by (auto simp: well_shaped_def timer_shape_def SIZE_MAX_def weak_order_def)

lemma gheap_parent_of_child_witness:
  "gheap_get_child_index timer_shape 512 = 1025 \<and> gheap_get_parent_index timer_shape 1026 = 512"
proof -
  have "gheap_get_child_index timer_shape 512 = 1025"
    by (simp add: gheap_get_child_index_def timer_shape_def Let_def SIZE_MAX_def)
  then show ?thesis
    using gheap_parent_of_child[OF timer_shape_ok(1), of 1026 512] by (simp add: SIZE_MAX_def timer_shape_def)
qed

text \<open>C20: Making a heap of an array and sorting it leaves the items of the array in ascending order;
  what is behind the heap in the array stays.  The comparison need only be an order on these items.\<close>

theorem gheap_make_and_sort:
  assumes "well_shaped ctx" "weak_order (less_comparer ctx) (set (take n b))" "n \<le> length b" "n \<le> SIZE_MAX"
    "h = gheap_make_heap ctx b n" "s = gheap_sort_heap ctx h n"
  shows "gheap_is_heap ctx h n \<and> mset (take n h) = mset (take n b) \<and> drop n h = drop n b \<and>
         mset (take n s) = mset (take n b) \<and> drop n s = drop n b \<and>
         (\<forall>j k. j < k \<longrightarrow> k < n \<longrightarrow> \<not> less_comparer ctx (s ! k) (s ! j))"
proof -
  let ?A = "set (take n b)"
  have o: "heap_order ctx ?A" by (rule heap_orderI[OF assms(1,2)])
  have mem: "b ! u \<in> ?A" if "u < n" for u using that assms(3) by (force simp: in_set_conv_nth)
  note mk = heap_order.make_ok[OF o assms(3,4) mem, folded assms(5)]
  have h: "heap_from ctx 0 h n" "mset h = mset b" "\<And>j. n \<le> j \<Longrightarrow> h ! j = b ! j" using mk by blast+
  note kh = heap_order.items_kept[OF o h(2,3) assms(3)]
  have len: "n \<le> length h" using h(2) assms(3) by (metis size_mset)
  have "\<And>u. u < n \<Longrightarrow> h ! u \<in> ?A" using kh(3) mem by blast
  note so = heap_order.sort_ok[OF o h(1) len assms(4) this, folded assms(6)]
  have s: "mset s = mset h" "\<And>j. n \<le> j \<Longrightarrow> s ! j = h ! j"
    "\<And>j k. j < k \<Longrightarrow> k < n \<Longrightarrow> \<not> less_comparer ctx (s ! k) (s ! j)" using so by blast+
  show ?thesis using h(1) kh(1,2) heap_order.items_kept(1,2)[OF o s(1,2) len] s(3) by (simp add: heap_is_heap)
qed

lemma gheap_make_and_sort_witness:
  "gheap_sort_heap timer_shape (gheap_make_heap timer_shape [3, 1, 4, 1, 5, 9] 5) 5 = [1, 1, 3, 4, 5, 9]"
proof -
  let ?b = "[3, 1, 4, 1, 5, 9] :: nat list"
  let ?s = "gheap_sort_heap timer_shape (gheap_make_heap timer_shape ?b 5) 5"
  have s: "mset (take 5 ?s) = mset (take 5 ?b)" "drop 5 ?s = drop 5 ?b" "\<forall>j k. j < k \<longrightarrow> k < 5 \<longrightarrow> \<not> ?s ! k < ?s ! j"
    using gheap_make_and_sort[OF timer_shape_ok, of 5 ?b _ _] by (simp_all add: SIZE_MAX_def timer_shape_def)
  have "length (take 5 ?s) = 5" using mset_eq_length[OF s(1)] by simp
  then have "sorted (take 5 ?s)" using s(3) by (auto simp: sorted_iff_nth_mono_less linorder_not_less)
  then have "take 5 ?s = sort (take 5 ?b)" by (intro properties_for_sort[OF s(1), symmetric])
  then have "take 5 ?s = [1, 1, 3, 4, 5]" by simp
  then have "take 5 ?s @ drop 5 ?s = [1, 1, 3, 4, 5] @ [9]" using s(2) by simp
  then show ?thesis by simp
qed

text \<open>C21: On a heap, pushing the item behind it, popping and removing any item give a heap again with the
  same items; popping puts a greatest item behind the heap, removing the item asked for.  When an item
  is replaced by any greater or smaller one, restoring the order gives a heap again of the items with
  that one in its place, and leaves what is behind the heap.\<close>

theorem gheap_operations:
  assumes "well_shaped ctx" "weak_order (less_comparer ctx) A" "set b \<subseteq> A" "gheap_is_heap ctx b n"
    "n < length b" "length b \<le> SIZE_MAX" "i < n"
  shows "gheap_is_heap ctx (gheap_push_heap ctx b (Suc n)) (Suc n) \<and>
         mset (gheap_push_heap ctx b (Suc n)) = mset b \<and>
         gheap_is_heap ctx (gheap_pop_heap ctx b n) (n - 1) \<and> mset (gheap_pop_heap ctx b n) = mset b \<and>
         gheap_pop_heap ctx b n ! (n - 1) = b ! 0 \<and> \<not> less_comparer ctx (b ! 0) (b ! i) \<and>
         gheap_is_heap ctx (gheap_remove_from_heap ctx b n i) (n - 1) \<and>
         mset (gheap_remove_from_heap ctx b n i) = mset b \<and>
         gheap_remove_from_heap ctx b n i ! (n - 1) = b ! i \<and>
         (\<forall>x \<in> A. (less_comparer ctx (b ! i) x \<longrightarrow>
                      (let r = gheap_restore_heap_after_item_increase ctx (b[i := x]) n i in
                       gheap_is_heap ctx r n \<and> mset r = mset (b[i := x]) \<and> (\<forall>j \<ge> n. r ! j = b ! j))) \<and>
                  (less_comparer ctx x (b ! i) \<longrightarrow>
                      (let r = gheap_restore_heap_after_item_decrease ctx (b[i := x]) n i in
                       gheap_is_heap ctx r n \<and> mset r = mset (b[i := x]) \<and> (\<forall>j \<ge> n. r ! j = b ! j))))"
proof -
  have o: "heap_order ctx A" by (rule heap_orderI[OF assms(1,2)])
  have h: "heap_from ctx 0 b n" using assms(4) by (simp add: heap_is_heap)
  have mem: "\<And>u. u < n \<Longrightarrow> b ! u \<in> A" "\<And>u. u < Suc n \<Longrightarrow> b ! u \<in> A" using assms(3,5) by (auto intro: nth_mem)
  have n: "n \<le> length b" "n \<le> SIZE_MAX" "0 < n" "Suc n \<le> length b" using assms(5-7) by simp_all
  have "heap_from ctx 0 b (Suc n - 1)" using h by simp
  note push = heap_order.push_ok[OF o this zero_less_Suc n(4) mem(2)]
  note pop = heap_order.pop_ok[OF o h n(3,1,2) mem(1)]
  note rem = heap_order.remove_ok[OF o h assms(7) n(1,2) mem(1)]
  note res = heap_order.restore_ok[OF o h assms(7) n(1,2) mem(1)]
  show ?thesis
    using push pop rem res heap_order.root_max[OF o h mem(1) assms(7)] unfolding heap_is_heap Let_def by blast
qed

lemma gheap_operations_witness:
  "gheap_is_heap timer_shape (gheap_push_heap timer_shape [9, 5, 7, 8] 4) 4 \<and>
   gheap_is_heap timer_shape (gheap_pop_heap timer_shape [9, 5, 7, 8] 3) 2 \<and>
   mset (gheap_restore_heap_after_item_decrease timer_shape [6, 5, 7, 8] 3 0) = {#5, 6, 7, 8#}"
proof -
  have "gheap_is_heap timer_shape [9, 5, 7, 8] 3"
    by (simp add: gheap_is_heap_def gheap_is_heap_until_def timer_shape_def gheap_get_parent_index_def upt_rec)
  from gheap_operations[OF timer_shape_ok _ this, of UNIV 0]
  have r: "gheap_is_heap timer_shape (gheap_push_heap timer_shape [9, 5, 7, 8] 4) 4"
    "gheap_is_heap timer_shape (gheap_pop_heap timer_shape [9, 5, 7, 8] 3) 2"
    "\<forall>x. x < 9 \<longrightarrow> mset (gheap_restore_heap_after_item_decrease timer_shape [x, 5, 7, 8] 3 0) = mset [x, 5, 7, 8]"
    by (simp_all add: SIZE_MAX_def timer_shape_def Let_def)
  have "mset (gheap_restore_heap_after_item_decrease timer_shape [6, 5, 7, 8] 3 0) = {#5, 6, 7, 8#}"
    using r(3)[rule_format, of 6] by simp
  with r(1,2) show ?thesis by blast
qed

section \<open>The priority queue\<close>

definition pq_items :: "'a gpriority_queue \<Rightarrow> 'a option multiset" where
  "pq_items q = mset (take (gq_size q) (gq_base q))"

definition pq_ok :: "'a option gheap_ctx \<Rightarrow> 'a option set \<Rightarrow> 'a gpriority_queue \<Rightarrow> bool" where
  "pq_ok ctx A q \<longleftrightarrow> gq_size q \<le> gq_capacity q \<and> length (gq_base q) = gq_capacity q \<and> 0 < gq_capacity q \<and>
     gq_capacity q \<le> SIZE_MAX \<and> (\<forall>u < gq_size q. gq_base q ! u \<in> A) \<and>
     gheap_is_heap ctx (gq_base q) (gq_size q)"

lemma heap_cong: "(\<And>u. u < n \<Longrightarrow> b ! u = c ! u) \<Longrightarrow> heap_from ctx r b n = heap_from ctx r c n"
proof -
  assume eq: "\<And>u. u < n \<Longrightarrow> b ! u = c ! u"
  have "b ! gheap_get_parent_index ctx u = c ! gheap_get_parent_index ctx u \<and> b ! u = c ! u" if "u < n" for u
    using eq that parent_le[of ctx u] by simp
  then show ?thesis unfolding heap_from_def by (intro all_cong1 imp_cong refl) simp
qed

lemma pq_put_ok:
  assumes "heap_order ctx A" "heap_from ctx 0 b n" "n < length b" "\<And>u. u < n \<Longrightarrow> b ! u \<in> A" "x \<in> A"
    "b' = gheap_push_heap ctx (b[n := x]) (Suc n)"
  shows "heap_from ctx 0 b' (Suc n)" "mset (take (Suc n) b') = add_mset x (mset (take n b))"
    "length b' = length b" "\<And>u. u < Suc n \<Longrightarrow> b' ! u \<in> A"
proof -
  let ?b = "b[n := x]"
  have h: "heap_from ctx 0 ?b (Suc n - 1)" using heap_cong[of n b ?b ctx 0] assms(2) by simp
  have mem: "\<And>u. u < Suc n \<Longrightarrow> ?b ! u \<in> A" using assms(3,4,5) by (auto simp: less_Suc_eq)
  have n: "Suc n \<le> length ?b" using assms(3) by simp
  have b': "heap_from ctx 0 b' (Suc n)" "mset b' = mset ?b" "\<And>j. Suc n \<le> j \<Longrightarrow> b' ! j = ?b ! j"
    using heap_order.push_ok[OF assms(1) h zero_less_Suc n mem, folded assms(6)] by blast+
  note k = heap_order.items_kept[OF assms(1) b'(2,3) n]
  show "heap_from ctx 0 b' (Suc n)" by (rule b'(1))
  show "length b' = length b" using b'(2) by (metis size_mset length_list_update)
  show "\<And>u. u < Suc n \<Longrightarrow> b' ! u \<in> A" using k(3) mem by blast
  show "mset (take (Suc n) b') = add_mset x (mset (take n b))"
    using k(1) assms(3) by (simp add: take_Suc_conv_app_nth)
qed

lemma pq_push:
  assumes "heap_order ctx A" "pq_ok ctx A q" "0 < item_size" "Some item \<in> A"
    "gpriority_queue_push ctx item_size item q s = (ok, q', s')"
  shows "ok \<Longrightarrow> pq_ok ctx A q' \<and> pq_items q' = add_mset (Some item) (pq_items q)"
    "\<not> ok \<Longrightarrow> gq_base q' = gq_base q \<and> gq_size q' = gq_size q \<and> gq_size q = gq_capacity q"
proof -
  let ?n = "gq_size q" and ?c = "gq_capacity q"
  let ?grown = "take ?n (gq_base q) @ replicate (?c * 2 - ?n) None"
  have ok: "?n \<le> ?c" "length (gq_base q) = ?c" "0 < ?c" "?c \<le> SIZE_MAX" "\<And>u. u < ?n \<Longrightarrow> gq_base q ! u \<in> A"
    "heap_from ctx 0 (gq_base q) ?n"
    using assms(2) by (auto simp: pq_ok_def heap_is_heap)
  have push: "pq_ok ctx A q' \<and> pq_items q' = add_mset (Some item) (pq_items q)"
    if b: "heap_from ctx 0 b ?n" "?n < length b" "\<And>u. u < ?n \<Longrightarrow> b ! u \<in> A" "take ?n b = take ?n (gq_base q)"
      and q': "gq_base q' = gheap_push_heap ctx (b[?n := Some item]) (Suc ?n)" "gq_size q' = Suc ?n"
        "gq_capacity q' = length b" "length b \<le> SIZE_MAX" for b
    using pq_put_ok[OF assms(1) b(1-3) assms(4) q'(1)] b(2,4) q'
    by (auto simp: pq_ok_def pq_items_def heap_is_heap)
  show "ok \<Longrightarrow> pq_ok ctx A q' \<and> pq_items q' = add_mset (Some item) (pq_items q)"
  proof (cases "?n = ?c")
    case False
    then have lt: "?n < length (gq_base q)" using ok by simp
    then have "gq_base q' = gheap_push_heap ctx ((gq_base q)[?n := Some item]) (Suc ?n)" "gq_size q' = Suc ?n"
      "gq_capacity q' = length (gq_base q)"
      using assms(5) False ok(2) by (auto simp: gpriority_queue_push_def Let_def)
    then show ?thesis using push[OF ok(6) lt ok(5) refl] ok(2,4) by simp
  next
    case True
    assume "ok"
    have len: "length ?grown = ?c * 2" "?n < length ?grown" using True ok by simp_all
    have small: "\<not> ?c > SIZE_MAX div 2 div item_size" using assms(5) True \<open>ok\<close>
      by (auto simp: gpriority_queue_push_def Let_def)
    have "SIZE_MAX div 2 div item_size \<le> SIZE_MAX div 2" by simp
    then have max: "?c * 2 \<le> SIZE_MAX" using small by linarith
    have pre: "?grown ! u = gq_base q ! u" if "u < ?n" for u using that ok(1,2) by (simp add: nth_append)
    have q': "gq_base q' = gheap_push_heap ctx (?grown[?n := Some item]) (Suc ?n)" "gq_size q' = Suc ?n"
      "gq_capacity q' = ?c * 2"
      using assms(5) True \<open>ok\<close> small len ok(1,2)
      by (auto simp: gpriority_queue_push_def Let_def split: prod.splits option.splits)
    have h: "heap_from ctx 0 ?grown ?n" using heap_cong[of ?n ?grown "gq_base q" ctx 0] pre ok(6) by blast
    have "take ?n ?grown = take ?n (gq_base q)" "\<And>u. u < ?n \<Longrightarrow> ?grown ! u \<in> A" using ok(1,2,5) pre by simp_all
    from push[OF h len(2) this(2,1) q'(1,2)] show ?thesis using q'(3) len(1) max by simp
  qed
  show "\<not> ok \<Longrightarrow> gq_base q' = gq_base q \<and> gq_size q' = gq_size q \<and> gq_size q = gq_capacity q"
    using assms(5) by (auto simp: gpriority_queue_push_def Let_def split: prod.splits option.splits if_splits)
qed

lemma pq_pop:
  assumes "heap_order ctx A" "pq_ok ctx A q" "0 < gq_size q" "None \<notin> A"
    "gpriority_queue_pop ctx del q s = (q', s')"
  shows "pq_ok ctx A q'" "pq_items q = add_mset (gq_base q ! 0) (pq_items q')" "s' = del (the (gq_base q ! 0)) s"
    "gq_base q' ! gq_size q' = gq_base q ! 0"
    "\<forall>x \<in># pq_items q. \<not> less_comparer ctx (gq_base q ! 0) x"
proof -
  let ?n = "gq_size q" and ?b = "gheap_pop_heap ctx (gq_base q) (gq_size q)"
  have ok: "?n \<le> length (gq_base q)" "length (gq_base q) = gq_capacity q" "?n \<le> SIZE_MAX"
    "\<And>u. u < ?n \<Longrightarrow> gq_base q ! u \<in> A" "heap_from ctx 0 (gq_base q) ?n"
    using assms(2) by (auto simp: pq_ok_def heap_is_heap)
  note p = heap_order.pop_ok[OF assms(1) ok(5) assms(3) ok(1,3,4)]
  have k: "mset (take ?n ?b) = mset (take ?n (gq_base q))" "(\<forall>u<?n. ?b ! u \<in> A)"
    using heap_order.items_kept[OF assms(1) p(2,4) ok(1)] ok(4) by blast+
  have q': "gq_base q' = ?b" "gq_size q' = ?n - 1" "gq_capacity q' = gq_capacity q"
    using assms(5) by (auto simp: gpriority_queue_pop_def Let_def)
  have len: "length ?b = length (gq_base q)" using p(2) by (metis size_mset)
  have "take ?n ?b = take (?n - 1) ?b @ [?b ! (?n - 1)]"
    using take_Suc_conv_app_nth[of "?n - 1" ?b] assms(3) ok(1) len by simp
  then show "pq_items q = add_mset (gq_base q ! 0) (pq_items q')" using k(1) p(3) q' by (simp add: pq_items_def)
  show "gq_base q' ! gq_size q' = gq_base q ! 0" using q' p(3) by simp
  obtain i where i: "gq_base q ! 0 = Some i" using ok(4)[OF assms(3)] assms(4) by (cases "gq_base q ! 0") auto
  then show "s' = del (the (gq_base q ! 0)) s"
    using assms(5) p(3) by (auto simp: gpriority_queue_pop_def Let_def)
  show "pq_ok ctx A q'" using assms(2) p(1) k(2) q' len ok(2) by (auto simp: pq_ok_def heap_is_heap)
  show "\<forall>x \<in># pq_items q. \<not> less_comparer ctx (gq_base q ! 0) x"
    using heap_order.root_max[OF assms(1) ok(5,4)] by (auto simp: pq_items_def in_set_conv_nth)
qed

text \<open>C22: The priority queue is a bag of its items: a new one is empty; a push that succeeds adds the
  item, one that fails leaves the items; the top is an item that no other exceeds, and a pop takes
  out that item, hands it to the deleter and keeps the others.\<close>

theorem gpriority_queue_is_bag:
  assumes "well_shaped ctx" "weak_order (less_comparer ctx) A" "None \<notin> A" "pq_ok ctx A q"
    "0 < item_size" "Some item \<in> A"
  shows "(case gpriority_queue_create item_size s of
            (None, s') \<Rightarrow> True | (Some q0, s') \<Rightarrow> pq_ok ctx A q0 \<and> pq_items q0 = {#}) \<and>
         (case gpriority_queue_push ctx item_size item q s of (ok, q', s') \<Rightarrow>
            (ok \<longrightarrow> pq_ok ctx A q' \<and> pq_items q' = add_mset (Some item) (pq_items q)) \<and>
            (\<not> ok \<longrightarrow> pq_items q' = pq_items q)) \<and>
         (case gpriority_queue_top q of
            None \<Rightarrow> pq_items q = {#}
          | Some i \<Rightarrow>
              (\<forall>x \<in># pq_items q. \<not> less_comparer ctx (gq_base q ! i) x) \<and>
              (case gpriority_queue_pop ctx del q s of (q', s') \<Rightarrow>
                 pq_ok ctx A q' \<and> pq_items q = add_mset (gq_base q ! i) (pq_items q') \<and>
                 s' = del (the (gq_base q ! i)) s))"
proof -
  have o: "heap_order ctx A" by (rule heap_orderI[OF assms(1,2)])
  have create: "case gpriority_queue_create item_size s of
            (None, s') \<Rightarrow> True | (Some q0, s') \<Rightarrow> pq_ok ctx A q0 \<and> pq_items q0 = {#}"
    by (simp add: gpriority_queue_create_def pq_ok_def pq_items_def heap_is_heap heap_from_def SIZE_MAX_def
        split: prod.split option.split)
  obtain ok q1 s1 where push: "gpriority_queue_push ctx item_size item q s = (ok, q1, s1)" by (rule prod_cases3)
  obtain q2 s2 where pop: "gpriority_queue_pop ctx del q s = (q2, s2)" by fastforce
  show ?thesis
    using create push pop pq_push[OF o assms(4,5,6) push] pq_pop[OF o assms(4) _ assms(3) pop]
    by (auto simp: gpriority_queue_top_def pq_items_def)
qed

text \<open>C23: A push that fails for lack of memory leaves a queue that claims twice its room: the next push
  reports success and has written behind the array.\<close>

theorem gpriority_queue_push_after_failure:
  assumes "pq_ok ctx A q" "gq_size q = gq_capacity q" "gq_capacity q \<le> SIZE_MAX div 2 div item_size"
    "ls_data_malloc (gq_capacity q * 2 * item_size) s = (None, s1)"
    "gpriority_queue_push ctx item_size x q s = (ok, q1, s1')"
  shows "\<not> ok \<and> s1' = s1 \<and> gq_capacity q1 = 2 * length (gq_base q1) \<and>
         gpriority_queue_push ctx item_size y q1 s2 = (True, q1\<lparr>gq_size := Suc (gq_size q1)\<rparr>, fault s2)"
  using assms by (auto simp: gpriority_queue_push_def Let_def pq_ok_def)

definition option_shape :: "nat option gheap_ctx" where
  "option_shape = \<lparr>fanout = 2, page_chunks = 512, less_comparer = (\<lambda>a b. the a < the b)\<rparr>"

definition two_items :: "nat gpriority_queue" where
  "two_items = \<lparr>gq_self = 1, gq_block = 2, gq_base = [Some 9, Some 4], gq_size = 2, gq_capacity = 2\<rparr>"

lemma two_items_ok: "well_shaped option_shape" "weak_order (less_comparer option_shape) (range Some)"
  "pq_ok option_shape (range Some) two_items"
proof -
  show "well_shaped option_shape" by (simp add: well_shaped_def option_shape_def SIZE_MAX_def)
  show "weak_order (less_comparer option_shape) (range Some)" by (auto simp: weak_order_def option_shape_def)
  show "pq_ok option_shape (range Some) two_items"
    by (auto simp: pq_ok_def two_items_def gheap_is_heap_def gheap_is_heap_until_def option_shape_def
        gheap_get_parent_index_def less_2_cases_iff upt_rec) (simp add: SIZE_MAX_def)
qed

lemma gpriority_queue_is_bag_witness:
  "pq_items (fst (snd (gpriority_queue_push option_shape 8 6 two_items init_mem))) = {#Some 9, Some 4, Some 6#}"
proof -
  have "fst (gpriority_queue_push option_shape 8 6 two_items init_mem)"
    by (simp add: gpriority_queue_push_def two_items_def SIZE_MAX_def ls_data_malloc_def init_mem_def libc_malloc_def
        Let_def)
  moreover have "pq_items two_items = {#Some 9, Some 4#}" by (simp add: pq_items_def two_items_def)
  moreover obtain ok q' s' where p: "gpriority_queue_push option_shape 8 6 two_items init_mem = (ok, q', s')"
    by (rule prod_cases3)
  moreover have "None \<notin> range Some" "(0 :: nat) < 8" "Some 6 \<in> range Some" by simp_all
  note gpriority_queue_is_bag[OF two_items_ok(1,2) this(1) two_items_ok(3) this(2,3), THEN conjunct2, THEN conjunct1,
      of init_mem, unfolded p prod.case]
  ultimately show ?thesis by simp
qed

lemma gpriority_queue_push_after_failure_witness:
  "\<exists>q1. snd (snd (gpriority_queue_push option_shape 8 7 q1 init_mem)) = fault init_mem"
proof -
  let ?s = "init_mem\<lparr>malloc_func := \<lambda>n k. False\<rparr>"
  obtain s1 where m: "ls_data_malloc (gq_capacity two_items * 2 * 8) ?s = (None, s1)"
    by (simp add: ls_data_malloc_def Let_def)
  obtain ok q1 s1' where p: "gpriority_queue_push option_shape 8 6 two_items ?s = (ok, q1, s1')" by (rule prod_cases3)
  have "snd (snd (gpriority_queue_push option_shape 8 7 q1 init_mem)) = fault init_mem"
    using gpriority_queue_push_after_failure[OF two_items_ok(3) _ _ m p, of 7 init_mem]
    by (simp add: two_items_def SIZE_MAX_def)
  then show ?thesis by blast
qed

end
