(* ===== verification/Tube_Manager_Props.thy ===== *)
theory Tube_Manager_Props
  imports Tube_Props Gheap_Props Ls_Dispatch
begin

unbundle bit_operations_syntax

text \<open>
  Properties of the tube manager: the queue of its timers and its policy.
\<close>

section \<open>Timers\<close>

definition live_timers :: "('d, 'z) tmmem_scheme \<Rightarrow> addr option set" where
  "live_timers s = {Some a |a. timer_at s a \<noteq> None}"

lemma timercmp_order:
  "timercmp a b (>) \<Longrightarrow> \<not> timercmp b a (>)"
  "\<not> timercmp a b (>) \<Longrightarrow> \<not> timercmp b c (>) \<Longrightarrow> \<not> timercmp a c (>)"
  by (auto simp: timercmp_def split: if_splits)

lemma timer_less_order:
  "timer_less s x y \<Longrightarrow> \<not> timer_less s y x"
  "x \<in> live_timers s \<Longrightarrow> y \<in> live_timers s \<Longrightarrow> z \<in> live_timers s \<Longrightarrow>
   \<not> timer_less s x y \<Longrightarrow> \<not> timer_less s y z \<Longrightarrow> \<not> timer_less s x z"
proof -
  show "timer_less s x y \<Longrightarrow> \<not> timer_less s y x"
    by (auto simp: timer_less_def ls_timer_greater_def timercmp_order(1) split: option.splits)
  assume "x \<in> live_timers s" "y \<in> live_timers s" "z \<in> live_timers s"
  then obtain a b c u v w where "x = Some a" "y = Some b" "z = Some c"
    "timer_at s a = Some u" "timer_at s b = Some v" "timer_at s c = Some w" by (auto simp: live_timers_def)
  then show "\<not> timer_less s x y \<Longrightarrow> \<not> timer_less s y z \<Longrightarrow> \<not> timer_less s x z"
    using timercmp_order(2)[of "tm_tv u" "tm_tv v" "tm_tv w"] by (simp add: timer_less_def ls_timer_greater_def)
qed

interpretation timer_tree: heap_shape "timer_ctx s" for s :: "('d, 'z) tmmem_scheme"
  by unfold_locales (simp_all add: timer_ctx_def SIZE_MAX_def)

interpretation timer_heap: heap_order "timer_ctx s" "live_timers s" for s :: "('d, 'z) tmmem_scheme"
proof unfold_locales
  fix x y z
  assume A: "x \<in> live_timers s" "y \<in> live_timers s"
  show "less_comparer (timer_ctx s) x y \<Longrightarrow> \<not> less_comparer (timer_ctx s) y x"
    unfolding timer_ctx_def gheap_ctx.select_convs by (rule timer_less_order(1))
  assume "z \<in> live_timers s"
  then show "\<not> less_comparer (timer_ctx s) x y \<Longrightarrow> \<not> less_comparer (timer_ctx s) y z \<Longrightarrow>
      \<not> less_comparer (timer_ctx s) x z"
    unfolding timer_ctx_def gheap_ctx.select_convs by (rule timer_less_order(2)[OF A])
qed

lemmas timer_order = timer_heap.heap_order_axioms

lemma timer_at_free [simp]: "timer_at (ls_data_free p s) = timer_at s"
  "mgr (ls_data_free p s) = mgr s" "fired (ls_data_free p s) = fired s"
  by (simp_all add: ls_data_free_def fault_def split: option.split)

lemma timer_del_at [simp]:
  "timer_at (timer_del a s) = (timer_at s)(a := None)" "mgr (timer_del a s) = mgr s" "fired (timer_del a s) = fired s"
  by (simp_all add: timer_del_def ls_timer_destroy_def)

text \<open>The queue of timers is a heap of live timers.\<close>

definition timers_ok :: "('d, 'z) tmmem_scheme \<Rightarrow> bool" where
  "timers_ok s \<longleftrightarrow> (\<exists>q. m_timer_q (mgr s) = Some q \<and> pq_ok (timer_ctx s) (live_timers s) q)"

definition queued_timers :: "('d, 'z) tmmem_scheme \<Rightarrow> addr option multiset" where
  "queued_timers s = pq_items (the (m_timer_q (mgr s)))"

lemma timer_ctx_cong:
  "timer_at s' = timer_at s \<Longrightarrow> timer_ctx s' = timer_ctx s \<and> live_timers s' = live_timers s"
proof -
  assume at: "timer_at s' = timer_at s"
  have "timer_less s' = timer_less s" by (intro ext) (simp add: timer_less_def at split: option.split)
  then show ?thesis by (simp add: timer_ctx_def live_timers_def at)
qed

lemma timer_at_malloc: "ls_data_malloc n s = (r, s') \<Longrightarrow> timer_at s' = timer_at s \<and> mgr s' = mgr s"
  by (auto simp: ls_data_malloc_def Let_def split: if_splits)

lemma push_timer_at: "gpriority_queue_push ctx n x q s = (ok, q', s') \<Longrightarrow> timer_at s' = timer_at s \<and> mgr s' = mgr s"
  by (auto simp: gpriority_queue_push_def Let_def fault_def dest!: timer_at_malloc
      split: if_splits prod.splits option.splits)

lemma schedule_queue:
  assumes "timers_ok s" "timer_at s a \<noteq> None" "tube_manager_schedule_timer os a s = (r, s')"
  shows "r = Inr () \<Longrightarrow> timers_ok s' \<and> queued_timers s' = add_mset (Some a) (queued_timers s) \<and> timer_at s' = timer_at s"
    "r \<noteq> Inr () \<Longrightarrow> os_mutex_lock os = None \<Longrightarrow> os_mutex_unlock os = None \<Longrightarrow>
     r = Inl LS_ERR_NO_MEMORY \<and> queued_timers s' = queued_timers s"
proof -
  obtain q where q: "m_timer_q (mgr s) = Some q" "pq_ok (timer_ctx s) (live_timers s) q"
    using assms(1) by (auto simp: timers_ok_def)
  obtain ok q1 s1 where p: "gpriority_queue_push (timer_ctx s) sizeof_ptr a q s = (ok, q1, s1)" by (rule prod_cases3)
  have in_live: "Some a \<in> live_timers s" using assms(2) by (simp add: live_timers_def)
  have sz: "0 < sizeof_ptr" by (simp add: sizeof_ptr_def)
  note push = pq_push[OF timer_order q(2) sz in_live p]
  have at: "timer_at s1 = timer_at s" "mgr s1 = mgr s" using push_timer_at[OF p] by simp_all
  have ctx: "timer_ctx (set_timer_q (Some q1) s1) = timer_ctx s" "live_timers (set_timer_q (Some q1) s1) = live_timers s"
    using timer_ctx_cong[of "set_timer_q (Some q1) s1" s] at(1) by (simp_all add: set_timer_q_def upd_mgr_def)
  show "timers_ok s' \<and> queued_timers s' = add_mset (Some a) (queued_timers s) \<and> timer_at s' = timer_at s" if "r = Inr ()"
  proof -
    have "os_mutex_lock os = None" "ok" "s' = set_timer_q (Some q1) s1"
      using assms(3) that q(1) p by (auto simp: tube_manager_schedule_timer_def unlocked_def split: option.splits if_splits)
    then show ?thesis using push(1) q(1) ctx at
      by (simp add: timers_ok_def queued_timers_def) (simp add: set_timer_q_def upd_mgr_def)
  qed
  show "r = Inl LS_ERR_NO_MEMORY \<and> queued_timers s' = queued_timers s"
    if "r \<noteq> Inr ()" "os_mutex_lock os = None" "os_mutex_unlock os = None"
  proof -
    have "\<not> ok" "s' = set_timer_q (Some q1) s1" "r = Inl LS_ERR_NO_MEMORY"
      using assms(3) that q(1) p by (auto simp: tube_manager_schedule_timer_def unlocked_def split: if_splits)
    then show ?thesis using push(2) q(1) by (simp add: queued_timers_def pq_items_def set_timer_q_def upd_mgr_def)
  qed
qed

lemma cancel_queue:
  assumes "timers_ok s" "tube_manager_cancel_timer os a s = (r, s')" "os_mutex_lock os = None" "timer_at s a = Some t"
  shows "timers_ok s'" "queued_timers s' = queued_timers s" "timer_at s' = (timer_at s)(a \<mapsto> ls_timer_cancel t)"
proof -
  obtain q where q: "m_timer_q (mgr s) = Some q" "pq_ok (timer_ctx s) (live_timers s) q"
    using assms(1) by (auto simp: timers_ok_def)
  let ?s = "s\<lparr>timer_at := (timer_at s)(a \<mapsto> ls_timer_cancel t)\<rparr>"
  let ?q = "q\<lparr>gq_base := gheap_make_heap (timer_ctx ?s) (gq_base q) (gq_size q)\<rparr>"
  have s': "s' = set_timer_q (Some ?q) ?s"
    using assms(2-4) q(1) by (auto simp: tube_manager_cancel_timer_def unlocked_def Let_def split: option.splits)
  have live: "live_timers ?s = live_timers s" using assms(4) by (auto simp: live_timers_def)
  have len: "gq_size q \<le> length (gq_base q)" "gq_size q \<le> SIZE_MAX" "\<And>u. u < gq_size q \<Longrightarrow> gq_base q ! u \<in> live_timers ?s"
    using q(2) live by (auto simp: pq_ok_def)
  note mk = timer_heap.make_ok[OF len]
  note kept = timer_heap.items_kept[OF mk(2,3) len(1)]
  have l: "length (gq_base ?q) = length (gq_base q)" using mk(2) by (metis size_mset gpriority_queue.select_convs(3) gpriority_queue.surjective gpriority_queue.update_convs(3))
  have "pq_ok (timer_ctx ?s) (live_timers ?s) ?q"
    using q(2) mk(1) kept(3) len(3) l by (auto simp: pq_ok_def heap_is_heap)
  moreover have "timer_ctx s' = timer_ctx ?s" "live_timers s' = live_timers ?s"
    using timer_ctx_cong[of s' ?s] s' by (simp_all add: set_timer_q_def upd_mgr_def)
  ultimately show "timers_ok s'" using s' by (simp add: timers_ok_def) (simp add: set_timer_q_def upd_mgr_def)
  show "queued_timers s' = queued_timers s" using s' q(1) kept(1)
    by (simp add: queued_timers_def pq_items_def set_timer_q_def upd_mgr_def)
  show "timer_at s' = (timer_at s)(a \<mapsto> ls_timer_cancel t)" using s' by (simp add: set_timer_q_def upd_mgr_def)
qed

lemma pq_ok_wider:
  assumes "pq_ok ctx A q" "fanout ctx' = fanout ctx" "page_chunks ctx' = page_chunks ctx" "A \<subseteq> A'"
    "\<And>x y. x \<in> A \<Longrightarrow> y \<in> A \<Longrightarrow> less_comparer ctx' x y = less_comparer ctx x y"
  shows "pq_ok ctx' A' q"
proof -
  have par: "gheap_get_parent_index ctx' u = gheap_get_parent_index ctx u" for u
    using assms(2,3) by (simp add: gheap_get_parent_index_def Let_def)
  have "heap_from ctx 0 (gq_base q) (gq_size q)" and A: "\<And>u. u < gq_size q \<Longrightarrow> gq_base q ! u \<in> A"
    using assms(1) by (auto simp: pq_ok_def heap_is_heap)
  then have "heap_from ctx' 0 (gq_base q) (gq_size q)"
    using assms(5) parent_le[of ctx] unfolding heap_from_def par by (meson order_le_less_trans)
  then show ?thesis using assms(1,4) by (auto simp: pq_ok_def heap_is_heap)
qed

lemma new_timer_ok:
  assumes "timers_ok s" "timer_at s a = None" "timer_at s' = (timer_at s)(a \<mapsto> t)" "mgr s' = mgr s"
  shows "timers_ok s'" "queued_timers s' = queued_timers s"
proof -
  obtain q where q: "m_timer_q (mgr s) = Some q" "pq_ok (timer_ctx s) (live_timers s) q"
    using assms(1) by (auto simp: timers_ok_def)
  have "less_comparer (timer_ctx s') x y = less_comparer (timer_ctx s) x y"
    if "x \<in> live_timers s" "y \<in> live_timers s" for x y
  proof -
    obtain i j u v where "x = Some i" "y = Some j" "timer_at s i = Some u" "timer_at s j = Some v"
      using \<open>x \<in> live_timers s\<close> \<open>y \<in> live_timers s\<close> by (auto simp: live_timers_def)
    moreover from this have "timer_at s' i = Some u" "timer_at s' j = Some v" using assms(2,3) by auto
    ultimately show ?thesis by (simp add: timer_ctx_def timer_less_def)
  qed
  moreover have "live_timers s \<subseteq> live_timers s'" using assms(3) by (auto simp: live_timers_def)
  moreover have "fanout (timer_ctx s') = fanout (timer_ctx s)" "page_chunks (timer_ctx s') = page_chunks (timer_ctx s)"
    by (simp_all add: timer_ctx_def)
  ultimately have "pq_ok (timer_ctx s') (live_timers s') q" using pq_ok_wider[OF q(2)] by blast
  then show "timers_ok s'" using q(1) assms(4) by (simp add: timers_ok_def)
  show "queued_timers s' = queued_timers s" using assms(4) by (simp add: queued_timers_def)
qed

lemma timer_created:
  assumes "ls_timer_create tv cb ctx (s :: ('d, 'z) tmmem_scheme) = (Inr (a, t), s1)"
  shows "a = next_addr s" "t = \<lparr>tm_cb = cb, tm_context = ctx, tm_tv = tv\<rparr>" "timer_at s1 = timer_at s" "mgr s1 = mgr s"
proof -
  have "ls_data_calloc 1 sizeof_timer s = (Some a, s1)" "t = \<lparr>tm_cb = cb, tm_context = ctx, tm_tv = tv\<rparr>"
    using assms by (auto simp: ls_timer_create_def split: prod.splits option.splits)
  then show "a = next_addr s" "t = \<lparr>tm_cb = cb, tm_context = ctx, tm_tv = tv\<rparr>" "timer_at s1 = timer_at s" "mgr s1 = mgr s"
    using ls_data_calloc_Some[of 1 sizeof_timer s a s1] by simp_all
qed

lemma schedule_new:
  assumes "timers_ok s" "timer_at s (next_addr s) = None" "ls_timer_create tv cb ctx s = (Inr (b, t), s1)"
    "tube_manager_schedule_timer os b (s1\<lparr>timer_at := (timer_at s1)(b \<mapsto> t)\<rparr>) = (Inr (), s')"
  shows "timers_ok s' \<and> queued_timers s' = add_mset (Some b) (queued_timers s) \<and> timer_at s' = (timer_at s)(b \<mapsto> t)"
proof -
  let ?s = "s1\<lparr>timer_at := (timer_at s1)(b \<mapsto> t)\<rparr>"
  note c = timer_created[OF assms(3)]
  have "timers_ok ?s" "queued_timers ?s = queued_timers s"
    using new_timer_ok[OF assms(1), of b ?s t] assms(2) c by simp_all
  then show ?thesis using schedule_queue(1)[OF _ _ assms(4)] c by simp
qed


text \<open>C13: The queue of timers stays a heap of live timers: scheduling a timer adds exactly the new timer,
  with the time and callback asked for, and cancelling one keeps all of them queued and gives the
  cancelled one the time that makes it cancelled.\<close>

theorem tube_manager_timers_kept:
  assumes "timers_ok s"
  shows "(timer_at s (next_addr s) = None \<longrightarrow> tube_manager_schedule os tv cb c s = (Inr a, s') \<longrightarrow>
            timers_ok s' \<and> queued_timers s' = add_mset (Some a) (queued_timers s) \<and>
            timer_at s' = (timer_at s)(a \<mapsto> \<lparr>tm_cb = cb, tm_context = c, tm_tv = tv\<rparr>)) \<and>
         (timer_at s (next_addr s) = None \<longrightarrow> tube_manager_schedule_ms os ms cb c s = (Inr a, s') \<longrightarrow>
            timers_ok s' \<and> queued_timers s' = add_mset (Some a) (queued_timers s) \<and>
            timer_at s' = (timer_at s)(a \<mapsto> \<lparr>tm_cb = cb, tm_context = c,
              tm_tv = timeradd (m_last (mgr s)) \<lparr>tv_sec = int (ms div 1000), tv_usec = int (ms mod 1000 * 1000)\<rparr>\<rparr>)) \<and>
         (os_mutex_lock os = None \<longrightarrow> timer_at s b = Some t \<longrightarrow> tube_manager_cancel_timer os b s = (r, s') \<longrightarrow>
            timers_ok s' \<and> queued_timers s' = queued_timers s \<and> timer_at s' = (timer_at s)(b \<mapsto> ls_timer_cancel t))"
proof (intro conjI impI)
  assume fresh: "timer_at s (next_addr s) = None"
  have split: "\<exists>t s1. ls_timer_create tv cb c s = (Inr (a, t), s1) \<and>
      tube_manager_schedule_timer os a (s1\<lparr>timer_at := (timer_at s1)(a \<mapsto> t)\<rparr>) = (Inr (), s')"
    if "(case ls_timer_create tv cb c s of
        (Inl e, s1) \<Rightarrow> (Inl e, s1)
      | (Inr (ret, t), s1) \<Rightarrow>
          (case tube_manager_schedule_timer os ret (s1\<lparr>timer_at := (timer_at s1)(ret \<mapsto> t)\<rparr>) of
             (Inl e, s2) \<Rightarrow> (Inl e, s2)
           | (Inr u, s2) \<Rightarrow> (Inr ret, s2))) = (Inr a, s')" for tv
    using that by (auto split: prod.splits sum.splits)
  {
    assume "tube_manager_schedule os tv cb c s = (Inr a, s')"
    then obtain t s1 where c: "ls_timer_create tv cb c s = (Inr (a, t), s1)"
      "tube_manager_schedule_timer os a (s1\<lparr>timer_at := (timer_at s1)(a \<mapsto> t)\<rparr>) = (Inr (), s')"
      using split[of tv] unfolding tube_manager_schedule_def by blast
    from schedule_new[OF assms fresh c]
    show "timers_ok s'" "queued_timers s' = add_mset (Some a) (queued_timers s)"
      "timer_at s' = (timer_at s)(a \<mapsto> \<lparr>tm_cb = cb, tm_context = c, tm_tv = tv\<rparr>)"
      using timer_created(2)[OF c(1)] by simp_all
  }
  let ?tv = "timeradd (m_last (mgr s)) \<lparr>tv_sec = int (ms div 1000), tv_usec = int (ms mod 1000 * 1000)\<rparr>"
  assume "tube_manager_schedule_ms os ms cb c s = (Inr a, s')"
  then obtain t s1 where c: "ls_timer_create ?tv cb c s = (Inr (a, t), s1)"
    "tube_manager_schedule_timer os a (s1\<lparr>timer_at := (timer_at s1)(a \<mapsto> t)\<rparr>) = (Inr (), s')"
    using split[of ?tv] unfolding tube_manager_schedule_ms_def ls_timer_create_ms_def Let_def by blast
  from schedule_new[OF assms fresh c]
  show "timers_ok s'" "queued_timers s' = add_mset (Some a) (queued_timers s)"
    "timer_at s' = (timer_at s)(a \<mapsto> \<lparr>tm_cb = cb, tm_context = c, tm_tv = ?tv\<rparr>)"
    using timer_created(2)[OF c(1)] by simp_all
next
  assume "os_mutex_lock os = None" "timer_at s b = Some t" "tube_manager_cancel_timer os b s = (r, s')"
  then show "timers_ok s'" "queued_timers s' = queued_timers s" "timer_at s' = (timer_at s)(b \<mapsto> ls_timer_cancel t)"
    using cancel_queue[OF assms] by blast+
qed

text \<open>C14: The earliest of the queued timers decides: while it is in the future its time is reported.  When it
  is due it is taken out of the queue and freed, but it is not called: the timer that is called is the
  one next in the queue, which stays there; when there is no other, what runs is the freed timer.\<close>

theorem pending_timers_calls_the_next:
  assumes "m_keep_going (mgr s)" "os_mutex_lock os = None" "os_mutex_unlock os = None"
    "m_timer_q (mgr s) = Some q" "pq_ok (timer_ctx s) (live_timers s) q" "distinct (take (gq_size q) (gq_base q))"
  shows "(if gq_size q = 0 then pending_timers os call s = Some (Pend_none, s)
          else \<exists>a t. gq_base q ! 0 = Some a \<and> timer_at s a = Some t \<and>
            (\<forall>b u. Some b \<in># pq_items q \<longrightarrow> timer_at s b = Some u \<longrightarrow> \<not> ls_timer_greater t u) \<and>
            (if ls_timer_greater_tv t (m_last (mgr s)) then
               pending_timers os call s = Some (Pend_at (ls_timer_get_time t), s)
             else if gq_size q = 1 then pending_timers os call s = None
             else \<exists>b u s1. b \<noteq> a \<and> Some b \<in># queued_timers s1 \<and> timer_at s b = Some u \<and>
               timer_at s1 = (timer_at s)(a := None) \<and> add_mset (Some a) (queued_timers s1) = pq_items q \<and>
               fired s1 = fired s @ [b] \<and>
               pending_timers os call s = pending_timers os call (ls_timer_exec call u s1)))"
proof (cases "gq_size q = 0")
  case True
  then show ?thesis using assms(1-4)
    by (subst pending_timers.simps) (simp add: gpriority_queue_top_def)
next
  case False
  have A: "\<And>u. u < gq_size q \<Longrightarrow> gq_base q ! u \<in> live_timers s" using assms(5) by (simp add: pq_ok_def)
  have len: "gq_size q \<le> length (gq_base q)" using assms(5) by (simp add: pq_ok_def)
  obtain a t where a: "gq_base q ! 0 = Some a" "timer_at s a = Some t" using A[of 0] False by (auto simp: live_timers_def)
  obtain q1 s1 where p: "gpriority_queue_pop (timer_ctx s) timer_del q s = (q1, s1)" by fastforce
  have "0 < gq_size q" "None \<notin> live_timers s" using False by (auto simp: live_timers_def)
  note pop = pq_pop[OF timer_order assms(5) this p]
  have s1: "s1 = timer_del a s" using pop(3) a(1) by simp
  have first: "\<not> ls_timer_greater t u" if "Some b \<in># pq_items q" "timer_at s b = Some u" for b u
    using pop(5) that a by (auto simp: timer_ctx_def timer_less_def)
  have step: "pending_timers os call s =
      (if ls_timer_greater_tv t (m_last (mgr s)) then Some (Pend_at (ls_timer_get_time t), s)
       else (case gq_base q1 ! 0 of None \<Rightarrow> None
             | Some b \<Rightarrow> (case timer_at s1 b of None \<Rightarrow> None
                | Some u \<Rightarrow> pending_timers os call (ls_timer_exec call u
                    ((set_timer_q (Some q1) s1)\<lparr>fired := fired s1 @ [b]\<rparr>)))))"
    using assms(1-4) a False p by (subst pending_timers.simps) (simp add: gpriority_queue_top_def)
  show ?thesis
  proof (cases "ls_timer_greater_tv t (m_last (mgr s))")
    case True
    then show ?thesis using step a first False by auto
  next
    case due: False
    show ?thesis
    proof (cases "gq_size q = 1")
      case True
      then have "gq_base q1 ! 0 = Some a" using p a by (auto simp: gpriority_queue_pop_def gheap_pop_heap_def Let_def)
      then have "pending_timers os call s = None" using step due s1 by simp
      then show ?thesis using a first due True by auto
    next
      case more: False
      then have sz: "0 < gq_size q1" using p False by (auto simp: gpriority_queue_pop_def Let_def)
      have len1: "gq_size q1 \<le> length (gq_base q1)" using pop(1) by (simp add: pq_ok_def)
      have "gq_base q1 ! 0 \<in> live_timers s" using pop(1) sz by (simp add: pq_ok_def)
      then obtain b u where b: "gq_base q1 ! 0 = Some b" "timer_at s b = Some u" by (auto simp: live_timers_def)
      have inq: "Some b \<in># pq_items q1" using b(1) sz len1 by (force simp: pq_items_def in_set_conv_nth)
      have "distinct (take (gq_size q) (gq_base q))" by (rule assms(6))
      then have "count (pq_items q) (Some a) \<le> 1" unfolding pq_items_def by (simp add: distinct_count_atmost_1)
      then have "Some a \<notin># pq_items q1" using pop(2) a(1) by (simp add: not_in_iff)
      then have ne: "b \<noteq> a" using inq by auto
      let ?s = "(set_timer_q (Some q1) s1)\<lparr>fired := fired s1 @ [b]\<rparr>"
      have "pending_timers os call s = pending_timers os call (ls_timer_exec call u ?s)"
        using step due b ne s1 by simp
      moreover have "queued_timers ?s = pq_items q1" "timer_at ?s = (timer_at s)(a := None)" "fired ?s = fired s @ [b]"
        using s1 by (simp_all add: queued_timers_def set_timer_q_def upd_mgr_def)
      ultimately have "\<exists>b u s1. b \<noteq> a \<and> Some b \<in># queued_timers s1 \<and> timer_at s b = Some u \<and>
               timer_at s1 = (timer_at s)(a := None) \<and> add_mset (Some a) (queued_timers s1) = pq_items q \<and>
               fired s1 = fired s @ [b] \<and>
               pending_timers os call s = pending_timers os call (ls_timer_exec call u s1)"
        using ne inq b(2) pop(2) a(1) by (intro exI[of _ b] exI[of _ u] exI[of _ ?s]) simp
      then show ?thesis using a first False due more by auto
    qed
  qed
qed

text \<open>A system on which everything works, and a manager with two timers, due at 5 and at 9 seconds.\<close>

definition good_os :: os where
  "good_os = \<lparr>os_mutex_init = None, os_mutex_destroy = None, os_mutex_lock = None, os_mutex_unlock = None,
     os_gettimeofday = Inr \<lparr>tv_sec = 0, tv_usec = 0\<rparr>, os_pipe = Inr (8, 9), os_fcntl_getfl = (\<lambda>fd. Inr 0),
     os_fcntl_setfl = (\<lambda>fd fl. None), os_socket = (\<lambda>pf. Inr pf), os_setsockopt = (\<lambda>fd opt. None),
     os_bind = (\<lambda>fd a. None), os_signal = (\<lambda>sig. None), os_write = [Written]\<rparr>"

definition two_timers :: "nat tmmem" where
  "two_timers = tubemem.extend one_tube
     \<lparr>mgr = \<lparr>m_initialized = True, m_sock4 = 3, m_sock6 = 4, m_pipe = (8, 9), m_max_fd = 9,
        m_timer_q = Some \<lparr>gq_self = 30, gq_block = 31, gq_base = [Some 20, Some 21], gq_size = 2, gq_capacity = 2\<rparr>,
        m_last = \<lparr>tv_sec = 6, tv_usec = 0\<rparr>, m_policy = 0, m_keep_going = True, m_data = 0\<rparr>,
      timer_at = [20 \<mapsto> \<lparr>tm_cb = 1, tm_context = 0, tm_tv = \<lparr>tv_sec = 5, tv_usec = 0\<rparr>\<rparr>,
                  21 \<mapsto> \<lparr>tm_cb = 2, tm_context = 0, tm_tv = \<lparr>tv_sec = 9, tv_usec = 0\<rparr>\<rparr>],
      sig_contexts = [], pipe_out = [], fired = []\<rparr>"

lemma two_timers_simps [simp]:
  "timer_at two_timers = [20 \<mapsto> \<lparr>tm_cb = 1, tm_context = 0, tm_tv = \<lparr>tv_sec = 5, tv_usec = 0\<rparr>\<rparr>,
     21 \<mapsto> \<lparr>tm_cb = 2, tm_context = 0, tm_tv = \<lparr>tv_sec = 9, tv_usec = 0\<rparr>\<rparr>]"
  "m_timer_q (mgr two_timers) = Some \<lparr>gq_self = 30, gq_block = 31, gq_base = [Some 20, Some 21], gq_size = 2, gq_capacity = 2\<rparr>"
  "m_last (mgr two_timers) = \<lparr>tv_sec = 6, tv_usec = 0\<rparr>" "m_keep_going (mgr two_timers)" "fired two_timers = []"
  by (simp_all add: two_timers_def tubemem.defs)

lemma two_timers_queue:
  "pq_ok (timer_ctx two_timers) (live_timers two_timers) \<lparr>gq_self = 30, gq_block = 31, gq_base = [Some 20, Some 21], gq_size = 2, gq_capacity = 2\<rparr>"
proof -
  have "(2 :: nat) \<le> SIZE_MAX" by (simp add: SIZE_MAX_def)
  then show ?thesis
    by (auto simp: pq_ok_def live_timers_def gheap_is_heap_def gheap_is_heap_until_def timer_ctx_def timer_less_def
        ls_timer_greater_def timercmp_def less_2_cases_iff upt_rec gheap_get_parent_index_def)
qed

lemma two_timers_ok: "timers_ok two_timers"
  using two_timers_queue by (simp add: timers_ok_def)

lemma tube_manager_timers_kept_witness:
  "\<exists>r s'. tube_manager_cancel_timer good_os 21 two_timers = (r, s') \<and> timers_ok s' \<and>
     queued_timers s' = {#Some 20, Some 21#} \<and> Option.bind (timer_at s' 21) ls_timer_get_time = None"
proof -
  obtain r s' where c: "tube_manager_cancel_timer good_os 21 two_timers = (r, s')" by fastforce
  have "os_mutex_lock good_os = None" by (simp add: good_os_def)
  moreover have "timer_at two_timers 21 = Some \<lparr>tm_cb = 2, tm_context = 0, tm_tv = \<lparr>tv_sec = 9, tv_usec = 0\<rparr>\<rparr>" by simp
  ultimately have "timers_ok s' \<and> queued_timers s' = queued_timers two_timers \<and>
      timer_at s' = (timer_at two_timers)(21 \<mapsto> ls_timer_cancel \<lparr>tm_cb = 2, tm_context = 0, tm_tv = \<lparr>tv_sec = 9, tv_usec = 0\<rparr>\<rparr>)"
    using tube_manager_timers_kept[OF two_timers_ok] c by blast
  then show ?thesis using c
    by (simp add: queued_timers_def pq_items_def ls_timer_cancel_def ls_timer_get_time_def ls_timer_is_cancelled_def
        epoch_def timercmp_def)
qed

lemma pending_timers_calls_the_next_witness:
  "\<exists>s'. pending_timers good_os (\<lambda>cb t. upd_mgr (\<lambda>v. v\<lparr>m_keep_going := False\<rparr>)) two_timers = Some (Pend_stopped, s') \<and>
     fired s' = [21] \<and> timer_at s' 20 = None \<and> Some 21 \<in># queued_timers s'"
proof -
  let ?call = "\<lambda>cb t. upd_mgr (\<lambda>v. v\<lparr>m_keep_going := False\<rparr>) :: nat tmmem \<Rightarrow> nat tmmem"
  have os: "os_mutex_lock good_os = None" "os_mutex_unlock good_os = None" by (simp_all add: good_os_def)
  obtain b u s1 where b: "b \<noteq> 20" "Some b \<in># queued_timers s1" "timer_at two_timers b = Some u"
    "timer_at s1 = (timer_at two_timers)(20 := None)" "add_mset (Some 20) (queued_timers s1) = {#Some 20, Some 21#}"
    "fired s1 = [b]" "pending_timers good_os ?call two_timers = pending_timers good_os ?call (ls_timer_exec ?call u s1)"
    using pending_timers_calls_the_next[OF _ os two_timers_simps(2) two_timers_queue, of ?call]
    by (auto simp: ls_timer_greater_tv_def timercmp_def pq_items_def numeral_2_eq_2)
  have "queued_timers s1 = {#Some 21#}" using b(5) by simp
  moreover from this have "b = 21" using b(2) by simp
  moreover have "pending_timers good_os ?call (ls_timer_exec ?call u s1) = Some (Pend_stopped, ls_timer_exec ?call u s1)"
    by (subst pending_timers.simps) (simp add: ls_timer_exec_def upd_mgr_def)
  ultimately show ?thesis using b(4,6,7)
    by (intro exI[of _ "ls_timer_exec ?call u s1"]) (simp add: ls_timer_exec_def upd_mgr_def queued_timers_def)
qed

section \<open>The policy\<close>

text \<open>Whether a manager answers is what its policy was last set to; the other bits of the policy stay.
  Binding the sockets to a port makes the manager a responder exactly when the port is given.\<close>

theorem tube_manager_policy:
  "tube_manager_is_responder (tube_manager_set_policy_responder b s) = b \<and>
   m_policy (mgr (tube_manager_set_policy_responder b s)) AND NOT TP_WILL_RESPOND = m_policy (mgr s) AND NOT TP_WILL_RESPOND \<and>
   tube_manager_is_responder (snd (tube_manager_socket os port s)) = (port \<noteq> 0)"
proof -
  have off: "(p AND NOT x) AND x = 0" "(p OR x) AND x = x" "(p OR x) AND NOT x = p AND NOT x" for p x :: u32
    by (auto simp: bit_eq_iff bit_and_iff bit_or_iff bit_not_iff)
  have "TP_WILL_RESPOND \<noteq> 0" by (simp add: TP_WILL_RESPOND_def)
  then have set: "tube_manager_is_responder (tube_manager_set_policy_responder b s) = b" for b s
    by (cases b) (simp_all add: tube_manager_is_responder_def tube_manager_set_policy_responder_def upd_mgr_def off)
  have keep: "m_policy (mgr (tube_manager_set_policy_responder b s)) AND NOT TP_WILL_RESPOND = m_policy (mgr s) AND NOT TP_WILL_RESPOND"
    by (cases b) (simp_all add: tube_manager_set_policy_responder_def upd_mgr_def off and.assoc)
  have upd: "tube_manager_is_responder (upd_mgr f s) = tube_manager_is_responder s" if "\<And>v. m_policy (f v) = m_policy v" for f s
    using that by (simp add: tube_manager_is_responder_def upd_mgr_def)
  have "tube_manager_is_responder (snd (tube_manager_socket os port s)) = (port \<noteq> 0)"
    by (auto simp: tube_manager_socket_def Let_def upd set split: sum.split option.split)
  then show ?thesis using set keep by blast
qed

end
