(* ===== verification/Tube_Loop_Props.thy ===== *)
theory Tube_Loop_Props
  imports Tube_Manager_Props Ls_Htable_Props
begin

unbundle bit_operations_syntax

text \<open>
  Properties of the message loop: what the messages for a tube do to its state, the life of a tube
  in the table of its manager, and the handshake of two managers.

  Callbacks may trigger the manager's events and send datagrams; they leave its tubes alone.
\<close>

section \<open>What callbacks keep\<close>

definition keeps_tubes :: "('d, 'z) tubemem_scheme \<Rightarrow> ('d, 'z) tubemem_scheme \<Rightarrow> bool" where
  "keeps_tubes s s' \<longleftrightarrow> tube_at s' = tube_at s \<and> pktinfo_at s' = pktinfo_at s \<and>
     sendmsg_fn s' = sendmsg_fn s \<and> (\<exists>ds. sent s' = sent s @ ds)"

interpretation tubes_frame: dispatch_frame keeps_tubes
proof unfold_locales
  show "evmem.more s' = evmem.more s \<Longrightarrow> keeps_tubes s s'" for s s' :: "('a, 'b) tubemem_scheme"
    by (cases s; cases s') (auto simp: keeps_tubes_def)
  show "keeps_tubes s s' \<Longrightarrow> keeps_tubes s' s'' \<Longrightarrow> keeps_tubes s s''" for s s' s'' :: "('a, 'b) tubemem_scheme"
    by (auto simp: keeps_tubes_def)
qed

section \<open>The table of tubes\<close>

lemma id_word_id: "id_word (a, i) = id_word (b, i)"
  by (simp add: id_word_def)

lemma same_id [simp]: "compare_id id_word (a, i) (b, i) = 0"
  by (simp add: compare_id_def Let_def id_word_id[of a i b])

lemma compare_id_pointer: "compare_id id_word (a, i) k = compare_id id_word (b, i) k"
  by (simp add: compare_id_def Let_def id_word_id[of a i b])

text \<open>Each entry is a tube of the manager under its identifier, and is cleaned by \<open>clean_tube\<close>.\<close>

type_synonym ('c, 'z) tube_node = "(tube_key, addr, ('c, 'z) tms) hnode"

definition node_ok :: "('c, 'z) tms \<Rightarrow> ('c, 'z) tube_node \<Rightarrow> bool" where
  "node_ok s n \<longleftrightarrow> hn_self n < next_addr s \<and> hn_cleaner n = Some clean_tube \<and>
     (\<exists>t x. hn_value n = Some t \<and> t < next_addr s \<and> tube_at s t = Some x \<and> hn_key n = (t, tb_id x))"

definition table_ok :: "(tube_key, addr, ('c, 'z) tms) htable \<Rightarrow> ('c, 'z) tms \<Rightarrow> bool" where
  "table_ok tbl s \<longleftrightarrow> ht_form (hash_id id_word) (compare_id id_word) tbl \<and> (\<forall>n \<in># contents tbl. node_ok s n)"

lemma node_ok_step:
  assumes "node_ok s n" "next_addr s \<le> next_addr s'"
    "\<And>t x. hn_value n = Some t \<Longrightarrow> t < next_addr s \<Longrightarrow> tube_at s t = Some x \<Longrightarrow> \<exists>y. tube_at s' t = Some y \<and> tb_id y = tb_id x"
  shows "node_ok s' n"
  using assms unfolding node_ok_def by fastforce

lemma table_ok_step:
  "table_ok tbl s \<Longrightarrow> next_addr s \<le> next_addr s' \<Longrightarrow>
   (\<And>t x. t < next_addr s \<Longrightarrow> tube_at s t = Some x \<Longrightarrow> \<exists>y. tube_at s' t = Some y \<and> tb_id y = tb_id x) \<Longrightarrow> table_ok tbl s'"
  unfolding table_ok_def using node_ok_step by blast

text \<open>Looking up an identifier.\<close>

lemma table_get:
  assumes "table_ok tbl s"
  shows "ls_htable_get tbl (a, i) = Some t \<longleftrightarrow>
           (\<exists>n. n \<in># contents tbl \<and> compare_id id_word (a, i) (hn_key n) = 0 \<and> hn_value n = Some t)"
    and "ls_htable_get tbl (a, i) = None \<longleftrightarrow> ht_view tbl (a, i) = None"
proof -
  have form: "ht_form (hash_id id_word) (compare_id id_word) tbl" using assms by (simp add: table_ok_def)
  have get: "ls_htable_get tbl k = Option.bind (ht_view tbl k) (\<lambda>v. v)" for k
    by (simp add: ls_htable_get_def ht_view_def ls_htable_get_node_def split: option.split)
  then have "ls_htable_get tbl (a, i) = Some t \<longleftrightarrow> ht_view tbl (a, i) = Some (Some t)"
    by (auto simp: Option.bind_eq_Some_conv)
  then show "ls_htable_get tbl (a, i) = Some t \<longleftrightarrow>
      (\<exists>n. n \<in># contents tbl \<and> compare_id id_word (a, i) (hn_key n) = 0 \<and> hn_value n = Some t)"
    by (simp add: tk.form_view[OF form])
  have "ht_view tbl (a, i) \<noteq> Some None"
    using assms by (auto simp: tk.form_view[OF form] table_ok_def node_ok_def)
  then show "ls_htable_get tbl (a, i) = None \<longleftrightarrow> ht_view tbl (a, i) = None"
    using get by (cases "ht_view tbl (a, i)") auto
qed

lemma table_get_pointer: "table_ok tbl s \<Longrightarrow> ls_htable_get tbl (a, i) = ls_htable_get tbl (b, i)"
proof -
  assume ok: "table_ok tbl s"
  have "ls_htable_get tbl (a, i) = Some t \<longleftrightarrow> ls_htable_get tbl (b, i) = Some t" for t
    by (simp add: table_get(1)[OF ok] compare_id_pointer[of a i _ b])
  then show ?thesis by (metis not_Some_eq)
qed

text \<open>Adding a tube under an identifier that is not in the table.\<close>

lemma table_put:
  assumes ok: "table_ok tbl s" and new: "ls_htable_get tbl (0, i) = None" and size: "unat (ls_htable_get_count tbl) < 2 ^ 28"
    and mem: "\<And>n k. malloc_func s n k" and t: "tube_at s t = Some x" "tb_id x = i" "t < next_addr s"
  shows "\<exists>tbl' s'. ls_htable_put tbl (t, i) (Some t) (Some clean_tube) s = (Inr (), tbl', s') \<and> table_ok tbl' s' \<and>
    mem_grows s s' \<and> (\<forall>a k. ls_htable_get tbl' (a, k) = (if id_word (0, k) = id_word (0, i) then Some t else ls_htable_get tbl (a, k))) \<and>
    ls_htable_get_count tbl' = ls_htable_get_count tbl + 1"
proof -
  have form: "ht_form (hash_id id_word) (compare_id id_word) tbl" using ok by (simp add: table_ok_def)
  have below: "\<forall>n \<in># contents tbl. hn_self n < next_addr s" using ok by (simp add: table_ok_def node_ok_def)
  have view: "ht_view tbl (t, i) = None" using new table_get[OF ok] table_get_pointer[OF ok] by metis
  have cnt: "unat (ht_count tbl) = size (contents tbl)" using form by (simp add: ht_form_def)
  obtain tbl' s' n where p: "ls_htable_put tbl (t, i) (Some t) (Some clean_tube) s = (Inr (), tbl', s')"
    "ht_form (hash_id id_word) (compare_id id_word) tbl'" "contents tbl' = add_mset n (contents tbl)"
    "hn_self n < next_addr s'" "hn_key n = (t, i)" "hn_value n = Some t" "hn_cleaner n = Some clean_tube" "mem_grows s s'"
    "ht_view tbl' = (\<lambda>k. if compare_id id_word k (t, i) = 0 then Some (Some t) else ht_view tbl k)"
    using tk.put_new_form[OF form below view _ mem, of "Some t" "Some clean_tube"] size cnt
    by (auto simp: ls_htable_get_count_def)
  have na: "next_addr s \<le> next_addr s'" "tube_at s' = tube_at s"
    using p(8) by (cases s; cases s'; simp add: mem_grows_def)+
  have "node_ok s' m" if "m \<in># contents tbl" for m
    using ok that na by (auto simp: table_ok_def intro!: node_ok_step[of s m s'])
  moreover have "node_ok s' n" using p(4-7) t na by (simp add: node_ok_def)
  ultimately have ok': "table_ok tbl' s'" using p(2,3) by (simp add: table_ok_def)
  have get: "ls_htable_get tb k = Option.bind (ht_view tb k) (\<lambda>v. v)" for tb k
    by (simp add: ls_htable_get_def ht_view_def ls_htable_get_node_def split: option.split)
  have "ls_htable_get tbl' (a, k) = (if id_word (0, k) = id_word (0, i) then Some t else ls_htable_get tbl (a, k))" for a k
    using id_word_id[of a k 0] id_word_id[of t i 0] by (simp add: get p(9) compare_id_def Let_def)
  moreover have "ht_count tbl' = ht_count tbl + 1"
  proof -
    have "unat (ht_count tbl') = unat (ht_count tbl) + 1" using p(2,3) cnt by (simp add: ht_form_def)
    moreover have "unat (ht_count tbl + 1) = unat (ht_count tbl) + 1"
      using size by (subst unat_add_lem[THEN iffD1]) (simp_all add: ls_htable_get_count_def)
    ultimately show ?thesis by (simp add: word_unat_eq_iff)
  qed
  ultimately show ?thesis using p(1,8) ok' by (auto simp: ls_htable_get_count_def)
qed

text \<open>What only allocates, frees and writes other objects leaves the events ready.\<close>

definition events_stay :: "('d, 'z) evmem_scheme \<Rightarrow> ('d, 'z) evmem_scheme \<Rightarrow> bool" where
  "events_stay s s' \<longleftrightarrow> binding_at s' = binding_at s \<and> event_at s' = event_at s \<and> calls s' = calls s \<and>
     next_addr s \<le> next_addr s' \<and> malloc_func s' = malloc_func s"

lemma events_stay_refl [simp]: "events_stay s s"
  by (simp add: events_stay_def)

lemma events_stay_trans: "events_stay a b \<Longrightarrow> events_stay b c \<Longrightarrow> events_stay a c"
  by (auto simp: events_stay_def)

lemma events_stay_free: "events_stay s (ls_data_free p s)"
  by (auto simp: events_stay_def ls_data_free_def fault_def split: option.split)

lemma events_stay_grows: "mem_grows s s' \<Longrightarrow> events_stay s s'"
  by (cases s; cases s') (auto simp: events_stay_def mem_grows_def)

lemma same_bound:
  assumes "events_stay s s'"
  shows "bindings_of e s' = bindings_of e s" "bound e s' = bound e s" "evt_of d s' = evt_of d s"
proof -
  show b: "bindings_of e s' = bindings_of e s"
    using assms by (simp add: bindings_of_def events_stay_def split: option.split)
  show "bound e s' = bound e s"
    using assms b by (simp add: bound_def entry_def[abs_def] events_stay_def)
  show "evt_of d s' = evt_of d s" using assms by (intro ext) (simp add: evt_of_def events_stay_def)
qed

lemma same_ready:
  assumes "events_stay s s'" "ready E s"
  shows "ready E s'"
proof -
  note same = same_bound[OF assms(1)]
  have "next_addr s \<le> next_addr s'" using assms(1) by (simp add: events_stay_def)
  then have "\<forall>a \<in> set as. a < next_addr s \<Longrightarrow> \<forall>a \<in> set as. a < next_addr s'" for as by auto
  then have "\<forall>e \<in> E. \<exists>as. bindings_of e s' = Some as \<and> (\<forall>a \<in> set as. a < next_addr s') \<and> distinct (map fst (bound e s'))"
    using assms(2) unfolding ready_def lists_ok_def same by meson
  moreover have "\<forall>e \<in> E. \<forall>e' \<in> E. e \<noteq> e' \<longrightarrow> set (the (bindings_of e s')) \<inter> set (the (bindings_of e' s')) = {}"
    using assms(2) unfolding ready_def lists_ok_def same by (elim conjE)
  ultimately have "lists_ok E s'" unfolding lists_ok_def by (rule conjI)
  then show ?thesis using assms by (simp add: ready_def marked_def same events_stay_def)
qed

section \<open>The manager\<close>

text \<open>The callbacks of a program, with the events of a manager, the data they carry and the callbacks
  bound to them.\<close>

record ('c, 'z) wiring =
  wi_events :: "addr set"
  wi_prog :: "('c ev_payload, ('c, 'z) tms) programs"
  wi_evt :: "addr \<Rightarrow> 'c ev_payload \<Rightarrow> 'c ev_payload evdata"
  wi_bound :: "addr \<Rightarrow> (nat \<times> nat) list"

text \<open>The calls that triggering an event makes.\<close>

definition reacts ::
  "('c, 'z) wiring \<Rightarrow> addr \<Rightarrow> 'c ev_payload \<Rightarrow> (nat \<times> nat \<times> 'c ev_payload evdata) list \<Rightarrow> bool" where
  "reacts W e data cs \<longleftrightarrow>
     (\<exists>n rs. run_queue n (wi_prog W) (wi_evt W) (wi_bound W) [(e, data, None, 0)] = Some (cs, rs))"

text \<open>The callbacks leave the tubes alone, and the events they trigger come to an end.\<close>

definition settles :: "('c, 'z) wiring \<Rightarrow> bool" where
  "settles W \<longleftrightarrow> tame_program keeps_tubes (wi_events W) (wi_prog W) \<and>
     (\<forall>e \<in> wi_events W. \<forall>data. \<exists>cs. reacts W e data cs)"

definition manager_events :: "('c, 'z) tube_manager \<Rightarrow> addr option list" where
  "manager_events m = [e_loopstart m, e_running m, e_data m, e_close m, e_add m, e_remove m]"

definition manager_ok :: "('c, 'z) wiring \<Rightarrow> ('c, 'z) tube_manager \<Rightarrow> ('c, 'z) tms \<Rightarrow> bool" where
  "manager_ok W m s \<longleftrightarrow> settles W \<and> ready (wi_events W) s \<and> (\<forall>e \<in> wi_events W. wi_bound W e = bound e s) \<and>
     (\<exists>d. tm_dispatcher m = Some d \<and> idle d \<and> evt_of d s = wi_evt W) \<and>
     (\<exists>tbl. tm_tubes m = Some tbl \<and> table_ok tbl s) \<and>
     (\<forall>e \<in> set (manager_events m). \<exists>a \<in> wi_events W. e = Some a)"

lemma manager_ok_step:
  assumes "manager_ok W m s" "events_stay s s'" "tm_tubes m' = Some tbl" "table_ok tbl s'"
    "tm_dispatcher m' = tm_dispatcher m" "manager_events m' = manager_events m"
  shows "manager_ok W m' s'"
  using assms(1,3-6) by (simp add: manager_ok_def same_ready[OF assms(2)] same_bound[OF assms(2)])

lemma trigger_ok:
  assumes ok: "manager_ok W m s" and e: "e \<in> set (manager_events m)"
  shows "\<exists>d' s' cs. trigger (wi_prog W) e data m s = Some (Inr (), m\<lparr>tm_dispatcher := Some d'\<rparr>, s') \<and>
     reacts W (the e) data cs \<and> calls s' = calls s @ cs \<and> keeps_tubes s s' \<and>
     manager_ok W (m\<lparr>tm_dispatcher := Some d'\<rparr>) s' \<and> next_addr s \<le> next_addr s' \<and> malloc_func s' = malloc_func s"
proof -
  obtain d tbl a where d: "tm_dispatcher m = Some d" "idle d" "evt_of d s = wi_evt W"
    "tm_tubes m = Some tbl" "table_ok tbl s" "e = Some a" "a \<in> wi_events W"
    using ok e by (auto simp: manager_ok_def)
  have st: "settles W" "ready (wi_events W) s" "\<forall>e \<in> wi_events W. wi_bound W e = bound e s"
    using ok by (simp_all add: manager_ok_def)
  obtain cs n rs where r: "reacts W a data cs"
    "run_queue n (wi_prog W) (wi_evt W) (wi_bound W) [(a, data, None, 0)] = Some (cs, rs)"
    using st(1) d(7) by (fastforce simp: settles_def reacts_def)
  have tame: "tame_program keeps_tubes (wi_events W) (wi_prog W)" using st(1) by (simp add: settles_def)
  obtain d' s' where t: "ls_event_trigger (wi_prog W) a data None 0 d s = Some (Inr (), d', s')"
    "calls s' = calls s @ cs" "idle d'" "ready (wi_events W) s'" "calm keeps_tubes s s'" "evt_of d' s' = evt_of d s"
    "\<forall>e \<in> wi_events W. bound e s' = bound e s"
    using tubes_frame.breadth_first[OF d(2) st(2) tame d(7) st(3) r(2)[folded d(3)]] by blast
  have c: "next_addr s \<le> next_addr s'" "malloc_func s' = malloc_func s" "keeps_tubes s s'" using t(5) by (simp_all add: calm_def)
  then have "table_ok tbl s'" using table_ok_step[OF d(5) c(1)] by (simp add: keeps_tubes_def)
  then have "manager_ok W (m\<lparr>tm_dispatcher := Some d'\<rparr>) s'"
    using ok t(3,4,6,7) d by (simp add: manager_ok_def manager_events_def)
  then show ?thesis using t(1,2) r(1) c d by (intro exI[of _ d'] exI[of _ s'] exI[of _ cs]) (simp add: trigger_def)
qed

section \<open>Removing a tube\<close>

lemma upd_tube_at: "tube_at s t = Some x \<Longrightarrow> upd_tube t f s = s\<lparr>tube_at := (tube_at s)(t \<mapsto> f x)\<rparr>"
  by (simp add: upd_tube_def)

lemma free_tube_at [simp]: "tube_at (ls_data_free p s) = tube_at s" "sent (ls_data_free p s) = sent s"
  "sendmsg_fn (ls_data_free p s) = sendmsg_fn s" "pktinfo_at (ls_data_free p s) = pktinfo_at s"
  by (simp_all add: ls_data_free_def fault_def split: option.split)

lemma events_stay_records [simp]:
  "events_stay s (s'\<lparr>tube_at := f\<rparr>) = events_stay s s'" "events_stay s (s'\<lparr>pktinfo_at := g\<rparr>) = events_stay s s'"
  "events_stay (s\<lparr>tube_at := f\<rparr>) s' = events_stay s s'" "events_stay (s\<lparr>pktinfo_at := g\<rparr>) s' = events_stay s s'"
  "events_stay s (s'\<lparr>sent := ds\<rparr>) = events_stay s s'"
  by (simp_all add: events_stay_def)

lemma tube_destroy_ok:
  assumes "tube_at s t = Some x"
  shows "tube_at (tube_destroy t s) = (tube_at s)(t := None)" "events_stay s (tube_destroy t s)"
    "sent (tube_destroy t s) = sent s"
proof -
  have free: "events_stay s (ls_data_free (Some t) (s1\<lparr>tube_at := (tube_at s1)(t := None)\<rparr>))" if "events_stay s s1" for s1
    by (rule events_stay_trans[OF _ events_stay_free]) (simp add: that)
  show "tube_at (tube_destroy t s) = (tube_at s)(t := None)" "sent (tube_destroy t s) = sent s"
    using assms by (simp_all add: tube_destroy_def Let_def ls_pktinfo_destroy_def split: option.split)
  have "events_stay s (ls_pktinfo_destroy p (s\<lparr>pktinfo_at := g\<rparr>))" for p g
    unfolding ls_pktinfo_destroy_def by (rule events_stay_trans[OF _ events_stay_free]) simp
  then show "events_stay s (tube_destroy t s)"
    using assms free[of s] free by (auto simp: tube_destroy_def Let_def split: option.split)
qed

lemma table_remove:
  assumes ok: "table_ok tbl s" and t: "tube_at s t = Some x" "tb_state x \<noteq> TS_RUNNING"
    and held: "ls_htable_get tbl (t, tb_id x) = Some t" and r: "ls_htable_remove tbl (t, tb_id x) s = (tbl', s')"
  shows "table_ok tbl' s'" "tube_at s' = (tube_at s)(t := None)" "events_stay s s'" "sent s' = sent s"
    "ls_htable_get tbl' (a, k) = (if id_word (0, k) = id_word (0, tb_id x) then None else ls_htable_get tbl (a, k))"
    "unat (ls_htable_get_count tbl') \<le> unat (ls_htable_get_count tbl)"
proof -
  have form: "ht_form (hash_id id_word) (compare_id id_word) tbl" using ok by (simp add: table_ok_def)
  obtain n where n: "find_node tbl (t, tb_id x) (-1) 0 = Some n" "hn_value n = Some t"
    using held by (auto simp: ls_htable_get_def split: option.splits)
  note rem = tk.remove_form[OF form n(1) r]
  show "unat (ls_htable_get_count tbl') \<le> unat (ls_htable_get_count tbl)"
    using form rem(1,2) by (simp add: ht_form_def ls_htable_get_count_def)
  have "node_ok s (unplaced n)" using ok rem(2) by (simp add: table_ok_def)
  then have c: "hn_cleaner n = Some clean_tube" and key: "hn_key n = (t, tb_id x)"
    using n(2) t(1) by (auto simp: node_ok_def)
  have s': "s' = ls_data_free (Some (hn_self n)) (tube_destroy t s)"
    using rem(3) c n(2) t by (simp add: call_cleaner_def clean_tube_def tube_get_state_def)
  note d = tube_destroy_ok[OF t(1)]
  show at: "tube_at s' = (tube_at s)(t := None)" "sent s' = sent s" using s' d by simp_all
  show ev: "events_stay s s'" unfolding s' by (rule events_stay_trans[OF d(2) events_stay_free])
  have "node_ok s' m" if m: "m \<in># contents tbl'" for m
  proof -
    have "node_ok s m" using ok rem(2) m by (simp add: table_ok_def)
    moreover have "hn_value m \<noteq> Some t"
    proof
      assume "hn_value m = Some t"
      then have "hn_key m = (t, tb_id x)" using \<open>node_ok s m\<close> t(1) by (auto simp: node_ok_def)
      then have "ht_view tbl' (t, tb_id x) = Some (hn_value m)"
        using m by (auto simp: tk.form_view[OF rem(1)])
      then show False using rem(6) by simp
    qed
    ultimately show ?thesis using ev at(1) by (auto simp: events_stay_def intro!: node_ok_step[of s m s'])
  qed
  then show "table_ok tbl' s'" using rem(1) by (simp add: table_ok_def)
  have get: "ls_htable_get tb k = Option.bind (ht_view tb k) (\<lambda>v. v)" for tb k
    by (simp add: ls_htable_get_def ht_view_def ls_htable_get_node_def split: option.split)
  show "ls_htable_get tbl' (a, k) = (if id_word (0, k) = id_word (0, tb_id x) then None else ls_htable_get tbl (a, k))"
    using id_word_id[of a k 0] id_word_id[of t "tb_id x" 0] by (simp add: get rem(6) compare_id_def Let_def)
qed

lemma manager_remove_ok:
  assumes ok: "manager_ok W m s" and tbl: "tm_tubes m = Some tbl"
    and t: "tube_at s t = Some x" "tb_state x \<noteq> TS_RUNNING" "ls_htable_get tbl (t, tb_id x) = Some t"
  shows "\<exists>m' s' cs tbl'. tube_manager_remove (wi_prog W) m t s = Some (m', s') \<and> manager_ok W m' s' \<and>
    tm_tubes m' = Some tbl' \<and> reacts W (the (e_remove m)) (Ev_tube t) cs \<and> calls s' = calls s @ cs \<and>
    tube_at s' = (tube_at s)(t := None) \<and>
    (\<forall>a k. ls_htable_get tbl' (a, k) = (if id_word (0, k) = id_word (0, tb_id x) then None else ls_htable_get tbl (a, k))) \<and>
    unat (ls_htable_get_count tbl') \<le> unat (ls_htable_get_count tbl)"
proof -
  obtain d1 s1 cs where tr: "trigger (wi_prog W) (e_remove m) (Ev_tube t) m s = Some (Inr (), m\<lparr>tm_dispatcher := Some d1\<rparr>, s1)"
    "reacts W (the (e_remove m)) (Ev_tube t) cs" "calls s1 = calls s @ cs" "keeps_tubes s s1"
    "manager_ok W (m\<lparr>tm_dispatcher := Some d1\<rparr>) s1"
    using trigger_ok[OF ok, of "e_remove m" "Ev_tube t"] by (auto simp: manager_events_def)
  have at: "tube_at s1 = tube_at s" using tr(4) by (simp add: keeps_tubes_def)
  have tok: "table_ok tbl s1" using tr(5) tbl by (simp add: manager_ok_def)
  obtain tbl' s' where r: "ls_htable_remove tbl (t, tb_id x) s1 = (tbl', s')" by fastforce
  note rem = table_remove[OF tok _ t(2,3) r, unfolded at, OF t(1)]
  let ?m = "m\<lparr>tm_dispatcher := Some d1, tm_tubes := Some tbl'\<rparr>"
  have "manager_ok W ?m s'"
    by (rule manager_ok_step[OF tr(5) rem(3) _ rem(1)]) (simp_all add: manager_events_def)
  moreover have "tube_manager_remove (wi_prog W) m t s = Some (?m, s')"
    using tr(1) r t(1) tbl by (simp add: tube_manager_remove_def tube_get_id_def at)
  moreover have "calls s' = calls s @ cs" using rem(3) tr(3) by (simp add: events_stay_def)
  ultimately show ?thesis using tr(2) rem(2,5,6) by (intro exI[of _ ?m]) auto
qed

section \<open>The states of a tube\<close>

datatype tube_event = Running_event | Data_event | Close_event

inductive tube_step :: "tube_states_t \<Rightarrow> spud_command \<Rightarrow> tube_event option \<Rightarrow> tube_states_t \<Rightarrow> bool" where
  data: "tube_step TS_RUNNING SPUD_DATA (Some Data_event) TS_RUNNING"
| data_early: "st \<noteq> TS_RUNNING \<Longrightarrow> tube_step st SPUD_DATA None st"
| ack: "tube_step TS_OPENING SPUD_ACK (Some Running_event) TS_RUNNING"
| ack_again: "st \<noteq> TS_OPENING \<Longrightarrow> tube_step st SPUD_ACK None st"
| open_again: "tube_step st SPUD_OPEN None st"
| close: "st \<noteq> TS_UNKNOWN \<Longrightarrow> tube_step st SPUD_CLOSE (Some Close_event) TS_UNKNOWN"
| close_again: "tube_step TS_UNKNOWN SPUD_CLOSE None TS_UNKNOWN"

inductive_cases tube_stepE: "tube_step st cmd ev st'"

lemma tube_step_total: "\<exists>!evst. tube_step st cmd (fst evst) (snd evst)"
proof -
  have "\<exists>ev st'. tube_step st cmd ev st'" by (cases cmd; cases st; blast intro: tube_step.intros)
  moreover have "tube_step st cmd ev st' \<Longrightarrow> tube_step st cmd ev2 st2 \<Longrightarrow> ev2 = ev \<and> st2 = st'" for ev st' ev2 st2
    by (auto elim!: tube_stepE)
  ultimately show ?thesis by (metis fst_conv snd_conv surjective_pairing)
qed

fun event_of :: "tube_event \<Rightarrow> ('c, 'z) tube_manager \<Rightarrow> addr option" where
  "event_of Running_event m = e_running m"
| "event_of Data_event m = e_data m"
| "event_of Close_event m = e_close m"

lemma event_of_in: "event_of ev m \<in> set (manager_events m)"
  by (cases ev) (simp_all add: manager_events_def)

text \<open>A change of a tube that leaves its identifier.\<close>

lemma manager_ok_tube:
  assumes "manager_ok W m s" "tube_at s t = Some x" "tb_id y = tb_id x"
  shows "manager_ok W m (s\<lparr>tube_at := (tube_at s)(t \<mapsto> y)\<rparr>)"
proof -
  obtain tbl where tbl: "tm_tubes m = Some tbl" "table_ok tbl s" using assms(1) by (auto simp: manager_ok_def)
  have "table_ok tbl (s\<lparr>tube_at := (tube_at s)(t \<mapsto> y)\<rparr>)"
    by (rule table_ok_step[OF tbl(2)]) (use assms in auto)
  from manager_ok_step[OF assms(1) _ tbl(1) this] show ?thesis by simp
qed

text \<open>A step with an event that keeps the tube.\<close>

lemma keep_step:
  assumes ok: "manager_ok W m s" and t: "tube_at s t = Some x" and y: "y = x\<lparr>tb_state := st\<rparr>"
    and s1: "s1 = s\<lparr>tube_at := (tube_at s)(t \<mapsto> y)\<rparr>"
  shows "\<exists>m' s' cs. trigger (wi_prog W) (event_of ev m) data m s1 = Some (Inr (), m', s') \<and> manager_ok W m' s' \<and>
    tm_tubes m' = tm_tubes m \<and> manager_events m' = manager_events m \<and> reacts W (the (event_of ev m)) data cs \<and>
    calls s' = calls s @ cs \<and> tube_at s' = (tube_at s)(t \<mapsto> y)"
proof -
  have ok1: "manager_ok W m s1" unfolding s1 by (rule manager_ok_tube[OF ok t]) (simp add: y)
  obtain d' s' cs where "trigger (wi_prog W) (event_of ev m) data m s1 = Some (Inr (), m\<lparr>tm_dispatcher := Some d'\<rparr>, s')"
    "reacts W (the (event_of ev m)) data cs" "calls s' = calls s1 @ cs" "keeps_tubes s1 s'"
    "manager_ok W (m\<lparr>tm_dispatcher := Some d'\<rparr>) s'"
    using trigger_ok[OF ok1 event_of_in] by blast
  then show ?thesis
    by (intro exI[of _ "m\<lparr>tm_dispatcher := Some d'\<rparr>"] exI[of _ s'] exI[of _ cs]) (simp add: s1 keeps_tubes_def manager_events_def)
qed

lemma command_ok:
  assumes "manager_ok W m s" "tm_tubes m = Some tbl" "cb_events cbs = wi_prog W" "tube_at s t = Some x"
    "ls_htable_get tbl (t, tb_id x) = Some t" "tube_step (tb_state x) cmd ev st"
  shows "\<exists>m' s'. on_command cbs cmd t cbor peer m s = Some (Go_on, m', s') \<and> manager_ok W m' s' \<and>
    (case ev of
       None \<Rightarrow> m' = m \<and> s' = s \<and> st = tb_state x
     | Some Close_event \<Rightarrow> \<exists>cs ds tbl'. reacts W (the (e_close m)) (Ev_msg t cbor peer) cs \<and>
         reacts W (the (e_remove m)) (Ev_tube t) ds \<and> calls s' = calls s @ cs @ ds \<and>
         tube_at s' = (tube_at s)(t := None) \<and> tm_tubes m' = Some tbl' \<and> ls_htable_get tbl' (0, tb_id x) = None
     | Some e \<Rightarrow> \<exists>cs. reacts W (the (event_of e m)) (Ev_msg t cbor peer) cs \<and> calls s' = calls s @ cs \<and>
         tube_at s' = (tube_at s)(t \<mapsto> x\<lparr>tb_state := st\<rparr>) \<and> tm_tubes m' = tm_tubes m) \<and>
    unat (ls_htable_get_count (the (tm_tubes m'))) \<le> unat (ls_htable_get_count tbl)"
  using assms(6)
proof (cases rule: tube_step.cases)
  case data
  have eq: "s = s\<lparr>tube_at := (tube_at s)(t \<mapsto> x\<lparr>tb_state := TS_RUNNING\<rparr>)\<rparr>"
    using assms(4) data(1) by (cases x) (simp add: fun_upd_idem)
  from keep_step[OF assms(1,4) refl eq, of Data_event "Ev_msg t cbor peer"] show ?thesis
    using data assms(2-4) by (auto simp: on_command_def tube_get_state_def outcome_of_def)
next
  case ack
  from keep_step[OF assms(1,4) refl refl, of Running_event "Ev_msg t cbor peer" TS_RUNNING] show ?thesis
    using ack assms(2-4) by (auto simp: on_command_def tube_get_state_def outcome_of_def tube_set_state_def upd_tube_at)
next
  case close
  let ?x = "x\<lparr>tb_state := TS_UNKNOWN\<rparr>" and ?s = "s\<lparr>tube_at := (tube_at s)(t \<mapsto> x\<lparr>tb_state := TS_UNKNOWN\<rparr>)\<rparr>"
  obtain m1 s1 cs where one: "trigger (wi_prog W) (e_close m) (Ev_msg t cbor peer) m ?s = Some (Inr (), m1, s1)"
    "manager_ok W m1 s1" "tm_tubes m1 = tm_tubes m" "manager_events m1 = manager_events m"
    "reacts W (the (e_close m)) (Ev_msg t cbor peer) cs" "calls s1 = calls s @ cs"
    "tube_at s1 = (tube_at s)(t \<mapsto> ?x)"
    using keep_step[OF assms(1,4) refl refl, of Close_event "Ev_msg t cbor peer" TS_UNKNOWN] by auto
  have ev: "e_remove m1 = e_remove m" using one(4) by (simp add: manager_events_def)
  obtain m2 s2 ds tbl' where two: "tube_manager_remove (wi_prog W) m1 t s1 = Some (m2, s2)" "manager_ok W m2 s2"
    "tm_tubes m2 = Some tbl'" "reacts W (the (e_remove m)) (Ev_tube t) ds" "calls s2 = calls s1 @ ds"
    "tube_at s2 = (tube_at s1)(t := None)"
    "\<forall>a k. ls_htable_get tbl' (a, k) = (if id_word (0, k) = id_word (0, tb_id x) then None else ls_htable_get tbl (a, k))"
    "unat (ls_htable_get_count tbl') \<le> unat (ls_htable_get_count tbl)"
    using manager_remove_ok[OF one(2), of tbl t ?x] one(3,7) assms(2,5) unfolding ev by auto
  have "on_command cbs cmd t cbor peer m s = Some (Go_on, m2, s2)"
    using one(1) two(1) close assms(3,4) by (simp add: on_command_def tube_get_state_def tube_set_state_def upd_tube_at)
  then show ?thesis using one(5-7) two close by (intro exI[of _ m2] exI[of _ s2]) auto
qed (use assms(1,2,4) in \<open>simp_all add: on_command_def tube_get_state_def split: tube_event.split\<close>)

text \<open>C2: A message for a tube of the manager drives the state machine \<open>tube_step\<close>: without an event
  nothing changes; data of a running tube and the acknowledgement of an opening one make the calls of
  their event once and leave the tube in the new state; closing makes the calls of the close event
  and then those of the remove event, takes the tube out of the table and destroys it.  The manager
  stays well-formed: its table has exactly live tubes under their identifiers, and its dispatcher is
  idle.\<close>

theorem on_command_drives_tube:
  assumes "manager_ok W m s" "tm_tubes m = Some tbl" "cb_events cbs = wi_prog W" "tube_at s t = Some x"
    "ls_htable_get tbl (t, tb_id x) = Some t" "tube_step (tb_state x) cmd ev st"
  shows "\<exists>m' s'. on_command cbs cmd t cbor peer m s = Some (Go_on, m', s') \<and> manager_ok W m' s' \<and>
    (case ev of
       None \<Rightarrow> m' = m \<and> s' = s \<and> st = tb_state x
     | Some Close_event \<Rightarrow> \<exists>cs ds tbl'. reacts W (the (e_close m)) (Ev_msg t cbor peer) cs \<and>
         reacts W (the (e_remove m)) (Ev_tube t) ds \<and> calls s' = calls s @ cs @ ds \<and>
         tube_at s' = (tube_at s)(t := None) \<and> tm_tubes m' = Some tbl' \<and> ls_htable_get tbl' (0, tb_id x) = None
     | Some e \<Rightarrow> \<exists>cs. reacts W (the (event_of e m)) (Ev_msg t cbor peer) cs \<and> calls s' = calls s @ cs \<and>
         tube_at s' = (tube_at s)(t \<mapsto> x\<lparr>tb_state := st\<rparr>) \<and> tm_tubes m' = tm_tubes m)"
  using command_ok[OF assms, of cbor peer] by blast

section \<open>An example\<close>

text \<open>A manager with six events; a callback is bound to the running event.  The program's callbacks set
  the flag of the event data.\<close>

definition demo_table :: "(nat, unit) tube_node list \<Rightarrow> (tube_key, addr, (nat, unit) tms) htable" where
  "demo_table ns = \<lparr>ht_self = 2, ht_hash = hash_id id_word, ht_cmp = compare_id id_word, ht_count = of_nat (length ns),
     ht_bcount = 1, ht_resize_count = 0, ht_block = 3, ht_buckets = [ns]\<rparr>"

definition demo_id :: spud_tube_id where
  "demo_id = [1, 2, 3, 4, 5, 6, 7, 8]"

definition demo_tube :: "tube_states_t \<Rightarrow> tube" where
  "demo_tube st = \<lparr>tb_state = st, tb_peer = Sockaddr_in 1234 1, tb_id = demo_id, tb_data = 0, tb_pktinfo = None, tb_sock = 3\<rparr>"

definition demo_node :: "(nat, unit) tube_node" where
  "demo_node = \<lparr>hn_self = 5, hn_key = (7, demo_id), hn_value = Some 7, hn_bucket = 0,
     hn_khash = hash_id id_word (7, demo_id), hn_cleaner = Some clean_tube\<rparr>"

definition demo_event :: "u8 \<Rightarrow> addr option \<Rightarrow> event" where
  "demo_event c b = \<lparr>ev_name_block = 4, ev_name = [c], ev_source = 0, ev_bindings = b\<rparr>"

definition demo_events :: "nat ev_payload evmem" where
  "demo_events = logmem.extend (logmem.truncate init_log\<lparr>next_addr := 30\<rparr>)
     \<lparr>binding_at = [20 \<mapsto> \<lparr>bi_cb = 1, bi_arg = 6, bi_next = None, bi_unbound = False, bi_normal_bound = False\<rparr>],
      event_at = [10 \<mapsto> demo_event 97 None, 11 \<mapsto> demo_event 98 (Some 20), 12 \<mapsto> demo_event 99 None,
                  13 \<mapsto> demo_event 100 None, 14 \<mapsto> demo_event 101 None, 15 \<mapsto> demo_event 102 None],
      moment_at = Map.empty, calls = [], results = []\<rparr>"

definition demo_vars :: "u32 \<Rightarrow> mgr_vars" where
  "demo_vars pol = \<lparr>m_initialized = True, m_sock4 = 3, m_sock6 = 4, m_pipe = (8, 9), m_max_fd = 9, m_timer_q = None,
     m_last = epoch, m_policy = pol, m_keep_going = True, m_data = 0\<rparr>"

definition demo :: "tube_states_t \<Rightarrow> int \<Rightarrow> (nat, unit) tms" where
  "demo st ret = tubemem.extend (evmem.extend demo_events
     \<lparr>tube_at = [7 \<mapsto> demo_tube st], pktinfo_at = Map.empty, sendmsg_fn = (\<lambda>n dg. (ret, 11)), sent = []\<rparr>)
     \<lparr>mgr = demo_vars 2, timer_at = Map.empty, sig_contexts = [], pipe_out = [], fired = []\<rparr>"

definition demo_dispatcher :: "(nat, unit) tms dispatcher" where
  "demo_dispatcher = \<lparr>di_self = 1, di_source = 0,
     di_events = \<lparr>ht_self = 2, ht_hash = ls_strcase_hashcode snd, ht_cmp = ls_strcase_compare snd, ht_count = 0,
       ht_bcount = 7, ht_resize_count = 0, ht_block = 2, ht_buckets = replicate 7 []\<rparr>,
     di_running = None, di_tail = None, di_next = None, di_destroy_pending = False, di_live = True\<rparr>"

definition demo_manager :: "(nat, unit) tube_node list \<Rightarrow> (nat, unit) tube_manager" where
  "demo_manager ns = \<lparr>tm_self = 1, tm_tubes = Some (demo_table ns), tm_dispatcher = Some demo_dispatcher,
     e_loopstart = Some 10, e_running = Some 11, e_data = Some 12, e_close = Some 13, e_add = Some 14, e_remove = Some 15\<rparr>"

definition demo_prog :: "(nat ev_payload, (nat, unit) tms) programs" where
  "demo_prog = \<lparr>pr_notify = (\<lambda>cb arg evt. [Handled True]), pr_result = (\<lambda>cb arg evt. [])\<rparr>"

definition demo_wiring :: "(nat, unit) wiring" where
  "demo_wiring = \<lparr>wi_events = {10, 11, 12, 13, 14, 15}, wi_prog = demo_prog,
     wi_evt = (\<lambda>e data. \<lparr>ed_source = 0, ed_name = ev_name (the (event_at demo_events e)), ed_notifier = e, ed_data = data,
       ed_selected = None, ed_handled = False\<rparr>),
     wi_bound = (\<lambda>e. if e = 11 then [(1, 6)] else [])\<rparr>"

definition demo_callbacks :: "(nat, unit) callbacks" where
  "demo_callbacks = \<lparr>cb_events = demo_prog, cb_timers = (\<lambda>cb t s. s), cb_signals = (\<lambda>cb b s. s)\<rparr>"

lemma demo_simps [simp]:
  "tube_at (demo st ret) = [7 \<mapsto> demo_tube st]" "sendmsg_fn (demo st ret) = (\<lambda>n dg. (ret, 11))" "sent (demo st ret) = []"
  "calls (demo st ret) = []" "next_addr (demo st ret) = 30" "event_at (demo st ret) = event_at demo_events"
  "binding_at (demo st ret) = binding_at demo_events" "malloc_func (demo st ret) n k" "mgr (demo st ret) = demo_vars 2"
  "tm_tubes (demo_manager ns) = Some (demo_table ns)" "cb_events demo_callbacks = wi_prog demo_wiring"
  "tb_state (demo_tube st) = st" "tb_id (demo_tube st) = demo_id"
  by (simp_all add: demo_def demo_events_def tubemem.defs evmem.defs logmem.defs init_log_def mem.defs init_mem_def
      libc_malloc_def demo_manager_def demo_callbacks_def demo_wiring_def demo_tube_def)

lemma demo_reacts: "reacts demo_wiring e data cs \<longleftrightarrow> cs = (if e = 11 then [(1, 6, wi_evt demo_wiring 11 data)] else [])"
proof -
  have eff: "moment_effect (wi_prog demo_wiring) (wi_evt demo_wiring) (wi_bound demo_wiring) (e, data, None, 0) =
      (if e = 11 then [(1, 6, wi_evt demo_wiring 11 data)] else [], [], [])"
    by (simp add: moment_effect_def demo_wiring_def demo_prog_def)
  have run: "run_queue (Suc n) (wi_prog demo_wiring) (wi_evt demo_wiring) (wi_bound demo_wiring) [(e, data, None, 0)] =
      Some (if e = 11 then [(1, 6, wi_evt demo_wiring 11 data)] else [], [])" for n
    unfolding run_queue.simps eff by simp
  show ?thesis
  proof
    assume "reacts demo_wiring e data cs"
    then obtain n rs where "run_queue n (wi_prog demo_wiring) (wi_evt demo_wiring) (wi_bound demo_wiring) [(e, data, None, 0)] = Some (cs, rs)"
      by (auto simp: reacts_def)
    then show "cs = (if e = 11 then [(1, 6, wi_evt demo_wiring 11 data)] else [])"
      using run by (cases n) (auto simp del: run_queue.simps(3))
  next
    assume "cs = (if e = 11 then [(1, 6, wi_evt demo_wiring 11 data)] else [])"
    then show "reacts demo_wiring e data cs" unfolding reacts_def using run[of 0] by blast
  qed
qed

lemma demo_settles: "settles demo_wiring"
  by (simp add: settles_def demo_reacts) (simp add: tame_program_def demo_wiring_def demo_prog_def)

lemma demo_bindings:
  assumes "e \<in> wi_events demo_wiring"
  shows "bindings_of e (demo st ret) = Some (if e = 11 then [20] else [])" "bound e (demo st ret) = wi_bound demo_wiring e"
proof -
  show b: "bindings_of e (demo st ret) = Some (if e = 11 then [20] else [])"
    using assms by (auto simp: bindings_of_iff demo_events_def evmem.defs logmem.defs demo_event_def demo_wiring_def)
  show "bound e (demo st ret) = wi_bound demo_wiring e"
    by (simp add: bound_def b demo_wiring_def) (simp add: entry_def demo_events_def evmem.defs logmem.defs)
qed

lemma demo_ready: "ready (wi_events demo_wiring) (demo st ret)"
  by (auto simp: ready_def lists_ok_def demo_bindings marked_def)
    (auto simp: demo_wiring_def demo_events_def evmem.defs logmem.defs split: if_splits)

lemma demo_table_ok:
  "ns = [] \<or> ns = [demo_node] \<Longrightarrow> table_ok (demo_table ns) (demo st ret)"
  "ls_htable_get (demo_table [demo_node]) (a, demo_id) = Some 7" "ls_htable_get (demo_table []) k = None"
  "unat (ls_htable_get_count (demo_table [])) < 2 ^ 28"
proof -
  have same: "hash_id id_word (a, demo_id) = hash_id id_word (7, demo_id)"
    by (simp add: hash_id_def id_word_id[of a demo_id 7])
  have form: "ht_form (hash_id id_word) (compare_id id_word) (demo_table ns)" if "ns = [] \<or> ns = [demo_node]"
    using that by (auto simp: ht_form_def shape_def placed_def hash_of_def keys_ok_def contents_def demo_table_def demo_node_def unplaced_def)
  then show "ns = [] \<or> ns = [demo_node] \<Longrightarrow> table_ok (demo_table ns) (demo st ret)"
    by (auto simp: table_ok_def contents_def demo_table_def node_ok_def demo_node_def)
  show "ls_htable_get (demo_table [demo_node]) (a, demo_id) = Some 7"
    using same by (simp add: ls_htable_get_def find_node_def demo_table_def chain_def bucket_from_khash_def demo_node_def Let_def)
  show "ls_htable_get (demo_table []) k = None"
    by (simp add: ls_htable_get_def find_node_def demo_table_def chain_def Let_def split: option.split)
  show "unat (ls_htable_get_count (demo_table [])) < 2 ^ 28" by (simp add: ls_htable_get_count_def demo_table_def)
qed

lemma demo_ok: "ns = [] \<or> ns = [demo_node] \<Longrightarrow> manager_ok demo_wiring (demo_manager ns) (demo st ret)"
proof -
  assume ns: "ns = [] \<or> ns = [demo_node]"
  have "evt_of demo_dispatcher (demo st ret) = wi_evt demo_wiring"
    by (intro ext) (simp add: evt_of_def demo_dispatcher_def demo_wiring_def)
  moreover have "idle demo_dispatcher" by (simp add: idle_def resting_def demo_dispatcher_def)
  moreover have "\<forall>e \<in> set (manager_events (demo_manager ns)). \<exists>a \<in> wi_events demo_wiring. e = Some a"
    by (simp add: manager_events_def demo_manager_def demo_wiring_def)
  ultimately show ?thesis
    using demo_settles demo_ready demo_table_ok(1)[OF ns] demo_bindings(2)
    by (simp add: manager_ok_def) (simp add: demo_manager_def)
qed


lemma on_command_drives_tube_witness:
  "(\<exists>m' s'. on_command demo_callbacks SPUD_ACK 7 (Some 5) (Sockaddr_in 1234 1) (demo_manager [demo_node]) (demo TS_OPENING 1) =
       Some (Go_on, m', s') \<and> tube_at s' 7 = Some (demo_tube TS_RUNNING) \<and>
       calls s' = [(1, 6, wi_evt demo_wiring 11 (Ev_msg 7 (Some 5) (Sockaddr_in 1234 1)))]) \<and>
   (\<exists>m' s' tbl. on_command demo_callbacks SPUD_CLOSE 7 None (Sockaddr_in 1234 1) (demo_manager [demo_node]) (demo TS_RUNNING 1) =
       Some (Go_on, m', s') \<and> tube_at s' 7 = None \<and> tm_tubes m' = Some tbl \<and> ls_htable_get tbl (0, demo_id) = None)"
proof -
  let ?m = "demo_manager [demo_node]" and ?p = "Sockaddr_in 1234 1"
  have ok: "manager_ok demo_wiring ?m (demo st ret)" for st ret by (rule demo_ok) simp
  have held: "ls_htable_get (demo_table [demo_node]) (7, tb_id (demo_tube st)) = Some 7" for st
    by (simp add: demo_table_ok)
  have at: "tube_at (demo st ret) 7 = Some (demo_tube st)" for st ret by simp
  have ack: "tube_step (tb_state (demo_tube TS_OPENING)) SPUD_ACK (Some Running_event) TS_RUNNING"
    by (simp add: tube_step.ack)
  have close: "tube_step (tb_state (demo_tube TS_RUNNING)) SPUD_CLOSE (Some Close_event) TS_UNKNOWN"
    by (simp add: tube_step.close)
  have run: "(demo_tube TS_OPENING)\<lparr>tb_state := TS_RUNNING\<rparr> = demo_tube TS_RUNNING" "e_running ?m = Some 11"
    by (simp_all add: demo_tube_def demo_manager_def)
  show ?thesis
    using on_command_drives_tube[OF ok[where ret = 1] demo_simps(10,11) at held ack, of "Some 5" ?p]
      on_command_drives_tube[OF ok[where ret = 1] demo_simps(10,11) at held close, of None ?p]
    by (simp add: run demo_reacts) fastforce
qed

end
