(* ===== verification/Tube_Handshake.thy ===== *)
theory Tube_Handshake
  imports Tube_Loop_Props
begin

unbundle bit_operations_syntax

text \<open>
  Datagrams at a manager: opening a tube and being answered, datagrams that are dropped, and that
  every datagram is handled.
\<close>

section \<open>Adding a tube\<close>

lemma manager_add_ok:
  assumes ok: "manager_ok W m s" and tbl: "tm_tubes m = Some tbl"
    and t: "tube_at s t = Some x" "t < next_addr s"
    and new: "ls_htable_get tbl (0, tb_id x) = None" "unat (ls_htable_get_count tbl) < 2 ^ 28"
  shows "\<exists>m' s' cs tbl'. tube_manager_add (wi_prog W) m t s = Some (Inr (), m', s') \<and> manager_ok W m' s' \<and>
    manager_events m' = manager_events m \<and> tm_tubes m' = Some tbl' \<and>
    (\<forall>a k. ls_htable_get tbl' (a, k) = (if id_word (0, k) = id_word (0, tb_id x) then Some t else ls_htable_get tbl (a, k))) \<and>
    ls_htable_get_count tbl' = ls_htable_get_count tbl + 1 \<and>
    reacts W (the (e_add m)) (Ev_tube t) cs \<and> calls s' = calls s @ cs \<and> keeps_tubes s s' \<and>
    next_addr s \<le> next_addr s' \<and> malloc_func s' = malloc_func s"
proof -
  have tok: "table_ok tbl s" and mem: "\<And>n k. malloc_func s n k"
    using ok tbl by (auto simp: manager_ok_def ready_def)
  obtain tbl' s1 where p: "ls_htable_put tbl (t, tb_id x) (Some t) (Some clean_tube) s = (Inr (), tbl', s1)"
    "table_ok tbl' s1" "mem_grows s s1"
    "\<forall>a k. ls_htable_get tbl' (a, k) = (if id_word (0, k) = id_word (0, tb_id x) then Some t else ls_htable_get tbl (a, k))"
    "ls_htable_get_count tbl' = ls_htable_get_count tbl + 1"
    using table_put[OF tok new mem t(1) refl t(2)] by blast
  have ev: "events_stay s s1" by (rule events_stay_grows[OF p(3)])
  have k: "keeps_tubes s s1" using p(3) by (cases s; cases s1) (simp add: mem_grows_def keeps_tubes_def)
  let ?m = "m\<lparr>tm_tubes := Some tbl'\<rparr>"
  have ok1: "manager_ok W ?m s1" by (rule manager_ok_step[OF ok ev _ p(2)]) (simp_all add: manager_events_def)
  obtain d' s' cs where tr: "trigger (wi_prog W) (e_add ?m) (Ev_tube t) ?m s1 = Some (Inr (), ?m\<lparr>tm_dispatcher := Some d'\<rparr>, s')"
    "reacts W (the (e_add ?m)) (Ev_tube t) cs" "calls s' = calls s1 @ cs" "keeps_tubes s1 s'"
    "manager_ok W (?m\<lparr>tm_dispatcher := Some d'\<rparr>) s'" "next_addr s1 \<le> next_addr s'" "malloc_func s' = malloc_func s1"
    using trigger_ok[OF ok1, of "e_add ?m" "Ev_tube t"] by (auto simp: manager_events_def)
  have "tube_manager_add (wi_prog W) m t s = Some (Inr (), ?m\<lparr>tm_dispatcher := Some d'\<rparr>, s')"
    using p(1) tr(1) t(1) tbl by (simp add: tube_manager_add_def tube_get_id_def)
  moreover have "keeps_tubes s s'" using tubes_frame.R_trans[OF k tr(4)] .
  ultimately show ?thesis using p(4,5) tr ev
    by (intro exI[of _ "?m\<lparr>tm_dispatcher := Some d'\<rparr>"] exI[of _ s'] exI[of _ cs] exI[of _ tbl'])
      (simp add: manager_events_def events_stay_def)
qed

section \<open>Creating and sending\<close>

lemma create_ok:
  assumes "\<And>n k. malloc_func s n k"
  shows "\<exists>s1. tube_create s = (Inr (next_addr s), s1) \<and> events_stay s s1 \<and> next_addr s < next_addr s1 \<and>
    tube_at s1 = (tube_at s)(next_addr s \<mapsto> zero_tube\<lparr>tb_sock := -1, tb_state := TS_UNKNOWN\<rparr>) \<and>
    sent s1 = sent s \<and> sendmsg_fn s1 = sendmsg_fn s \<and> tubemem.more s1 = tubemem.more s"
proof -
  obtain s0 where c: "ls_data_calloc 1 sizeof_tube s = (Some (next_addr s), s0)" "mem_grows s s0" "next_addr s < next_addr s0"
    using calloc_grows[OF assms, where k = 1 and sz = sizeof_tube] by blast
  have "events_stay s s0" by (rule events_stay_grows[OF c(2)])
  moreover have "tube_at s0 = tube_at s" "sent s0 = sent s" "sendmsg_fn s0 = sendmsg_fn s" "tubemem.more s0 = tubemem.more s"
    using c(2) by (cases s; cases s0; simp add: mem_grows_def)+
  ultimately show ?thesis using c(1,3) by (simp add: tube_create_def)
qed

definition plain_header :: "spud_command \<Rightarrow> spud_tube_id \<Rightarrow> spud_header" where
  "plain_header cmd i = \<lparr>magic = SpudMagicCookie, tube_id = i, flags = sent_flags cmd False False\<rparr>"

lemma plain_header_read [simp]:
  "tube_id (plain_header cmd i) = i" "command_of (flags (plain_header cmd i)) = cmd"
  by (simp_all add: plain_header_def sent_flags_read)

lemma free_more [simp]: "tubemem.more (ls_data_free p s) = tubemem.more s"
  by (simp add: ls_data_free_def fault_def split: option.split)

lemma send_ok:
  assumes mem: "\<And>n k. malloc_func s n k" and t: "tube_at s t = Some x"
  shows "\<exists>dg s'. tube_send t cmd False False [] s =
      ((case sendmsg_fn s (length (sent s)) dg of (ret, errno) \<Rightarrow> if ret \<le> 0 then Inl (- errno) else Inr ()), s') \<and>
    dg_dest dg = tb_peer x \<and> dg_iov dg = [header_bytes (plain_header cmd (tb_id x))] \<and> sent s' = sent s @ [dg] \<and>
    events_stay s s' \<and> tube_at s' = tube_at s \<and> tubemem.more s' = tubemem.more s"
proof -
  obtain s1 where c: "ls_data_calloc 1 sizeof_iovec s = (Some (next_addr s), s1)" "mem_grows s s1"
    using calloc_grows[OF mem, where k = 1 and sz = sizeof_iovec] by blast
  have same: "tube_at s1 = tube_at s" "sent s1 = sent s" "sendmsg_fn s1 = sendmsg_fn s" "tubemem.more s1 = tubemem.more s"
    using c(2) by (cases s; cases s1; simp add: mem_grows_def)+
  have hd: "header_bytes (send_header cmd False False \<lparr>magic = SpudMagicCookie, tube_id = tb_id x, flags = 0\<rparr>) =
      header_bytes (plain_header cmd (tb_id x))"
    by (simp add: plain_header_def send_header_def sent_flags_def raw_header_def Let_def)
  let ?dg = "\<lparr>dg_sock = tb_sock x, dg_dest = tb_peer x, dg_namelen = ls_sockaddr_get_length (tb_peer x) mod 2 ^ 32,
      dg_control = map_option (\<lambda>p. ls_pktinfo_cmsg p 0) (Option.bind (tb_pktinfo x) (pktinfo_at s1)),
      dg_iov = [header_bytes (plain_header cmd (tb_id x))]\<rparr>"
  let ?s = "ls_data_free (Some (next_addr s)) (s1\<lparr>sent := sent s @ [?dg]\<rparr>)"
  have "spud_init no_urandom raw_header (Some (tb_id x)) s1 =
      (Inr \<lparr>magic = SpudMagicCookie, tube_id = tb_id x, flags = 0\<rparr>, s1)"
    by (simp add: spud_init_def spud_set_id_def raw_header_def)
  then have "tube_send t cmd False False [] s =
      ((case sendmsg_fn s (length (sent s)) ?dg of (ret, errno) \<Rightarrow> if ret \<le> 0 then Inl (- errno) else Inr ()), ?s)"
    using c(1) t same by (simp add: tube_send_def Let_def hd tube_manager_sendmsg_def split: prod.split)
  moreover have "events_stay s (s1\<lparr>sent := sent s @ [?dg]\<rparr>)" using events_stay_grows[OF c(2)] by simp
  then have "events_stay s ?s" by (rule events_stay_trans[OF _ events_stay_free])
  ultimately show ?thesis using same by (intro exI[of _ ?dg] exI[of _ ?s]) simp
qed

lemma parse_plain:
  assumes "length i = SPUD_TUBE_ID_SIZE"
  shows "spud_parse decode (Some (header_bytes (plain_header cmd i))) msg z =
    (Inr (), \<lparr>msg_header = Some (plain_header cmd i), msg_cbor = None\<rparr>, z)"
proof -
  have "spud_init no_urandom raw_header (Some i) () = (Inr \<lparr>magic = SpudMagicCookie, tube_id = i, flags = 0\<rparr>, ())"
    by (simp add: spud_init_def spud_set_id_def raw_header_def)
  from parse_of_init[OF assms this, of decode "sent_flags cmd False False" "[]" msg z] show ?thesis
    by (simp add: plain_header_def)
qed

definition inet :: "sockaddr \<Rightarrow> bool" where
  "inet a \<longleftrightarrow> (\<forall>f. a \<noteq> Sockaddr_other f)"

lemma copy_inet: "inet a \<Longrightarrow> ls_sockaddr_copy a = Some a" "inet a \<Longrightarrow> sa_family a = AF_INET \<or> sa_family a = AF_INET6"
  by (cases a; simp add: inet_def ls_sockaddr_copy_def sizeof_sockaddr_in_def sizeof_sockaddr_in6_def)+

lemma set_info_ok:
  assumes "tube_at s t = Some x" "inet peer"
  shows "\<exists>y s'. tube_set_info t sock (Some peer) (Some i) s = Some s' \<and> tube_at s' = (tube_at s)(t \<mapsto> y) \<and> tb_id y = i \<and>
    tb_data y = tb_data x \<and> tb_peer y = peer \<and> events_stay s s' \<and> sent s' = sent s \<and> sendmsg_fn s' = sendmsg_fn s \<and>
    tubemem.more s' = tubemem.more s"
  using assms(1) copy_inet(1)[OF assms(2)]
  by (intro exI[of _ "(if sock \<ge> 0 then x\<lparr>tb_sock := sock\<rparr> else x)\<lparr>tb_peer := peer, tb_id := i\<rparr>"])
    (simp add: tube_set_info_def Let_def upd_tube_def spud_copy_id_def events_stay_def)

lemma set_local_ok:
  assumes "tube_at s t = Some x" "\<And>n k. malloc_func s n k"
  shows "\<exists>p s'. tube_set_local t (Some info) s = (Inr (), s') \<and> tube_at s' = (tube_at s)(t \<mapsto> x\<lparr>tb_pktinfo := Some p\<rparr>) \<and>
    events_stay s s' \<and> sent s' = sent s \<and> sendmsg_fn s' = sendmsg_fn s"
proof -
  obtain s1 where c: "ls_data_calloc 1 sizeof_pktinfo s = (Some (next_addr s), s1)" "mem_grows s s1"
    using calloc_grows[OF assms(2), where k = 1 and sz = sizeof_pktinfo] by blast
  have "events_stay s s1" by (rule events_stay_grows[OF c(2)])
  moreover have "tube_at s1 = tube_at s" "sent s1 = sent s" "sendmsg_fn s1 = sendmsg_fn s"
    using c(2) by (cases s; cases s1; simp add: mem_grows_def)+
  ultimately show ?thesis using c(1) assms(1)
    by (intro exI[of _ "next_addr s"]) (simp add: tube_set_local_def ls_pktinfo_dup_def ls_pktinfo_create_def upd_tube_at)
qed

lemma manager_ok_new:
  assumes ok: "manager_ok W m s" and new: "tube_at s' = (tube_at s)(next_addr s \<mapsto> y)" and ev: "events_stay s s'"
  shows "manager_ok W m s'"
proof -
  obtain tbl where tbl: "tm_tubes m = Some tbl" "table_ok tbl s" using ok by (auto simp: manager_ok_def)
  have "next_addr s \<le> next_addr s'" using ev by (simp add: events_stay_def)
  then have "table_ok tbl s'" by (rule table_ok_step[OF tbl(2)]) (use new in auto)
  from manager_ok_step[OF ok ev tbl(1) this] show ?thesis by simp
qed

lemma manager_mem: "manager_ok W m s \<Longrightarrow> malloc_func s n k"
  by (simp add: manager_ok_def ready_def)

text \<open>A random source that delivers an identifier.\<close>

definition delivers :: "'s rand_source \<Rightarrow> spud_tube_id \<Rightarrow> bool" where
  "delivers urandom i \<longleftrightarrow> (\<forall>z. urandom SPUD_TUBE_ID_SIZE z = (Inr i, z)) \<and> length i = SPUD_TUBE_ID_SIZE"

lemma manager_ok_same:
  assumes "manager_ok W m s" "events_stay s s'" "tube_at s' = tube_at s"
  shows "manager_ok W m s'"
proof -
  obtain tbl where tbl: "tm_tubes m = Some tbl" "table_ok tbl s" using assms(1) by (auto simp: manager_ok_def)
  have "table_ok tbl s'" by (rule table_ok_step[OF tbl(2)]) (use assms in \<open>auto simp: events_stay_def\<close>)
  from manager_ok_step[OF assms(1,2) tbl(1) this] show ?thesis by simp
qed

text \<open>Opening, up to the adding of the tube and up to the sending of the request.\<close>

lemma open_to_add:
  assumes ok: "manager_ok W m s" and rand: "delivers urandom i" and dest: "inet dest"
  shows "\<exists>s' x. tube_manager_open_tube cbs urandom dest m s =
      (case tube_manager_add (cb_events cbs) m (next_addr s) s' of
         None \<Rightarrow> None
       | Some (Inl e, m1, s4) \<Rightarrow> Some (Inl (Some e), m1, tube_destroy (next_addr s) s4)
       | Some (Inr u, m1, s4) \<Rightarrow>
           (case tube_send (next_addr s) SPUD_OPEN False False [] s4 of
              (Inr u, s5) \<Rightarrow> Some (Inr (next_addr s), m1, s5)
            | (Inl e, s5) \<Rightarrow>
                (case tube_manager_remove (cb_events cbs) m1 (next_addr s) s5 of
                   None \<Rightarrow> None
                 | Some (m2, s6) \<Rightarrow> Some (Inl (Some e), m2, tube_destroy (next_addr s) s6)))) \<and>
    manager_ok W m s' \<and> tube_at s' = (tube_at s)(next_addr s \<mapsto> x) \<and> tb_state x = TS_OPENING \<and> tb_id x = i \<and>
    tb_peer x = dest \<and> tb_data x = 0 \<and> next_addr s < next_addr s' \<and> calls s' = calls s \<and> sent s' = sent s \<and>
    sendmsg_fn s' = sendmsg_fn s \<and> tubemem.more s' = tubemem.more s"
proof -
  let ?t = "next_addr s"
  obtain s1 where c: "tube_create s = (Inr ?t, s1)" "events_stay s s1" "?t < next_addr s1"
    "tube_at s1 = (tube_at s)(?t \<mapsto> zero_tube\<lparr>tb_sock := -1, tb_state := TS_UNKNOWN\<rparr>)"
    "sent s1 = sent s" "sendmsg_fn s1 = sendmsg_fn s" "tubemem.more s1 = tubemem.more s"
    using create_ok[OF manager_mem[OF ok]] by blast
  have id: "spud_create_id urandom s1 = (Inr i, s1)"
    using rand by (simp add: spud_create_id_def get_rand_buf_def delivers_def)
  define sock where "sock = (if sa_family dest = AF_INET then m_sock4 (mgr s1) else m_sock6 (mgr s1))"
  have "tube_at s1 ?t = Some (zero_tube\<lparr>tb_sock := -1, tb_state := TS_UNKNOWN\<rparr>)" using c(4) by simp
  then obtain y s2 where y: "tube_set_info ?t sock (Some dest) (Some i) s1 = Some s2" "tube_at s2 = (tube_at s1)(?t \<mapsto> y)"
    "tb_id y = i" "tb_data y = 0" "tb_peer y = dest" "events_stay s1 s2" "sent s2 = sent s" "sendmsg_fn s2 = sendmsg_fn s"
    "tubemem.more s2 = tubemem.more s"
    using set_info_ok[of s1 ?t _ dest sock i] dest c(5-7) by (auto simp: zero_tube_def)
  let ?x = "y\<lparr>tb_state := TS_OPENING\<rparr>" and ?s = "s2\<lparr>tube_at := (tube_at s)(?t \<mapsto> y\<lparr>tb_state := TS_OPENING\<rparr>)\<rparr>"
  have s3: "tube_set_state ?t TS_OPENING s2 = ?s"
    using y(2) c(4) by (simp add: tube_set_state_def upd_tube_def)
  have ev: "events_stay s ?s" using events_stay_trans[OF c(2) y(6)] by simp
  have ok1: "manager_ok W m ?s" by (rule manager_ok_new[OF ok, where y = ?x]) (use ev in simp_all)
  have at: "?t < next_addr ?s" using c(3) y(6) by (simp add: events_stay_def)
  have "\<not> (sa_family dest \<noteq> AF_INET \<and> sa_family dest \<noteq> AF_INET6)" using copy_inet(2)[OF dest] by blast
  then have "tube_manager_open_tube cbs urandom dest m s =
      (case tube_manager_add (cb_events cbs) m ?t ?s of
         None \<Rightarrow> None
       | Some (Inl e, m1, s4) \<Rightarrow> Some (Inl (Some e), m1, tube_destroy ?t s4)
       | Some (Inr u, m1, s4) \<Rightarrow>
           (case tube_send ?t SPUD_OPEN False False [] s4 of
              (Inr u, s5) \<Rightarrow> Some (Inr ?t, m1, s5)
            | (Inl e, s5) \<Rightarrow>
                (case tube_manager_remove (cb_events cbs) m1 ?t s5 of
                   None \<Rightarrow> None
                 | Some (m2, s6) \<Rightarrow> Some (Inl (Some e), m2, tube_destroy ?t s6))))"
    unfolding tube_manager_open_tube_def c(1) id prod.case sum.case sock_def[symmetric] Let_def y(1) option.case s3
    by (simp only: if_False)
  then show ?thesis using ok1 at y(3-5,7-9) ev
    by (intro exI[of _ ?s] exI[of _ ?x]) (simp add: events_stay_def)
qed

lemma open_to_send:
  assumes ok: "manager_ok W m s" and tbl: "tm_tubes m = Some tbl" and cbs: "cb_events cbs = wi_prog W"
    and rand: "delivers urandom i"
    and dest: "inet dest"
    and new: "ls_htable_get tbl (0, i) = None" "unat (ls_htable_get_count tbl) < 2 ^ 28"
  shows "\<exists>m' s' cs tbl' x ds. tube_manager_open_tube cbs urandom dest m s =
      (case tube_send (next_addr s) SPUD_OPEN False False [] s' of
         (Inr u, s5) \<Rightarrow> Some (Inr (next_addr s), m', s5)
       | (Inl e, s5) \<Rightarrow>
           (case tube_manager_remove (wi_prog W) m' (next_addr s) s5 of
              None \<Rightarrow> None
            | Some (m2, s6) \<Rightarrow> Some (Inl (Some e), m2, tube_destroy (next_addr s) s6))) \<and>
    manager_ok W m' s' \<and> tm_tubes m' = Some tbl' \<and> manager_events m' = manager_events m \<and>
    (\<forall>a k. ls_htable_get tbl' (a, k) = (if id_word (0, k) = id_word (0, i) then Some (next_addr s) else ls_htable_get tbl (a, k))) \<and>
    reacts W (the (e_add m)) (Ev_tube (next_addr s)) cs \<and> calls s' = calls s @ cs \<and>
    tube_at s' = (tube_at s)(next_addr s \<mapsto> x) \<and> tb_state x = TS_OPENING \<and> tb_id x = i \<and> tb_peer x = dest \<and>
    sendmsg_fn s' = sendmsg_fn s \<and> sent s' = sent s @ ds"
proof -
  let ?t = "next_addr s"
  obtain s1 x where o: "tube_manager_open_tube cbs urandom dest m s =
      (case tube_manager_add (cb_events cbs) m ?t s1 of
         None \<Rightarrow> None
       | Some (Inl e, m1, s4) \<Rightarrow> Some (Inl (Some e), m1, tube_destroy ?t s4)
       | Some (Inr u, m1, s4) \<Rightarrow>
           (case tube_send ?t SPUD_OPEN False False [] s4 of
              (Inr u, s5) \<Rightarrow> Some (Inr ?t, m1, s5)
            | (Inl e, s5) \<Rightarrow>
                (case tube_manager_remove (cb_events cbs) m1 ?t s5 of
                   None \<Rightarrow> None
                 | Some (m2, s6) \<Rightarrow> Some (Inl (Some e), m2, tube_destroy ?t s6))))"
    "manager_ok W m s1" "tube_at s1 = (tube_at s)(?t \<mapsto> x)" "tb_state x = TS_OPENING" "tb_id x = i" "tb_peer x = dest"
    "?t < next_addr s1" "calls s1 = calls s" "sent s1 = sent s" "sendmsg_fn s1 = sendmsg_fn s"
    using open_to_add[OF ok rand dest] by blast
  have at: "tube_at s1 ?t = Some x" using o(3) by simp
  obtain m' s' cs tbl' where a: "tube_manager_add (wi_prog W) m ?t s1 = Some (Inr (), m', s')" "manager_ok W m' s'"
    "manager_events m' = manager_events m" "tm_tubes m' = Some tbl'"
    "\<forall>a k. ls_htable_get tbl' (a, k) = (if id_word (0, k) = id_word (0, i) then Some ?t else ls_htable_get tbl (a, k))"
    "reacts W (the (e_add m)) (Ev_tube ?t) cs" "calls s' = calls s1 @ cs" "keeps_tubes s1 s'"
    using manager_add_ok[OF o(2) tbl at o(7)] new o(5) by auto
  obtain ds where "sent s' = sent s @ ds" using a(8) o(9) by (auto simp: keeps_tubes_def)
  moreover have "tube_at s' = (tube_at s)(?t \<mapsto> x)" "sendmsg_fn s' = sendmsg_fn s" "calls s' = calls s @ cs"
    using a(7,8) o(3,8,10) by (simp_all add: keeps_tubes_def)
  moreover note o(1)[unfolded cbs a(1) option.case prod.case sum.case]
  ultimately show ?thesis using a(2-6) o(4-6)
    by (intro exI[of _ m'] exI[of _ s'] exI[of _ cs] exI[of _ tbl'] exI[of _ x] exI[of _ ds]) simp
qed

text \<open>Accepting.\<close>

lemma accept_to_send:
  assumes ok: "manager_ok W m s" and tbl: "tm_tubes m = Some tbl" and cbs: "cb_events cbs = wi_prog W"
    and new: "ls_htable_get tbl (0, i) = None" "unat (ls_htable_get_count tbl) < 2 ^ 28" and peer: "inet peer"
  shows "\<exists>m' s' cs tbl' x ds. accept_tube cbs sock peer info i cbor m s =
      (case tube_send (next_addr s) SPUD_ACK False False [] s' of
         (Inl e, s4) \<Rightarrow> Some (Go_on, m', s4)
       | (Inr u, s4) \<Rightarrow> on_command cbs SPUD_OPEN (next_addr s) cbor peer m' s4) \<and>
    manager_ok W m' s' \<and> tm_tubes m' = Some tbl' \<and> manager_events m' = manager_events m \<and>
    (\<forall>a k. ls_htable_get tbl' (a, k) = (if id_word (0, k) = id_word (0, i) then Some (next_addr s) else ls_htable_get tbl (a, k))) \<and>
    ls_htable_get_count tbl' = ls_htable_get_count tbl + 1 \<and>
    reacts W (the (e_add m)) (Ev_tube (next_addr s)) cs \<and> calls s' = calls s @ cs \<and>
    tube_at s' = (tube_at s)(next_addr s \<mapsto> x) \<and> tb_state x = TS_RUNNING \<and> tb_id x = i \<and> tb_peer x = peer \<and>
    sendmsg_fn s' = sendmsg_fn s \<and> sent s' = sent s @ ds"
proof -
  let ?t = "next_addr s"
  obtain s1 where c: "tube_create s = (Inr ?t, s1)" "events_stay s s1" "?t < next_addr s1"
    "tube_at s1 = (tube_at s)(?t \<mapsto> zero_tube\<lparr>tb_sock := -1, tb_state := TS_UNKNOWN\<rparr>)"
    "sent s1 = sent s" "sendmsg_fn s1 = sendmsg_fn s"
    using create_ok[OF manager_mem[OF ok]] by blast
  have "tube_at s1 ?t = Some (zero_tube\<lparr>tb_sock := -1, tb_state := TS_UNKNOWN\<rparr>)" using c(4) by simp
  then obtain y s2 where y: "tube_set_info ?t sock (Some peer) (Some i) s1 = Some s2" "tube_at s2 = (tube_at s1)(?t \<mapsto> y)"
    "tb_id y = i" "tb_peer y = peer" "events_stay s1 s2" "sent s2 = sent s" "sendmsg_fn s2 = sendmsg_fn s"
    using set_info_ok[of s1 ?t _ peer sock i] peer c(5,6) by auto
  have ev2: "events_stay s s2" by (rule events_stay_trans[OF c(2) y(5)])
  have m2: "malloc_func s2 n k" for n k using ev2 manager_mem[OF ok] by (simp add: events_stay_def)
  obtain p s3 where l: "tube_set_local ?t (Some info) s2 = (Inr (), s3)" "tube_at s3 = (tube_at s)(?t \<mapsto> y\<lparr>tb_pktinfo := Some p\<rparr>)"
    "events_stay s2 s3" "sent s3 = sent s" "sendmsg_fn s3 = sendmsg_fn s"
    using set_local_ok[of s2 ?t y info, OF _ m2] c(4) y(2,6,7) by auto
  let ?y = "y\<lparr>tb_pktinfo := Some p\<rparr>"
  have ev3: "events_stay s s3" by (rule events_stay_trans[OF ev2 l(3)])
  have ok3: "manager_ok W m s3" by (rule manager_ok_new[OF ok l(2) ev3])
  have at: "tube_at s3 ?t = Some ?y" "?t < next_addr s3" using l(2,3) y(5) c(3) by (auto simp: events_stay_def)
  obtain m' s4 cs tbl' where a: "tube_manager_add (wi_prog W) m ?t s3 = Some (Inr (), m', s4)" "manager_ok W m' s4"
    "manager_events m' = manager_events m" "tm_tubes m' = Some tbl'"
    "\<forall>a k. ls_htable_get tbl' (a, k) = (if id_word (0, k) = id_word (0, i) then Some ?t else ls_htable_get tbl (a, k))"
    "reacts W (the (e_add m)) (Ev_tube ?t) cs" "calls s4 = calls s3 @ cs" "keeps_tubes s3 s4"
    "ls_htable_get_count tbl' = ls_htable_get_count tbl + 1"
    using manager_add_ok[OF ok3 tbl at] new y(3) by auto
  let ?x = "?y\<lparr>tb_state := TS_RUNNING\<rparr>" and ?s = "s4\<lparr>tube_at := (tube_at s)(?t \<mapsto> ?y\<lparr>tb_state := TS_RUNNING\<rparr>)\<rparr>"
  have at4: "tube_at s4 = (tube_at s)(?t \<mapsto> ?y)" "sendmsg_fn s4 = sendmsg_fn s" using a(8) l(2,5) by (simp_all add: keeps_tubes_def)
  obtain ds where ds: "sent s4 = sent s @ ds" using a(8) l(4) by (auto simp: keeps_tubes_def)
  have st: "tube_set_state ?t TS_RUNNING s4 = ?s" by (simp add: tube_set_state_def upd_tube_def at4)
  have ok4: "manager_ok W m' ?s" using manager_ok_tube[OF a(2), of ?t ?y ?x] at4 by simp
  have "calls s4 = calls s @ cs" using a(7) ev3 by (simp add: events_stay_def)
  moreover have "accept_tube cbs sock peer info i cbor m s =
      (case tube_send ?t SPUD_ACK False False [] ?s of
         (Inl e, s4) \<Rightarrow> Some (Go_on, m', s4)
       | (Inr u, s4) \<Rightarrow> on_command cbs SPUD_OPEN ?t cbor peer m' s4)"
    unfolding accept_tube_def c(1) cbs prod.case sum.case y(1) option.map(2) l(1) a(1) option.case st prod.case sum.case by (rule refl)
  ultimately show ?thesis using ok4 a(3-6,9) at4(2) ds y(3,4)
    by (intro exI[of _ m'] exI[of _ ?s] exI[of _ cs] exI[of _ tbl'] exI[of _ ?x] exI[of _ ds]) simp
qed

lemma open_command: "tube_at s t \<noteq> None \<Longrightarrow> on_command cbs SPUD_OPEN t cbor peer m s = Some (Go_on, m, s)"
  by (auto simp: on_command_def tube_get_state_def)

lemma accept_ok:
  assumes ok: "manager_ok W m s" and tbl: "tm_tubes m = Some tbl" and cbs: "cb_events cbs = wi_prog W"
    and new: "ls_htable_get tbl (0, i) = None" "unat (ls_htable_get_count tbl) < 2 ^ 28" and peer: "inet peer"
  shows "\<exists>m' s' cs tbl' x ds dg. accept_tube cbs sock peer info i cbor m s = Some (Go_on, m', s') \<and>
    manager_ok W m' s' \<and> tm_tubes m' = Some tbl' \<and> manager_events m' = manager_events m \<and>
    (\<forall>a k. ls_htable_get tbl' (a, k) = (if id_word (0, k) = id_word (0, i) then Some (next_addr s) else ls_htable_get tbl (a, k))) \<and>
    ls_htable_get_count tbl' = ls_htable_get_count tbl + 1 \<and>
    reacts W (the (e_add m)) (Ev_tube (next_addr s)) cs \<and> calls s' = calls s @ cs \<and>
    tube_at s' = (tube_at s)(next_addr s \<mapsto> x) \<and> tb_state x = TS_RUNNING \<and> tb_id x = i \<and> tb_peer x = peer \<and>
    sent s' = sent s @ ds @ [dg] \<and> dg_dest dg = tb_peer x \<and> dg_iov dg = [header_bytes (plain_header SPUD_ACK i)]"
proof -
  let ?t = "next_addr s"
  obtain m' s1 cs tbl' x ds where a: "accept_tube cbs sock peer info i cbor m s =
      (case tube_send ?t SPUD_ACK False False [] s1 of
         (Inl e, s4) \<Rightarrow> Some (Go_on, m', s4)
       | (Inr u, s4) \<Rightarrow> on_command cbs SPUD_OPEN ?t cbor peer m' s4)"
    "manager_ok W m' s1" "tm_tubes m' = Some tbl'" "manager_events m' = manager_events m"
    "\<forall>a k. ls_htable_get tbl' (a, k) = (if id_word (0, k) = id_word (0, i) then Some ?t else ls_htable_get tbl (a, k))"
    "ls_htable_get_count tbl' = ls_htable_get_count tbl + 1"
    "reacts W (the (e_add m)) (Ev_tube ?t) cs" "calls s1 = calls s @ cs"
    "tube_at s1 = (tube_at s)(?t \<mapsto> x)" "tb_state x = TS_RUNNING" "tb_id x = i" "tb_peer x = peer"
    "sent s1 = sent s @ ds"
    using accept_to_send[OF assms] by blast
  have at: "tube_at s1 ?t = Some x" using a(9) by simp
  obtain dg s' where snd: "tube_send ?t SPUD_ACK False False [] s1 =
      ((case sendmsg_fn s1 (length (sent s1)) dg of (ret, errno) \<Rightarrow> if ret \<le> 0 then Inl (- errno) else Inr ()), s')"
    "dg_dest dg = tb_peer x" "dg_iov dg = [header_bytes (plain_header SPUD_ACK (tb_id x))]" "sent s' = sent s1 @ [dg]"
    "events_stay s1 s'" "tube_at s' = tube_at s1"
    using send_ok[OF manager_mem[OF a(2)] at] by blast
  have "on_command cbs SPUD_OPEN ?t cbor peer m' s' = Some (Go_on, m', s')"
    using snd(6) at by (intro open_command) simp
  then have "accept_tube cbs sock peer info i cbor m s = Some (Go_on, m', s')"
    using a(1) snd(1) by (auto split: prod.splits)
  moreover have "manager_ok W m' s'" by (rule manager_ok_same[OF a(2) snd(5,6)])
  ultimately show ?thesis using a(3-13) snd(2-6)
    by (intro exI[of _ m'] exI[of _ s'] exI[of _ cs] exI[of _ tbl'] exI[of _ x] exI[of _ ds] exI[of _ dg])
      (simp add: events_stay_def)
qed

section \<open>Opening\<close>

text \<open>C19: When the request of a new tube cannot be sent, \<open>tube_manager_open_tube\<close> destroys the tube twice.
  The tube was added, so \<open>tube_manager_remove\<close> already takes it out of the table and destroys it,
  after the calls of the add event and of the remove event; the \<open>tube_destroy\<close> that follows works on
  freed memory.\<close>

theorem open_tube_destroys_twice:
  assumes "manager_ok W m s" "tm_tubes m = Some tbl" "cb_events cbs = wi_prog W"
    "delivers urandom i" "inet dest"
    "ls_htable_get tbl (0, i) = None" "unat (ls_htable_get_count tbl) < 2 ^ 28"
    "\<And>n dg. sendmsg_fn s n dg = (-1, errno)"
  shows "\<exists>m' s' cs ds. tube_manager_open_tube cbs urandom dest m s =
      Some (Inl (Some (- errno)), m', tube_destroy (next_addr s) s') \<and>
    tube_at s' (next_addr s) = None \<and> tube_destroy (next_addr s) s' = fault s' \<and> manager_ok W m' s' \<and>
    reacts W (the (e_add m)) (Ev_tube (next_addr s)) cs \<and> reacts W (the (e_remove m)) (Ev_tube (next_addr s)) ds \<and>
    calls s' = calls s @ cs @ ds \<and> ls_htable_get (the (tm_tubes m')) (0, i) = None"
proof -
  let ?t = "next_addr s"
  obtain m1 s1 cs tbl1 x where o: "tube_manager_open_tube cbs urandom dest m s =
      (case tube_send ?t SPUD_OPEN False False [] s1 of
         (Inr u, s5) \<Rightarrow> Some (Inr ?t, m1, s5)
       | (Inl e, s5) \<Rightarrow>
           (case tube_manager_remove (wi_prog W) m1 ?t s5 of
              None \<Rightarrow> None
            | Some (m2, s6) \<Rightarrow> Some (Inl (Some e), m2, tube_destroy ?t s6)))"
    "manager_ok W m1 s1" "tm_tubes m1 = Some tbl1" "manager_events m1 = manager_events m"
    "\<forall>a k. ls_htable_get tbl1 (a, k) = (if id_word (0, k) = id_word (0, i) then Some ?t else ls_htable_get tbl (a, k))"
    "reacts W (the (e_add m)) (Ev_tube ?t) cs" "calls s1 = calls s @ cs"
    "tube_at s1 = (tube_at s)(?t \<mapsto> x)" "tb_state x = TS_OPENING" "tb_id x = i" "sendmsg_fn s1 = sendmsg_fn s"
    using open_to_send[OF assms(1-7)] by blast
  have at: "tube_at s1 ?t = Some x" using o(8) by simp
  obtain dg s2 where snd: "tube_send ?t SPUD_OPEN False False [] s1 =
      ((case sendmsg_fn s1 (length (sent s1)) dg of (ret, errno) \<Rightarrow> if ret \<le> 0 then Inl (- errno) else Inr ()), s2)"
    "events_stay s1 s2" "tube_at s2 = tube_at s1"
    using send_ok[OF manager_mem[OF o(2)] at] by blast
  have ok2: "manager_ok W m1 s2" by (rule manager_ok_same[OF o(2) snd(2,3)])
  have e: "e_remove m1 = e_remove m" using o(4) by (simp add: manager_events_def)
  have held: "ls_htable_get tbl1 (?t, tb_id x) = Some ?t" using o(5,10) by simp
  obtain m' s' ds tbl' where r: "tube_manager_remove (wi_prog W) m1 ?t s2 = Some (m', s')" "manager_ok W m' s'"
    "tm_tubes m' = Some tbl'" "reacts W (the (e_remove m1)) (Ev_tube ?t) ds" "calls s' = calls s2 @ ds"
    "tube_at s' = (tube_at s2)(?t := None)"
    "\<forall>a k. ls_htable_get tbl' (a, k) = (if id_word (0, k) = id_word (0, tb_id x) then None else ls_htable_get tbl1 (a, k))"
    using manager_remove_ok[OF ok2 o(3) _ _ held] at o(9) snd(3) by auto
  have "tube_destroy ?t s' = fault s'" using r(6) by (simp add: tube_destroy_def)
  then show ?thesis using o(1,6,7,10) snd(1,2) r assms(8) o(11) e
    by (intro exI[of _ m'] exI[of _ s'] exI[of _ cs] exI[of _ ds]) (simp add: events_stay_def)
qed

section \<open>The handshake\<close>

lemma unparse_plain: "unparse lib \<lparr>msg_header = h, msg_cbor = None\<rparr> (Go_on, m, s) = (Go_on, m, s)"
  by (simp add: unparse_def spud_unparse_def)

lemma open_sends:
  assumes "manager_ok W m s" "tm_tubes m = Some tbl" "cb_events cbs = wi_prog W" "delivers urandom i" "inet dest"
    "ls_htable_get tbl (0, i) = None" "unat (ls_htable_get_count tbl) < 2 ^ 28" "\<And>n dg. 0 < fst (sendmsg_fn s n dg)"
  shows "\<exists>m' s' tbl' dg x cs. tube_manager_open_tube cbs urandom dest m s = Some (Inr (next_addr s), m', s') \<and>
    tube_at s' (next_addr s) = Some x \<and> tb_state x = TS_OPENING \<and> tb_id x = i \<and> tb_peer x = dest \<and>
    last (sent s') = dg \<and> dg_dest dg = dest \<and> dg_iov dg = [header_bytes (plain_header SPUD_OPEN i)] \<and>
    reacts W (the (e_add m)) (Ev_tube (next_addr s)) cs \<and> calls s' = calls s @ cs \<and> manager_ok W m' s' \<and>
    tm_tubes m' = Some tbl' \<and> ls_htable_get tbl' (0, i) = Some (next_addr s) \<and> e_running m' = e_running m"
proof -
  let ?t = "next_addr s"
  obtain m' s1 cs tbl' x where o: "tube_manager_open_tube cbs urandom dest m s =
      (case tube_send ?t SPUD_OPEN False False [] s1 of
         (Inr u, s5) \<Rightarrow> Some (Inr ?t, m', s5)
       | (Inl e, s5) \<Rightarrow>
           (case tube_manager_remove (wi_prog W) m' ?t s5 of
              None \<Rightarrow> None
            | Some (m2, s6) \<Rightarrow> Some (Inl (Some e), m2, tube_destroy ?t s6)))"
    "manager_ok W m' s1" "tm_tubes m' = Some tbl'" "manager_events m' = manager_events m"
    "\<forall>a k. ls_htable_get tbl' (a, k) = (if id_word (0, k) = id_word (0, i) then Some ?t else ls_htable_get tbl (a, k))"
    "reacts W (the (e_add m)) (Ev_tube ?t) cs" "calls s1 = calls s @ cs"
    "tube_at s1 = (tube_at s)(?t \<mapsto> x)" "tb_state x = TS_OPENING" "tb_id x = i" "tb_peer x = dest" "sendmsg_fn s1 = sendmsg_fn s"
    using open_to_send[OF assms(1-7)] by blast
  have at: "tube_at s1 ?t = Some x" using o(8) by simp
  obtain dg s' where snd: "tube_send ?t SPUD_OPEN False False [] s1 =
      ((case sendmsg_fn s1 (length (sent s1)) dg of (ret, errno) \<Rightarrow> if ret \<le> 0 then Inl (- errno) else Inr ()), s')"
    "dg_dest dg = tb_peer x" "dg_iov dg = [header_bytes (plain_header SPUD_OPEN (tb_id x))]" "sent s' = sent s1 @ [dg]"
    "events_stay s1 s'" "tube_at s' = tube_at s1"
    using send_ok[OF manager_mem[OF o(2)] at] by blast
  have "0 < fst (sendmsg_fn s1 (length (sent s1)) dg)" using assms(8) o(12) by simp
  then have "tube_manager_open_tube cbs urandom dest m s = Some (Inr ?t, m', s')"
    using o(1) snd(1) by (auto split: prod.splits)
  moreover have "manager_ok W m' s'" by (rule manager_ok_same[OF o(2) snd(5,6)])
  ultimately show ?thesis using o(3-7,9-11) snd(2-6) at
    by (intro exI[of _ m'] exI[of _ s'] exI[of _ tbl'] exI[of _ dg] exI[of _ x] exI[of _ cs])
      (simp add: events_stay_def manager_events_def)
qed

lemma open_answered:
  assumes "manager_ok W m s" "tm_tubes m = Some tbl" "cb_events cbs = wi_prog W" "inet peer"
    "ls_htable_get tbl (0, i) = None" "unat (ls_htable_get_count tbl) < 2 ^ 28"
    "tube_manager_is_responder s" "length i = SPUD_TUBE_ID_SIZE"
  shows "\<exists>m' s' dg x cs. handle_message err lib cbs sock peer info (header_bytes (plain_header SPUD_OPEN i)) m s = Some (Go_on, m', s') \<and>
    tube_at s' = (tube_at s)(next_addr s \<mapsto> x) \<and> tb_state x = TS_RUNNING \<and> tb_id x = i \<and> tb_peer x = peer \<and>
    ls_htable_get (the (tm_tubes m')) (0, i) = Some (next_addr s) \<and>
    last (sent s') = dg \<and> dg_dest dg = peer \<and> dg_iov dg = [header_bytes (plain_header SPUD_ACK i)] \<and>
    reacts W (the (e_add m)) (Ev_tube (next_addr s)) cs \<and> calls s' = calls s @ cs \<and> manager_ok W m' s'"
proof -
  obtain m' s' cs tbl' x ds dg where acc: "accept_tube cbs sock peer info i None m s = Some (Go_on, m', s')"
    "manager_ok W m' s'" "tm_tubes m' = Some tbl'"
    "\<forall>a k. ls_htable_get tbl' (a, k) = (if id_word (0, k) = id_word (0, i) then Some (next_addr s) else ls_htable_get tbl (a, k))"
    "reacts W (the (e_add m)) (Ev_tube (next_addr s)) cs" "calls s' = calls s @ cs"
    "tube_at s' = (tube_at s)(next_addr s \<mapsto> x)" "tb_state x = TS_RUNNING" "tb_id x = i" "tb_peer x = peer"
    "sent s' = sent s @ ds @ [dg]" "dg_dest dg = peer" "dg_iov dg = [header_bytes (plain_header SPUD_ACK i)]"
    using accept_ok[OF assms(1-3,5,6,4), of sock info None] by auto
  have "handle_message err lib cbs sock peer info (header_bytes (plain_header SPUD_OPEN i)) m s = Some (Go_on, m', s')"
    using acc(1) assms(2,5,7)
    by (simp add: handle_message_def parse_plain[OF assms(8)] spud_copy_id_def Let_def unparse_plain)
  then show ?thesis using acc(2-13)
    by (intro exI[of _ m'] exI[of _ s'] exI[of _ dg] exI[of _ x] exI[of _ cs]) simp
qed

lemma ack_runs:
  assumes "manager_ok W m s" "tm_tubes m = Some tbl" "cb_events cbs = wi_prog W" "tube_at s t = Some x" "tb_state x = TS_OPENING"
    "ls_htable_get tbl (0, i) = Some t" "length i = SPUD_TUBE_ID_SIZE"
  shows "\<exists>m' s' cs. handle_message err lib cbs sock peer info (header_bytes (plain_header SPUD_ACK i)) m s = Some (Go_on, m', s') \<and>
    tube_at s' = (tube_at s)(t \<mapsto> x\<lparr>tb_state := TS_RUNNING\<rparr>) \<and> tm_tubes m' = tm_tubes m \<and>
    reacts W (the (e_running m)) (Ev_msg t None peer) cs \<and> calls s' = calls s @ cs \<and> manager_ok W m' s'"
proof -
  from keep_step[OF assms(1,4) refl refl, of Running_event "Ev_msg t None peer" TS_RUNNING]
  obtain m' s' cs where run: "trigger (wi_prog W) (e_running m) (Ev_msg t None peer) m
      (s\<lparr>tube_at := (tube_at s)(t \<mapsto> x\<lparr>tb_state := TS_RUNNING\<rparr>)\<rparr>) = Some (Inr (), m', s')" "manager_ok W m' s'"
    "tm_tubes m' = tm_tubes m" "reacts W (the (e_running m)) (Ev_msg t None peer) cs"
    "calls s' = calls s @ cs" "tube_at s' = (tube_at s)(t \<mapsto> x\<lparr>tb_state := TS_RUNNING\<rparr>)"
    by auto
  have "on_command cbs SPUD_ACK t None peer m s = Some (Go_on, m', s')"
    using run(1) assms(3-5)
    by (simp add: on_command_def tube_get_state_def tube_set_state_def upd_tube_at outcome_of_def)
  then have "handle_message err lib cbs sock peer info (header_bytes (plain_header SPUD_ACK i)) m s = Some (Go_on, m', s')"
    using assms(2,6)
    by (simp add: handle_message_def parse_plain[OF assms(7)] spud_copy_id_def Let_def unparse_plain)
  then show ?thesis using run(2-6) by blast
qed

text \<open>C1: Two managers shake hands.  One opens a tube to the other, which answers: the datagram that
  \<open>tube_manager_open_tube\<close> gives to its socket makes the responder add a running tube of the same
  identifier for the sender and send an acknowledgement back, and that datagram makes the opening
  tube run.  The add events of both and the running event of the first make their calls; both
  managers stay well-formed and find their tube under the identifier.\<close>

theorem spud_handshake:
  assumes "manager_ok A ma sa" "tm_tubes ma = Some ta" "cb_events ca = wi_prog A"
    "ls_htable_get ta (0, i) = None" "unat (ls_htable_get_count ta) < 2 ^ 28" "\<And>n dg. 0 < fst (sendmsg_fn sa n dg)"
    "manager_ok B mb sb" "tm_tubes mb = Some tb" "cb_events cb = wi_prog B" "tube_manager_is_responder sb"
    "ls_htable_get tb (0, i) = None" "unat (ls_htable_get_count tb) < 2 ^ 28"
    "delivers urandom i" "inet addr_a" "inet addr_b"
  shows "\<exists>ma1 sa1 dga mb1 sb1 dgb ma2 sa2 x y z as bs rs.
    tube_manager_open_tube ca urandom addr_b ma sa = Some (Inr (next_addr sa), ma1, sa1) \<and>
    tube_at sa1 (next_addr sa) = Some x \<and> tb_state x = TS_OPENING \<and> tb_id x = i \<and>
    last (sent sa1) = dga \<and> dg_dest dga = addr_b \<and>
    reacts A (the (e_add ma)) (Ev_tube (next_addr sa)) as \<and> calls sa1 = calls sa @ as \<and>
    handle_message err_b lib_b cb sock_b addr_a info_b (concat (dg_iov dga)) mb sb = Some (Go_on, mb1, sb1) \<and>
    tube_at sb1 = (tube_at sb)(next_addr sb \<mapsto> y) \<and> tb_state y = TS_RUNNING \<and> tb_id y = i \<and> tb_peer y = addr_a \<and>
    ls_htable_get (the (tm_tubes mb1)) (0, i) = Some (next_addr sb) \<and> last (sent sb1) = dgb \<and> dg_dest dgb = addr_a \<and>
    reacts B (the (e_add mb)) (Ev_tube (next_addr sb)) bs \<and> calls sb1 = calls sb @ bs \<and> manager_ok B mb1 sb1 \<and>
    handle_message err_a lib_a ca sock_a addr_b info_a (concat (dg_iov dgb)) ma1 sa1 = Some (Go_on, ma2, sa2) \<and>
    tube_at sa2 (next_addr sa) = Some z \<and> tb_state z = TS_RUNNING \<and> tb_id z = i \<and> tb_peer z = addr_b \<and>
    ls_htable_get (the (tm_tubes ma2)) (0, i) = Some (next_addr sa) \<and>
    reacts A (the (e_running ma)) (Ev_msg (next_addr sa) None addr_b) rs \<and> calls sa2 = calls sa @ as @ rs \<and>
    manager_ok A ma2 sa2"
proof -
  have len: "length i = SPUD_TUBE_ID_SIZE" using assms(13) by (simp add: delivers_def)
  obtain ma1 sa1 ta1 dga x as where o: "tube_manager_open_tube ca urandom addr_b ma sa = Some (Inr (next_addr sa), ma1, sa1)"
    "tube_at sa1 (next_addr sa) = Some x" "tb_state x = TS_OPENING" "tb_id x = i" "tb_peer x = addr_b"
    "last (sent sa1) = dga" "dg_dest dga = addr_b" "dg_iov dga = [header_bytes (plain_header SPUD_OPEN i)]"
    "reacts A (the (e_add ma)) (Ev_tube (next_addr sa)) as" "calls sa1 = calls sa @ as" "manager_ok A ma1 sa1"
    "tm_tubes ma1 = Some ta1" "ls_htable_get ta1 (0, i) = Some (next_addr sa)" "e_running ma1 = e_running ma"
    using open_sends[OF assms(1-3,13,15,4-6)] by blast
  obtain mb1 sb1 dgb y bs where b: "handle_message err_b lib_b cb sock_b addr_a info_b (concat (dg_iov dga)) mb sb = Some (Go_on, mb1, sb1)"
    "tube_at sb1 = (tube_at sb)(next_addr sb \<mapsto> y)" "tb_state y = TS_RUNNING" "tb_id y = i" "tb_peer y = addr_a"
    "ls_htable_get (the (tm_tubes mb1)) (0, i) = Some (next_addr sb)"
    "last (sent sb1) = dgb" "dg_dest dgb = addr_a" "dg_iov dgb = [header_bytes (plain_header SPUD_ACK i)]"
    "reacts B (the (e_add mb)) (Ev_tube (next_addr sb)) bs" "calls sb1 = calls sb @ bs" "manager_ok B mb1 sb1"
    using open_answered[OF assms(7-9,14,11,12,10) len, of err_b lib_b sock_b info_b] o(8) by auto
  let ?z = "x\<lparr>tb_state := TS_RUNNING\<rparr>"
  obtain ma2 sa2 rs where r: "handle_message err_a lib_a ca sock_a addr_b info_a (concat (dg_iov dgb)) ma1 sa1 = Some (Go_on, ma2, sa2)"
    "tube_at sa2 = (tube_at sa1)(next_addr sa \<mapsto> ?z)" "tm_tubes ma2 = tm_tubes ma1"
    "reacts A (the (e_running ma)) (Ev_msg (next_addr sa) None addr_b) rs" "calls sa2 = calls sa1 @ rs" "manager_ok A ma2 sa2"
    using ack_runs[OF o(11,12) assms(3) o(2,3,13) len, of err_a lib_a sock_a addr_b info_a] b(9) o(14) by auto
  have z: "tube_at sa2 (next_addr sa) = Some ?z" "tb_state ?z = TS_RUNNING" "tb_id ?z = i" "tb_peer ?z = addr_b"
    "ls_htable_get (the (tm_tubes ma2)) (0, i) = Some (next_addr sa)" "calls sa2 = calls sa @ as @ rs"
    using r(2,3,5) o by simp_all
  show ?thesis
    by (intro exI[of _ ma1] exI[of _ sa1] exI[of _ dga] exI[of _ mb1] exI[of _ sb1] exI[of _ dgb] exI[of _ ma2] exI[of _ sa2]
        exI[of _ x] exI[of _ y] exI[of _ ?z] exI[of _ as] exI[of _ bs] exI[of _ rs] conjI) (rule o b r z)+
qed

section \<open>Dropping\<close>

definition harmless :: "('c, 'z) tms \<Rightarrow> ('c, 'z) tms \<Rightarrow> bool" where
  "harmless s s' \<longleftrightarrow> events_stay s s' \<and> tube_at s' = tube_at s \<and> sent s' = sent s \<and> mgr s' = mgr s"

lemma harmless_refl [simp]: "harmless s s"
  by (simp add: harmless_def)

lemma harmless_log [simp]: "harmless z (ls_log l t s) = harmless z s" "harmless z (LS_LOG_ERR e w s) = harmless z s"
  by (simp_all add: harmless_def LS_LOG_ERR_def ls_log_def events_stay_def split: option.split)

lemma harmless_trans: "harmless a b \<Longrightarrow> harmless b c \<Longrightarrow> harmless a c"
  using events_stay_trans by (auto simp: harmless_def)

text \<open>The CBOR library leaves the objects of the program alone.\<close>

definition cbor_harmless :: "('c, ('c, 'z) tms) cbor_lib \<Rightarrow> bool" where
  "cbor_harmless lib \<longleftrightarrow> (\<forall>bs z. harmless z (snd (cn_cbor_decode lib bs z))) \<and> (\<forall>c z. harmless z (cn_cbor_free lib c z))"

text \<open>The datagrams that \<open>spud_parse\<close> takes.\<close>

definition parses :: "('c, ('c, 'z) tms) cbor_lib \<Rightarrow> u8 list \<Rightarrow> ('c, 'z) tms \<Rightarrow> bool" where
  "parses lib buf s \<longleftrightarrow> 13 \<le> length buf \<and> take 4 buf = [0xd8, 0, 0, 0xd8] \<and>
     (13 < length buf \<longrightarrow> (\<exists>c. fst (cn_cbor_decode lib (drop 13 buf) s) = Inr c))"

lemma spud_parse_parses:
  assumes p: "spud_parse (cn_cbor_decode lib) (Some buf) \<lparr>msg_header = None, msg_cbor = None\<rparr> s = (r, msg, z)"
  shows "parses lib buf s \<longleftrightarrow> r = Inr ()" "r = Inr () \<Longrightarrow> msg_header msg = Some (header_at buf)"
proof -
  have cases: "(\<exists>e. r = Inl e) \<and> \<not> parses lib buf s \<or> r = Inr () \<and> parses lib buf s \<and> msg_header msg = Some (header_at buf)"
    using p by (auto simp: parses_def spud_parse_def spud_is_spud_def Let_def sizes SpudMagicCookie_def
        split: if_splits prod.splits sum.splits)
  then show "parses lib buf s \<longleftrightarrow> r = Inr ()" "r = Inr () \<Longrightarrow> msg_header msg = Some (header_at buf)" by auto
qed

lemma spud_parse_harmless:
  assumes "cbor_harmless lib"
    and p: "spud_parse (cn_cbor_decode lib) (Some buf) \<lparr>msg_header = None, msg_cbor = None\<rparr> s = (r, msg, z)"
  shows "harmless s z"
proof -
  have "harmless s z'" if "cn_cbor_decode lib (drop 13 buf) s = (r', z')" for r' z'
    using assms(1) that unfolding cbor_harmless_def by (metis snd_conv)
  then show ?thesis using p by (auto simp: spud_parse_def Let_def sizes split: if_splits prod.splits sum.splits)
qed

text \<open>Without a pointer for the error, what does not parse ends the program.\<close>

lemma handle_message_null:
  assumes "\<not> parses lib buf s"
  shows "handle_message False lib cbs sock peer info buf m s = None"
proof -
  obtain r msg z where p: "spud_parse (cn_cbor_decode lib) (Some buf) \<lparr>msg_header = None, msg_cbor = None\<rparr> s = (r, msg, z)"
    by (rule prod_cases3)
  then obtain e where "r = Inl e" using spud_parse_parses(1)[OF p] assms by (cases r) auto
  then show ?thesis using p by (simp add: handle_message_def)
qed

text \<open>C15: What is not meant for the manager is dropped: a datagram that is not SPUD, one whose body does not
  decode, and one with an unknown identifier, unless it is an \<open>OPEN\<close> and the manager is a responder.
  When the caller of the loop gave a pointer for the error, the
  loop goes on, the manager is as it was, no tube changes, no callback is called and nothing is
  sent.  When it gave none, which the header allows, this holds of the datagrams that parse; the others are logged through the null
  pointer, and the program crashes.\<close>

theorem handle_message_drops:
  assumes "cbor_harmless lib" "tm_tubes m = Some tbl"
    "\<not> parses lib buf s \<or>
     (ls_htable_get tbl (0, take 8 (drop 4 buf)) = None \<and>
        (\<not> tube_manager_is_responder s \<or> command_of (buf ! 12) \<noteq> SPUD_OPEN))"
  shows "if err \<or> parses lib buf s
    then \<exists>s'. handle_message err lib cbs sock peer info buf m s = Some (Go_on, m, s') \<and> harmless s s'
    else handle_message err lib cbs sock peer info buf m s = None"
proof -
  have resp: "tube_manager_is_responder z' = tube_manager_is_responder z" if "harmless z z'" for z z' :: "('a, 'z) tms"
    using that by (simp add: harmless_def tube_manager_is_responder_def)
  have unp: "\<exists>s'. unparse lib msg (Go_on, m, z) = (Go_on, m, s') \<and> harmless s s'" if "harmless s z" for msg z
  proof -
    have "harmless s (cn_cbor_free lib c z)" for c
      using that assms(1) harmless_trans unfolding cbor_harmless_def by blast
    then show ?thesis using that by (simp add: unparse_def spud_unparse_def split: option.split)
  qed
  obtain r msg z where p: "spud_parse (cn_cbor_decode lib) (Some buf) \<lparr>msg_header = None, msg_cbor = None\<rparr> s = (r, msg, z)"
    by (rule prod_cases3)
  note z = spud_parse_harmless[OF assms(1) p] and pp = spud_parse_parses[OF p]
  show ?thesis
  proof (cases r)
    case (Inl e)
    then have bad: "\<not> parses lib buf s" using pp(1) by simp
    show ?thesis
    proof (cases err)
      case True
      then show ?thesis using p Inl unp[of "LS_LOG_ERR e ''spud_parse'' z" msg] z by (simp add: handle_message_def)
    next
      case False
      then show ?thesis using bad handle_message_null[OF bad] by simp
    qed
  next
    case (Inr u)
    then have good: "parses lib buf s" and h: "msg_header msg = Some (header_at buf)" using pp by simp_all
    have "ls_htable_get tbl (0, tube_id (header_at buf)) = None"
      "\<not> tube_manager_is_responder z \<or> command_of (flags (header_at buf)) \<noteq> SPUD_OPEN"
      using assms(3) good resp[OF z] by (auto simp: header_at_def sizes)
    then show ?thesis
      using p Inr h good assms(2) z unp by (simp add: handle_message_def spud_copy_id_def Let_def)
  qed
qed

section \<open>Every datagram\<close>

lemma manager_ok_harmless: "manager_ok W m s \<Longrightarrow> harmless s s' \<Longrightarrow> manager_ok W m s'"
  unfolding harmless_def by (elim conjE) (rule manager_ok_same)

lemma found_tube:
  assumes "manager_ok W m s" "tm_tubes m = Some tbl" "ls_htable_get tbl (0, i) = Some t"
  shows "\<exists>x. tube_at s t = Some x \<and> ls_htable_get tbl (t, tb_id x) = Some t"
proof -
  have ok: "table_ok tbl s" using assms(1,2) by (simp add: manager_ok_def)
  obtain n where n: "n \<in># contents tbl" "hn_value n = Some t" using assms(3) table_get(1)[OF ok] by blast
  then have "node_ok s n" using ok by (simp add: table_ok_def)
  then obtain x where "tube_at s t = Some x" "hn_key n = (t, tb_id x)" using n(2) by (auto simp: node_ok_def)
  then show ?thesis using n table_get(1)[OF ok] same_id by fastforce
qed

lemma unparse_harmless:
  assumes "cbor_harmless lib" "manager_ok W m s"
  shows "\<exists>s'. unparse lib msg (Go_on, m, s) = (Go_on, m, s') \<and> manager_ok W m s'"
proof -
  have "harmless s (snd (spud_unparse (cn_cbor_free lib) msg s))"
    using assms(1) by (simp add: spud_unparse_def cbor_harmless_def split: option.split)
  then show ?thesis using manager_ok_harmless[OF assms(2)] by (simp add: unparse_def)
qed

lemma message_handled:
  assumes "manager_ok W m s" "tm_tubes m = Some tbl" "cb_events cbs = wi_prog W"
    "unat (ls_htable_get_count tbl) < 2 ^ 28" "cbor_harmless lib" "inet peer" "err \<or> parses lib buf s"
  shows "\<exists>m' s' tbl'. handle_message err lib cbs sock peer info buf m s = Some (Go_on, m', s') \<and> manager_ok W m' s' \<and>
    tm_tubes m' = Some tbl' \<and> unat (ls_htable_get_count tbl') \<le> unat (ls_htable_get_count tbl) + 1"
proof -
  obtain r msg z where p: "spud_parse (cn_cbor_decode lib) (Some buf) \<lparr>msg_header = None, msg_cbor = None\<rparr> s = (r, msg, z)"
    by (rule prod_cases3)
  note pp = spud_parse_parses[OF p]
  have ok: "manager_ok W m z" by (rule manager_ok_harmless[OF assms(1) spud_parse_harmless[OF assms(5) p]])
  have log: "manager_ok W m (ls_log l t z)" "manager_ok W m (LS_LOG_ERR e w z)" for l t e w
    by (rule manager_ok_harmless[OF ok], simp)+
  have finish: ?thesis
    if h: "handle_message err lib cbs sock peer info buf m s = map_option (unparse lib msg) (Some (Go_on, m', z'))"
      "manager_ok W m' z'" "unat (ls_htable_get_count (the (tm_tubes m'))) \<le> unat (ls_htable_get_count tbl) + 1" for m' z'
  proof -
    obtain tbl' where "tm_tubes m' = Some tbl'" using h(2) by (auto simp: manager_ok_def)
    then show ?thesis using h unparse_harmless[OF assms(5) h(2), of msg] by auto
  qed
  show ?thesis
  proof (cases r)
    case (Inl e)
    then have "err" using assms(7) pp(1) by simp
    then show ?thesis by (intro finish[OF _ log(2)]) (use p Inl assms(2) in \<open>simp_all add: handle_message_def\<close>)
  next
    case (Inr u)
    obtain h where h: "msg_header msg = Some h" using pp(2) Inr by simp
    let ?cmd = "command_of (flags h)"
    show ?thesis
    proof (cases "ls_htable_get tbl (0, tube_id h)")
      case (Some t)
      obtain x where x: "tube_at z t = Some x" "ls_htable_get tbl (t, tb_id x) = Some t"
        using found_tube[OF ok assms(2) Some] by blast
      obtain ev st where step: "tube_step (tb_state x) ?cmd ev st" using tube_step_total[of "tb_state x" ?cmd] by auto
      obtain m' z' where c: "on_command cbs ?cmd t (msg_cbor msg) peer m z = Some (Go_on, m', z')" "manager_ok W m' z'"
        "unat (ls_htable_get_count (the (tm_tubes m'))) \<le> unat (ls_htable_get_count tbl)"
        using command_ok[OF ok assms(2,3) x step] by blast
      show ?thesis
        by (rule finish[OF _ c(2)]) (use p Inr h assms(2) Some c in \<open>simp_all add: handle_message_def spud_copy_id_def Let_def\<close>)
    next
      case None
      show ?thesis
      proof (cases "tube_manager_is_responder z \<and> ?cmd = SPUD_OPEN")
        case True
        obtain m' z' tbl' where a: "accept_tube cbs sock peer info (tube_id h) (msg_cbor msg) m z = Some (Go_on, m', z')"
          "manager_ok W m' z'" "tm_tubes m' = Some tbl'" "ls_htable_get_count tbl' = ls_htable_get_count tbl + 1"
          using accept_ok[OF ok assms(2,3) None assms(4,6)] by blast
        have "unat (ls_htable_get_count tbl + 1) = unat (ls_htable_get_count tbl) + 1"
          using assms(4) by (subst unat_add_lem[THEN iffD1]) simp_all
        then show ?thesis
          by (intro finish[OF _ a(2)])
            (use p Inr h assms(2) None True a in \<open>simp_all add: handle_message_def spud_copy_id_def Let_def\<close>)
      next
        case False
        show ?thesis
          by (rule finish[OF _ log(1)])
            (use p Inr h assms(2) None False in \<open>auto simp: handle_message_def spud_copy_id_def Let_def\<close>)
      qed
    qed
  qed
qed

text \<open>C7: While memory is available, every datagram from an IPv4 or IPv6 address is handled, whatever its bytes
  are: \<open>handle_message\<close> returns, the loop goes on, and the manager is well-formed afterwards, with at
  most one tube more.  The caller of the loop has to have given a pointer for the error, or else the first datagram
  that does not parse crashes the program.  (The property does not speak of memory faults.)\<close>

theorem handle_message_total:
  assumes "manager_ok W m s" "tm_tubes m = Some tbl" "cb_events cbs = wi_prog W"
    "unat (ls_htable_get_count tbl) < 2 ^ 28" "cbor_harmless lib" "inet peer"
  shows "if err \<or> parses lib buf s
    then \<exists>m' s' tbl'. handle_message err lib cbs sock peer info buf m s = Some (Go_on, m', s') \<and> manager_ok W m' s' \<and>
      tm_tubes m' = Some tbl' \<and> unat (ls_htable_get_count tbl') \<le> unat (ls_htable_get_count tbl) + 1
    else handle_message err lib cbs sock peer info buf m s = None"
proof (cases "err \<or> parses lib buf s")
  case False
  then show ?thesis using handle_message_null[of lib buf s] by simp
next
  case ok: True
  show ?thesis unfolding if_P[OF ok] by (rule message_handled[OF assms ok])
qed

section \<open>Examples\<close>

text \<open>A library whose decoder rejects everything.\<close>

definition demo_lib :: "(nat, 's) cbor_lib" where
  "demo_lib = \<lparr>cn_cbor_map_create = (\<lambda>al p s. (None, p, s)), cn_cbor_data_create = (\<lambda>d al p s. (None, p, s)),
       cn_cbor_string_create = (\<lambda>d al p s. (None, p, s)), cn_cbor_mapput_int = (\<lambda>m k v al p s. (None, p, s)),
       cn_cbor_mapput_string = (\<lambda>m k v al p s. (None, p, s)), cn_cbor_encoder_write = (\<lambda>n c. None),
       cn_cbor_decode = (\<lambda>bs s. (Inl 3, s)), cn_cbor_free = (\<lambda>c s. s)\<rparr>"

definition demo_info :: ls_pktinfo where
  "demo_info = \<lparr>pi_info = Zeroed, pi_kind = 0\<rparr>"

lemma demo_harmless: "cbor_harmless demo_lib"
  by (simp add: cbor_harmless_def demo_lib_def)

lemma open_tube_destroys_twice_witness:
  "\<exists>m' s'. tube_manager_open_tube demo_callbacks (\<lambda>n z. (Inr demo_id, z)) (Sockaddr_in 1234 1) (demo_manager []) (demo TS_UNKNOWN (-1)) =
     Some (Inl (Some (-11)), m', fault s')"
proof -
  have "delivers (\<lambda>n z. (Inr demo_id, z)) demo_id" by (simp add: delivers_def demo_id_def sizes)
  moreover have "inet (Sockaddr_in 1234 1)" by (simp add: inet_def)
  moreover have "manager_ok demo_wiring (demo_manager []) (demo TS_UNKNOWN (-1))" by (rule demo_ok) simp
  ultimately show ?thesis
    using open_tube_destroys_twice[OF _ demo_simps(10,11), where s = "demo TS_UNKNOWN (-1)" and errno = 11
        and i = demo_id] demo_table_ok(3,4)
    by fastforce
qed

lemma spud_handshake_witness:
  "\<exists>ma1 sa1 mb1 sb1 ma2 sa2.
     tube_manager_open_tube demo_callbacks (\<lambda>n z. (Inr demo_id, z)) (Sockaddr_in 2 2) (demo_manager []) (demo TS_UNKNOWN 1) =
       Some (Inr 30, ma1, sa1) \<and>
     handle_message True demo_lib demo_callbacks 3 (Sockaddr_in 1 1) demo_info (concat (dg_iov (last (sent sa1)))) (demo_manager []) (demo TS_UNKNOWN 1) =
       Some (Go_on, mb1, sb1) \<and>
     handle_message True demo_lib demo_callbacks 3 (Sockaddr_in 2 2) demo_info (concat (dg_iov (last (sent sb1)))) ma1 sa1 =
       Some (Go_on, ma2, sa2) \<and>
     calls sa2 = [(1, 6, wi_evt demo_wiring 11 (Ev_msg 30 None (Sockaddr_in 2 2)))]"
proof -
  let ?m = "demo_manager []" and ?s = "demo TS_UNKNOWN 1"
  have ok: "manager_ok demo_wiring ?m ?s" by (rule demo_ok) simp
  have rand: "delivers (\<lambda>n z. (Inr demo_id, z)) demo_id" by (simp add: delivers_def demo_id_def sizes)
  have addr: "inet (Sockaddr_in 1 1)" "inet (Sockaddr_in 2 2)" by (simp_all add: inet_def)
  have resp: "tube_manager_is_responder ?s"
    by (simp add: tube_manager_is_responder_def demo_vars_def TP_WILL_RESPOND_def)
  have sends: "0 < fst (sendmsg_fn ?s n dg)" for n dg by simp
  have ev: "e_running ?m = Some 11" "e_add ?m = Some 14" by (simp_all add: demo_manager_def)
  show ?thesis
    using spud_handshake[OF ok demo_simps(10,11) demo_table_ok(3,4) sends ok demo_simps(10,11) resp demo_table_ok(3,4) rand addr,
        where err_a = True and err_b = True and sock_b = 3 and info_b = demo_info and lib_b = demo_lib and lib_a = demo_lib and sock_a = 3 and info_a = demo_info]
    by (auto simp: ev demo_reacts)
qed

lemma handle_message_drops_witness:
  "(\<exists>s'. handle_message True demo_lib
       demo_callbacks 3 (Sockaddr_in 1 1) demo_info ([0xd8, 0, 0, 0xd8] @ demo_id @ [0x40, 1, 2]) (demo_manager []) (demo TS_UNKNOWN 1) =
     Some (Go_on, demo_manager [], s') \<and> sent s' = [] \<and> calls s' = []) \<and>
   handle_message False demo_lib
       demo_callbacks 3 (Sockaddr_in 1 1) demo_info ([0xd8, 0, 0, 0xd8] @ demo_id @ [0x40, 1, 2]) (demo_manager []) (demo TS_UNKNOWN 1) = None"
proof -
  let ?buf = "[0xd8, 0, 0, 0xd8] @ demo_id @ [0x40, 1, 2] :: u8 list"
  have bad: "\<not> parses demo_lib ?buf (demo TS_UNKNOWN 1)" by (simp add: parses_def demo_id_def demo_lib_def)
  note d = handle_message_drops[OF demo_harmless demo_simps(10) disjI1[OF bad], of _ demo_callbacks 3 "Sockaddr_in 1 1" demo_info "[]"]
  show ?thesis using d[of True] d[of False] bad by (auto simp: harmless_def events_stay_def)
qed

lemma handle_message_total_witness:
  "\<exists>m' s' tbl. handle_message True demo_lib demo_callbacks 3 (Sockaddr_in 1 1) demo_info [1, 2, 3] (demo_manager []) (demo TS_UNKNOWN 1) =
     Some (Go_on, m', s') \<and> manager_ok demo_wiring m' s' \<and> tm_tubes m' = Some tbl \<and> unat (ls_htable_get_count tbl) \<le> 1"
proof -
  have "manager_ok demo_wiring (demo_manager []) (demo TS_UNKNOWN 1)" by (rule demo_ok) simp
  moreover have "inet (Sockaddr_in 1 1)" by (simp add: inet_def)
  ultimately show ?thesis
    using handle_message_total[OF _ demo_simps(10,11) demo_table_ok(4) demo_harmless, of _ "Sockaddr_in 1 1" True "[1, 2, 3]" 3 demo_info]
    by (fastforce simp: demo_table_def ls_htable_get_count_def)
qed

end
