(* ===== verification/Tube_Manager_Memory.thy ===== *)
theory Tube_Manager_Memory
  imports Tube_Manager_Props Ls_Event_Memory
begin

text \<open>
  The memory of a tube manager, \<open>src/tube_manager.c\<close>: what it owns through its tables, its dispatcher and
  its queue of timers, from its creation to its destruction, whichever allocations and system calls
  fail.
\<close>

section \<open>What a manager owns\<close>

definition tubes_owned :: "('c, 'z) tube_manager \<Rightarrow> addr multiset" where
  "tubes_owned m = (case tm_tubes m of None \<Rightarrow> {#} | Some t \<Rightarrow> ht_owned t)"

definition events_owned :: "('c, 'z) tube_manager \<Rightarrow> ('c, 'z) tms \<Rightarrow> addr multiset" where
  "events_owned m s = (case tm_dispatcher m of None \<Rightarrow> {#} | Some d \<Rightarrow> dispatcher_owned d s)"

definition timers_owned :: "('d, 'z) tmmem_scheme \<Rightarrow> addr multiset" where
  "timers_owned s =
     (case m_timer_q (mgr s) of
        None \<Rightarrow> {#}
      | Some q \<Rightarrow> {#gq_self q, gq_block q#} + image_mset the (pq_items q))"

definition manager_owned :: "('c, 'z) tube_manager \<Rightarrow> ('c, 'z) tms \<Rightarrow> addr multiset" where
  "manager_owned m s = add_mset (tm_self m) (tubes_owned m + events_owned m s + timers_owned s)"

text \<open>A manager without tubes.\<close>

definition manager_form :: "('c, 'z) tube_manager \<Rightarrow> ('c, 'z) tms \<Rightarrow> bool" where
  "manager_form m s \<longleftrightarrow>
     (\<forall>t. tm_tubes m = Some t \<longrightarrow> shape t \<and> contents t = {#}) \<and>
     (\<forall>d. tm_dispatcher m = Some d \<longrightarrow> dispatcher_form d s) \<and>
     (\<forall>q. m_timer_q (mgr s) = Some q \<longrightarrow> None \<notin># pq_items q)"

definition mgr_holds ::
  "(addr \<Rightarrow> u8 option list option) \<Rightarrow> nat \<Rightarrow> addr multiset \<Rightarrow> ndc_node list \<Rightarrow> ('c, 'z) tube_manager \<Rightarrow> ('c, 'z) tms \<Rightarrow> bool" where
  "mgr_holds B k M st m s \<longleftrightarrow> manager_form m s \<and> ndc_owns B k (manager_owned m s + M) st s"

lemma more_mgr:
  "evmem.more s' = evmem.more s \<Longrightarrow> mgr s' = mgr s \<and> (timer_at s' = timer_at s \<and> sig_contexts s' = sig_contexts s)" for s :: "('d, 'z) tmmem_scheme"
  by (cases s; cases s') simp

lemma upd_mgr_simps [simp]:
  "ndc_owns B k M st (upd_mgr f s) = ndc_owns B k M st s" "mgr (upd_mgr f s) = f (mgr s)"
  "timer_at (upd_mgr f s) = timer_at s" "sig_contexts (upd_mgr f s) = sig_contexts s" "events_same s' (upd_mgr f s) = events_same s' s"
  by (simp_all add: upd_mgr_def ndc_owns_def owns_def mem_wf_def events_same_def)

lemma ndc_owns_pipe_out [simp]: "ndc_owns B k M st (s\<lparr>pipe_out := p\<rparr>) = ndc_owns B k M st s"
  by (simp add: ndc_owns_def owns_def mem_wf_def)

lemma upd_mgr_events [simp]:
  "dispatcher_owned d (upd_mgr f s) = dispatcher_owned d s" "dispatcher_form d (upd_mgr f s) = dispatcher_form d s"
  by (rule events_same_blocks(4,5); simp add: events_same_def upd_mgr_def)+

lemma upd_mgr_events_owned [simp]: "events_owned m (upd_mgr f s) = events_owned m s"
  by (simp add: events_owned_def split: option.split)

text \<open>Changing the members of the manager other than its queue.\<close>

lemma mgr_holds_upd:
  assumes "\<And>v. m_timer_q (f v) = m_timer_q v"
  shows "mgr_holds B k M st m (upd_mgr f s) = mgr_holds B k M st m s"
  by (simp add: mgr_holds_def manager_form_def manager_owned_def events_owned_def timers_owned_def assms
      split: option.split)

text \<open>What does not touch the events and the manager keeps the manager's memory.\<close>

lemma manager_same:
  assumes "events_same s s'" "mgr s' = mgr s"
  shows "manager_owned m s' = manager_owned m s" "manager_form m s' = manager_form m s"
    "events_owned m s' = events_owned m s" "timers_owned s' = timers_owned s"
proof -
  note e = events_same_blocks(4,5)[OF assms(1)]
  show ev: "events_owned m s' = events_owned m s" by (simp add: events_owned_def e split: option.split)
  show ti: "timers_owned s' = timers_owned s" by (simp add: timers_owned_def assms(2))
  show "manager_owned m s' = manager_owned m s" by (simp add: manager_owned_def ev ti)
  show "manager_form m s' = manager_form m s" by (simp add: manager_form_def e assms(2))
qed

lemma mgr_holds_same:
  assumes "mgr_holds B k M st m s" and "events_same s s'" "mgr s' = mgr s"
    and "ndc_owns B k (manager_owned m s + M) st s'"
  shows "mgr_holds B k M st m s'"
  using assms manager_same(1,2)[OF assms(2,3), of m] by (simp add: mgr_holds_def)

lemma mgr_holds_pipe: "mgr_holds B k M st m x \<Longrightarrow> mgr_holds B k M st m (x\<lparr>pipe_out := p\<rparr>)"
proof (rule mgr_holds_same)
  assume h: "mgr_holds B k M st m x"
  show "ndc_owns B k (manager_owned m x + M) st (x\<lparr>pipe_out := p\<rparr>)"
    unfolding ndc_owns_pipe_out using h unfolding mgr_holds_def by (rule conjunct2)
qed (simp_all add: events_same_def)

lemma interrupt_mem:
  "tube_manager_interrupt os b s = Some (r, s') \<Longrightarrow> mgr_holds B k M st m s \<Longrightarrow> mgr_holds B k M st m s'"
  by (auto simp: tube_manager_interrupt_def mgr_holds_pipe split: sum.splits)

section \<open>Destroying\<close>

lemma interrupt_contexts: "tube_manager_interrupt os b s = Some (r, s') \<Longrightarrow> sig_contexts s' = sig_contexts s"
  by (auto simp: tube_manager_interrupt_def split: sum.splits)

lemma delete_timers:
  "ndc_owns B k (image_mset the (mset xs) + M) st s \<Longrightarrow> None \<notin> set xs \<Longrightarrow>
   ndc_owns B k M st (fold (\<lambda>x s. case x of Some i \<Rightarrow> timer_del i s | None \<Rightarrow> fault s) xs s) \<and>
   mgr (fold (\<lambda>x s. case x of Some i \<Rightarrow> timer_del i s | None \<Rightarrow> fault s) xs s) = mgr s \<and>
   sig_contexts (fold (\<lambda>x s. case x of Some i \<Rightarrow> timer_del i s | None \<Rightarrow> fault s) xs s) = sig_contexts s"
proof (induction xs arbitrary: s)
  case (Cons x xs)
  obtain i where x: "x = Some i" using Cons.prems(2) by (cases x) auto
  let ?s = "s\<lparr>timer_at := (timer_at s)(i := None)\<rparr>"
  have "ndc_owns B k (add_mset i (image_mset the (mset xs) + M)) st ?s"
    using Cons.prems(1) x by (simp add: ndc_owns_def owns_def mem_wf_def)
  then have "ndc_owns B k (image_mset the (mset xs) + M) st (timer_del i s)"
    by (simp add: timer_del_def ls_timer_destroy_def ndc_owns_free)
  moreover have "mgr (timer_del i s) = mgr s \<and> sig_contexts (timer_del i s) = sig_contexts s"
    using grows_same[OF mem_grows_free[of ?s "Some i"]] more_mgr by (fastforce simp: timer_del_def ls_timer_destroy_def)
  ultimately show ?case using Cons.IH[of "timer_del i s"] Cons.prems(2) x by simp
qed simp

lemma free_contexts [simp]: "sig_contexts (ls_data_free p s) = sig_contexts s"
  by (simp add: ls_data_free_def fault_def split: option.split)

lemma delete_queue:
  assumes "ndc_owns B k ({#gq_self q, gq_block q#} + image_mset the (pq_items q) + M) st s" "None \<notin># pq_items q"
  shows "ndc_owns B k M st (gpriority_queue_delete timer_del q s) \<and>
    sig_contexts (gpriority_queue_delete timer_del q s) = sig_contexts s"
proof -
  have "ndc_owns B k (image_mset the (mset (take (gq_size q) (gq_base q))) + ({#gq_self q, gq_block q#} + M)) st s"
    using assms(1) by (simp add: pq_items_def add_mset_commute add.assoc add.commute)
  note d = delete_timers[OF this]
  then have "ndc_owns B k M st (gpriority_queue_delete timer_del q s)" using assms(2)
    by (simp add: gpriority_queue_delete_def pq_items_def add_mset_commute) (intro ndc_owns_free; simp add: add_mset_commute)
  then show ?thesis using d assms(2) by (simp add: gpriority_queue_delete_def pq_items_def)
qed

lemma tube_manager_finalize_owns:
  fixes s :: "('c, 'z) tms"
  assumes mm: "mgr_holds B k M st m s" and w: "m_initialized (mgr s) \<Longrightarrow> write_loop (os_write os) \<noteq> None"
  shows "\<exists>m' s'. tube_manager_finalize os m s = Some (m', s') \<and> ndc_owns B k (add_mset (tm_self m) M) st s' \<and>
    sig_contexts s' = sig_contexts s"
proof -
  let ?s1 = "upd_mgr (\<lambda>v. v\<lparr>m_keep_going := False\<rparr>) s"
  have m1: "mgr_holds B k M st m ?s1" using mm by (simp add: mgr_holds_upd)
  obtain s2 where s2: "(if m_initialized (mgr ?s1) then map_option snd (tube_manager_interrupt os (-1) ?s1) else Some ?s1) = Some s2"
    and m2: "mgr_holds B k M st m s2" and c2: "sig_contexts s2 = sig_contexts s"
  proof (cases "m_initialized (mgr s)")
    case True
    then obtain r s' where "tube_manager_interrupt os (-1) ?s1 = Some (r, s')"
      using w by (auto simp: tube_manager_interrupt_def)
    then show thesis using that[of s'] interrupt_mem[OF _ m1] interrupt_contexts True by fastforce
  qed (use that[of ?s1] m1 in simp)
  let ?s3 = "upd_mgr (\<lambda>v. v\<lparr>m_initialized := False\<rparr>) s2"
  obtain s4 where s4: "s4 = (if os_mutex_destroy os \<noteq> None then LS_LOG_PERROR ''pthread_mutex_destroy'' ?s3 else ?s3)" by simp
  have m3: "mgr_holds B k M st m ?s3" using m2 by (simp add: mgr_holds_upd)
  have m4: "mgr_holds B k M st m s4"
  proof (cases "os_mutex_destroy os \<noteq> None")
    case True
    have "same_events ?s3 s4" using True by (simp add: s4 LS_LOG_PERROR_def same_events_log)
    note e = same_events_same[OF this]
    show ?thesis by (rule mgr_holds_same[OF m3 conjunct1[OF e]])
      (use more_mgr[OF conjunct2[OF e]] m3 True in \<open>simp_all add: s4 LS_LOG_PERROR_def mgr_holds_def\<close>)
  qed (use m3 in \<open>simp add: s4\<close>)
  have c4: "sig_contexts s4 = sig_contexts s" using c2 by (simp add: s4 LS_LOG_PERROR_def ls_log_def split: option.split)
  obtain s5 where s5_def: "s5 = (case tm_tubes m of Some tbl \<Rightarrow> ls_htable_destroy tbl s4 | None \<Rightarrow> s4)" by simp
  have form: "manager_form m s4" and o4: "ndc_owns B k (tubes_owned m + (events_owned m s4 + timers_owned s4 + add_mset (tm_self m) M)) st s4"
    using m4 by (simp_all add: mgr_holds_def manager_owned_def add.assoc)
  have s5: "ndc_owns B k (events_owned m s4 + timers_owned s4 + add_mset (tm_self m) M) st s5 \<and> same_events s4 s5"
  proof (cases "tm_tubes m")
    case (Some t)
    then have t: "shape t" "contents t = {#}" using form by (simp_all add: manager_form_def)
    then show ?thesis using empty_table_destroy[OF t o4[unfolded tubes_owned_def Some option.case]] Some by (simp add: s5_def)
  qed (use o4 in \<open>simp add: tubes_owned_def s5_def\<close>)
  note e5 = same_events_same[OF conjunct2[OF s5]]
  note k5 = manager_same[OF conjunct1[OF e5] conjunct1[OF more_mgr[OF conjunct2[OF e5]]]]
  obtain s6 where s6: "(case tm_dispatcher m of None \<Rightarrow> Some s5 | Some d \<Rightarrow> map_option snd (ls_event_dispatcher_destroy d s5)) = Some s6"
    and o6: "ndc_owns B k (timers_owned s4 + add_mset (tm_self m) M) st s6" and e6: "evmem.more s6 = evmem.more s5"
  proof (cases "tm_dispatcher m")
    case None
    then show thesis using that[of s5] s5 by (simp add: events_owned_def)
  next
    case (Some d)
    have "dispatcher_form d s5" using form[folded k5(2)] Some by (simp add: manager_form_def)
    moreover have "ndc_owns B k (dispatcher_owned d s5 + (timers_owned s4 + add_mset (tm_self m) M)) st s5"
      using conjunct1[OF s5] unfolding k5(3)[symmetric] by (simp add: events_owned_def Some add.assoc)
    ultimately show thesis using ls_event_dispatcher_destroy_owns that Some by fastforce
  qed
  have q6: "m_timer_q (mgr s6) = m_timer_q (mgr s4)"
    using more_mgr[OF e6] more_mgr[OF conjunct2[OF e5]] by simp
  let ?s7 = "case m_timer_q (mgr s6) of None \<Rightarrow> s6 | Some q \<Rightarrow> set_timer_q None (gpriority_queue_delete timer_del q s6)"
  have c6: "sig_contexts s6 = sig_contexts s"
    using more_mgr[OF e6] more_mgr[OF conjunct2[OF e5]] c4 by simp
  have "ndc_owns B k (add_mset (tm_self m) M) st ?s7 \<and> sig_contexts ?s7 = sig_contexts s"
  proof (cases "m_timer_q (mgr s6)")
    case (Some q)
    then have q4: "m_timer_q (mgr s4) = Some q" using q6 by simp
    have "None \<notin># pq_items q" using form q4 by (simp add: manager_form_def)
    then show ?thesis using delete_queue[of B k q "add_mset (tm_self m) M" st s6] o6 q4 c6
      by (simp add: set_timer_q_def timers_owned_def Some)
  qed (use o6 q6 c6 in \<open>simp add: timers_owned_def\<close>)
  moreover have "tube_manager_finalize os m s = Some (m\<lparr>tm_tubes := None, tm_dispatcher := None\<rparr>, ?s7)"
    unfolding tube_manager_finalize_def Let_def s2 option.case s4[symmetric] s5_def[symmetric] by (simp add: s6)
  ultimately show ?thesis by blast
qed

section \<open>Creating\<close>

text \<open>What each step of the creation keeps.\<close>

definition making ::
  "(addr \<Rightarrow> u8 option list option) \<Rightarrow> nat \<Rightarrow> addr multiset \<Rightarrow> ndc_node list \<Rightarrow> ('c, 'z) tube_manager \<Rightarrow> ('c, 'z) tms \<Rightarrow> nat \<Rightarrow>
   errcode option \<times> ('c, 'z) tube_manager \<times> ('c, 'z) tms \<Rightarrow> bool" where
  "making B k M st m0 s0 n x \<longleftrightarrow>
     (case x of (e, m, s) \<Rightarrow>
        mgr_holds B k M st m s \<and> tm_self m = tm_self m0 \<and> mgr s = mgr s0 \<and> (timer_at s = timer_at s0 \<and> sig_contexts s = sig_contexts s0) \<and>
        (\<exists>d. tm_dispatcher m = Some d \<and> size (contents (di_events d)) \<le> n))"

lemma create_event_making:
  assumes mk: "making B k M st m0 s0 n x" and n: "n < 2 ^ 28"
    and set_ev: "\<And>e m. tm_self (set_ev e m) = tm_self m" "\<And>e m. tm_tubes (set_ev e m) = tm_tubes m"
      "\<And>e m. tm_dispatcher (set_ev e m) = tm_dispatcher m"
  shows "making B k M st m0 s0 (Suc n) (create_event name set_ev x)"
proof -
  obtain e m s where x: "x = (e, m, s)" by (rule prod_cases3)
  obtain d where d: "tm_dispatcher m = Some d" "size (contents (di_events d)) \<le> n"
    and h: "mgr_holds B k M st m s" "tm_self m = tm_self m0" "mgr s = mgr s0" "(timer_at s = timer_at s0 \<and> sig_contexts s = sig_contexts s0)"
    using mk by (auto simp: x making_def)
  show ?thesis
  proof (cases e)
    case None
    obtain r d1 s1 where r: "ls_event_dispatcher_create_event ((0, 0), ascii name) d s = (r, d1, s1)" by (rule prod_cases3)
    have o: "ndc_owns B k (dispatcher_owned d s + (add_mset (tm_self m) (tubes_owned m + timers_owned s) + M)) st s"
      and form: "dispatcher_form d s"
      using h(1) d(1) by (simp_all add: mgr_holds_def manager_owned_def events_owned_def manager_form_def ac_simps)
    have small: "size (contents (di_events d)) < 2 ^ 28" using d(2) n by simp
    note c = create_event_owns[OF o form small r]
    have keep: "mgr s1 = mgr s" "(timer_at s1 = timer_at s \<and> sig_contexts s1 = sig_contexts s)" using c more_mgr[of s1 s] by blast+
    have t: "timers_owned s1 = timers_owned s" by (simp add: timers_owned_def keep(1))
    have holds: "mgr_holds B k M st m1 s1"
      if "tm_self m1 = tm_self m" "tm_tubes m1 = tm_tubes m" "tm_dispatcher m1 = Some d1" for m1
      using c h(1) that
      by (simp add: mgr_holds_def manager_owned_def events_owned_def manager_form_def tubes_owned_def t keep(1) ac_simps)
    show ?thesis
      using c keep h d None set_ev holds
      by (cases r) (simp_all add: x create_event_def making_def r le_trans)
  next
    case (Some err)
    then show ?thesis using mk d by (auto simp: x create_event_def making_def)
  qed
qed

lemma create_events_making:
  assumes "making B k M st m0 s0 0 (None, m, s)"
  shows "making B k M st m0 s0 6 (create_events m s)"
proof -
  have "making B k M st m0 s0 (Suc (Suc (Suc (Suc (Suc (Suc 0)))))) (create_events m s)"
    unfolding create_events_def by (intro create_event_making assms) simp_all
  then show ?thesis by (simp add: eval_nat_numeral)
qed

lemma mgr_holds_zero:
  "ndc_owns B k (add_mset a M) st s \<Longrightarrow> m_timer_q (mgr s) = None \<Longrightarrow> mgr_holds B k M st (zero_manager a) s"
  by (simp add: mgr_holds_def manager_form_def manager_owned_def tubes_owned_def events_owned_def timers_owned_def
      zero_manager_def)

lemma mgr_holds_tubes:
  fixes s :: "('c, 'z) tms"
  assumes h: "mgr_holds B k M st m s" "tm_tubes m = None" and b: "buckets < 2 ^ 30"
    and r: "ls_htable_create buckets hash cmp s = (res, s')"
  shows "mgr s' = mgr s \<and> (timer_at s' = timer_at s \<and> sig_contexts s' = sig_contexts s) \<and> (case res of
      Inl e \<Rightarrow> mgr_holds B k M st m s' | Inr t \<Rightarrow> mgr_holds B k M st (m\<lparr>tm_tubes := Some t\<rparr>) s')"
proof -
  have o: "ndc_owns B k (manager_owned m s + M) st s" using h(1) by (simp add: mgr_holds_def)
  note g = create_mem_grows[OF r]
  note sm = grows_same[OF g]
  note kept = manager_same[OF conjunct1[OF sm] conjunct1[OF more_mgr[OF conjunct2[OF sm]]]]
  note c = ls_htable_create_owns[OF conjunct1[OF o[unfolded ndc_owns_def]] b r]
  have nd: "ndc_owns B k L st s'" if "owns B k L s'" for L by (rule ndc_owns_mem[OF o g that])
  have form: "manager_form m s'" unfolding kept(2) using h(1) by (simp add: mgr_holds_def)
  show ?thesis
  proof (cases res)
    case (Inl e)
    then have "ndc_owns B k (manager_owned m s + M) st s'" using c nd by simp
    then show ?thesis using Inl form kept(1)[of m] more_mgr[OF conjunct2[OF sm]] by (simp add: mgr_holds_def)
  next
    case (Inr t)
    then have "ndc_owns B k (ht_owned t + (manager_owned m s' + M)) st s'" using c nd kept(1)[of m] by simp
    then have "ndc_owns B k (manager_owned (m\<lparr>tm_tubes := Some t\<rparr>) s' + M) st s'"
      using h(2) by (simp add: manager_owned_def tubes_owned_def events_owned_def ac_simps)
    moreover have "manager_form (m\<lparr>tm_tubes := Some t\<rparr>) s'" using form c Inr by (simp add: manager_form_def)
    ultimately show ?thesis using Inr more_mgr[OF conjunct2[OF sm]] by (simp add: mgr_holds_def)
  qed
qed

lemma mgr_holds_dispatcher:
  fixes s :: "('c, 'z) tms"
  assumes h: "mgr_holds B k M st m s" "tm_dispatcher m = None"
    and r: "ls_event_dispatcher_create source s = (res, s')"
  shows "mgr s' = mgr s \<and> (timer_at s' = timer_at s \<and> sig_contexts s' = sig_contexts s) \<and> (case res of
      Inl e \<Rightarrow> mgr_holds B k M st m s'
    | Inr d \<Rightarrow> contents (di_events d) = {#} \<and> mgr_holds B k M st (m\<lparr>tm_dispatcher := Some d\<rparr>) s')"
proof -
  have o: "ndc_owns B k (manager_owned m s + M) st s" using h(1) by (simp add: mgr_holds_def)
  note c = ls_event_dispatcher_create_owns[OF o r]
  have e: "events_same s s'" and mr: "mgr s' = mgr s" "(timer_at s' = timer_at s \<and> sig_contexts s' = sig_contexts s)" using c more_mgr[of s' s] by blast+
  note kept = manager_same[OF e mr(1)]
  have form: "manager_form m s'" unfolding kept(2) using h(1) by (simp add: mgr_holds_def)
  show ?thesis
  proof (cases res)
    case (Inl x)
    then show ?thesis using c mr form kept(1)[of m] by (simp add: mgr_holds_def)
  next
    case (Inr d)
    then have "ndc_owns B k (dispatcher_owned d s' + (manager_owned m s' + M)) st s'" using c kept(1)[of m] by simp
    then have "ndc_owns B k (manager_owned (m\<lparr>tm_dispatcher := Some d\<rparr>) s' + M) st s'"
      using h(2) by (simp add: manager_owned_def tubes_owned_def events_owned_def ac_simps)
    then show ?thesis using c Inr mr form by (simp add: mgr_holds_def manager_form_def)
  qed
qed

lemma mgr_holds_queue:
  fixes s :: "('c, 'z) tms"
  assumes h: "mgr_holds B k M st m s" "m_timer_q (mgr s) = None"
    and r: "gpriority_queue_create sizeof_ptr s = (res, s')"
  shows "mgr s' = mgr s \<and> (timer_at s' = timer_at s \<and> sig_contexts s' = sig_contexts s) \<and> (case res of
      None \<Rightarrow> mgr_holds B k M st m s'
    | Some q \<Rightarrow> mgr_holds B k M st m (set_timer_q (Some q) s') \<and> pq_items q = {#} \<and> (\<forall>ctx A. pq_ok ctx A q))"
proof -
  have o: "ndc_owns B k (manager_owned m s + M) st s" using h(1) by (simp add: mgr_holds_def)
  obtain a s1 where m1: "ls_data_malloc sizeof_gpriority_queue s = (a, s1)" by fastforce
  note sm1 = grows_same[OF malloc_mem_grows[OF m1]] and o1 = ndc_owns_malloc[OF o m1]
  have step: "mgr_holds B k M st m x" "mgr x = mgr s" "(timer_at x = timer_at s \<and> sig_contexts x = sig_contexts s)"
    if "events_same s x" "evmem.more x = evmem.more s" "ndc_owns B k (manager_owned m s + M) st x" for x
    using mgr_holds_same[OF h(1) that(1) _ that(3)] more_mgr[OF that(2)] by blast+
  show ?thesis
  proof (cases a)
    case None
    then show ?thesis using r m1 o1 step[of s1] sm1 by (auto simp: gpriority_queue_create_def)
  next
    case (Some qa)
    obtain b s2 where m2: "ls_data_malloc sizeof_ptr s1 = (b, s2)" by fastforce
    note sm2 = grows_same[OF malloc_mem_grows[OF m2]]
    have o2: "ndc_owns B k (case b of None \<Rightarrow> add_mset qa (manager_owned m s + M) | Some y \<Rightarrow> add_mset y (add_mset qa (manager_owned m s + M))) st s2"
      using ndc_owns_malloc[OF _ m2] o1 Some by simp
    show ?thesis
    proof (cases b)
      case None
      note sm3 = grows_same[OF mem_grows_free[of s2 "Some qa"]]
      have "ndc_owns B k (manager_owned m s + M) st (ls_data_free (Some qa) s2)" using o2 None by (simp add: ndc_owns_free)
      then show ?thesis using r m1 m2 Some None step[of "ls_data_free (Some qa) s2"] sm1 sm2 sm3
        by (auto simp: gpriority_queue_create_def events_same_def)
    next
      case (Some y)
      let ?q = "\<lparr>gq_self = qa, gq_block = y, gq_base = [None], gq_size = 0, gq_capacity = 1\<rparr> :: addr gpriority_queue"
      have res: "res = Some ?q" "s' = s2" using r m1 m2 \<open>a = Some qa\<close> Some by (auto simp: gpriority_queue_create_def)
      have e: "events_same s s2" "mgr s2 = mgr s" "(timer_at s2 = timer_at s \<and> sig_contexts s2 = sig_contexts s)"
        using sm1 sm2 more_mgr[of s2 s] by (auto simp: events_same_def)
      note kept = manager_same[OF e(1,2)]
      have t0: "timers_owned s = {#}" using h(2) by (simp add: timers_owned_def)
      have "ndc_owns B k (manager_owned m (set_timer_q (Some ?q) s2) + M) st s2"
        using o2 Some t0 unfolding kept(3)[of m, symmetric]
        by (simp add: manager_owned_def kept(3) set_timer_q_def timers_owned_def pq_items_def ac_simps add_mset_commute)
      moreover have "manager_form m (set_timer_q (Some ?q) s2)"
        using h(1) kept(2)[of m] by (simp add: mgr_holds_def manager_form_def set_timer_q_def pq_items_def)
      moreover have "pq_ok ctx A ?q" for ctx A
        by (simp add: pq_ok_def heap_is_heap heap_from_def SIZE_MAX_def)
      ultimately show ?thesis using res e by (simp add: mgr_holds_def set_timer_q_def pq_items_def)
    qed
  qed
qed

lemma setup_pipe_holds:
  assumes "setup_pipe os s = (e, s')"
  shows "mgr_holds B k M st m s' = mgr_holds B k M st m s \<and> (timer_at s' = timer_at s \<and> sig_contexts s' = sig_contexts s) \<and>
    m_timer_q (mgr s') = m_timer_q (mgr s) \<and> m_initialized (mgr s') = m_initialized (mgr s)"
  using assms by (auto simp: setup_pipe_def Let_def mgr_holds_upd split: sum.splits prod.splits option.splits)

text \<open>The queue of a new manager.\<close>

definition fresh_queue :: "('d, 'z) tmmem_scheme \<Rightarrow> bool" where
  "fresh_queue s \<longleftrightarrow> (\<exists>q. m_timer_q (mgr s) = Some q \<and> pq_items q = {#} \<and> (\<forall>ctx A. pq_ok ctx A q))"

lemma init_parts_holds:
  fixes s0 :: "('c, 'z) tms"
  assumes o: "ndc_owns B k (add_mset a M) st s0" and b: "buckets < 2 ^ 30" and z: "mgr s0 = zero_mgr"
    and r: "init_parts os buckets (zero_manager a) s0 = (e, m', s')"
  shows "mgr_holds B k M st m' s' \<and> tm_self m' = a \<and> \<not> m_initialized (mgr s') \<and> (timer_at s' = timer_at s0 \<and> sig_contexts s' = sig_contexts s0) \<and>
    (e = None \<longrightarrow> fresh_queue s' \<and> tm_dispatcher m' \<noteq> None)"
proof -
  let ?m = "zero_manager a :: ('c, 'z) tube_manager"
  let ?b = "if buckets \<le> 0 then DEFAULT_HASH_SIZE else buckets"
  obtain s where s: "s = upd_mgr (\<lambda>v. v\<lparr>m_initialized := False, m_sock4 := -1, m_sock6 := -1, m_max_fd := -1,
      m_keep_going := True, m_pipe := (-1, -1)\<rparr>) s0" by simp
  have h: "mgr_holds B k M st ?m s" "tm_tubes ?m = None" "tm_dispatcher ?m = None" "tm_self ?m = a"
    using mgr_holds_zero[OF o] z by (simp_all add: s mgr_holds_upd zero_mgr_def zero_manager_def)
  have g: "\<not> m_initialized (mgr s)" "m_timer_q (mgr s) = None" "(timer_at s = timer_at s0 \<and> sig_contexts s = sig_contexts s0)"
    using z by (simp_all add: s zero_mgr_def)
  have b': "?b < 2 ^ 30" using b by (simp add: DEFAULT_HASH_SIZE_def)
  obtain t :: "errcode + (tube_key, addr, ('c, 'z) tms) htable" and s1
    where t: "ls_htable_create ?b (hash_id id_word) (compare_id id_word) s = (t, s1)" by fastforce
  note h1 = mgr_holds_tubes[OF h(1,2) b' t]
  note parts = init_parts_def Let_def s[symmetric] t prod.case
  show ?thesis
  proof (cases "\<exists>x. os_mutex_init os = Some x \<or> t = Inl x")
    case True
    then show ?thesis using r h g h1 unfolding parts by (cases "os_mutex_init os") auto
  next
    case False
    then obtain tbl where tbl: "t = Inr tbl" "os_mutex_init os = None" by (cases t) auto
    let ?m1 = "?m\<lparr>tm_tubes := Some tbl\<rparr>"
    have m1: "mgr_holds B k M st ?m1 s1" "tm_dispatcher ?m1 = None" "tm_self ?m1 = a" using h1 tbl(1) h(3,4) by simp_all
    obtain d s2 where d: "ls_event_dispatcher_create a s1 = (d, s2)" by fastforce
    note h2 = mgr_holds_dispatcher[OF m1(1,2) d]
    show ?thesis
    proof (cases d)
      case (Inl x)
      then show ?thesis using r h g h1 h2 tbl m1(3) unfolding parts by (auto simp: d)
    next
      case (Inr di)
      obtain e3 m3 s3 where ev: "create_events (?m1\<lparr>tm_dispatcher := Some di\<rparr>) s2 = (e3, m3, s3)" by (rule prod_cases3)
      have "making B k M st ?m1 s2 0 (None, ?m1\<lparr>tm_dispatcher := Some di\<rparr>, s2)"
        using h2 Inr by (simp add: making_def)
      from create_events_making[OF this]
      have h3: "mgr_holds B k M st m3 s3" "tm_self m3 = a" "mgr s3 = mgr s" "(timer_at s3 = timer_at s0 \<and> sig_contexts s3 = sig_contexts s0)" "tm_dispatcher m3 \<noteq> None"
        using ev h1 h2 h g by (auto simp: making_def)
      obtain q :: "addr gpriority_queue option" and s4 where q: "gpriority_queue_create sizeof_ptr s3 = (q, s4)" by fastforce
      have "m_timer_q (mgr s3) = None" using h3(3) g by simp
      note h4 = mgr_holds_queue[OF h3(1) this q]
      note more = parts tbl sum.case option.case h(4) d Inr ev q
      show ?thesis
      proof (cases "e3 = None \<and> q \<noteq> None")
        case False
        then show ?thesis using r h3 h4 g unfolding more by (cases e3) (auto simp: q)
      next
        case True
        then obtain qq where qq: "e3 = None" "q = Some qq" by auto
        let ?s5 = "set_timer_q (Some qq) s4"
        have h5: "mgr_holds B k M st m3 ?s5" "(timer_at ?s5 = timer_at s0 \<and> sig_contexts ?s5 = sig_contexts s0)" "\<not> m_initialized (mgr ?s5)" "fresh_queue ?s5"
          using h4 qq h3 g by (auto simp: set_timer_q_def fresh_queue_def)
        show ?thesis
        proof (cases "os_gettimeofday os")
          case (Inl x)
          then show ?thesis using r h3 h5 unfolding more by (simp add: qq q)
        next
          case (Inr now)
          obtain e6 s6 where p: "setup_pipe os (upd_mgr (\<lambda>v. v\<lparr>m_last := now\<rparr>) ?s5) = (e6, s6)" by fastforce
          have "m' = m3" "s' = s6" using r Inr p unfolding more by (simp_all add: qq q)
          then show ?thesis using setup_pipe_holds[OF p, of B k M st m3] h3 h5 by (simp add: mgr_holds_upd fresh_queue_def)
        qed
      qed
    qed
  qed
qed

lemma tube_manager_create_holds:
  fixes s :: "('c, 'z) tms"
  assumes o: "ndc_owns B k M st s" and b: "buckets < 2 ^ 30"
  shows "\<exists>res s'. tube_manager_create os buckets s = Some (res, s') \<and> (case res of
       Inl e \<Rightarrow> ndc_owns B k M st s'
     | Inr m \<Rightarrow> mgr_holds B k M st m s' \<and> (timer_at s' = timer_at s \<and> sig_contexts s' = sig_contexts s) \<and> fresh_queue s' \<and> tm_dispatcher m \<noteq> None)"
proof -
  obtain p s1 where c: "ls_data_calloc 1 sizeof_tube_manager s = (p, s1)" by fastforce
  note c' = c[unfolded One_nat_def]
  note o1 = ndc_owns_calloc[OF o c]
  note e1 = grows_same[OF calloc_mem_grows[OF c]]
  show ?thesis
  proof (cases p)
    case None
    then show ?thesis using o1 by (auto simp: tube_manager_create_def c')
  next
    case (Some a)
    let ?s1 = "s1\<lparr>mgr := zero_mgr\<rparr>"
    have o2: "ndc_owns B k (add_mset a M) st ?s1" using o1 Some upd_mgr_simps(1)[of B k "add_mset a M" st "\<lambda>v. zero_mgr" s1]
      by (simp add: upd_mgr_def)
    obtain e m s2 where i: "init_parts os buckets (zero_manager a) ?s1 = (e, m, s2)" by (rule prod_cases3)
    have "mgr ?s1 = zero_mgr" by simp
    note h = init_parts_holds[OF o2 b this i]
    have at: "(timer_at ?s1 = timer_at s \<and> sig_contexts ?s1 = sig_contexts s)" using more_mgr[OF conjunct2[OF e1]] by simp
    show ?thesis
    proof (cases e)
      case None
      then show ?thesis using h at by (simp add: tube_manager_create_def c' Some tube_manager_init_def i mgr_holds_upd fresh_queue_def)
    next
      case (Some x)
      obtain m' s' where f: "tube_manager_finalize os m s2 = Some (m', s')" "ndc_owns B k (add_mset a M) st s'"
        using tube_manager_finalize_owns[of B k M st m s2 os] h by auto
      have "ndc_owns B k M st (ls_data_free (Some a) s')" using f(2) by (rule ndc_owns_free)
      then show ?thesis using f(1) by (simp add: tube_manager_create_def c' \<open>p = Some a\<close> tube_manager_init_def i Some)
    qed
  qed
qed

section \<open>Operations\<close>

lemma bind_event_holds:
  fixes s :: "('c, 'z) tms"
  assumes h: "mgr_holds B k M st m s" and d: "tm_dispatcher m = Some d"
  shows "\<exists>r s'. tube_manager_bind_event name cb m s = Some (r, s') \<and> mgr_holds B k M st m s' \<and> mgr s' = mgr s \<and>
    (timer_at s' = timer_at s \<and> sig_contexts s' = sig_contexts s)"
proof -
  have o: "ndc_owns B k (manager_owned m s + M) st s" using h by (simp add: mgr_holds_def)
  obtain e s1 where g: "ls_event_dispatcher_get_event name d s = (e, s1)" by fastforce
  note get = get_event_owns[OF o g]
  note same = same_events_same[OF get(2)]
  note more1 = conjunct2[OF same]
  have h1: "mgr_holds B k M st m s1" by (rule mgr_holds_same[OF h conjunct1[OF same] _ get(1)]) (use more_mgr[OF more1] in simp)
  show ?thesis
  proof (cases e)
    case None
    then show ?thesis using d g h1 more_mgr[OF more1] by (simp add: tube_manager_bind_event_def)
  next
    case (Some ev)
    then obtain n where n: "n \<in># contents (di_events d)" "hn_value n = Some ev" using get(3) by blast
    have form: "dispatcher_form d s1" using h1 d by (simp add: mgr_holds_def manager_form_def)
    have o1: "ndc_owns B k (dispatcher_owned d s1 + (add_mset (tm_self m) (tubes_owned m + timers_owned s1) + M)) st s1"
      using h1 d by (simp add: mgr_holds_def manager_owned_def events_owned_def ac_simps)
    obtain r s2 where b: "ls_event_bind ev cb (tm_self m) d s1 = Some (r, s2)" "dispatcher_form d s2"
      "ndc_owns B k (dispatcher_owned d s2 + (add_mset (tm_self m) (tubes_owned m + timers_owned s1) + M)) st s2"
      "evmem.more s2 = evmem.more s1"
      using bind_event_owns[OF o1 form n] by blast
    note mr = more_mgr[OF b(4)]
    have "timers_owned s2 = timers_owned s1" using mr by (simp add: timers_owned_def)
    then have "mgr_holds B k M st m s2"
      using h1 b(2,3) d mr by (simp add: mgr_holds_def manager_owned_def events_owned_def manager_form_def ac_simps)
    then show ?thesis using d g Some b(1) mr more_mgr[OF more1] by (simp add: tube_manager_bind_event_def)
  qed
qed

lemma push_mem:
  assumes o: "ndc_owns B k (add_mset (gq_block q) M) st s" and ok: "pq_ok ctx A q"
    and r: "gpriority_queue_push ctx' n x q s = (ok, q', s')"
  shows "ndc_owns B k (add_mset (gq_block q') M) st s' \<and> gq_self q' = gq_self q \<and> mem_grows s s'"
proof -
  have room: "gq_size q = gq_capacity q \<or> gq_size q < length (gq_base q)" "0 < gq_capacity q" "gq_size q \<le> gq_capacity q"
    "length (gq_base q) = gq_capacity q"
    using ok by (auto simp: pq_ok_def)
  show ?thesis
  proof (cases "gq_size q = gq_capacity q \<and> gq_capacity q \<le> SIZE_MAX div 2 div n")
    case False
    then show ?thesis using r o room by (auto simp: gpriority_queue_push_def Let_def split: if_splits)
  next
    case True
    obtain b s1 where m: "ls_data_malloc (gq_capacity q * 2 * n) s = (b, s1)" by fastforce
    note o1 = ndc_owns_malloc[OF o m]
    show ?thesis
    proof (cases b)
      case None
      then show ?thesis using r True o1 m malloc_mem_grows[OF m] by (auto simp: gpriority_queue_push_def Let_def)
    next
      case (Some y)
      have "ndc_owns B k (add_mset (gq_block q) (add_mset y M)) st s1" using o1 Some by (simp add: add_mset_commute)
      then have "ndc_owns B k (add_mset y M) st (ls_data_free (Some (gq_block q)) s1)" by (rule ndc_owns_free)
      then show ?thesis using r True Some m room mem_grows_trans[OF malloc_mem_grows[OF m] mem_grows_free]
        by (auto simp: gpriority_queue_push_def Let_def)
    qed
  qed
qed

text \<open>A timer is in the queue, or it is older than the manager.\<close>

definition timers_placed :: "(addr \<Rightarrow> u8 option list option) \<Rightarrow> ('d, 'z) tmmem_scheme \<Rightarrow> bool" where
  "timers_placed B s \<longleftrightarrow> (\<forall>a. timer_at s a \<noteq> None \<longrightarrow> B a \<noteq> None \<or> Some a \<in># queued_timers s)"

lemma timer_fresh:
  assumes h: "mgr_holds B k M st m s" and t: "timers_ok s" "timers_placed B s"
  shows "timer_at s (next_addr s) = None"
proof (rule ccontr)
  let ?a = "next_addr s"
  assume "timer_at s ?a \<noteq> None"
  then have in_use: "B ?a \<noteq> None \<or> Some ?a \<in># queued_timers s" using t(2) by (simp add: timers_placed_def)
  obtain q where "m_timer_q (mgr s) = Some q" using t(1) by (auto simp: timers_ok_def)
  then have "Some ?a \<in># queued_timers s \<Longrightarrow> ?a \<in># manager_owned m s"
    by (force simp: queued_timers_def manager_owned_def timers_owned_def intro: image_eqI[of _ _ "Some ?a"])
  then have "?a \<in># manager_owned m s + M \<or> ?a \<notin># manager_owned m s + M \<and> B ?a \<noteq> None" using in_use by auto
  moreover have "owns B k (manager_owned m s + M) s" using h by (simp add: mgr_holds_def ndc_owns_def)
  ultimately have "blocks s ?a \<noteq> None" unfolding owns_def by metis
  moreover have "mem_wf s" using h by (simp add: mgr_holds_def ndc_owns_def owns_def)
  ultimately show False by (simp add: mem_wf_def)
qed

lemma schedule_timer_holds:
  fixes s :: "('c, 'z) tms"
  assumes h: "mgr_holds B k (add_mset a M) st m s" and t: "timers_ok s" "timer_at s a \<noteq> None"
    and r: "tube_manager_schedule_timer os a s = (r, s')"
  shows "(r = Inr () \<longrightarrow> mgr_holds B k M st m s') \<and>
    (r \<noteq> Inr () \<longrightarrow> mgr_holds B k M st m s' \<or> mgr_holds B k (add_mset a M) st m s')"
proof (cases "os_mutex_lock os")
  case (Some e)
  then show ?thesis using r h by (auto simp: tube_manager_schedule_timer_def)
next
  case None
  obtain q where q: "m_timer_q (mgr s) = Some q" "pq_ok (timer_ctx s) (live_timers s) q" using t(1) by (auto simp: timers_ok_def)
  obtain ok q1 s1 where p: "gpriority_queue_push (timer_ctx s) sizeof_ptr a q s = (ok, q1, s1)" by (rule prod_cases3)
  let ?rest = "add_mset (gq_self q) (image_mset the (pq_items q) + (add_mset (tm_self m) (tubes_owned m + events_owned m s) + add_mset a M))"
  have "ndc_owns B k (add_mset (gq_block q) ?rest) st s"
    using h q(1) by (simp add: mgr_holds_def manager_owned_def timers_owned_def ac_simps add_mset_commute)
  note pm = push_mem[OF this q(2) p]
  note e = grows_same[OF conjunct2[OF conjunct2[OF pm]]]
  note mr = more_mgr[OF conjunct2[OF e]]
  note kept = manager_same[OF conjunct1[OF e] conjunct1[OF mr]]
  have "Some a \<in> live_timers s" using t(2) by (simp add: live_timers_def)
  note push = pq_push[OF timer_order q(2) _ this p]
  have items: "pq_items q1 = (if ok then add_mset (Some a) (pq_items q) else pq_items q)"
    using push by (simp add: sizeof_ptr_def pq_items_def)
  let ?s = "set_timer_q (Some q1) s1"
  have "None \<notin># pq_items q" using h q(1) by (simp add: mgr_holds_def manager_form_def)
  then have form: "manager_form m ?s"
    using h kept(2)[of m] items by (auto simp: mgr_holds_def manager_form_def set_timer_q_def)
  have "ndc_owns B k (manager_owned m ?s + (if ok then M else add_mset a M)) st ?s"
    using pm items by (auto simp: manager_owned_def timers_owned_def kept(3) set_timer_q_def ac_simps add_mset_commute)
  then have "mgr_holds B k (if ok then M else add_mset a M) st m ?s" using form by (simp add: mgr_holds_def)
  then show ?thesis using r None q(1) p
    by (auto simp: tube_manager_schedule_timer_def unlocked_def split: option.splits if_splits)
qed

lemma schedule_ms_schedule:
  "tube_manager_schedule_ms os ms cb c s =
     tube_manager_schedule os (timeradd (m_last (mgr s)) \<lparr>tv_sec = int (ms div 1000), tv_usec = int (ms mod 1000 * 1000)\<rparr>) cb c s"
  by (simp add: tube_manager_schedule_ms_def tube_manager_schedule_def ls_timer_create_ms_def Let_def)

lemma malloc_contexts:
  "ls_data_malloc k s = (r, z) \<Longrightarrow> timer_at z = timer_at s \<and> sig_contexts z = sig_contexts s" for s :: "('d, 'z) tmmem_scheme"
  using more_mgr[OF conjunct2[OF grows_same[OF malloc_mem_grows]]] by blast

lemma push_frame:
  "gpriority_queue_push ctx n x q s = (ok, q', s') \<Longrightarrow> timer_at s' = timer_at s \<and> sig_contexts s' = sig_contexts s"
  for s :: "('d, 'z) tmmem_scheme"
  by (auto simp: gpriority_queue_push_def Let_def fault_def dest!: malloc_contexts
      split: if_splits prod.splits option.splits)

lemma schedule_timer_frame:
  "tube_manager_schedule_timer os a s = (r, s') \<Longrightarrow> timer_at s' = timer_at s \<and> sig_contexts s' = sig_contexts s"
  by (auto simp: tube_manager_schedule_timer_def unlocked_def set_timer_q_def fault_def dest!: push_frame
      split: option.splits prod.splits)

lemma schedule_holds:
  fixes s :: "('c, 'z) tms"
  assumes h: "mgr_holds B k M st m s" and t: "timers_ok s" "timers_placed B s"
    and r: "tube_manager_schedule os tv cb ctx s = (r, s')"
  shows "sig_contexts s' = sig_contexts s \<and> (case r of
      Inl e \<Rightarrow> (\<exists>L. (L = {#} \<or> (\<exists>a t. L = {#a#} \<and> timer_at s' a = Some t \<and> tm_cb t = cb \<and> tm_context t = ctx)) \<and>
        mgr_holds B k (L + M) st m s')
    | Inr a \<Rightarrow> mgr_holds B k M st m s' \<and> timers_ok s' \<and> timers_placed B s')"
proof -
  have o: "ndc_owns B k (manager_owned m s + M) st s" using h by (simp add: mgr_holds_def)
  obtain p s1 where c: "ls_data_calloc 1 sizeof_timer s = (p, s1)" by fastforce
  note c' = c[unfolded One_nat_def] and e = grows_same[OF calloc_mem_grows[OF c]] and o1 = ndc_owns_calloc[OF o c]
  note mr = more_mgr[OF conjunct2[OF e]]
  show ?thesis
  proof (cases p)
    case None
    then have "mgr_holds B k ({#} + M) st m s1" using mgr_holds_same[OF h conjunct1[OF e]] mr o1 by simp
    moreover have "r = Inl LS_ERR_NO_MEMORY" "s' = s1"
      using r c' None by (simp_all add: tube_manager_schedule_def ls_timer_create_def)
    ultimately show ?thesis using mr by (auto intro!: exI[of _ "{#}"])
  next
    case (Some a)
    let ?t = "\<lparr>tm_cb = cb, tm_context = ctx, tm_tv = tv\<rparr>"
    let ?s1 = "s1\<lparr>timer_at := (timer_at s1)(a \<mapsto> ?t)\<rparr>"
    have cr: "ls_timer_create tv cb ctx s = (Inr (a, ?t), s1)" using c' Some by (simp add: ls_timer_create_def)
    have fresh: "timer_at s (next_addr s) = None" by (rule timer_fresh[OF h t])
    have a: "a = next_addr s" by (rule timer_created(1)[OF cr])
    have o2: "ndc_owns B k (manager_owned m s + add_mset a M) st ?s1"
      using o1 Some by (simp add: ndc_owns_def owns_def mem_wf_def)
    have form: "manager_form m ?s1" "manager_owned m ?s1 = manager_owned m s"
      using manager_same[of s ?s1] e mr h by (simp_all add: events_same_def mgr_holds_def)
    have h1: "mgr_holds B k (add_mset a M) st m ?s1" using form o2 by (simp add: mgr_holds_def)
    have ok1: "timers_ok ?s1" using new_timer_ok(1)[OF t(1), of a ?s1 ?t] fresh a mr by simp
    obtain x s2 where st: "tube_manager_schedule_timer os a ?s1 = (x, s2)" by fastforce
    have "timer_at ?s1 a \<noteq> None" by simp
    note sch = schedule_timer_holds[OF h1 ok1 this st]
    have keep: "sig_contexts s2 = sig_contexts s" "timer_at s2 = timer_at ?s1"
      using schedule_timer_frame[OF st] mr by simp_all
    show ?thesis
    proof (cases x)
      case (Inl err)
      have t2: "timer_at s2 a = Some ?t" using keep(2) by simp
      have "mgr_holds B k ({#} + M) st m s2 \<or> mgr_holds B k ({#a#} + M) st m s2" using sch Inl by simp
      then have "\<exists>L. (L = {#} \<or> (\<exists>a t. L = {#a#} \<and> timer_at s2 a = Some t \<and> tm_cb t = cb \<and> tm_context t = ctx)) \<and>
          mgr_holds B k (L + M) st m s2"
        using t2 by (elim disjE) (intro exI[of _ "{#}"] conjI disjI1 refl, assumption,
          intro exI[of _ "{#a#}"] conjI disjI2 exI[of _ a] exI[of _ ?t], simp_all)
      moreover have "r = Inl err" "s' = s2" using r st Inl cr by (simp_all add: tube_manager_schedule_def)
      ultimately show ?thesis using keep(1) by simp
    next
      case (Inr u)
      have "tube_manager_schedule_timer os a ?s1 = (Inr (), s2)" using st Inr by simp
      note n = schedule_new[OF t(1) fresh cr this]
      then have "timers_placed B s2" using t(2) by (auto simp: timers_placed_def)
      moreover have "r = Inr a" "s' = s2" using r st Inr cr by (auto simp: tube_manager_schedule_def)
      ultimately show ?thesis using sch Inr n keep(1) by simp
    qed
  qed
qed

section \<open>From creation to destruction\<close>

text \<open>What a program does with a new manager before it runs its loop, up to the first call that fails.  No
  tube is opened yet.\<close>

datatype setup_op =
    Bind_event "byte_ptr \<times> cstr" nat
  | Schedule timeval nat nat
  | Schedule_ms nat nat nat
  | Watch_signal int nat
  | Open_sockets int
  | Set_policy bool
  | Set_data nat

definition error_of :: "errcode + 'r \<Rightarrow> errcode option" where
  "error_of r = (case r of Inl e \<Rightarrow> Some e | Inr _ \<Rightarrow> None)"

lemma error_of_simps [simp]: "error_of (Inl e) = Some e" "error_of (Inr x) = None"
  by (simp_all add: error_of_def)

lemma error_of_None: "error_of r = None \<longleftrightarrow> (\<exists>x. r = Inr x)"
  by (cases r) simp_all

definition setup_step ::
  "os \<Rightarrow> setup_op \<Rightarrow> ('c, 'z) tube_manager \<Rightarrow> ('c, 'z) tms \<Rightarrow> (errcode option \<times> ('c, 'z) tms) option" where
  "setup_step os x m s =
     (case x of
        Bind_event name cb \<Rightarrow> map_option (map_prod error_of id) (tube_manager_bind_event name cb m s)
      | Schedule tv cb ctx \<Rightarrow> Some (map_prod error_of id (tube_manager_schedule os tv cb ctx s))
      | Schedule_ms ms cb ctx \<Rightarrow> Some (map_prod error_of id (tube_manager_schedule_ms os ms cb ctx s))
      | Watch_signal sig cb \<Rightarrow> Some (map_prod error_of id (tube_manager_signal os (tm_self m) sig cb s))
      | Open_sockets port \<Rightarrow> Some (map_prod error_of id (tube_manager_socket os port s))
      | Set_policy b \<Rightarrow> Some (None, tube_manager_set_policy_responder b s)
      | Set_data n \<Rightarrow> Some (None, tube_manager_set_data n s))"

fun setup_run ::
  "os \<Rightarrow> setup_op list \<Rightarrow> ('c, 'z) tube_manager \<Rightarrow> ('c, 'z) tms \<Rightarrow> (errcode option \<times> ('c, 'z) tms) option" where
  "setup_run os [] m s = Some (None, s)"
| "setup_run os (x # xs) m s =
     (case setup_step os x m s of
        None \<Rightarrow> None
      | Some (Some e, s') \<Rightarrow> Some (Some e, s')
      | Some (None, s') \<Rightarrow> setup_run os xs m s')"

text \<open>The signals the calls ask for, with their callbacks, and the callback and the context of the timer that a call schedules.\<close>

fun watches :: "setup_op \<Rightarrow> (int \<times> nat) list" where
  "watches (Watch_signal sig cb) = [(sig, cb)]"
| "watches _ = []"

fun scheduled :: "setup_op \<Rightarrow> (nat \<times> nat) option" where
  "scheduled (Schedule tv cb ctx) = Some (cb, ctx)"
| "scheduled (Schedule_ms ms cb ctx) = Some (cb, ctx)"
| "scheduled _ = None"

text \<open>The contexts of signals with the manager \<open>m\<close>, in front of those there were.\<close>

definition contexts_of ::
  "sig_context list \<Rightarrow> (int \<times> nat) list \<Rightarrow> sig_context list \<Rightarrow> ('c, 'z) tube_manager \<Rightarrow> ('c, 'z) tms \<Rightarrow> bool" where
  "contexts_of sg ws cs m s \<longleftrightarrow> sig_contexts s = sg @ cs \<and> map (\<lambda>c. (sg_sig c, sg_cb c)) sg = ws \<and> (\<forall>c \<in> set sg. sg_mgr c = tm_self m)"

abbreviation context_blocks :: "sig_context list \<Rightarrow> addr multiset" where
  "context_blocks sg \<equiv> image_mset sg_self (mset sg)"

definition manager_ready ::
  "(addr \<Rightarrow> u8 option list option) \<Rightarrow> nat \<Rightarrow> ndc_node list \<Rightarrow> sig_context list \<Rightarrow> ('c, 'z) tube_manager \<Rightarrow> ('c, 'z) tms \<Rightarrow> bool" where
  "manager_ready B k st sg m s \<longleftrightarrow>
     mgr_holds B k (context_blocks sg) st m s \<and> timers_ok s \<and> timers_placed B s \<and> tm_dispatcher m \<noteq> None"

lemma ready_upd:
  assumes "\<And>v. m_timer_q (f v) = m_timer_q v"
  shows "manager_ready B k st sg m (upd_mgr f s) = manager_ready B k st sg m s"
proof -
  have "timer_ctx (upd_mgr f s) = timer_ctx s" "live_timers (upd_mgr f s) = live_timers s"
    using timer_ctx_cong[of "upd_mgr f s" s] by simp_all
  then show ?thesis
    by (simp add: manager_ready_def mgr_holds_upd[OF assms] timers_ok_def timers_placed_def queued_timers_def assms)
qed

lemma socket_ready:
  "tube_manager_socket os port s = (r, s') \<Longrightarrow>
   manager_ready B k st sg m s' = manager_ready B k st sg m s \<and> sig_contexts s' = sig_contexts s"
  by (auto simp: tube_manager_socket_def tube_manager_set_policy_responder_def Let_def ready_upd
      split: sum.splits option.splits)

lemma ready_same:
  assumes "manager_ready B k st sg m s" "mgr_holds B k (context_blocks sg') st m s'" "mgr s' = mgr s" "timer_at s' = timer_at s"
  shows "manager_ready B k st sg' m s'"
  using assms timer_ctx_cong[OF assms(4)] by (simp add: manager_ready_def timers_ok_def timers_placed_def queued_timers_def)

text \<open>Asking for a signal leaves a block that nothing frees.\<close>

lemma signal_ready:
  fixes s :: "('c, 'z) tms"
  assumes ready: "manager_ready B k st sg m s" and c: "contexts_of sg ws cs m s"
    and r: "tube_manager_signal os (tm_self m) sig cb s = (r, s')"
  shows "\<exists>sg'. manager_ready B k st sg' m s' \<and> contexts_of sg' ((if r = Inr () then [(sig, cb)] else []) @ ws) cs m s'"
proof -
  have h: "mgr_holds B k (context_blocks sg) st m s" using ready by (simp add: manager_ready_def)
  then have o: "ndc_owns B k (manager_owned m s + context_blocks sg) st s" by (simp add: mgr_holds_def)
  obtain p s1 where p: "ls_data_malloc sizeof_sig_context s = (p, s1)" by fastforce
  note o1 = ndc_owns_malloc[OF o p] and e = grows_same[OF malloc_mem_grows[OF p]]
  note mr = more_mgr[OF conjunct2[OF e]]
  have same: "manager_ready B k st sg' m x \<and> mgr x = mgr s"
    if "events_same s x" "mgr x = mgr s" "timer_at x = timer_at s" "ndc_owns B k (manager_owned m s + context_blocks sg') st x" for x sg'
  proof -
    have "mgr_holds B k (context_blocks sg') st m x"
      using manager_same(1,2)[OF that(1,2), of m] that(4) h by (simp add: mgr_holds_def)
    then show ?thesis using ready_same[OF ready _ that(2,3)] that(2) by blast
  qed
  show ?thesis
  proof (cases p)
    case None
    then have "r = Inl LS_ERR_NO_MEMORY" "s' = s1" using r p by (simp_all add: tube_manager_signal_def)
    then show ?thesis using same[of s1 sg] e mr o1 None c by (auto simp: contexts_of_def intro!: exI[of _ sg])
  next
    case (Some a)
    show ?thesis
    proof (cases "os_signal os sig")
      case fail: (Some x)
      have rs: "r = Inl (- x)" "s' = ls_data_free (Some a) s1" using r p Some fail by (simp_all add: tube_manager_signal_def)
      note e2 = grows_same[OF mem_grows_free[of s1 "Some a"]]
      note mr2 = more_mgr[OF conjunct2[OF e2]]
      have "ndc_owns B k (manager_owned m s + context_blocks sg) st s'" using o1 Some rs(2) by (simp add: ndc_owns_free)
      moreover have "events_same s s'" using e e2 rs(2) by (simp add: events_same_def)
      ultimately show ?thesis using same[of s' sg] mr mr2 rs c by (auto simp: contexts_of_def intro!: exI[of _ sg])
    next
      case None
      let ?c = "\<lparr>sg_self = a, sg_mgr = tm_self m, sg_sig = sig, sg_cb = cb\<rparr>"
      have rs: "r = Inr ()" "s' = s1\<lparr>sig_contexts := ?c # sig_contexts s1\<rparr>" using r p Some None by (simp_all add: tube_manager_signal_def)
      have "ndc_owns B k (manager_owned m s + context_blocks (?c # sg)) st s'"
        using o1 Some rs(2) by (simp add: ndc_owns_def owns_def mem_wf_def)
      moreover have "events_same s s'" using e rs(2) by (simp add: events_same_def)
      ultimately show ?thesis using same[of s' "?c # sg"] mr rs c by (auto simp: contexts_of_def intro!: exI[of _ "?c # sg"])
    qed
  qed
qed

text \<open>A call keeps the manager ready, or fails; then the timer it was to schedule may stay behind.\<close>

definition left_timer :: "setup_op \<Rightarrow> addr multiset \<Rightarrow> ('d, 'z) tmmem_scheme \<Rightarrow> bool" where
  "left_timer x L s \<longleftrightarrow> (\<exists>a t. L = {#a#} \<and> timer_at s a = Some t \<and> scheduled x = Some (tm_cb t, tm_context t))"

lemma setup_step_ready:
  assumes ready: "manager_ready B k st sg m s" and c: "contexts_of sg ws cs m s"
  shows "\<exists>e s' sg' L. setup_step os x m s = Some (e, s') \<and> mgr_holds B k (L + context_blocks sg') st m s' \<and>
    contexts_of sg' ((if e = None then watches x else []) @ ws) cs m s' \<and> (L = {#} \<or> left_timer x L s') \<and>
    (e = None \<longrightarrow> L = {#} \<and> manager_ready B k st sg' m s')"
proof -
  have h: "mgr_holds B k (context_blocks sg) st m s" "timers_ok s" "timers_placed B s" and dn: "tm_dispatcher m \<noteq> None"
    using ready by (simp_all add: manager_ready_def)
  have go_on: ?thesis if "setup_step os x m s = Some (e, s')" "manager_ready B k st sg' m s'"
    "contexts_of sg' ((if e = None then watches x else []) @ ws) cs m s'" for e s' sg'
    using that by (intro exI[of _ e] exI[of _ s'] exI[of _ sg'] exI[of _ "{#}"]) (simp add: manager_ready_def)
  have ctx: "contexts_of sg ws cs m s'" if "sig_contexts s' = sig_contexts s" for s'
    using c that by (simp add: contexts_of_def)
  have sch: ?thesis
    if t: "setup_step os x m s = Some (map_prod error_of id (tube_manager_schedule os tv cb ct s))" and x: "scheduled x = Some (cb, ct)"
    for tv cb ct
  proof -
    obtain r s' where r: "tube_manager_schedule os tv cb ct s = (r, s')" by fastforce
    note k = schedule_holds[OF h r]
    have w: "watches x = []" using x by (cases x) simp_all
    have cx: "contexts_of sg ws cs m s'" using k by (intro ctx) simp
    show ?thesis
    proof (cases r)
      case (Inl e)
      then obtain L where L: "L = {#} \<or> (\<exists>a t. L = {#a#} \<and> timer_at s' a = Some t \<and> tm_cb t = cb \<and> tm_context t = ct)"
        "mgr_holds B k (L + context_blocks sg) st m s'"
        using k by auto
      then have "L = {#} \<or> left_timer x L s'" using x by (auto simp: left_timer_def)
      then show ?thesis using t r Inl L(2) cx
        by (intro exI[of _ "Some e"] exI[of _ s'] exI[of _ sg] exI[of _ L]) simp
    next
      case (Inr a)
      then have "manager_ready B k st sg m s'" using k dn by (simp add: manager_ready_def)
      then show ?thesis using t r Inr cx w by (intro go_on[of None s' sg]) simp_all
    qed
  qed
  show ?thesis
  proof (cases x)
    case (Bind_event name cb)
    obtain d where d: "tm_dispatcher m = Some d" using dn by blast
    obtain r s' where b: "tube_manager_bind_event name cb m s = Some (r, s')" "mgr_holds B k (context_blocks sg) st m s'"
      "mgr s' = mgr s" "timer_at s' = timer_at s \<and> sig_contexts s' = sig_contexts s"
      using bind_event_holds[OF h(1) d] by blast
    have "manager_ready B k st sg m s'" by (rule ready_same[OF ready b(2,3) conjunct1[OF b(4)]])
    then show ?thesis using b(1) ctx b(4) by (intro go_on[of "error_of r" s' sg]) (simp_all add: setup_step_def Bind_event)
  next
    case (Schedule tv cb ct)
    then show ?thesis using sch[of tv cb ct] by (simp add: setup_step_def)
  next
    case (Schedule_ms ms cb ct)
    then show ?thesis using sch[of _ cb ct] by (simp add: setup_step_def schedule_ms_schedule)
  next
    case (Watch_signal sig cb)
    obtain r s' where r: "tube_manager_signal os (tm_self m) sig cb s = (r, s')" by fastforce
    obtain sg' where "manager_ready B k st sg' m s'" "contexts_of sg' ((if r = Inr () then [(sig, cb)] else []) @ ws) cs m s'"
      using signal_ready[OF ready c r] by blast
    then show ?thesis using r
      by (intro go_on[of "error_of r" s' sg']) (auto simp: setup_step_def Watch_signal error_of_None split: if_splits)
  next
    case (Open_sockets port)
    obtain r s' where r: "tube_manager_socket os port s = (r, s')" by fastforce
    then have "manager_ready B k st sg m s'" "sig_contexts s' = sig_contexts s" using socket_ready[OF r] ready by blast+
    then show ?thesis using r ctx by (intro go_on[of "error_of r" s' sg]) (simp_all add: setup_step_def Open_sockets)
  next
    case (Set_policy b)
    then show ?thesis using ready ctx
      by (intro go_on[of None "tube_manager_set_policy_responder b s" sg])
        (simp_all add: setup_step_def tube_manager_set_policy_responder_def ready_upd)
  next
    case (Set_data n)
    then show ?thesis using ready ctx
      by (intro go_on[of None "tube_manager_set_data n s" sg]) (simp_all add: setup_step_def tube_manager_set_data_def ready_upd)
  qed
qed

definition watched :: "setup_op list \<Rightarrow> (int \<times> nat) list" where
  "watched xs = concat (map watches xs)"

lemma watches_rev [simp]: "rev (watches x) = watches x"
  by (cases x) simp_all

lemma setup_run_ready:
  "manager_ready B k st sg m s \<Longrightarrow> contexts_of sg ws cs m s \<Longrightarrow>
   \<exists>e s' sg' L before rest. setup_run os xs m s = Some (e, s') \<and> xs = before @ rest \<and>
     mgr_holds B k (L + context_blocks sg') st m s' \<and> contexts_of sg' (rev (watched before) @ ws) cs m s' \<and>
     (\<exists>sb. setup_run os before m s = Some (None, sb)) \<and> (e = None \<longleftrightarrow> rest = []) \<and>
     (L = {#} \<or> (\<exists>x ys. rest = x # ys \<and> left_timer x L s'))"
proof (induction xs arbitrary: s sg ws)
  case Nil
  then show ?case by (intro exI[of _ None] exI[of _ s] exI[of _ sg] exI[of _ "{#}"]) (simp add: manager_ready_def watched_def)
next
  case (Cons x xs)
  obtain e s1 sg1 L where x: "setup_step os x m s = Some (e, s1)" "mgr_holds B k (L + context_blocks sg1) st m s1"
    "contexts_of sg1 ((if e = None then watches x else []) @ ws) cs m s1" "L = {#} \<or> left_timer x L s1"
    "e = None \<longrightarrow> L = {#} \<and> manager_ready B k st sg1 m s1"
    using setup_step_ready[OF Cons.prems] by blast
  show ?case
  proof (cases e)
    case (Some err)
    then show ?thesis using x
      by (intro exI[of _ e] exI[of _ s1] exI[of _ sg1] exI[of _ L] exI[of _ "[]"] exI[of _ "x # xs"]) (simp add: watched_def)
  next
    case None
    then have "manager_ready B k st sg1 m s1" "contexts_of sg1 (watches x @ ws) cs m s1" using x by simp_all
    from Cons.IH[OF this] obtain e' s' sg' L' before rest where
      r: "setup_run os xs m s1 = Some (e', s')" "xs = before @ rest" "mgr_holds B k (L' + context_blocks sg') st m s'"
      "contexts_of sg' (rev (watched before) @ watches x @ ws) cs m s'" "e' = None \<longleftrightarrow> rest = []"
      "\<exists>sb. setup_run os before m s1 = Some (None, sb)"
      "L' = {#} \<or> (\<exists>x ys. rest = x # ys \<and> left_timer x L' s')"
      by blast
    then show ?thesis using x(1) None
      by (intro exI[of _ e'] exI[of _ s'] exI[of _ sg'] exI[of _ L'] exI[of _ "x # before"] exI[of _ rest])
        (simp add: watched_def)
  qed
qed

lemma destroy_holds:
  fixes s :: "('c, 'z) tms"
  assumes h: "mgr_holds B k M st m s" and w: "m_initialized (mgr s) \<Longrightarrow> write_loop (os_write os) \<noteq> None"
  shows "\<exists>s'. tube_manager_destroy os (Some m) s = Some s' \<and> ndc_owns B k M st s' \<and> sig_contexts s' = sig_contexts s \<and>
    blocks s' (tm_self m) = None"
proof -
  obtain m' s' where f: "tube_manager_finalize os m s = Some (m', s')" "ndc_owns B k (add_mset (tm_self m) M) st s'"
    "sig_contexts s' = sig_contexts s"
    using tube_manager_finalize_owns[OF assms] by blast
  have "ndc_owns B k M st (ls_data_free (Some (tm_self m)) s')" by (rule ndc_owns_free[OF f(2)])
  moreover have "blocks (ls_data_free (Some (tm_self m)) s') (tm_self m) = None"
    by (simp add: ls_data_free_def split: option.split)
  ultimately show ?thesis using f by (auto simp: tube_manager_destroy_def)
qed

text \<open>A signal of a manager that was freed.\<close>

lemma signal_after_free:
  assumes "c \<in> set sg" "\<forall>c \<in> set sg. blocks s (sg_mgr c) = None"
  shows "tm_signal os (sg_sig c) (sg @ cs) s = None"
  using assms by (induction sg) auto

text \<open>C8: A manager that is created, set up and destroyed, before it has tubes: whichever allocations and
  system calls fail, nothing is freed twice or used after it was freed, and the blocks that stay behind are exactly these.
  Each successful call of \<open>tube_manager_signal\<close> leaves its context, which stays in the list of signal contexts and
  points to the freed manager: the signal, when it comes, is handed to that manager.  And when the call that
  failed was to schedule a timer, the timer may be left that was allocated and could not be queued.\<close>

theorem tube_manager_lifecycle:
  fixes s :: "('c, 'z) tms"
  assumes "mem_wf s" "ndc_depth s = int (length (ndc_stack s))"
    and "\<forall>a. timer_at s a \<noteq> None \<longrightarrow> blocks s a \<noteq> None"
    and "buckets < 2 ^ 30" "write_loop (os_write os) \<noteq> None"
  shows "\<exists>res s1. tube_manager_create os buckets s = Some (res, s1) \<and>
     (case res of
        Inl e \<Rightarrow> blocks s1 = blocks s \<and> faults s1 = faults s
      | Inr m \<Rightarrow> \<exists>err s2 s3 sg L before rest.
          setup_run os ops m s1 = Some (err, s2) \<and> tube_manager_destroy os (Some m) s2 = Some s3 \<and>
          faults s3 = faults s \<and> ndc_stack s3 = ndc_stack s \<and>
          ops = before @ rest \<and> (\<exists>sb. setup_run os before m s1 = Some (None, sb)) \<and> (err = None \<longleftrightarrow> rest = []) \<and>
          (\<forall>a. blocks s3 a \<noteq> blocks s a \<longleftrightarrow> a \<in> sg_self ` set sg \<or> a \<in># L) \<and>
          sig_contexts s3 = sg @ sig_contexts s \<and> map (\<lambda>c. (sg_sig c, sg_cb c)) sg = rev (watched before) \<and>
          distinct (map sg_self sg) \<and>
          (\<forall>c \<in> set sg. sg_mgr c = tm_self m \<and> tm_signal os (sg_sig c) (sig_contexts s3) s3 = None) \<and>
          (L = {#} \<or> (\<exists>x ys. rest = x # ys \<and> left_timer x L s2)))"
proof -
  let ?st = "ndc_stack s" and ?B = "blocks s"
  have o: "ndc_owns ?B (faults s) {#} ?st s" using assms(1,2) owns_start by (simp add: ndc_owns_def)
  obtain res s1 where c: "tube_manager_create os buckets s = Some (res, s1)"
    "case res of Inl e \<Rightarrow> ndc_owns ?B (faults s) {#} ?st s1
     | Inr m \<Rightarrow> mgr_holds ?B (faults s) {#} ?st m s1 \<and> (timer_at s1 = timer_at s \<and> sig_contexts s1 = sig_contexts s) \<and>
         fresh_queue s1 \<and> tm_dispatcher m \<noteq> None"
    using tube_manager_create_holds[OF o assms(4)] by blast
  show ?thesis
  proof (cases res)
    case (Inl e)
    then show ?thesis using c owns_empty by (auto simp: ndc_owns_def)
  next
    case (Inr m)
    then have "manager_ready ?B (faults s) ?st [] m s1" "contexts_of [] [] (sig_contexts s) m s1"
      using c(2) assms(3)
      by (auto simp: manager_ready_def fresh_queue_def timers_ok_def timers_placed_def contexts_of_def)
    from setup_run_ready[OF this, of os ops, unfolded append_Nil2] obtain err s2 sg L before rest where
      r: "setup_run os ops m s1 = Some (err, s2)" "ops = before @ rest" "mgr_holds ?B (faults s) (L + context_blocks sg) ?st m s2"
      "contexts_of sg (rev (watched before)) (sig_contexts s) m s2" "err = None \<longleftrightarrow> rest = []"
      "\<exists>sb. setup_run os before m s1 = Some (None, sb)"
      "L = {#} \<or> (\<exists>x ys. rest = x # ys \<and> left_timer x L s2)"
      by blast
    obtain s3 where d: "tube_manager_destroy os (Some m) s2 = Some s3" "ndc_owns ?B (faults s) (L + context_blocks sg) ?st s3"
      "sig_contexts s3 = sig_contexts s2" "blocks s3 (tm_self m) = None"
      using destroy_holds[OF r(3) assms(5)] by blast
    have ow: "owns ?B (faults s) (L + context_blocks sg) s3" "ndc_stack s3 = ndc_stack s" using d(2) by (simp_all add: ndc_owns_def)
    have blk: "blocks s3 a \<noteq> ?B a \<longleftrightarrow> a \<in> sg_self ` set sg \<or> a \<in># L" for a
      using ow(1) unfolding owns_def by (metis (no_types, lifting) in_image_mset set_mset_mset union_iff)
    have dist: "distinct (map sg_self sg)"
    proof -
      have le: "count (mset (map sg_self sg)) a \<le> 1" for a
        using ow(1) unfolding owns_def by (metis add_leD2 count_union mset_map)
      have "count (mset (map sg_self sg)) a = (if a \<in> set (map sg_self sg) then 1 else 0)" for a
        using le[of a] count_greater_zero_iff[of "mset (map sg_self sg)" a] not_in_iff[of a "mset (map sg_self sg)"]
        unfolding set_mset_mset by (metis One_nat_def le_antisym Suc_leI)
      then show ?thesis unfolding distinct_count_atmost_1 by blast
    qed
    have to_m: "\<forall>c \<in> set sg. sg_mgr c = tm_self m" "sig_contexts s3 = sg @ sig_contexts s"
      using r(4) d(3) by (simp_all add: contexts_of_def)
    have gone: "\<forall>c \<in> set sg. blocks s3 (sg_mgr c) = None" using to_m(1) d(4) by simp
    have sig: "sg_mgr c = tm_self m \<and> tm_signal os (sg_sig c) (sig_contexts s3) s3 = None" if "c \<in> set sg" for c
      unfolding to_m(2) using to_m(1) signal_after_free[OF that gone] that by simp
    have f: "faults s3 = faults s" using ow(1) by (simp add: owns_def)
    have watch: "map (\<lambda>c. (sg_sig c, sg_cb c)) sg = rev (watched before)" using r(4) by (simp add: contexts_of_def)
    have all_sig: "\<forall>c \<in> set sg. sg_mgr c = tm_self m \<and> tm_signal os (sg_sig c) (sig_contexts s3) s3 = None"
      using sig by blast
    have all_blk: "\<forall>a. blocks s3 a \<noteq> ?B a \<longleftrightarrow> a \<in> sg_self ` set sg \<or> a \<in># L" using blk by blast
    show ?thesis unfolding c(1) Inr
      by (rule exI[of _ "Inr m"], rule exI[of _ s1], intro conjI refl, simp only: sum.case,
        intro exI[of _ err] exI[of _ s2] exI[of _ s3] exI[of _ sg] exI[of _ L] exI[of _ before] exI[of _ rest] conjI
          r(1,2,5-7) d(1) f ow(2) all_blk to_m(2) watch dist all_sig)
  qed
qed

text \<open>A program that has allocated nothing yet.\<close>

definition at_start :: "(nat, unit) tms" where
  "at_start = tubemem.extend
     (evmem.extend (logmem.extend (logmem.truncate init_log) 
         \<lparr>binding_at = Map.empty, event_at = Map.empty, moment_at = Map.empty, calls = [], results = []\<rparr>)
       \<lparr>tube_at = Map.empty, pktinfo_at = Map.empty, sendmsg_fn = (\<lambda>n dg. (1, 0)), sent = []\<rparr>)
     \<lparr>mgr = zero_mgr, timer_at = Map.empty, sig_contexts = [], pipe_out = [], fired = []\<rparr>"

lemma tube_manager_lifecycle_witness:
  "\<exists>res s1. tube_manager_create good_os 0 at_start = Some (res, s1) \<and>
     (case res of
        Inl e \<Rightarrow> blocks s1 = blocks at_start \<and> faults s1 = faults at_start
      | Inr m \<Rightarrow> \<exists>err s2 s3 sg L before rest.
          setup_run good_os [Bind_event ((0, 0), ascii ''loopstart'') 1, Watch_signal 10 1, Open_sockets 1402, Schedule_ms 5000 2 0] m s1 =
            Some (err, s2) \<and> tube_manager_destroy good_os (Some m) s2 = Some s3 \<and>
          faults s3 = faults at_start \<and> ndc_stack s3 = ndc_stack at_start \<and>
          [Bind_event ((0, 0), ascii ''loopstart'') 1, Watch_signal 10 1, Open_sockets 1402, Schedule_ms 5000 2 0] = before @ rest \<and>
          (\<exists>sb. setup_run good_os before m s1 = Some (None, sb)) \<and> (err = None \<longleftrightarrow> rest = []) \<and>
          (\<forall>a. blocks s3 a \<noteq> blocks at_start a \<longleftrightarrow> a \<in> sg_self ` set sg \<or> a \<in># L) \<and>
          sig_contexts s3 = sg @ sig_contexts at_start \<and> map (\<lambda>c. (sg_sig c, sg_cb c)) sg = rev (watched before) \<and>
          distinct (map sg_self sg) \<and>
          (\<forall>c \<in> set sg. sg_mgr c = tm_self m \<and> tm_signal good_os (sg_sig c) (sig_contexts s3) s3 = None) \<and>
          (L = {#} \<or> (\<exists>x ys. rest = x # ys \<and> left_timer x L s2)))"
  by (rule tube_manager_lifecycle)
    (simp_all add: at_start_def tubemem.defs evmem.defs logmem.defs init_log_def mem.defs init_mem_def mem_wf_def
      good_os_def)

end
