(* ===== verification/Tube_Data.thy ===== *)
theory Tube_Data
  imports Tube_Props Ls_Pool_Props Ls_Htable_Props
begin

text \<open>
  \<open>tube_data\<close> of \<open>src/tube.c\<close>: the map it builds in a pool of its own, what becomes of the pool, and what
  the peer reads from the datagram.

  The CBOR library is known by its laws: it takes its memory from the allocator of the context it is given
  and writes only into that, it fails only when that allocator does, and the map of one byte string is
  encoded in bounds and read back from its encoding.
\<close>

section \<open>Pools without cleaners of their users\<close>

definition plain_pool :: "'s pool \<Rightarrow> bool" where
  "plain_pool p \<longleftrightarrow> (\<forall>c \<in> set (p_cleaners p). cc_cleaner c = Free_page \<or> cc_cleaner c = Data_free)"

lemma mem_grows_write [simp]: "mem_grows m (write_bytes p bs m)" "mem_grows m (fault m)"
  by (auto simp: mem_grows_def write_bytes_def fault_def split: prod.split option.split)

lemma mem_grows_after_free [simp]: "mem_grows m (ls_data_free p x) = mem_grows m x"
  by (auto simp: mem_grows_def ls_data_free_def fault_def split: option.split)

lemma malloc_fnc_grows: "malloc_fnc n m = (r, m') \<Longrightarrow> mem_grows m m'"
  by (auto simp: malloc_fnc_def dest!: malloc_mem_grows split: prod.splits option.splits)

lemma add_cleaner_grows:
  "ls_pool_add_cleaner p cb arg m = (r, m') \<Longrightarrow> mem_grows m m' \<and>
   (\<forall>p'. r = Inr p' \<longrightarrow> plain_pool p \<longrightarrow> cb = Free_page \<or> cb = Data_free \<longrightarrow> plain_pool p')"
  by (auto simp: ls_pool_add_cleaner_def plain_pool_def dest!: malloc_fnc_grows split: prod.splits sum.splits)

lemma malloc_fnc_cleaner_grows:
  "malloc_fnc_cleaner p n Data_free m = (r, m') \<Longrightarrow> mem_grows m m' \<and>
   (\<forall>a p'. r = Inr (a, p') \<longrightarrow> plain_pool p \<longrightarrow> plain_pool p')"
  by (auto simp: malloc_fnc_cleaner_def dest!: malloc_fnc_grows add_cleaner_grows split: prod.splits sum.splits
      intro: mem_grows_trans)

lemma add_page_grows:
  "add_page p m = (r, m') \<Longrightarrow> mem_grows m m' \<and> (\<forall>p'. r = Inr p' \<longrightarrow> plain_pool p \<longrightarrow> plain_pool p')"
  by (auto simp: add_page_def plain_pool_def dest!: malloc_fnc_grows add_cleaner_grows split: prod.splits sum.splits
      intro: mem_grows_trans)

lemma pool_malloc_grows:
  assumes "ls_pool_malloc p n m = (r, p', m')"
  shows "mem_grows m m' \<and> (plain_pool p \<longrightarrow> plain_pool p')"
  using assms
  by (auto simp: ls_pool_malloc_def plain_pool_def dest!: malloc_fnc_cleaner_grows add_page_grows
      split: prod.splits sum.splits list.splits option.splits if_splits intro: mem_grows_trans)

lemma pool_create_grows:
  "ls_pool_create n m = (r, m') \<Longrightarrow> mem_grows m m' \<and> (\<forall>p. r = Inr p \<longrightarrow> plain_pool p)"
  by (auto simp: ls_pool_create_def Let_def dest!: malloc_fnc_grows add_page_grows
      split: prod.splits sum.splits if_splits intro: mem_grows_trans) (simp_all add: plain_pool_def)

lemma plain_cleaners_grow:
  "\<forall>c \<in> set cs. cc_cleaner c = Free_page \<or> cc_cleaner c = Data_free \<Longrightarrow> mem_grows m (destroy_cleaners pages cs m)"
proof (induction cs arbitrary: m)
  case (Cons c cs)
  have "mem_grows m (run_cleaner pages c m)"
    using Cons.prems by (auto simp: run_cleaner_def free_page_def split: option.split)
  then have "mem_grows m (ls_data_free (Some (cc_self c)) (run_cleaner pages c m))" by simp
  from mem_grows_trans[OF this Cons.IH] show ?case using Cons.prems by simp
qed simp

lemma pool_destroy_grows: "plain_pool p \<Longrightarrow> mem_grows m (ls_pool_destroy p m)"
  by (simp add: ls_pool_destroy_def plain_pool_def plain_cleaners_grow)

section \<open>Allocating through a context\<close>

lemma grows_heap_and_log: "mem_grows s s' \<Longrightarrow> heap_and_log s s'" for s :: "'z logmem_scheme"
  by (cases s; cases s') (simp add: mem_grows_def heap_and_log_def)

section \<open>Allocations that were refused\<close>

text \<open>One of the allocations between two states was made when the allocator does not serve every request: when
  memory is available at each of them, none was refused.\<close>

definition refused :: "'z mem_scheme \<Rightarrow> 'z mem_scheme \<Rightarrow> bool" where
  "refused m m' \<longleftrightarrow> (\<exists>k n. n_calls m \<le> k \<and> k < n_calls m' \<and> \<not> malloc_func m k n)"

definition counts :: "'z mem_scheme \<Rightarrow> 'z mem_scheme \<Rightarrow> bool" where
  "counts m m' \<longleftrightarrow> n_calls m \<le> n_calls m' \<and> malloc_func m' = malloc_func m"

lemma counts_refl [simp]: "counts m m"
  by (simp add: counts_def)

lemma counts_trans: "counts a b \<Longrightarrow> counts b c \<Longrightarrow> counts a c"
  by (simp add: counts_def)

lemma refused_trans:
  "refused a b \<Longrightarrow> counts b c \<Longrightarrow> refused a c"
  "counts a b \<Longrightarrow> refused b c \<Longrightarrow> refused a c"
  unfolding refused_def counts_def by (metis order_less_le_trans) (metis le_trans)

lemma refused_available: "\<forall>k n. malloc_func m k n \<Longrightarrow> \<not> refused m m'"
  by (simp add: refused_def)

text \<open>What an operation does to the count of the allocations; with \<open>False\<close> as its first argument, one was refused.\<close>

definition serves :: "bool \<Rightarrow> 'z mem_scheme \<Rightarrow> 'z mem_scheme \<Rightarrow> bool" where
  "serves ok m m' \<longleftrightarrow> counts m m' \<and> (ok \<or> refused m m')"

lemma serves_trans: "serves ok a b \<Longrightarrow> serves ok' b c \<Longrightarrow> serves (ok \<and> ok') a c"
  unfolding serves_def using counts_trans refused_trans by blast

lemma serves_True: "serves True m m' \<longleftrightarrow> counts m m'"
  by (simp add: serves_def)

lemma serves_after: "serves ok a b \<Longrightarrow> counts b c \<Longrightarrow> serves ok a c"
  using serves_trans[of ok a b True c] by (simp add: serves_True)

lemma serves_before: "counts a b \<Longrightarrow> serves ok b c \<Longrightarrow> serves ok a c"
  using serves_trans[of True a b ok c] by (simp add: serves_True)

lemma counts_memory [simp]:
  "counts m (ls_data_free p x) = counts m x" "counts m (write_bytes q bs x) = counts m x" "counts m (fault x) = counts m x"
  by (auto simp: counts_def ls_data_free_def write_bytes_def fault_def split: option.split prod.split)

lemma serves_memory [simp]:
  "serves ok m (ls_data_free p x) = serves ok m x" "serves ok m (write_bytes q bs x) = serves ok m x"
  by (auto simp: serves_def refused_def counts_def ls_data_free_def write_bytes_def fault_def split: option.split prod.split)

lemma counts_ls_log [simp]: "counts m (ls_log l t x) = counts m x" for m :: "'z logmem_scheme"
  by (simp add: counts_def ls_log_def split: option.split)

lemma malloc_serves: "ls_data_malloc n m = (r, m') \<Longrightarrow> serves (r \<noteq> None) m m'"
  by (auto simp: ls_data_malloc_def Let_def serves_def refused_def counts_def split: if_splits)

lemma calloc_serves: "ls_data_calloc k n m = (r, m') \<Longrightarrow> serves (r \<noteq> None) m m'"
  by (auto simp: ls_data_calloc_def Let_def dest!: malloc_serves split: prod.splits option.splits)

lemma malloc_fnc_serves: "malloc_fnc n m = (r, m') \<Longrightarrow> serves (\<not> isl r) m m'"
  by (auto simp: malloc_fnc_def dest!: malloc_serves split: prod.splits option.splits)

lemma add_cleaner_serves: "ls_pool_add_cleaner p cb arg m = (r, m') \<Longrightarrow> serves (\<not> isl r) m m'"
  by (auto simp: ls_pool_add_cleaner_def dest!: malloc_fnc_serves split: prod.splits sum.splits)

lemma malloc_fnc_cleaner_serves: "malloc_fnc_cleaner p n c m = (r, m') \<Longrightarrow> serves (\<not> isl r) m m'"
  by (auto simp: malloc_fnc_cleaner_def dest!: malloc_fnc_serves add_cleaner_serves split: prod.splits sum.splits
      dest: serves_trans)

lemma add_page_serves: "add_page p m = (r, m') \<Longrightarrow> serves (\<not> isl r) m m'"
  by (auto simp: add_page_def dest!: malloc_fnc_serves add_cleaner_serves split: prod.splits sum.splits dest: serves_trans)

lemma pool_create_serves: "ls_pool_create n m = (r, m') \<Longrightarrow> serves (\<not> isl r) m m'"
  by (auto simp: ls_pool_create_def Let_def dest!: malloc_fnc_serves add_page_serves split: prod.splits sum.splits if_splits
      dest: serves_trans)

lemma destroy_cleaners_counts: "\<forall>c \<in> set cs. cc_cleaner c = Free_page \<or> cc_cleaner c = Data_free \<Longrightarrow>
    counts m (destroy_cleaners pages cs x) = counts m x"
proof (induction cs arbitrary: x)
  case (Cons c cs)
  have "counts m (run_cleaner pages c x) = counts m x"
    using Cons.prems by (auto simp: run_cleaner_def free_page_def split: option.splits)
  then show ?case using Cons by simp
qed simp

lemma pool_destroy_counts: "plain_pool p \<Longrightarrow> counts m (ls_pool_destroy p x) = counts m x"
  by (simp add: ls_pool_destroy_def plain_pool_def destroy_cleaners_counts)

text \<open>A pool in order serves every request for which the allocator has memory.\<close>

lemma pool_malloc_serves:
  assumes "pool_shape p m" "0 < n" "ls_pool_malloc p n m = (r, p', m')"
  shows "serves (\<not> isl r) m m' \<and> r \<noteq> Inr None"
proof (cases "p_page_size p < n")
  case True
  then show ?thesis using assms
    by (auto simp: ls_pool_malloc_def dest!: malloc_fnc_cleaner_serves split: prod.splits sum.splits)
next
  case False
  then obtain pg rest where pages: "p_pages p = pg # rest" using assms(1,2) by (cases "p_pages p") (auto simp: pool_shape_def)
  have fits: "page_malloc \<lparr>pg_self = x, pg_block = y, pg_size = p_page_size p, pg_used = 0\<rparr> n \<noteq> None" for x y
    using False assms(1) by (simp add: page_malloc_def pool_shape_def size_sub_def)
  show ?thesis
  proof (cases "page_malloc pg n")
    case (Some a)
    then show ?thesis using assms False pages by (auto simp: ls_pool_malloc_def serves_True split: prod.splits)
  next
    case None
    obtain q m1 where a: "add_page p m = (q, m1)" by fastforce
    note s = add_page_serves[OF a]
    show ?thesis
    proof (cases q)
      case (Inl e)
      then show ?thesis using assms False pages None a s by (auto simp: ls_pool_malloc_def)
    next
      case (Inr p1)
      then obtain x y where "hd (p_pages p1) = \<lparr>pg_self = x, pg_block = y, pg_size = p_page_size p, pg_used = 0\<rparr>" "p_pages p1 \<noteq> []"
        using a by (auto simp: add_page_def split: prod.splits sum.splits)
      then obtain rest1 where "p_pages p1 = \<lparr>pg_self = x, pg_block = y, pg_size = p_page_size p, pg_used = 0\<rparr> # rest1"
        by (cases "p_pages p1") auto
      then show ?thesis using assms False pages None a s Inr fits[of x y]
        by (auto simp: ls_pool_malloc_def split: option.splits)
    qed
  qed
qed

section \<open>The library of the maps\<close>

text \<open>The memory that a pool handed out: its pages, and the blocks of their own of the large requests.\<close>

definition handed_out :: "('z mem_scheme) pool \<Rightarrow> addr set" where
  "handed_out p = pg_block ` set (p_pages p) \<union> cc_arg ` {c \<in> set (p_cleaners p). cc_cleaner c = Data_free}"

text \<open>A run of a function of the library: it asks the allocator it was given, and writes into the memory it
  got from it.  The first argument says that every request was served.\<close>

inductive lib_run ::
  "bool \<Rightarrow> ('z logmem_scheme) pool \<times> 'z logmem_scheme \<Rightarrow> ('z logmem_scheme) pool \<times> 'z logmem_scheme \<Rightarrow> bool" where
  lib_start: "lib_run True x x"
| lib_alloc: "lib_run ok x (p, s) \<Longrightarrow> 0 < n * k \<Longrightarrow> n * k < 2 ^ 64 \<Longrightarrow> pool_calloc n k p s = (r, y) \<Longrightarrow> lib_run (ok \<and> r \<noteq> None) x y"
| lib_write: "lib_run ok x (p, s) \<Longrightarrow> b \<in> handed_out p \<Longrightarrow> blocks s b = Some old \<Longrightarrow> off + length bs \<le> length old \<Longrightarrow>
    lib_run ok x (p, write_bytes (b, off) bs s)"

text \<open>A function of the library that gets all its memory from the allocator it is given, and fails only
  when that has no memory.\<close>

definition only_allocates ::
  "(('z logmem_scheme) pool \<Rightarrow> 'z logmem_scheme \<Rightarrow> 'x option \<times> ('z logmem_scheme) pool \<times> 'z logmem_scheme) \<Rightarrow> bool" where
  "only_allocates f \<longleftrightarrow> (\<forall>p s x y. f p s = (x, y) \<longrightarrow> (\<exists>ok. lib_run ok (p, s) y \<and> (x = None \<longrightarrow> \<not> ok)))"

text \<open>The values that \<open>tube_data\<close> has the library build.\<close>

definition new_map :: "('c, 'z logmem_scheme) cbor_lib \<Rightarrow> 'c \<Rightarrow> bool" where
  "new_map lib m \<longleftrightarrow> (\<exists>p s y. cn_cbor_map_create lib pool_calloc p s = (Some m, y))"

definition new_data :: "('c, 'z logmem_scheme) cbor_lib \<Rightarrow> u8 list \<Rightarrow> 'c \<Rightarrow> bool" where
  "new_data lib data d \<longleftrightarrow> (\<exists>p s y. cn_cbor_data_create lib data pool_calloc p s = (Some d, y))"

definition data_map :: "('c, 'z logmem_scheme) cbor_lib \<Rightarrow> u8 list \<Rightarrow> 'c \<Rightarrow> bool" where
  "data_map lib data m' \<longleftrightarrow>
     (\<exists>m d p s y. new_map lib m \<and> new_data lib data d \<and> cn_cbor_mapput_int lib m 0 d pool_calloc p s = (Some m', y))"

definition cbor_allocates :: "('c, 'z logmem_scheme) cbor_lib \<Rightarrow> bool" where
  "cbor_allocates lib \<longleftrightarrow>
     only_allocates (cn_cbor_map_create lib pool_calloc) \<and>
     (\<forall>data. only_allocates (cn_cbor_data_create lib data pool_calloc)) \<and>
     (\<forall>data m d. new_map lib m \<longrightarrow> new_data lib data d \<longrightarrow> only_allocates (cn_cbor_mapput_int lib m 0 d pool_calloc))"

text \<open>The encodings that a datagram has room for.\<close>

definition data_encoding :: "('c, 'z logmem_scheme) cbor_lib \<Rightarrow> u8 list \<Rightarrow> u8 list \<Rightarrow> bool" where
  "data_encoding lib data buf \<longleftrightarrow> (\<exists>m. data_map lib data m \<and> cn_cbor_encoder_write lib MAXBUFLEN m = Some buf)"

text \<open>A map of one byte string is encoded in the bytes of the string and a preamble of at most 19 bytes.\<close>

definition PREAMBLE :: nat where "PREAMBLE = 19"

definition cbor_encodes :: "('c, 'z logmem_scheme) cbor_lib \<Rightarrow> bool" where
  "cbor_encodes lib \<longleftrightarrow>
     (\<forall>data m. data_map lib data m \<longrightarrow> length data + PREAMBLE \<le> MAXBUFLEN \<longrightarrow> cn_cbor_encoder_write lib MAXBUFLEN m \<noteq> None)"

text \<open>What was encoded is decoded by a receiver that has memory: the map has the byte string under the key 0.\<close>

definition cbor_reads :: "('c, 'z logmem_scheme) cbor_lib \<Rightarrow> 'c cbor_reader \<Rightarrow> bool" where
  "cbor_reads lib rd \<longleftrightarrow>
     (\<forall>data buf z. data_encoding lib data buf \<longrightarrow> (\<forall>k n. malloc_func z k n) \<longrightarrow>
        buf \<noteq> [] \<and>
        (\<exists>c v z'. cn_cbor_decode lib buf z = (Inr c, z') \<and> cn_cbor_mapget_int rd c 0 = Some v \<and>
           cn_cbor_str rd v = Some data \<and> cn_cbor_length rd v = length data))"

section \<open>The pool of a map\<close>

text \<open>The pool of a map, with what the heap was before it.\<close>

definition pool_kept ::
  "'z logmem_scheme \<Rightarrow> bool \<Rightarrow> ('z logmem_scheme) pool \<times> 'z logmem_scheme \<Rightarrow> bool" where
  "pool_kept s0 ok x \<longleftrightarrow>
     pool_inv (blocks s0) (faults s0) (fst x) (snd x) \<and> plain_pool (fst x) \<and> heap_and_log s0 (snd x) \<and> serves ok s0 (snd x)"

lemma pool_inv_log [simp]: "pool_inv B k p (ls_log l t s) = pool_inv B k p s"
  by (simp add: pool_inv_def pool_shape_def page_ok_def owns_def mem_wf_def)

lemma alloc_kept:
  assumes kept: "pool_kept s0 ok (p, s)" and sz: "0 < n * k" "n * k < 2 ^ 64" and c: "pool_calloc n k p s = (r, y)"
  shows "pool_kept s0 (ok \<and> r \<noteq> None) y"
proof -
  obtain r1 p1 s1 where r1: "ls_pool_calloc p n k s = (r1, p1, s1)" by (rule prod_cases3)
  have "op_ok (Pool_calloc n k)" by simp
  then have inv: "pool_inv (blocks s0) (faults s0) p1 s1"
    using pool_run_ok[of "blocks s0" "faults s0" p s "[Pool_calloc n k]"] kept r1 by (simp add: pool_kept_def)
  obtain r2 p2 s2 where r2: "ls_pool_malloc p (n * k) s = (r2, p2, s2)" by (rule prod_cases3)
  have size: "size_mult n k = n * k" using sz(2) by (simp add: size_mult_def)
  have "pool_shape p s" using kept by (simp add: pool_kept_def pool_inv_def)
  note m = pool_malloc_serves[OF this sz(1) r2] and g = pool_malloc_grows[OF r2]
  have s1: "p1 = p2" "s1 = s2 \<or> (\<exists>q bs. s1 = write_bytes q bs s2)" "isl r1 = isl r2" "r1 \<noteq> Inr None"
    using r1 r2 m sz size by (auto simp: ls_pool_calloc_def Let_def split: sum.splits option.splits)
  have "serves (\<not> isl r1) s s1" using m s1 by auto
  moreover have g1: "mem_grows s s1" "plain_pool p1"
    using g kept s1 mem_grows_trans[OF _ mem_grows_write(1)] by (auto simp: pool_kept_def)
  moreover have "heap_and_log s0 s1"
    using kept heap_and_log_trans[OF _ grows_heap_and_log[OF g1(1)]] by (simp add: pool_kept_def)
  moreover have "serves ok s0 s" using kept by (simp add: pool_kept_def)
  ultimately have "pool_kept s0 (ok \<and> \<not> isl r1) (p1, s1)" using inv serves_trans by (fastforce simp: pool_kept_def)
  then show ?thesis using c r1 s1(4)
    by (auto simp: pool_calloc_def pool_kept_def LS_LOG_ERR_def serves_after split: sum.splits option.splits)
qed

lemma in_sum_list: "c \<in> set cs \<Longrightarrow> x \<in># f c \<Longrightarrow> x \<in># sum_list (map f cs)"
  by (induction cs) auto

lemma handed_out_owned:
  assumes "pool_shape p s" "b \<in> handed_out p"
  shows "b \<in># owned p"
proof -
  have "b \<in># owned p" if "c \<in> set (p_cleaners p)" "cc_cleaner c = Data_free" "b = cc_arg c" for c
    using in_sum_list[OF that(1), of b "owned_ctx (p_pages p)"] that(2,3) by (simp add: owned_def owned_ctx_def)
  then show ?thesis using assms by (auto simp: handed_out_def pool_shape_def page_ok_def)
qed

lemma lib_run_kept: "lib_run ok x y \<Longrightarrow> pool_kept s0 ok' x \<Longrightarrow> pool_kept s0 (ok' \<and> ok) y"
proof (induction rule: lib_run.induct)
  case (lib_alloc ok x p s n k r y)
  then show ?case using alloc_kept[of s0 "ok' \<and> ok" p s n k r y] by simp
next
  case (lib_write ok x p s b old off bs)
  then have k: "pool_kept s0 (ok' \<and> ok) (p, s)" by simp
  then have "b \<in># owned p" using handed_out_owned lib_write.hyps(2) by (auto simp: pool_kept_def pool_inv_def)
  moreover have "pool_inv (blocks s0) (faults s0) p s" using k by (simp add: pool_kept_def)
  ultimately have "pool_inv (blocks s0) (faults s0) p (write_bytes (b, off) bs s)"
    using pool_inv_write[OF _ _ lib_write.hyps(3,4)] by blast
  moreover have "heap_and_log s (write_bytes (b, off) bs s)" by (rule grows_heap_and_log[OF mem_grows_write(1)])
  ultimately show ?case using k heap_and_log_trans[of s0 s "write_bytes (b, off) bs s"] by (simp add: pool_kept_def)
qed simp

lemma only_allocates_kept:
  assumes "only_allocates f" "pool_kept s0 True (p, s)" "f p s = (x, p', s')"
  shows "pool_kept s0 (x \<noteq> None) (p', s')"
proof -
  obtain ok where "lib_run ok (p, s) (p', s')" "x = None \<longrightarrow> \<not> ok" using assms(1,3) by (fastforce simp: only_allocates_def)
  then have "pool_kept s0 ok (p', s')" "x = None \<longrightarrow> \<not> ok" using lib_run_kept[OF _ assms(2)] by simp_all
  then show ?thesis by (auto simp: pool_kept_def serves_def)
qed

lemma pool_kept_destroy:
  assumes "pool_kept s0 ok (p, s)"
  shows "blocks (ls_pool_destroy p s) = blocks s0 \<and> faults (ls_pool_destroy p s) = faults s0 \<and>
    heap_and_log s0 (ls_pool_destroy p s) \<and> mem_wf (ls_pool_destroy p s) \<and> (\<not> ok \<longrightarrow> refused s0 (ls_pool_destroy p s))"
proof -
  have inv: "pool_inv (blocks s0) (faults s0) p s" and p: "plain_pool p" "heap_and_log s0 s" "serves ok s0 s"
    using assms by (simp_all add: pool_kept_def)
  then have "heap_and_log s0 (ls_pool_destroy p s)"
    by (intro heap_and_log_trans[OF _ grows_heap_and_log[OF pool_destroy_grows]])
  moreover have "serves ok s0 (ls_pool_destroy p s)"
    using serves_after[OF p(3), of "ls_pool_destroy p s"] pool_destroy_counts[OF p(1), of s s] by simp
  ultimately show ?thesis using owns_empty[OF pool_destroy_owns[OF inv]] owns_wf[OF pool_destroy_owns[OF inv]]
    by (auto simp: serves_def)
qed

section \<open>Sending data\<close>

text \<open>What a call of \<open>tube_data\<close> does but for the heap and the log: nothing, when an allocation is refused or
  the datagram has no room for the data, or one datagram.\<close>

definition data_datagram ::
  "('c, ('d, 'z) tubemem_scheme) cbor_lib \<Rightarrow> tube \<Rightarrow> u8 list \<Rightarrow> (errcode + unit) \<Rightarrow>
   ('d, 'z) tubemem_scheme \<Rightarrow> datagram \<Rightarrow> bool" where
  "data_datagram lib x data r s dg \<longleftrightarrow>
     dg_sock dg = tb_sock x \<and> dg_dest dg = tb_peer x \<and>
     dg_control dg = map_option (\<lambda>p. ls_pktinfo_cmsg p 0) (Option.bind (tb_pktinfo x) (pktinfo_at s)) \<and>
     (case sendmsg_fn s (length (sent s)) dg of (ret, errno) \<Rightarrow> r = (if ret \<le> 0 then Inl (- errno) else Inr ())) \<and>
     (\<exists>body h. (if data = [] then body = [] else data_encoding lib data body) \<and>
        tube_id h = tb_id x \<and> magic h = SpudMagicCookie \<and> flags h = sent_flags SPUD_DATA False False \<and>
        concat (dg_iov dg) = header_bytes h @ body)"

definition sends_data ::
  "('c, ('d, 'z) tubemem_scheme) cbor_lib \<Rightarrow> tube \<Rightarrow> u8 list \<Rightarrow> (errcode + unit) \<Rightarrow>
   ('d, 'z) tubemem_scheme \<Rightarrow> ('d, 'z) tubemem_scheme \<Rightarrow> bool" where
  "sends_data lib x data r s s' \<longleftrightarrow>
     r = Inl LS_ERR_NO_MEMORY \<and> refused s s' \<and> heap_and_log s s' \<or>
     r = Inl LS_ERR_OVERFLOW \<and> data \<noteq> [] \<and> MAXBUFLEN < length data + PREAMBLE \<and> heap_and_log s s' \<or>
     (\<exists>dg. data_datagram lib x data r s dg \<and> heap_and_log (s\<lparr>sent := sent s @ [dg]\<rparr>) s')"

lemma heap_and_log_sent:
  fixes s :: "('d, 'z) tubemem_scheme"
  assumes "heap_and_log s s1"
  shows "tube_at s1 = tube_at s" "sent s1 = sent s" "sendmsg_fn s1 = sendmsg_fn s" "pktinfo_at s1 = pktinfo_at s"
    "heap_and_log (s\<lparr>sent := l\<rparr>) (s1\<lparr>sent := l\<rparr>)"
  using assms by (cases s; cases s1; simp add: heap_and_log_def)+

lemma tube_send_counts:
  assumes "tube_at s t = Some x" "tube_send t cmd adec pdec data s = (r, s')"
  shows "serves (fst (ls_data_calloc (length data + 1) sizeof_iovec s) \<noteq> None) s s'"
proof -
  obtain p s1 where c: "ls_data_calloc (length data + 1) sizeof_iovec s = (p, s1)" by fastforce
  note c1 = calloc_serves[OF c]
  show ?thesis
  proof (cases p)
    case None
    then show ?thesis using assms(2) c c1 by (simp add: tube_send_def)
  next
    case (Some a)
    have "tube_at s1 t = Some x" using assms(1) c Some by (auto dest!: ls_data_calloc_Some)
    moreover have "serves True s (s1\<lparr>sent := l\<rparr>)" for l using c1 Some by (simp add: serves_def counts_def)
    ultimately show ?thesis using assms(2) c Some
      by (auto simp: tube_send_def spud_init_def spud_set_id_def raw_header_def tube_manager_sendmsg_def Let_def
          split: prod.splits if_splits)
  qed
qed

lemma sends_data_after:
  "sends_data lib x data r s s1 \<Longrightarrow> heap_and_log s1 s2 \<Longrightarrow> counts s1 s2 \<Longrightarrow> sends_data lib x data r s s2"
  unfolding sends_data_def using heap_and_log_trans refused_trans(1) by blast

lemma tube_send_data:
  fixes s :: "('d, 'z) tubemem_scheme"
  assumes "heap_and_log s s1" "counts s s1" "tube_at s t = Some x" "mem_wf s1"
    and send: "tube_send t SPUD_DATA False False data s1 = (r, s')"
    and enc: "if bytes = [] then concat data = [] else data_encoding lib bytes (concat data)"
  shows "blocks s' = blocks s1 \<and> faults s' = faults s1 \<and> mem_wf s' \<and> sends_data lib x bytes r s s'"
proof -
  note k = heap_and_log_sent[OF assms(1)]
  have t: "tube_at s1 t = Some x" using assms(3) k(1) by simp
  note d = tube_send_datagram[OF t assms(4) send] and c = tube_send_counts[OF t send]
  then show ?thesis
  proof (elim conjE disjE exE)
    fix dg h
    assume f: "heap_and_log (s1\<lparr>sent := sent s1 @ [dg]\<rparr>) s'" "blocks s' = blocks s1" "faults s' = faults s1" "mem_wf s'"
      "dg_sock dg = tb_sock x" "dg_dest dg = tb_peer x" "tube_id h = tb_id x" "magic h = SpudMagicCookie"
      "flags h = sent_flags SPUD_DATA False False" "concat (dg_iov dg) = header_bytes h @ concat data"
      "dg_control dg = map_option (\<lambda>p. ls_pktinfo_cmsg p 0) (Option.bind (tb_pktinfo x) (pktinfo_at s1))"
      "case sendmsg_fn s1 (length (sent s1)) dg of (ret, errno) \<Rightarrow> r = (if ret \<le> 0 then Inl (- errno) else Inr ())"
    have "heap_and_log (s\<lparr>sent := sent s @ [dg]\<rparr>) s'" using heap_and_log_trans[OF k(5) f(1)] k(2) by simp
    moreover have "data_datagram lib x bytes r s dg"
      using f k(2-4) enc unfolding data_datagram_def
      by (intro conjI exI[of _ "concat data"] exI[of _ h]) (simp_all del: concat_eq_Nil_conv)
    ultimately show ?thesis using f(2-4) unfolding sends_data_def by blast
  next
    assume f: "fst (ls_data_calloc (length data + 1) sizeof_iovec s1) = None" "r = Inl LS_ERR_NO_MEMORY" "heap_and_log s1 s'"
      "blocks s' = blocks s1" "faults s' = faults s1" "mem_wf s'"
    have "refused s s'" using c f(1) refused_trans(2)[OF assms(2)] by (simp add: serves_def)
    then show ?thesis using f heap_and_log_trans[OF assms(1)] by (simp add: sends_data_def)
  qed
qed

lemma tube_data_sends:
  fixes s :: "('d, 'z) tubemem_scheme"
  assumes lib: "cbor_allocates lib" "cbor_encodes lib" and t: "tube_at s t = Some x" and wf: "mem_wf s"
    and r: "tube_data lib t data s = (r, s')"
  shows "blocks s' = blocks s \<and> faults s' = faults s \<and> mem_wf s' \<and> sends_data lib x data r s s'"
proof (cases "data = []")
  case True
  then have "tube_send t SPUD_DATA False False [] s = (r, s')" using r by (simp add: tube_data_def)
  from tube_send_data[OF _ _ t wf this, of data lib] True show ?thesis by simp
next
  case False
  obtain c s1 where c: "ls_pool_create 128 s = (c, s1)" by fastforce
  have sz: "(128 :: nat) < 2 ^ 64" by simp
  note cs = pool_create_serves[OF c] and ch = grows_heap_and_log[OF conjunct1[OF pool_create_grows[OF c]]]
  show ?thesis
  proof (cases c)
    case (Inl e)
    then have "r = Inl e" "s' = s1" using r False c by (simp_all add: tube_data_def map_create_def)
    moreover have "e = LS_ERR_NO_MEMORY \<and> blocks s1 = blocks s \<and> faults s1 = faults s \<and> mem_wf s1"
      by (rule ls_pool_create_ok(2)[OF wf sz c[unfolded Inl]])
    ultimately show ?thesis using cs ch Inl by (simp add: sends_data_def serves_def)
  next
    case (Inr p)
    have k0: "pool_kept s True (p, s1)"
      using ls_pool_create_ok(1)[OF wf sz c[unfolded Inr]] pool_create_grows[OF c] ch cs Inr by (simp add: pool_kept_def)
    have destroyed: ?thesis if "pool_kept s False (q, z)" "r = Inl LS_ERR_NO_MEMORY" "s' = ls_pool_destroy q z" for q z
      using pool_kept_destroy[OF that(1)] that(2,3) by (simp add: sends_data_def)
    obtain m p1 s2 where m: "cn_cbor_map_create lib pool_calloc p s1 = (m, p1, s2)" by (rule prod_cases3)
    have oa: "only_allocates (cn_cbor_map_create lib pool_calloc)" "only_allocates (cn_cbor_data_create lib data pool_calloc)"
      using lib(1) by (simp_all add: cbor_allocates_def)
    note k1 = only_allocates_kept[OF oa(1) k0 m]
    show ?thesis
    proof (cases m)
      case None
      then show ?thesis using r False c Inr m k1 by (intro destroyed[of p1 s2]) (simp_all add: tube_data_def map_create_def)
    next
      case (Some mp)
      then have k1: "pool_kept s True (p1, s2)" using k1 by simp
      obtain d p2 s3 where d: "cn_cbor_data_create lib data pool_calloc p1 s2 = (d, p2, s3)" by (rule prod_cases3)
      note k2 = only_allocates_kept[OF oa(2) k1 d]
      show ?thesis
      proof (cases d)
        case None
        then show ?thesis using r False c Inr m Some d k2
          by (intro destroyed[of p2 s3]) (simp_all add: tube_data_def map_create_def)
      next
        case (Some cd)
        then have k2: "pool_kept s True (p2, s3)" using k2 by simp
        have built: "new_map lib mp" "new_data lib data cd"
          unfolding new_map_def new_data_def using m \<open>m = Some mp\<close> d Some by blast+
        then have oa3: "only_allocates (cn_cbor_mapput_int lib mp 0 cd pool_calloc)"
          using lib(1) unfolding cbor_allocates_def by blast
        obtain m2 p3 s4 where m2: "cn_cbor_mapput_int lib mp 0 cd pool_calloc p2 s3 = (m2, p3, s4)" by (rule prod_cases3)
        note k3 = only_allocates_kept[OF oa3 k2 m2]
        note steps = False c Inr m \<open>m = Some mp\<close> d Some m2
        show ?thesis
        proof (cases m2)
          case None
          then show ?thesis using r steps k3 by (intro destroyed[of p3 s4]) (simp_all add: tube_data_def map_create_def)
        next
          case (Some mm)
          obtain r1 s5 where snd: "tube_send_cbor lib t SPUD_DATA False False mm s4 = (r1, s5)" by fastforce
          have rs: "r = r1" "s' = ls_pool_destroy p3 s5" using r steps Some snd by (simp_all add: tube_data_def map_create_def)
          have hl: "heap_and_log s s4" "counts s s4" "plain_pool p3" and inv: "pool_inv (blocks s) (faults s) p3 s4"
            using k3 Some by (simp_all add: pool_kept_def serves_True)
          have wf4: "mem_wf s4" using inv by (auto simp: pool_inv_def intro: owns_wf)
          have mm: "data_map lib data mm" unfolding data_map_def using built m2 Some by blast
          have s5: "blocks s5 = blocks s4 \<and> faults s5 = faults s4 \<and> mem_wf s5 \<and> sends_data lib x data r1 s s5"
          proof (cases "cn_cbor_encoder_write lib MAXBUFLEN mm")
            case None
            then have "MAXBUFLEN < length data + PREAMBLE" using lib(2) mm unfolding cbor_encodes_def by (meson not_le)
            then show ?thesis using snd hl(1) wf4 None False by (auto simp: tube_send_cbor_def sends_data_def)
          next
            case enc: (Some buf)
            then have "data_encoding lib data buf" using mm unfolding data_encoding_def by blast
            moreover have "tube_send t SPUD_DATA False False [buf] s4 = (r1, s5)" using snd enc by (simp add: tube_send_cbor_def)
            ultimately show ?thesis using tube_send_data[OF hl(1,2) t wf4, of "[buf]" r1 s5 data lib] False by simp
          qed
          have "page_ok p3 s5 = page_ok p3 s4" using s5 by (intro ext) (simp add: page_ok_def)
          then have inv5: "pool_inv (blocks s) (faults s) p3 s5"
            using inv s5 by (simp add: pool_inv_def pool_shape_def owns_def)
          note dest = owns_empty[OF pool_destroy_owns[OF inv5]] owns_wf[OF pool_destroy_owns[OF inv5]]
          have "heap_and_log s5 s'" unfolding rs(2) by (rule grows_heap_and_log[OF pool_destroy_grows[OF hl(3)]])
          moreover have "counts s5 s'" unfolding rs(2) by (simp add: pool_destroy_counts[OF hl(3)])
          ultimately show ?thesis using sends_data_after[of lib x data r1 s s5 s'] s5 dest rs by simp
        qed
      qed
    qed
  qed
qed

section \<open>A small CBOR library\<close>

text \<open>Maps of one byte string of up to 65535 bytes with the key 0, encoded as the standard has it: the head of a
  map with one entry, the key, and the head of the byte string with its length in one, two or three bytes.\<close>

datatype small_cbor = Sm_bytes "u8 list" | Sm_map "(int \<times> u8 list) list"

definition small_node ::
  "small_cbor \<Rightarrow> 's cbor_alloc \<Rightarrow> 's pool \<Rightarrow> 's \<Rightarrow> small_cbor option \<times> 's pool \<times> 's" where
  "small_node c alloc p s = (case alloc 1 64 p s of (r, p1, s1) \<Rightarrow> (map_option (\<lambda>b. c) r, p1, s1))"

fun small_put :: "small_cbor \<Rightarrow> int \<Rightarrow> small_cbor \<Rightarrow> small_cbor" where
  "small_put (Sm_map kvs) k (Sm_bytes bs) = Sm_map ((k, bs) # kvs)"
| "small_put m k c = m"

definition small_head :: "nat \<Rightarrow> u8 list" where
  "small_head n =
     (if n \<le> 23 then [of_nat (64 + n)]
      else if n \<le> 255 then [0x58, of_nat n]
      else [0x59, of_nat (n div 256), of_nat (n mod 256)])"

fun small_encode :: "nat \<Rightarrow> small_cbor \<Rightarrow> u8 list option" where
  "small_encode n (Sm_map [(k, bs)]) =
     (let buf = 0xa1 # 0 # small_head (length bs) @ bs in
      if k = 0 \<and> length bs < 65536 \<and> length buf \<le> n then Some buf else None)"
| "small_encode n c = None"

fun small_bytes :: "u8 list \<Rightarrow> u8 list option" where
  "small_bytes (l # bs) =
     (if l = 0x58 then
        (case bs of [] \<Rightarrow> None | n # bs1 \<Rightarrow> if unat n = length bs1 then Some bs1 else None)
      else if l = 0x59 then
        (case bs of hi # lo # bs1 \<Rightarrow> if unat hi * 256 + unat lo = length bs1 then Some bs1 else None | _ \<Rightarrow> None)
      else if unat l = 64 + length bs \<and> length bs \<le> 23 then Some bs
      else None)"
| "small_bytes [] = None"

fun small_decode :: "u8 list \<Rightarrow> 's \<Rightarrow> (int + small_cbor) \<times> 's" where
  "small_decode (a # b # bs) s =
     (case small_bytes bs of
        Some data \<Rightarrow> (if a = 0xa1 \<and> b = 0 then Inr (Sm_map [(0, data)]) else Inl 1, s)
      | None \<Rightarrow> (Inl 1, s))"
| "small_decode buf s = (Inl 1, s)"

definition small_lib :: "(small_cbor, 's) cbor_lib" where
  "small_lib = \<lparr>cn_cbor_map_create = small_node (Sm_map []), cn_cbor_data_create = (\<lambda>bs. small_node (Sm_bytes bs)),
     cn_cbor_string_create = (\<lambda>bs. small_node (Sm_bytes bs)),
     cn_cbor_mapput_int = (\<lambda>m k c alloc p s. small_node (small_put m k c) alloc p s),
     cn_cbor_mapput_string = (\<lambda>m k c alloc p s. small_node m alloc p s),
     cn_cbor_encoder_write = small_encode, cn_cbor_decode = small_decode, cn_cbor_free = (\<lambda>c s. s)\<rparr>"

definition small_reader :: "small_cbor cbor_reader" where
  "small_reader = \<lparr>cn_cbor_mapget_int = (\<lambda>c k. case c of Sm_map kvs \<Rightarrow> map_option Sm_bytes (map_of kvs k) | Sm_bytes bs \<Rightarrow> None),
     cn_cbor_length = (\<lambda>c. case c of Sm_bytes bs \<Rightarrow> length bs | Sm_map kvs \<Rightarrow> length kvs),
     cn_cbor_str = (\<lambda>c. case c of Sm_bytes bs \<Rightarrow> Some bs | Sm_map kvs \<Rightarrow> None)\<rparr>"

lemma small_reader_simps [simp]:
  "cn_cbor_mapget_int small_reader (Sm_map [(0, bs)]) 0 = Some (Sm_bytes bs)"
  "cn_cbor_str small_reader (Sm_bytes bs) = Some bs" "cn_cbor_length small_reader (Sm_bytes bs) = length bs"
  by (simp_all add: small_reader_def)

lemma small_node_Some: "small_node c alloc p s = (Some x, p1, s1) \<Longrightarrow> x = c"
  by (auto simp: small_node_def split: prod.splits)

lemma small_node_allocates: "only_allocates (small_node c (pool_calloc :: ('z logmem_scheme) cbor_alloc))"
  unfolding only_allocates_def
proof (intro allI impI)
  fix p and s :: "'z logmem_scheme" and x y
  assume n: "small_node c pool_calloc p s = (x, y)"
  obtain r z where a: "pool_calloc 1 64 p s = (r, z)" by (cases "pool_calloc 1 64 p s") blast
  then have y: "y = z" "x = None \<longleftrightarrow> r = None" using n by (auto simp: small_node_def split: prod.splits)
  have "lib_run (True \<and> r \<noteq> None) (p, s) y" unfolding y(1) by (rule lib_alloc[OF lib_start _ _ a]) simp_all
  then show "\<exists>ok. lib_run ok (p, s) y \<and> (x = None \<longrightarrow> \<not> ok)" using y(2) by auto
qed

lemma small_lib_allocates: "cbor_allocates small_lib"
  by (simp add: cbor_allocates_def small_lib_def small_node_allocates)

lemma small_data_map: "data_map small_lib data m \<Longrightarrow> m = Sm_map [(0, data)]"
  by (auto simp: data_map_def new_map_def new_data_def small_lib_def dest!: small_node_Some)

lemma small_lib_encodes: "cbor_encodes small_lib"
  unfolding cbor_encodes_def
proof (intro allI impI)
  fix data and m :: small_cbor
  assume "data_map small_lib data m" "length data + PREAMBLE \<le> MAXBUFLEN"
  note m = small_data_map[OF this(1)] and len = this(2)
  show "cn_cbor_encoder_write small_lib MAXBUFLEN m \<noteq> None"
    using len by (simp add: m small_lib_def small_head_def PREAMBLE_def MAXBUFLEN_def Let_def)
qed

lemma small_encoding:
  "data_encoding small_lib data buf \<Longrightarrow> length data < 65536 \<and> buf = 0xa1 # 0 # small_head (length data) @ data"
  by (auto simp: data_encoding_def small_lib_def Let_def dest!: small_data_map[unfolded small_lib_def] split: if_splits)

lemma small_head_read:
  assumes "length bs < 65536"
  shows "small_bytes (small_head (length bs) @ bs) = Some bs"
proof -
  have u: "unat (of_nat n :: u8) = n" if "n < 256" for n using that by (subst unat_of_nat) simp
  consider "length bs \<le> 23" | "23 < length bs" "length bs \<le> 255" | "255 < length bs" by linarith
  then show ?thesis
  proof cases
    case 1
    then have l: "unat (of_nat (64 + length bs) :: u8) = 64 + length bs" by (intro u) simp
    have "of_nat (64 + length bs) \<noteq> (0x58 :: u8)" "of_nat (64 + length bs) \<noteq> (0x59 :: u8)"
      using 1 l by (auto dest!: arg_cong[where f = unat] simp del: of_nat_add)
    then show ?thesis using 1 l by (simp add: small_head_def del: of_nat_add)
  next
    case 2
    then show ?thesis using u[of "length bs"] by (simp add: small_head_def)
  next
    case 3
    then have "length bs div 256 < 256" using assms by (simp add: less_mult_imp_div_less)
    then show ?thesis using 3 u[of "length bs div 256"] u[of "length bs mod 256"] by (simp add: small_head_def)
  qed
qed

lemma small_lib_reads: "cbor_reads small_lib small_reader"
  unfolding cbor_reads_def
proof (intro allI impI)
  fix data buf and z :: "'z logmem_scheme"
  assume "data_encoding small_lib data buf"
  note e = small_encoding[OF this]
  then have "cn_cbor_decode small_lib buf z = (Inr (Sm_map [(0, data)]), z)"
    by (simp add: small_lib_def small_head_read)
  then show "buf \<noteq> [] \<and> (\<exists>c v z'. cn_cbor_decode small_lib buf z = (Inr c, z') \<and>
      cn_cbor_mapget_int small_reader c 0 = Some v \<and> cn_cbor_str small_reader v = Some data \<and>
      cn_cbor_length small_reader v = length data)"
    using e by auto
qed

section \<open>The property\<close>

text \<open>C11: \<open>tube_data\<close> builds its map in a pool of its own and gives all of it back: the heap is as before
  and nothing is used or freed wrongly, whichever allocations fail.  One datagram is sent: it goes to the peer from the tube's
  socket and local address, and a receiver that has memory parses it as a data command of this tube whose
  map has the data under the key 0, or which has no body when there are no data; the call then returns
  what the system does.  Nothing is sent in two cases only: the allocator did not have memory for every request at one of
  the allocations of this call, or the data and the longest preamble (19 bytes) are longer than a datagram may be.
  So with memory available and at most 1481 bytes of data, one datagram is sent.

  Of the CBOR library this assumes that it takes its memory from the allocator of its context, writes
  only there, and fails only when an allocation was refused; that it encodes the map in the bytes of the data and
  the preamble; and that it decodes what it encoded.\<close>

theorem tube_data_carries:
  fixes s z :: "('d, 'z) tubemem_scheme"
  assumes "cbor_allocates lib" "cbor_encodes lib" "cbor_reads lib rd"
    and "tube_at s t = Some x" "length (tb_id x) = SPUD_TUBE_ID_SIZE" "mem_wf s" "tube_data lib t data s = (r, s')"
    and receiver: "\<forall>k n. malloc_func z k n"
  shows "blocks s' = blocks s \<and> faults s' = faults s \<and> tube_at s' = tube_at s \<and>
    (r = Inl LS_ERR_NO_MEMORY \<and> refused s s' \<and> sent s' = sent s \<or>
     r = Inl LS_ERR_OVERFLOW \<and> data \<noteq> [] \<and> MAXBUFLEN < length data + PREAMBLE \<and> sent s' = sent s \<or>
     (\<exists>dg h cbor z'. sent s' = sent s @ [dg] \<and> dg_sock dg = tb_sock x \<and> dg_dest dg = tb_peer x \<and>
        dg_control dg = map_option (\<lambda>p. ls_pktinfo_cmsg p 0) (Option.bind (tb_pktinfo x) (pktinfo_at s)) \<and>
        (case sendmsg_fn s (length (sent s)) dg of (ret, errno) \<Rightarrow> r = (if ret \<le> 0 then Inl (- errno) else Inr ())) \<and>
        tube_id h = tb_id x \<and> command_of (flags h) = SPUD_DATA \<and>
        spud_parse (cn_cbor_decode lib) (Some (concat (dg_iov dg))) msg z = (Inr (), \<lparr>msg_header = Some h, msg_cbor = cbor\<rparr>, z') \<and>
        (if data = [] then cbor = None
         else \<exists>c v. cbor = Some c \<and> cn_cbor_mapget_int rd c 0 = Some v \<and>
           cn_cbor_str rd v = Some data \<and> cn_cbor_length rd v = length data)))"
proof -
  have d: "blocks s' = blocks s" "faults s' = faults s" and sd: "sends_data lib x data r s s'"
    using tube_data_sends[OF assms(1,2,4,6,7)] by simp_all
  note keep = heap_and_log_sent
  show ?thesis using sd unfolding sends_data_def
  proof (elim disjE exE conjE)
    fix dg assume dg: "data_datagram lib x data r s dg" "heap_and_log (s\<lparr>sent := sent s @ [dg]\<rparr>) s'"
    then obtain body h where b: "if data = [] then body = [] else data_encoding lib data body" "tube_id h = tb_id x"
      "magic h = SpudMagicCookie" "flags h = sent_flags SPUD_DATA False False" "concat (dg_iov dg) = header_bytes h @ body"
      by (auto simp: data_datagram_def)
    have len: "length (tube_id h) = SPUD_TUBE_ID_SIZE" using b(2) assms(5) by simp
    note p = parse_header[OF b(3) len, of "cn_cbor_decode lib" body msg z, folded b(5)]
    obtain cbor z' where "spud_parse (cn_cbor_decode lib) (Some (concat (dg_iov dg))) msg z = (Inr (), \<lparr>msg_header = Some h, msg_cbor = cbor\<rparr>, z')"
        "if data = [] then cbor = None
         else \<exists>c v. cbor = Some c \<and> cn_cbor_mapget_int rd c 0 = Some v \<and>
           cn_cbor_str rd v = Some data \<and> cn_cbor_length rd v = length data"
    proof (cases "data = []")
      case True
      then show thesis using p b(1) that by simp
    next
      case False
      then have "data_encoding lib data body" using b(1) by simp
      then obtain c v z' where "body \<noteq> []" "cn_cbor_decode lib body z = (Inr c, z')" "cn_cbor_mapget_int rd c 0 = Some v"
        "cn_cbor_str rd v = Some data" "cn_cbor_length rd v = length data"
        using assms(3) receiver unfolding cbor_reads_def by meson
      then show thesis using p False that by simp
    qed
    moreover have "command_of (flags h) = SPUD_DATA" using b(4) sent_flags_read by simp
    ultimately show ?thesis
      using d keep[OF dg(2)] b(2) dg(1) unfolding data_datagram_def
      by (intro conjI disjI2 exI[of _ dg] exI[of _ h] exI[of _ cbor] exI[of _ z']) simp_all
  qed (use d keep[of s s'] in simp_all)
qed

lemma one_tube_available: "\<forall>k n. malloc_func one_tube k n"
  by (simp add: one_tube_def one_event_def evmem.defs logmem.defs init_log_def mem.defs init_mem_def libc_malloc_def)

lemma tube_data_carries_witness:
  "\<exists>s' dg h z'. tube_data small_lib 7 [10, 11, 12] one_tube = (Inr (), s') \<and> blocks s' = blocks one_tube \<and> faults s' = 0 \<and>
     sent s' = [dg] \<and> dg_dest dg = Sockaddr_in 1234 1 \<and> tube_id h = [1, 2, 3, 4, 5, 6, 7, 8] \<and> command_of (flags h) = SPUD_DATA \<and>
     (\<exists>c. spud_parse (cn_cbor_decode small_lib) (Some (concat (dg_iov dg))) \<lparr>msg_header = None, msg_cbor = None\<rparr> one_tube =
        (Inr (), \<lparr>msg_header = Some h, msg_cbor = Some c\<rparr>, z') \<and>
        Option.bind (cn_cbor_mapget_int small_reader c 0) (cn_cbor_str small_reader) = Some [10, 11, 12])"
proof -
  obtain r s' where t: "tube_data small_lib 7 [10, 11, 12] one_tube = (r, s')" by fastforce
  have x: "tube_at one_tube 7 = Some \<lparr>tb_state = TS_RUNNING, tb_peer = Sockaddr_in 1234 1, tb_id = [1, 2, 3, 4, 5, 6, 7, 8],
        tb_data = 0, tb_pktinfo = None, tb_sock = 3\<rparr>"
    by (simp add: one_tube_def evmem.defs)
  have f: "faults one_tube = 0"
    by (simp add: one_tube_def one_event_def evmem.defs logmem.defs init_log_def mem.defs init_mem_def)
  have len: "length [1, 2, 3, 4, 5, 6, 7, 8 :: u8] = SPUD_TUBE_ID_SIZE" "\<not> MAXBUFLEN < length [10, 11, 12 :: u8] + PREAMBLE"
    by (simp_all add: sizes PREAMBLE_def MAXBUFLEN_def)
  note c = tube_data_carries[OF small_lib_allocates small_lib_encodes small_lib_reads x _ one_tube_simps(1) t one_tube_available,
      where msg = "\<lparr>msg_header = None, msg_cbor = None\<rparr>", simplified tube.select_convs, OF len(1)]
  show ?thesis using c len(2) refused_available[OF one_tube_available] t f
    by (fastforce simp del: length_append)
qed

end
