(* ===== verification/Tube_Stream.thy ===== *)
theory Tube_Stream
  imports Tube_Manager
begin

text \<open>
  Tube streams, \<open>src/tube_stream.c\<close>: an interface that is not implemented yet.  A stream is created
  and destroyed, a stream manager is a tube manager with three events of its own, and the other
  operations report that they have no implementation.
\<close>

section \<open>Streams\<close>

record tube_stream =
  ts_self :: addr
  ts_initialized :: bool

definition sizeof_tube_stream :: nat where "sizeof_tube_stream = 1"

definition tube_stream_create :: "'z mem_scheme \<Rightarrow> (errcode + tube_stream) \<times> 'z mem_scheme" where
  "tube_stream_create s =
     (case ls_data_calloc 1 sizeof_tube_stream s of
        (None, s1) \<Rightarrow> (Inl LS_ERR_NO_MEMORY, s1)
      | (Some ret, s1) \<Rightarrow> (Inr \<lparr>ts_self = ret, ts_initialized = True\<rparr>, s1))"

definition tube_stream_destroy :: "tube_stream option \<Rightarrow> 'z mem_scheme \<Rightarrow> 'z mem_scheme" where
  "tube_stream_destroy st s = (case st of None \<Rightarrow> s | Some x \<Rightarrow> ls_data_free (Some (ts_self x)) s)"

definition tube_stream_bind :: "tube_stream \<Rightarrow> addr \<Rightarrow> errcode + unit" where
  "tube_stream_bind st t = Inl LS_ERR_NO_IMPL"

definition tube_stream_read :: "tube_stream \<Rightarrow> nat \<Rightarrow> int" where
  "tube_stream_read st len = -1"

definition tube_stream_write :: "tube_stream \<Rightarrow> u8 list \<Rightarrow> errcode + unit" where
  "tube_stream_write st data = Inl LS_ERR_NO_IMPL"

definition tube_stream_close :: "tube_stream \<Rightarrow> errcode + unit" where
  "tube_stream_close st = Inl LS_ERR_NO_IMPL"

section \<open>Stream managers\<close>

text \<open>The tube manager comes first in the structure: the two have one address.\<close>

record ('c, 'z) tube_stream_manager =
  sm_tm :: "('c, 'z) tube_manager"
  sm_e_open :: "addr option"
  sm_e_close :: "addr option"
  sm_e_data :: "addr option"

definition sizeof_tube_stream_manager :: nat where
  "sizeof_tube_stream_manager = sizeof_tube_manager + 24"

definition tube_stream_manager_get_manager :: "('c, 'z) tube_stream_manager \<Rightarrow> ('c, 'z) tube_manager" where
  "tube_stream_manager_get_manager sm = sm_tm sm"

definition tube_stream_manager_destroy ::
  "os \<Rightarrow> ('c, 'z) tube_stream_manager option \<Rightarrow> ('c, 'z) tms \<Rightarrow> ('c, 'z) tms option" where
  "tube_stream_manager_destroy os sm s =
     (case sm of
        None \<Rightarrow> Some s
      | Some m \<Rightarrow>
          map_option (\<lambda>(m1, s1). ls_data_free (Some (tm_self (sm_tm m))) s1)
            (tube_manager_finalize os (sm_tm m) s))"

definition create_stream_event ::
  "string \<Rightarrow> (addr \<Rightarrow> ('c, 'z) tube_stream_manager \<Rightarrow> ('c, 'z) tube_stream_manager) \<Rightarrow>
   errcode option \<times> ('c, 'z) tube_stream_manager \<times> ('c, 'z) tms \<Rightarrow> errcode option \<times> ('c, 'z) tube_stream_manager \<times> ('c, 'z) tms" where
  "create_stream_event name set_ev st =
     (case st of
        (None, m, s) \<Rightarrow>
          (case tube_manager_get_dispatcher (sm_tm m) of
             None \<Rightarrow> (Some LS_ERR_NONE, m, fault s)
           | Some d \<Rightarrow>
               (case ls_event_dispatcher_create_event ((0, 0), ascii name) d s of
                  (Inl e, d1, s1) \<Rightarrow> (Some e, m\<lparr>sm_tm := (sm_tm m)\<lparr>tm_dispatcher := Some d1\<rparr>\<rparr>, s1)
                | (Inr ev, d1, s1) \<Rightarrow> (None, set_ev ev (m\<lparr>sm_tm := (sm_tm m)\<lparr>tm_dispatcher := Some d1\<rparr>\<rparr>), s1)))
      | _ \<Rightarrow> st)"

definition tube_stream_manager_create ::
  "os \<Rightarrow> int \<Rightarrow> ('c, 'z) tms \<Rightarrow> ((errcode + ('c, 'z) tube_stream_manager) \<times> ('c, 'z) tms) option" where
  "tube_stream_manager_create os buckets s =
     (case ls_data_calloc 1 sizeof_tube_stream_manager s of
        (None, s1) \<Rightarrow> Some (Inl LS_ERR_NO_MEMORY, s1)
      | (Some ret, s1) \<Rightarrow>
          (case tube_manager_init os buckets (zero_manager ret) (s1\<lparr>mgr := zero_mgr\<rparr>) of
             None \<Rightarrow> None
           | Some (Inl e, m, s2) \<Rightarrow> Some (Inl e, ls_data_free (Some ret) s2)
           | Some (Inr u, m, s2) \<Rightarrow>
               (case create_stream_event ''tcp:data'' (\<lambda>e m. m\<lparr>sm_e_data := Some e\<rparr>)
                      (create_stream_event ''tcp:close'' (\<lambda>e m. m\<lparr>sm_e_close := Some e\<rparr>)
                      (create_stream_event ''tcp:open'' (\<lambda>e m. m\<lparr>sm_e_open := Some e\<rparr>)
                        (None, \<lparr>sm_tm = m, sm_e_open = None, sm_e_close = None, sm_e_data = None\<rparr>, s2))) of
                  (None, sm, s3) \<Rightarrow> Some (Inr sm, upd_mgr (\<lambda>v. v\<lparr>m_initialized := True\<rparr>) s3)
                | (Some e, sm, s3) \<Rightarrow>
                    map_option (\<lambda>s4. (Inl e, s4)) (tube_stream_manager_destroy os (Some sm) s3))))"

definition tube_stream_manager_connect :: "('c, 'z) tube_stream_manager \<Rightarrow> sockaddr \<Rightarrow> errcode + tube_stream" where
  "tube_stream_manager_connect sm dest = Inl LS_ERR_NO_IMPL"

definition tube_stream_manager_listen :: "('c, 'z) tube_stream_manager \<Rightarrow> errcode + unit" where
  "tube_stream_manager_listen sm = Inl LS_ERR_NO_IMPL"

definition tube_stream_manager_bind_event ::
  "('c, 'z) tube_stream_manager \<Rightarrow> cstr \<Rightarrow> nat \<Rightarrow> errcode + unit" where
  "tube_stream_manager_bind_event sm name cb = Inl LS_ERR_NO_IMPL"

section \<open>Lifecycle of a stream\<close>

text \<open>A stream that is created and destroyed leaves the heap as it was; without memory there is nothing to
  destroy.\<close>

lemma tube_stream_lifecycle:
  assumes "mem_wf s" "tube_stream_create s = (r, s1)"
  shows "case r of
      Inr st \<Rightarrow> ts_initialized st \<and> blocks (tube_stream_destroy (Some st) s1) = blocks s \<and>
        faults (tube_stream_destroy (Some st) s1) = faults s
    | Inl e \<Rightarrow> e = LS_ERR_NO_MEMORY \<and> blocks s1 = blocks s \<and> faults s1 = faults s"
proof (cases "ls_data_calloc 1 sizeof_tube_stream s")
  case (Pair a s2)
  then show ?thesis
  proof (cases a)
    case None
    then show ?thesis using assms(2) Pair by (auto simp: tube_stream_create_def dest: ls_data_calloc_None)
  next
    case (Some p)
    then have "owns (blocks s) (faults s) {#p#} s2"
      using owns_calloc[OF owns_start[OF assms(1)]] Pair by simp
    then have "owns (blocks s) (faults s) {#} (ls_data_free (Some p) s2)" by (simp add: owns_free)
    then show ?thesis using assms(2) Pair Some by (auto simp: tube_stream_create_def tube_stream_destroy_def owns_def fun_eq_iff)
  qed
qed

end
