(* ===== verification/Samples.thy ===== *)
theory Samples
  imports Tube_Loop
begin

text \<open>
  What the programs of \<open>samplecode\<close> share: their pointers, and how they
  bind their callbacks.  The callbacks of a program have numbers.

  A \<open>void*\<close> is a number: 0 for a null pointer, else one more than the address.
\<close>

section \<open>Pointers\<close>

definition void_ptr :: "addr option \<Rightarrow> nat" where
  "void_ptr p = (case p of None \<Rightarrow> 0 | Some a \<Rightarrow> Suc a)"

definition ptr_of :: "nat \<Rightarrow> addr option" where
  "ptr_of n = (case n of 0 \<Rightarrow> None | Suc a \<Rightarrow> Some a)"

text \<open>Following a pointer.\<close>

definition deref :: "(addr \<Rightarrow> 'x option) \<Rightarrow> nat \<Rightarrow> (addr \<times> 'x) option" where
  "deref f n = Option.bind (ptr_of n) (\<lambda>a. map_option (Pair a) (f a))"

section \<open>Calls to the library\<close>

definition sizeof_sockaddr_storage :: nat where "sizeof_sockaddr_storage = 128"
definition SIGUSR1 :: int where "SIGUSR1 = 10"
definition SIGINT :: int where "SIGINT = 2"

text \<open>\<open>a || b\<close> over the calls that bind a callback: the error of the first that fails.\<close>

fun bind_all ::
  "(string \<times> nat) list \<Rightarrow> ('c, 'z) tube_manager \<Rightarrow> ('c, 'z) tms \<Rightarrow> (errcode option \<times> ('c, 'z) tms) option" where
  "bind_all [] m s = Some (None, s)"
| "bind_all ((name, cb) # bs) m s =
     (case tube_manager_bind_event ((0, 0), ascii name) cb m s of
        None \<Rightarrow> None
      | Some (Inl e, s1) \<Rightarrow> Some (Some e, s1)
      | Some (Inr u, s1) \<Rightarrow> bind_all bs m s1)"

text \<open>\<open>LS_LOG_ERR\<close> after \<open>tube_manager_open_tube\<close>, which may fail without setting the error.\<close>

definition log_open_error :: "string \<Rightarrow> errcode option \<Rightarrow> ('c, 'z) tms \<Rightarrow> ('c, 'z) tms" where
  "log_open_error what e s = (case e of Some err \<Rightarrow> LS_LOG_ERR err what s | None \<Rightarrow> fault s)"

text \<open>A handler that does not return, because the pipe never takes the byte it writes, is counted as a fault.\<close>

definition returned :: "'z mem_scheme \<Rightarrow> 'z mem_scheme option \<Rightarrow> 'z mem_scheme" where
  "returned s r = (case r of Some s1 \<Rightarrow> s1 | None \<Rightarrow> fault s)"

end
