(* ===== verification/Spudecho.thy ===== *)
theory Spudecho
  imports Samples
begin

text \<open>
  The echo server, \<open>samplecode/spudecho.c\<close>: what a datagram carries is sent back 10 milliseconds later.

  The state of the program extends that of the library by the structures it allocates.
\<close>

section \<open>State\<close>

record context_t =
  cx_count :: u64

record delay_write_t =
  dw_t :: addr
  dw_buf :: "addr option"
  dw_length :: nat

record 'd echomem = "'d tmmem" +
  context_at :: "addr \<Rightarrow> context_t option"
  delay_at :: "addr \<Rightarrow> delay_write_t option"

type_synonym ('c, 'z) echos = "('c ev_payload, 'z) echomem_scheme"

definition MYPORT :: int where "MYPORT = 1402"
definition sizeof_context_t :: nat where "sizeof_context_t = 8"
definition sizeof_delay_write_t :: nat where "sizeof_delay_write_t = 24"

section \<open>Contexts of tubes\<close>

definition new_context :: "('c, 'z) echos \<Rightarrow> addr option \<times> ('c, 'z) echos" where
  "new_context s =
     (case ls_data_malloc sizeof_context_t s of
        (None, s1) \<Rightarrow> (None, fault s1)
      | (Some c, s1) \<Rightarrow> (Some c, s1\<lparr>context_at := (context_at s1)(c \<mapsto> \<lparr>cx_count = 0\<rparr>)\<rparr>))"

definition add_cb :: "addr \<Rightarrow> ('c, 'z) echos \<Rightarrow> ('c, 'z) echos" where
  "add_cb t s = (case new_context s of (c, s1) \<Rightarrow> tube_set_data t (void_ptr c) s1)"

definition remove_cb :: "addr \<Rightarrow> ('c, 'z) echos \<Rightarrow> ('c, 'z) echos" where
  "remove_cb t s =
     (case tube_get_data t s of
        None \<Rightarrow> fault s
      | Some d \<Rightarrow>
          ls_data_free (ptr_of d)
            (case ptr_of d of None \<Rightarrow> s | Some c \<Rightarrow> s\<lparr>context_at := (context_at s)(c := None)\<rparr>))"

definition close_cb :: "addr \<Rightarrow> ('c, 'z) echos \<Rightarrow> ('c, 'z) echos" where
  "close_cb t s =
     (case Option.bind (tube_get_data t s) (deref (context_at s)) of
        None \<Rightarrow> fault s
      | Some (c, x) \<Rightarrow>
          ls_log LS_LOG_VERBOSE
            (Text (ascii ''Spud ID: '' @
               (case tube_id_to_string t (SPUD_ID_STRING_SIZE + 1) s of Some i \<Rightarrow> i | None \<Rightarrow> []) @
               ascii '' CLOSED: '' @ d_prec 1 (sint (cx_count x)) @ ascii '' data packets'')) s)"

section \<open>Echoing\<close>

text \<open>The timer's callback: \<open>read_delay\<close> is callback 1 of timers.\<close>

definition READ_DELAY :: nat where "READ_DELAY = 1"

text \<open>The bytes of a buffer: \<open>None\<close> when it is not there or not initialised.\<close>

definition buffer_bytes :: "addr option \<Rightarrow> nat \<Rightarrow> 'z mem_scheme \<Rightarrow> u8 list option" where
  "buffer_bytes buf len s =
     (if len = 0 then Some []
      else Option.bind buf (\<lambda>b. Option.bind (read_bytes (b, 0) len s) (\<lambda>xs.
        if None \<in> set xs then None else Some (map the xs))))"

definition read_delay ::
  "('c, ('c, 'z) echos) cbor_lib \<Rightarrow> nat timer \<Rightarrow> ('c, 'z) echos \<Rightarrow> ('c, 'z) echos" where
  "read_delay lib tim s =
     (case deref (delay_at s) (ls_timer_get_context tim) of
        None \<Rightarrow> fault s
      | Some (dwp, dw) \<Rightarrow>
          (case (tube_get_data (dw_t dw) s, buffer_bytes (dw_buf dw) (dw_length dw) s) of
             (Some c, Some bs) \<Rightarrow>
               (let s1 = (case tube_data lib (dw_t dw) bs s of
                            (Inl err, s1) \<Rightarrow> LS_LOG_ERR err ''tube_data'' s1
                          | (Inr u, s1) \<Rightarrow> s1);
                    s2 = ls_data_free (dw_buf dw) s1;
                    s3 = ls_data_free (Some dwp) (s2\<lparr>delay_at := (delay_at s2)(dwp := None)\<rparr>) in
                case deref (context_at s3) c of
                  None \<Rightarrow> fault s3
                | Some (cp, x) \<Rightarrow> s3\<lparr>context_at := (context_at s3)(cp \<mapsto> x\<lparr>cx_count := cx_count x + 1\<rparr>)\<rparr>)
           | _ \<Rightarrow> fault s))"

text \<open>\<open>%*s\<close>: the number is a width, so the bytes are read to their terminator.\<close>

definition log_received :: "u8 list \<Rightarrow> 'z logmem_scheme \<Rightarrow> 'z logmem_scheme" where
  "log_received bs s =
     (if log_prefix LS_LOG_VERBOSE s = None then s
      else if 0 \<notin> set bs then fault s
      else
        (let text = takeWhile (\<lambda>b. b \<noteq> 0) bs in
         ls_log LS_LOG_VERBOSE
           (Text (ascii ''Received '' @ replicate (length bs - length text) 32 @ text)) s))"

text \<open>Copying what the value points to.  A value that is not a string has no such bytes.\<close>

definition copy_value :: "addr \<Rightarrow> nat \<Rightarrow> u8 list option \<Rightarrow> 'z mem_scheme \<Rightarrow> 'z mem_scheme" where
  "copy_value b len str s =
     (if len = 0 then s
      else
        (case str of
           None \<Rightarrow> fault s
         | Some bs \<Rightarrow> if len \<le> length bs then write_bytes (b, 0) (take len bs) s else fault s))"

definition schedule_delay :: "os \<Rightarrow> addr \<Rightarrow> ('c, 'z) echos \<Rightarrow> ('c, 'z) echos" where
  "schedule_delay os dwp s =
     (case tube_manager_schedule_ms os 10 READ_DELAY (void_ptr (Some dwp)) s of
        (Inl err, s1) \<Rightarrow> LS_LOG_ERR err ''tube_manager_schedule_ms'' s1
      | (Inr tim, s1) \<Rightarrow> s1)"

definition read_cb ::
  "'c cbor_reader \<Rightarrow> os \<Rightarrow> addr \<Rightarrow> 'c option \<Rightarrow> ('c, 'z) echos \<Rightarrow> ('c, 'z) echos" where
  "read_cb rd os t cbor s =
     (case ls_data_calloc 1 sizeof_delay_write_t s of
        (None, s1) \<Rightarrow> ls_log LS_LOG_ERROR (Text (ascii ''spudecho.c:86 ls_data_malloc'')) s1
      | (Some dwp, s1) \<Rightarrow>
          (let s2 = s1\<lparr>delay_at := (delay_at s1)(dwp \<mapsto> \<lparr>dw_t = t, dw_buf = None, dw_length = 0\<rparr>)\<rparr> in
           case Option.bind cbor (\<lambda>c. cn_cbor_mapget_int rd c 0) of
             None \<Rightarrow> schedule_delay os dwp s2
           | Some cp \<Rightarrow>
               (let len = cn_cbor_length rd cp in
                case ls_data_malloc len s2 of
                  (None, s3) \<Rightarrow>
                    ls_data_free (Some dwp)
                      ((ls_log LS_LOG_ERROR (Text (ascii ''ls_data_malloc'')) s3)
                         \<lparr>delay_at := (delay_at s3)(dwp := None)\<rparr>)
                | (Some b, s3) \<Rightarrow>
                    (let s4 = s3\<lparr>delay_at := (delay_at s3)(dwp \<mapsto> \<lparr>dw_t = t, dw_buf = Some b, dw_length = len\<rparr>)\<rparr>;
                         s5 = copy_value b len (cn_cbor_str rd cp) s4;
                         s6 = (case buffer_bytes (Some b) len s5 of
                                 Some bs \<Rightarrow> log_received bs s5
                               | None \<Rightarrow> s5) in
                     schedule_delay os dwp s6))))"

section \<open>The program\<close>

text \<open>The signal handlers, and the callbacks in the order \<open>main\<close> binds them.\<close>

definition teardown :: "os \<Rightarrow> ('c, 'z) echos \<Rightarrow> ('c, 'z) echos option" where
  "teardown os s =
     map_option (\<lambda>(r, s1). case r of Inl err \<Rightarrow> LS_LOG_ERR err ''tube_manager_stop'' s1 | Inr u \<Rightarrow> s1)
       (tube_manager_stop os (ls_log LS_LOG_INFO (Text (ascii ''Quitting...'')) s))"

definition print_stats :: "u32 \<Rightarrow> ('c, 'z) echos \<Rightarrow> ('c, 'z) echos" where
  "print_stats n s = ls_log LS_LOG_INFO (Text (ascii ''Tube count: '' @ dec_string (unat n))) s"

definition READ_CB :: nat where "READ_CB = 1"
definition CLOSE_CB :: nat where "CLOSE_CB = 2"
definition ADD_CB :: nat where "ADD_CB = 3"
definition REMOVE_CB :: nat where "REMOVE_CB = 4"
definition PRINT_STATS :: nat where "PRINT_STATS = 1"
definition echo_event ::
  "'c cbor_reader \<Rightarrow> os \<Rightarrow> nat \<Rightarrow> 'c ev_payload \<Rightarrow> ('c, 'z) echos \<Rightarrow> ('c, 'z) echos" where
  "echo_event rd os cb data s =
     (case data of
        Ev_mgr \<Rightarrow> s
      | Ev_tube t \<Rightarrow> if cb = ADD_CB then add_cb t s else if cb = REMOVE_CB then remove_cb t s else s
      | Ev_msg t cbor peer \<Rightarrow>
          if cb = READ_CB then read_cb rd os t cbor s else if cb = CLOSE_CB then close_cb t s else s)"

text \<open>The table of tubes is not part of the state that handlers of signals see: the number of tubes that
  \<open>print_stats\<close> reads is an argument.\<close>

definition echo_callbacks ::
  "'c cbor_reader \<Rightarrow> ('c, ('c, 'z) echos) cbor_lib \<Rightarrow> os \<Rightarrow> (('c, 'z) echos \<Rightarrow> u32) \<Rightarrow> ('c, 'z echomem_ext) callbacks" where
  "echo_callbacks rd lib os tubes =
     \<lparr>cb_events = \<lparr>pr_notify = (\<lambda>cb arg evt. [Work (echo_event rd os cb (ed_data evt))]), pr_result = (\<lambda>cb arg evt. [])\<rparr>,
      cb_timers = (\<lambda>cb tim. if cb = READ_DELAY then read_delay lib tim else id),
      cb_signals = (\<lambda>cb sig s. if cb = PRINT_STATS then print_stats (tubes s) s else s)\<rparr>"

text \<open>\<open>main\<close>: its exit code, the manager, and the state.\<close>

definition spudecho_main ::
  "'c cbor_reader \<Rightarrow> ('c, ('c, 'z) echos) cbor_lib \<Rightarrow> os \<Rightarrow> (('c, 'z) echos \<Rightarrow> u32) \<Rightarrow> cstr list \<Rightarrow>
   recv_result list \<Rightarrow> select_result list \<Rightarrow> ('c, 'z) echos \<Rightarrow>
   (int \<times> ('c, 'z echomem_ext) tube_manager option \<times> ('c, 'z) echos) option" where
  "spudecho_main rd lib os tubes argv recvs sels s0 =
     (let s = (if length argv > 1 \<and> argv ! 1 = ascii ''-v'' then ls_log_set_level LS_LOG_VERBOSE s0 else s0) in
      case tube_manager_create os 0 s of
        None \<Rightarrow> None
      | Some (Inl e, s1) \<Rightarrow> Some (1, None, LS_LOG_ERR e ''tube_manager_create'' s1)
      | Some (Inr m, s1) \<Rightarrow>
          (case tube_manager_signal os (tm_self m) SIGUSR1 PRINT_STATS s1 of
             (Inl e, s2) \<Rightarrow> Some (1, Some m, LS_LOG_ERR e ''tube_manager_signal'' s2)
           | (Inr u, s2) \<Rightarrow>
               (case tube_manager_socket os MYPORT s2 of
                  (Inl e, s3) \<Rightarrow> Some (1, Some m, LS_LOG_ERR e ''tube_manager_socket'' s3)
                | (Inr u, s3) \<Rightarrow>
                    (case bind_all [(''data'', READ_CB), (''close'', CLOSE_CB), (''add'', ADD_CB),
                                    (''remove'', REMOVE_CB)] m s3 of
                       None \<Rightarrow> None
                     | Some (Some e, s4) \<Rightarrow> Some (1, Some m, LS_LOG_ERR e ''tube_manager_bind_event'' s4)
                     | Some (None, s4) \<Rightarrow>
                         (case tube_manager_loop True lib os (echo_callbacks rd lib os tubes) recvs sels m
                                 (ls_log LS_LOG_INFO (Text (ascii ''Listening on port '' @ d_prec 1 MYPORT)) s4) of
                            None \<Rightarrow> None
                          | Some (Inl e, m1, s5) \<Rightarrow> Some (1, Some m1, LS_LOG_ERR e ''tube_manager_loop'' s5)
                          | Some (Inr u, m1, s5) \<Rightarrow> Some (0, Some m1, s5))))))"

end
