(* ===== verification/Spudecho_Props.thy ===== *)
theory Spudecho_Props
  imports Spudecho Tube_Data Tube_Manager_Memory
begin

text \<open>
  What the echo server does with a datagram: the timer it leaves, what the callback of that timer sends,
  and when the loop of the manager calls it.
\<close>

section \<open>Scheduling with memory available\<close>


text \<open>Everything above the heap but for the members of the manager and the timers.\<close>

definition above_timers :: "('d, 'z) tmmem_scheme \<Rightarrow> ('d, 'z) tmmem_scheme \<Rightarrow> bool" where
  "above_timers s s' \<longleftrightarrow> tube_at s' = tube_at s \<and> sent s' = sent s \<and> sendmsg_fn s' = sendmsg_fn s \<and>
     pktinfo_at s' = pktinfo_at s \<and> malloc_func s' = malloc_func s \<and> fired s' = fired s \<and>
     m_keep_going (mgr s') = m_keep_going (mgr s) \<and> tmmem.more s' = tmmem.more s"

lemma above_timers_trans: "above_timers a b \<Longrightarrow> above_timers b c \<Longrightarrow> above_timers a c"
  by (simp add: above_timers_def)



section \<open>Receiving\<close>




section \<open>Answering\<close>

lemma void_ptr_deref [simp]: "deref f (void_ptr (Some a)) = map_option (Pair a) (f a)"
  by (simp add: deref_def void_ptr_def ptr_of_def)



section \<open>The loop and few timers\<close>





section \<open>The property\<close>





text \<open>A tube may be closed in these 10 milliseconds: the callback then uses the tube that was freed.\<close>

lemma read_delay_after_close:
  assumes "tm_context tim = void_ptr (Some dw)" "delay_at s dw = Some d" "tube_at s (dw_t d) = None"
  shows "read_delay lib tim s = fault s"
  using assms by (simp add: read_delay_def ls_timer_get_context_def tube_get_data_def)

section \<open>An instance\<close>







end
