(* ===== verification/Timertest.thy ===== *)
theory Timertest
  imports Samples
begin

text \<open>
  The program \<open>samplecode/timertest.c\<close>: a manager without sockets that stops 100 milliseconds after its
  loop has started.
\<close>

definition after :: "os \<Rightarrow> nat timer \<Rightarrow> ('c, 'z) tms \<Rightarrow> ('c, 'z) tms" where
  "after os tim s =
     returned s (map_option snd (tube_manager_stop os (ls_log LS_LOG_ERROR (Text (ascii ''after'')) s)))"

definition sg :: "int \<Rightarrow> ('c, 'z) tms \<Rightarrow> ('c, 'z) tms" where
  "sg sig s = ls_log LS_LOG_ERROR (Text (ascii ''sig: '' @ d_prec 1 sig)) s"

definition AFTER :: nat where "AFTER = 1"
definition SG :: nat where "SG = 1"
definition STARTUP :: nat where "STARTUP = 1"

definition startup :: "os \<Rightarrow> ('c, 'z) tms \<Rightarrow> ('c, 'z) tms" where
  "startup os s =
     (case tube_manager_schedule_ms os 100 AFTER 0 s of
        (Inl err, s1) \<Rightarrow> LS_LOG_ERR err ''tube_manager_schedule_ms'' s1
      | (Inr tim, s1) \<Rightarrow> s1)"

definition test_callbacks :: "os \<Rightarrow> ('c, 'z) callbacks" where
  "test_callbacks os =
     \<lparr>cb_events = \<lparr>pr_notify = (\<lambda>cb arg evt. [Work (if cb = STARTUP then startup os else id)]), pr_result = (\<lambda>cb arg evt. [])\<rparr>,
      cb_timers = (\<lambda>cb tim. if cb = AFTER then after os tim else id),
      cb_signals = (\<lambda>cb sig. if cb = SG then sg sig else id)\<rparr>"

text \<open>\<open>main\<close>: its exit code and the state.\<close>

definition timertest_main ::
  "('c, ('c, 'z) tms) cbor_lib \<Rightarrow> os \<Rightarrow> recv_result list \<Rightarrow> select_result list \<Rightarrow> ('c, 'z) tms \<Rightarrow>
   (int \<times> ('c, 'z) tms) option" where
  "timertest_main lib os recvs sels s =
     (case tube_manager_create os 0 s of
        None \<Rightarrow> None
      | Some (Inl e, s1) \<Rightarrow> Some (1, LS_LOG_ERR e ''tube_manager_create'' s1)
      | Some (Inr m, s1) \<Rightarrow>
          (case tube_manager_signal os (tm_self m) SIGUSR1 SG s1 of
             (Inl e, s2) \<Rightarrow> Some (1, LS_LOG_ERR e ''tube_manager_signal'' s2)
           | (Inr u, s2) \<Rightarrow>
               (case tube_manager_bind_event ((0, 0), ascii ''loopstart'') STARTUP m s2 of
                  None \<Rightarrow> None
                | Some (Inl e, s3) \<Rightarrow> Some (1, LS_LOG_ERR e ''tube_manager_bind_event'' s3)
                | Some (Inr u, s3) \<Rightarrow>
                    (case tube_manager_loop True lib os (test_callbacks os) recvs sels m s3 of
                       None \<Rightarrow> None
                     | Some (Inl e, m1, s4) \<Rightarrow> Some (1, LS_LOG_ERR e ''tube_manager_loop'' s4)
                     | Some (Inr u, m1, s4) \<Rightarrow>
                         map_option (Pair 0) (tube_manager_destroy os (Some m1) s4)))))"

end
