(* ===== verification/Spudload.thy ===== *)
theory Spudload
  imports Samples
begin

text \<open>
  The load generator, \<open>samplecode/spudload.c\<close>: it keeps a table of tubes, and in every round it takes one
  of them at random and opens it, closes it or sends data on it.

  The state extends that of the library by the globals of the program and by the numbers its tubes
  point to.  The program's other thread runs the loop of the manager; what it does while \<open>markov\<close> sleeps is a
  parameter of each round.  So are the random numbers and the time to sleep, which has no effect here.
\<close>

section \<open>State\<close>

definition NUM_TUBES :: nat where "NUM_TUBES = 1024"
definition sizeof_int :: nat where "sizeof_int = 4"
definition sizeof_data :: nat where "sizeof_data = 1024"

record 'd loadmem = "'d tmmem" +
  tubes :: "addr option list"
  remoteAddr :: sockaddr
  load_data :: "u8 list"
  int_at :: "addr \<Rightarrow> nat option"

type_synonym ('c, 'z) loads = "('c ev_payload, 'z) loadmem_scheme"

section \<open>A round of \<open>markov\<close>\<close>

record ('c, 'z) round_input =
  ri_others :: "('c, 'z loadmem_ext) tube_manager \<times> ('c, 'z) loads \<Rightarrow> ('c, 'z loadmem_ext) tube_manager \<times> ('c, 'z) loads"
  ri_pick :: nat
  ri_close :: nat
  ri_length :: nat
  ri_urandom :: "('c, 'z) loads rand_source"

text \<open>An empty slot gets a tube, with a number of its own from \<open>malloc\<close>.  The pointer \<open>malloc\<close> gives is not checked.\<close>

definition fill_slot :: "nat \<Rightarrow> ('c, 'z) loads \<Rightarrow> (errcode + addr) \<times> ('c, 'z) loads" where
  "fill_slot i s =
     (case tubes s ! i of
        Some t \<Rightarrow> (Inr t, s)
      | None \<Rightarrow>
          (case tube_create s of
             (Inl e, s1) \<Rightarrow> (Inl e, LS_LOG_ERR e ''tube_create'' s1)
           | (Inr t, s1) \<Rightarrow>
               (let s2 = s1\<lparr>tubes := (tubes s1)[i := Some t]\<rparr> in
                case ls_data_malloc sizeof_int s2 of
                  (None, s3) \<Rightarrow> (Inr t, fault s3)
                | (Some p, s3) \<Rightarrow>
                    (Inr t, tube_set_data t (void_ptr (Some p)) (s3\<lparr>int_at := (int_at s3)(p \<mapsto> i)\<rparr>)))))"

text \<open>A round goes on (\<open>None\<close>), or \<open>markov\<close> returns a number.\<close>

definition markov_round ::
  "('c, ('c, 'z) loads) cbor_lib \<Rightarrow> ('c, 'z loadmem_ext) callbacks \<Rightarrow> ('c, 'z) round_input \<Rightarrow>
   ('c, 'z loadmem_ext) tube_manager \<Rightarrow> ('c, 'z) loads \<Rightarrow>
   (int option \<times> ('c, 'z loadmem_ext) tube_manager \<times> ('c, 'z) loads) option" where
  "markov_round lib cbs ri m0 s0 =
     (case ri_others ri (m0, s0) of
        (m, s) \<Rightarrow>
          (case fill_slot (ri_pick ri mod NUM_TUBES) s of
             (Inl e, s1) \<Rightarrow> Some (Some 1, m, s1)
           | (Inr t, s1) \<Rightarrow>
               (case tube_get_state t s1 of
                  None \<Rightarrow> None
                | Some TS_START \<Rightarrow> Some (Some 1, m, ls_log LS_LOG_ERROR (Text (ascii ''invalid tube state'')) s1)
                | Some TS_UNKNOWN \<Rightarrow>
                    (case tube_manager_open_tube cbs (ri_urandom ri) (remoteAddr s1) m s1 of
                       None \<Rightarrow> None
                     | Some (Inl e, m1, s2) \<Rightarrow> Some (Some 1, m1, log_open_error ''tube_manager_open_tube'' e s2)
                     | Some (Inr t1, m1, s2) \<Rightarrow> Some (None, m1, s2))
                | Some TS_OPENING \<Rightarrow> Some (None, m, s1)
                | Some TS_RUNNING \<Rightarrow>
                    (if ri_close ri mod 10000 < 10 then
                       (case tube_close t s1 of
                          (Inl e, s2) \<Rightarrow> Some (Some 1, m, LS_LOG_ERR e ''tube_close'' s2)
                        | (Inr u, s2) \<Rightarrow> Some (None, m, s2))
                     else
                       (case tube_data lib t (take (ri_length ri mod sizeof_data) (load_data s1)) s1 of
                          (Inl e, s2) \<Rightarrow> Some (Some 1, m, LS_LOG_ERR e ''tube_data'' s2)
                        | (Inr u, s2) \<Rightarrow> Some (None, m, s2)))
                | Some TS_RESUMING \<Rightarrow> Some (None, m, s1))))"

text \<open>The rounds, over their inputs.\<close>

fun markov ::
  "('c, ('c, 'z) loads) cbor_lib \<Rightarrow> ('c, 'z loadmem_ext) callbacks \<Rightarrow> ('c, 'z) round_input list \<Rightarrow>
   ('c, 'z loadmem_ext) tube_manager \<Rightarrow> ('c, 'z) loads \<Rightarrow>
   (int \<times> ('c, 'z loadmem_ext) tube_manager \<times> ('c, 'z) loads) option" where
  "markov lib cbs ris m s =
     (if \<not> tube_manager_running s then Some (0, m, s)
      else
        (case ris of
           [] \<Rightarrow> None
         | ri # rest \<Rightarrow>
             (case markov_round lib cbs ri m s of
                None \<Rightarrow> None
              | Some (Some r, m1, s1) \<Rightarrow> Some (r, m1, s1)
              | Some (None, m1, s1) \<Rightarrow> markov lib cbs rest m1 s1)))"

section \<open>The rest of the program\<close>

definition socketListen ::
  "('c, ('c, 'z) loads) cbor_lib \<Rightarrow> os \<Rightarrow> ('c, 'z loadmem_ext) callbacks \<Rightarrow> recv_result list \<Rightarrow> select_result list \<Rightarrow>
   ('c, 'z loadmem_ext) tube_manager \<Rightarrow> ('c, 'z) loads \<Rightarrow>
   (('c, 'z loadmem_ext) tube_manager \<times> ('c, 'z) loads) option" where
  "socketListen lib os cbs recvs sels m s =
     map_option (\<lambda>(r, m1, s1). (m1, case r of Inl e \<Rightarrow> LS_LOG_ERR e ''tube_manager_loop'' s1 | Inr u \<Rightarrow> s1))
       (tube_manager_loop True lib os cbs recvs sels m s)"

text \<open>The number of a tube is an index of the table: \<open>fill_slot\<close> stores no other.\<close>

definition remove_cb :: "addr \<Rightarrow> ('c, 'z) loads \<Rightarrow> ('c, 'z) loads" where
  "remove_cb t s =
     (case Option.bind (tube_get_data t s) (deref (int_at s)) of
        None \<Rightarrow> fault s
      | Some (p, i) \<Rightarrow>
          ls_data_free (Some p) (s\<lparr>tubes := (tubes s)[i := None], int_at := (int_at s)(p := None)\<rparr>))"

text \<open>\<open>done\<close> up to the call of \<open>exit\<close>, and \<open>spudtest\<close> up to the start of the thread: the exit code of a
  failure, or the manager.\<close>

definition done_cb :: "os \<Rightarrow> ('c, 'z) loads \<Rightarrow> ('c, 'z) loads option" where
  "done_cb os s =
     map_option (\<lambda>(r, s1). ls_log LS_LOG_INFO (Text (ascii ''DONE!''))
         (case r of Inl e \<Rightarrow> LS_LOG_ERR e ''tube_manager_stop'' s1 | Inr u \<Rightarrow> s1))
       (tube_manager_stop os s)"

definition REMOVE_CB :: nat where "REMOVE_CB = 1"
definition DONE :: nat where "DONE = 1"

definition digits_data :: "u8 list" where
  "digits_data = map (\<lambda>i. of_nat (48 + i mod 10)) [0..<sizeof_data]"

definition load_callbacks :: "os \<Rightarrow> ('c, 'z loadmem_ext) callbacks" where
  "load_callbacks os =
     \<lparr>cb_events = \<lparr>pr_notify = (\<lambda>cb arg evt. [Work (\<lambda>s. case ed_data evt of Ev_tube t \<Rightarrow> if cb = REMOVE_CB then remove_cb t s else s | _ \<Rightarrow> s)]),
        pr_result = (\<lambda>cb arg evt. [])\<rparr>,
      cb_timers = (\<lambda>cb tim. id),
      cb_signals = (\<lambda>cb sig s. if cb = DONE then returned s (done_cb os s) else s)\<rparr>"

definition spudtest ::
  "os \<Rightarrow> resolver \<Rightarrow> cstr list \<Rightarrow> ('c, 'z) loads \<Rightarrow>
   ((int + ('c, 'z loadmem_ext) tube_manager) \<times> ('c, 'z) loads) option" where
  "spudtest os getaddrinfo argv s0 =
     (if length argv < 2 then Some (Inl 64, s0)
      else
        (let s = s0\<lparr>load_data := digits_data\<rparr> in
         case ls_sockaddr_get_remote_ip_addr getaddrinfo (Some (argv ! 1)) (Some (ascii ''1402'')) sizeof_sockaddr_storage of
           Inl e \<Rightarrow> Some (Inl 1, s)
         | Inr addr \<Rightarrow>
             (case tube_manager_create os 0 (s\<lparr>remoteAddr := addr\<rparr>) of
                None \<Rightarrow> None
              | Some (Inl e, s1) \<Rightarrow> Some (Inl 1, LS_LOG_ERR e ''tube_manager_create'' s1)
              | Some (Inr m, s1) \<Rightarrow>
                  (case tube_manager_socket os 0 s1 of
                     (Inl e, s2) \<Rightarrow> Some (Inl 1, LS_LOG_ERR e ''tube_manager_socket'' s2)
                   | (Inr u, s2) \<Rightarrow>
                       (case tube_manager_signal os (tm_self m) SIGINT DONE s2 of
                          (Inl e, s3) \<Rightarrow> Some (Inl 1, LS_LOG_ERR e ''tube_manager_signal'' s3)
                        | (Inr u, s3) \<Rightarrow>
                            (case tube_manager_bind_event ((0, 0), ascii ''remove'') REMOVE_CB m s3 of
                               None \<Rightarrow> None
                             | Some (Inl e, s4) \<Rightarrow> Some (Inl 1, LS_LOG_ERR e ''tube_manager_bind_event'' s4)
                             | Some (Inr u, s4) \<Rightarrow> Some (Inr m, s4\<lparr>tubes := replicate NUM_TUBES None\<rparr>)))))))"

end
