(* ===== verification/Spudload_Props.thy ===== *)
theory Spudload_Props
  imports Spudload Tube_Handshake
begin

text \<open>
  What the rounds of the load generator do: every one of them opens a tube and loses it.
\<close>

section \<open>The globals of the program\<close>

text \<open>What the callbacks of the program may do: empty slots.\<close>

definition slots_frame :: "('c, 'z) loads \<Rightarrow> ('c, 'z) loads \<Rightarrow> bool" where
  "slots_frame s s' \<longleftrightarrow> remoteAddr s' = remoteAddr s \<and> sent s' = sent s \<and> length (tubes s') = length (tubes s) \<and>
     (\<forall>i < length (tubes s). tubes s' ! i = tubes s ! i \<or> tubes s' ! i = None)"

lemma slots_frame_own:
  assumes "tubemem.more s' = tubemem.more s" "sent s' = sent s"
  shows "slots_frame s s'"
  using assms by (cases s; cases s') (simp add: slots_frame_def)

interpretation load_frame: dispatch_frame slots_frame
proof unfold_locales
  show "evmem.more s' = evmem.more s \<Longrightarrow> slots_frame s s'" for s s' :: "('a, 'b) loads"
    by (cases s; cases s') (simp add: slots_frame_def)
  show "slots_frame s s' \<Longrightarrow> slots_frame s' s'' \<Longrightarrow> slots_frame s s''" for s s' s'' :: "('a, 'b) loads"
    by (fastforce simp: slots_frame_def)
qed

lemma slots_frame_grows: "mem_grows s s' \<Longrightarrow> slots_frame s s'"
  by (rule load_frame.R_own) (cases s; cases s'; simp add: mem_grows_def)

lemma emptied: "i < length xs \<Longrightarrow> xs[b := None] ! i = xs ! i \<or> xs[b := None] ! i = None"
  by (cases "b = i") simp_all

lemma remove_cb_still: "still slots_frame s (remove_cb t s)"
  by (simp add: remove_cb_def still_def slots_frame_def ls_data_free_def fault_def emptied split: option.split)

text \<open>The callbacks only remove tubes from the table or do nothing.\<close>

lemma load_callbacks_tame:
  assumes "\<And>t s. still R s (remove_cb t s)" "\<And>s. R s s"
  shows "tame_program R E (cb_events (load_callbacks os))"
  using assms by (auto simp: tame_program_def load_callbacks_def still_def split: ev_payload.split)

lemmas load_tame = load_callbacks_tame[OF remove_cb_still load_frame.R_refl]

section \<open>Opening\<close>

lemma trigger_slots:
  fixes s :: "('c, 'z) loads"
  assumes ok: "manager_ok W m s" and e: "e \<in> set (manager_events m)"
    and tame: "tame_program slots_frame (wi_events W) (wi_prog W)" and t: "trigger (wi_prog W) e data m s = Some (r, m', s')"
  shows "slots_frame s s'"
proof -
  obtain d a where d: "tm_dispatcher m = Some d" "idle d" "evt_of d s = wi_evt W" "e = Some a" "a \<in> wi_events W"
    using ok e by (auto simp: manager_ok_def)
  have st: "settles W" "ready (wi_events W) s" "\<forall>e \<in> wi_events W. wi_bound W e = bound e s"
    using ok by (simp_all add: manager_ok_def)
  obtain cs n rs where "run_queue n (wi_prog W) (evt_of d s) (wi_bound W) [(a, data, None, 0)] = Some (cs, rs)"
    using st(1) d(3,5) by (fastforce simp: settles_def reacts_def)
  then obtain d' z where "ls_event_trigger (wi_prog W) a data None 0 d s = Some (Inr (), d', z)" "calm slots_frame s z"
    using load_frame.breadth_first[OF d(2) st(2) tame d(5) st(3)] by blast
  then show ?thesis using t d(1,4) by (auto simp: trigger_def calm_def)
qed

lemma add_slots:
  fixes s :: "('c, 'z) loads"
  assumes ok: "manager_ok W m s" and tbl: "tm_tubes m = Some tbl" and tame: "tame_program slots_frame (wi_events W) (wi_prog W)"
    and t: "tube_at s t = Some x" "t < next_addr s"
    and new: "ls_htable_get tbl (0, tb_id x) = None" "unat (ls_htable_get_count tbl) < 2 ^ 28"
    and a: "tube_manager_add (wi_prog W) m t s = Some (r, m', s')"
  shows "slots_frame s s'"
proof -
  have "table_ok tbl s" using ok tbl by (simp add: manager_ok_def)
  then obtain tbl' s1 where p: "ls_htable_put tbl (t, tb_id x) (Some t) (Some clean_tube) s = (Inr (), tbl', s1)"
    "table_ok tbl' s1" "mem_grows s s1"
    using table_put[OF _ new manager_mem[OF ok] t(1) refl t(2)] by blast
  let ?m = "m\<lparr>tm_tubes := Some tbl'\<rparr>"
  have "manager_ok W ?m s1"
    by (rule manager_ok_step[OF ok events_stay_grows[OF p(3)] _ p(2)]) (simp_all add: manager_events_def)
  moreover have "e_add ?m \<in> set (manager_events ?m)" by (simp add: manager_events_def)
  moreover have "trigger (wi_prog W) (e_add ?m) (Ev_tube t) ?m s1 = Some (r, m', s')"
    using a p(1) t(1) tbl by (simp add: tube_manager_add_def tube_get_id_def)
  ultimately have "slots_frame s1 s'" using tame by (intro trigger_slots)
  then show ?thesis using slots_frame_grows[OF p(3)] load_frame.R_trans by blast
qed

lemma open_slots:
  fixes s :: "('c, 'z) loads"
  assumes ok: "manager_ok W m s" and tbl: "tm_tubes m = Some tbl" and tame: "tame_program slots_frame (wi_events W) (wi_prog W)"
    and cbs: "cb_events cbs = wi_prog W" and rand: "delivers urandom i" and dest: "inet dest"
    and new: "ls_htable_get tbl (0, i) = None" "unat (ls_htable_get_count tbl) < 2 ^ 28"
    and net: "\<And>n dg. 0 < fst (sendmsg_fn s n dg)"
  shows "\<exists>m' s' tbl' x dg. tube_manager_open_tube cbs urandom dest m s = Some (Inr (next_addr s), m', s') \<and>
    manager_ok W m' s' \<and> slots_frame (s\<lparr>sent := sent s @ [dg]\<rparr>) s' \<and> tube_at s' = (tube_at s)(next_addr s \<mapsto> x) \<and>
    tb_state x = TS_OPENING \<and> tb_data x = 0 \<and> dg_dest dg = dest \<and> dg_iov dg = [header_bytes (plain_header SPUD_OPEN i)] \<and>
    tm_tubes m' = Some tbl' \<and> ls_htable_get tbl' (0, i) = Some (next_addr s) \<and> next_addr s < next_addr s'"
proof -
  let ?t = "next_addr s"
  obtain s1 x where o: "tube_manager_open_tube cbs urandom dest m s =
      (case tube_manager_add (cb_events cbs) m ?t s1 of
         None \<Rightarrow> None
       | Some (Inl e, m1, s4) \<Rightarrow> Some (Inl (Some e), m1, tube_destroy ?t s4)
       | Some (Inr u, m1, s4) \<Rightarrow>
           (case tube_send ?t SPUD_OPEN False False [] s4 of
              (Inr u, s5) \<Rightarrow> Some (Inr ?t, m1, s5)
            | (Inl e, s5) \<Rightarrow>
                (case tube_manager_remove (cb_events cbs) m1 ?t s5 of
                   None \<Rightarrow> None
                 | Some (m2, s6) \<Rightarrow> Some (Inl (Some e), m2, tube_destroy ?t s6))))"
    "manager_ok W m s1" "tube_at s1 = (tube_at s)(?t \<mapsto> x)" "tb_state x = TS_OPENING" "tb_id x = i" "tb_peer x = dest" "tb_data x = 0"
    "?t < next_addr s1" "sent s1 = sent s" "sendmsg_fn s1 = sendmsg_fn s" "tubemem.more s1 = tubemem.more s"
    using open_to_add[OF ok rand dest] by blast
  have at: "tube_at s1 ?t = Some x" using o(3) by simp
  obtain m' s2 cs tbl' where a: "tube_manager_add (wi_prog W) m ?t s1 = Some (Inr (), m', s2)" "manager_ok W m' s2"
    "tm_tubes m' = Some tbl'" "\<forall>a k. ls_htable_get tbl' (a, k) = (if id_word (0, k) = id_word (0, i) then Some ?t else ls_htable_get tbl (a, k))"
    "keeps_tubes s1 s2" "next_addr s1 \<le> next_addr s2"
    using manager_add_ok[OF o(2) tbl at o(8)] new o(5) by auto
  have f: "slots_frame s s2"
    using load_frame.R_trans[OF slots_frame_own[OF o(11,9)] add_slots[OF o(2) tbl tame at o(8) _ new(2) a(1)]] new(1) o(5) by simp
  have at2: "tube_at s2 ?t = Some x" using at a(5) by (simp add: keeps_tubes_def)
  obtain dg s' where snd: "tube_send ?t SPUD_OPEN False False [] s2 =
      ((case sendmsg_fn s2 (length (sent s2)) dg of (ret, errno) \<Rightarrow> if ret \<le> 0 then Inl (- errno) else Inr ()), s')"
    "dg_dest dg = tb_peer x" "dg_iov dg = [header_bytes (plain_header SPUD_OPEN (tb_id x))]" "sent s' = sent s2 @ [dg]"
    "events_stay s2 s'" "tube_at s' = tube_at s2" "tubemem.more s' = tubemem.more s2"
    using send_ok[OF manager_mem[OF a(2)] at2] by blast
  have "0 < fst (sendmsg_fn s2 (length (sent s2)) dg)" using net o(10) a(5) by (simp add: keeps_tubes_def)
  then have "tube_manager_open_tube cbs urandom dest m s = Some (Inr ?t, m', s')"
    using o(1) a(1) cbs snd(1) by (auto split: prod.splits)
  moreover have "manager_ok W m' s'" by (rule manager_ok_same[OF a(2) snd(5,6)])
  moreover have "slots_frame (s\<lparr>sent := sent s @ [dg]\<rparr>) s'"
  proof -
    have "slots_frame (s\<lparr>sent := sent s @ [dg]\<rparr>) (s2\<lparr>sent := sent s2 @ [dg]\<rparr>)" using f by (simp add: slots_frame_def)
    moreover have "slots_frame (s2\<lparr>sent := sent s2 @ [dg]\<rparr>) s'" by (rule slots_frame_own) (use snd in simp_all)
    ultimately show ?thesis by (rule load_frame.R_trans)
  qed
  ultimately show ?thesis using o(3-8) a(3-6) snd(2,3,5,6)
    by (intro exI[of _ m'] exI[of _ s'] exI[of _ tbl'] exI[of _ x] exI[of _ dg]) (simp add: events_stay_def keeps_tubes_def)
qed

section \<open>Slots\<close>

text \<open>No tube of the table has been opened.\<close>

definition slots_unopened :: "('c, 'z) loads \<Rightarrow> bool" where
  "slots_unopened s \<longleftrightarrow> length (tubes s) = NUM_TUBES \<and>
     (\<forall>i < NUM_TUBES. \<forall>t. tubes s ! i = Some t \<longrightarrow> t < next_addr s \<and> tube_get_state t s = Some TS_UNKNOWN)"

lemma fill_slot_ok:
  fixes s :: "('c, 'z) loads"
  assumes ok: "manager_ok W m s" and slots: "slots_unopened s" and i: "i < NUM_TUBES"
  shows "\<exists>t s1. fill_slot i s = (Inr t, s1) \<and> manager_ok W m s1 \<and> slots_unopened s1 \<and> tubes s1 ! i = Some t \<and>
    remoteAddr s1 = remoteAddr s \<and> sent s1 = sent s \<and> sendmsg_fn s1 = sendmsg_fn s"
proof (cases "tubes s ! i")
  case (Some t)
  then show ?thesis using ok slots by (simp add: fill_slot_def)
next
  case None
  let ?t = "next_addr s"
  obtain s1 where c: "tube_create s = (Inr ?t, s1)" "events_stay s s1" "?t < next_addr s1"
    "tube_at s1 = (tube_at s)(?t \<mapsto> zero_tube\<lparr>tb_sock := -1, tb_state := TS_UNKNOWN\<rparr>)"
    "sent s1 = sent s" "sendmsg_fn s1 = sendmsg_fn s" "tubemem.more s1 = tubemem.more s"
    using create_ok[OF manager_mem[OF ok]] by blast
  let ?s2 = "s1\<lparr>tubes := (tubes s1)[i := Some ?t]\<rparr>"
  have own: "tubes s1 = tubes s" "remoteAddr s1 = remoteAddr s" using c(7) by (cases s; cases s1; simp)+
  have "\<And>n k. malloc_func ?s2 n k" using c(2) manager_mem[OF ok] by (simp add: events_stay_def)
  then obtain s3 where m: "ls_data_malloc sizeof_int ?s2 = (Some (next_addr ?s2), s3)" "mem_grows ?s2 s3"
    using malloc_grows by blast
  let ?p = "next_addr ?s2"
  let ?y = "zero_tube\<lparr>tb_sock := -1, tb_state := TS_UNKNOWN, tb_data := void_ptr (Some ?p)\<rparr>"
  let ?s4 = "s3\<lparr>int_at := (int_at s3)(?p \<mapsto> i), tube_at := (tube_at s)(?t \<mapsto> ?y)\<rparr>"
  have g: "tube_at s3 = tube_at s1" "sent s3 = sent s" "sendmsg_fn s3 = sendmsg_fn s" "tubes s3 = (tubes s)[i := Some ?t]"
    "remoteAddr s3 = remoteAddr s" "next_addr s1 \<le> next_addr s3"
    using m(2) c(5,6) own by (cases s1; cases s3; simp add: mem_grows_def)+
  have f: "fill_slot i s = (Inr ?t, ?s4)"
    using None c(1,4) m(1) g(1) by (simp add: fill_slot_def tube_set_data_def upd_tube_def)
  have "events_stay s ?s2" using c(2) by (simp add: events_stay_def)
  then have "events_stay s s3" by (rule events_stay_trans[OF _ events_stay_grows[OF m(2)]])
  then have ev: "events_stay s ?s4" by (simp add: events_stay_def)
  have "manager_ok W m ?s4" by (rule manager_ok_new[OF ok, where y = ?y]) (use ev in simp_all)
  moreover have "slots_unopened ?s4"
    using slots c(3) g(4,6) i by (auto simp: slots_unopened_def tube_get_state_def nth_list_update)
  moreover have "tubes ?s4 ! i = Some ?t" using g(4) i slots by (simp add: slots_unopened_def)
  ultimately show ?thesis using f g(2,3,5) by (intro exI[of _ ?t] exI[of _ ?s4]) simp
qed

text \<open>C34: The load generator never gets to send data.  When the tubes of its table are not opened and the
  network and the memory work, then a round of \<open>markov\<close>, whatever slot it picks, sends one datagram, which
  opens a tube; that tube is known to the manager and to no slot of the table, whose tubes are still not opened: the
  next round finds them as this one did.  When the tube is removed the callback follows a null pointer.\<close>

theorem markov_never_sends_data:
  fixes s :: "('c, 'z) loads"
  assumes W: "wi_prog W = cb_events (load_callbacks os)" and others: "ri_others ri (m0, s0) = (m, s)"
    and ok: "manager_ok W m s" "slots_unopened s" "inet (remoteAddr s)" "\<And>n dg. 0 < fst (sendmsg_fn s n dg)"
    and id: "delivers (ri_urandom ri) i" "tm_tubes m = Some tbl" "ls_htable_get tbl (0, i) = None" "unat (ls_htable_get_count tbl) < 2 ^ 28"
  shows "\<exists>m' s' t tbl' dg. markov_round lib (load_callbacks os) ri m0 s0 = Some (None, m', s') \<and>
    manager_ok W m' s' \<and> slots_unopened s' \<and> sent s' = sent s @ [dg] \<and> dg_dest dg = remoteAddr s \<and>
    dg_iov dg = [header_bytes (plain_header SPUD_OPEN i)] \<and> tm_tubes m' = Some tbl' \<and> ls_htable_get tbl' (0, i) = Some t \<and>
    tube_get_state t s' = Some TS_OPENING \<and> Some t \<notin> set (tubes s') \<and> remove_cb t s' = fault s'"
proof -
  let ?i = "ri_pick ri mod NUM_TUBES"
  have i: "?i < NUM_TUBES" by (simp add: NUM_TUBES_def)
  obtain t s1 where f: "fill_slot ?i s = (Inr t, s1)" "manager_ok W m s1" "slots_unopened s1" "tubes s1 ! ?i = Some t"
    "remoteAddr s1 = remoteAddr s" "sent s1 = sent s" "sendmsg_fn s1 = sendmsg_fn s"
    using fill_slot_ok[OF ok(1,2) i] by blast
  have unk: "tube_get_state t s1 = Some TS_UNKNOWN" using f(3,4) i by (simp add: slots_unopened_def)
  have tame: "tame_program slots_frame (wi_events W) (wi_prog W)" unfolding W by (rule load_tame)
  have net: "0 < fst (sendmsg_fn s1 n dg)" for n dg using ok(4) f(7) by simp
  have dest: "inet (remoteAddr s1)" using ok(3) f(5) by simp
  obtain m' s' tbl' x dg where o: "tube_manager_open_tube (load_callbacks os) (ri_urandom ri) (remoteAddr s1) m s1 =
      Some (Inr (next_addr s1), m', s')"
    "manager_ok W m' s'" "slots_frame (s1\<lparr>sent := sent s1 @ [dg]\<rparr>) s'" "tube_at s' = (tube_at s1)(next_addr s1 \<mapsto> x)"
    "tb_state x = TS_OPENING" "tb_data x = 0" "dg_dest dg = remoteAddr s1" "dg_iov dg = [header_bytes (plain_header SPUD_OPEN i)]"
    "tm_tubes m' = Some tbl'" "ls_htable_get tbl' (0, i) = Some (next_addr s1)" "next_addr s1 < next_addr s'"
    using open_slots[OF f(2) id(2) tame W[symmetric] id(1) dest id(3,4) net] by blast
  have "markov_round lib (load_callbacks os) ri m0 s0 = Some (None, m', s')"
    using others f(1) unk o(1) by (simp add: markov_round_def)
  moreover have kept: "tubes s' ! j = Some u \<Longrightarrow> tubes s1 ! j = Some u" if "j < NUM_TUBES" for j u
    using o(3) f(3) that by (auto simp: slots_frame_def slots_unopened_def)
  have len: "length (tubes s') = NUM_TUBES" using o(3) f(3) by (simp add: slots_frame_def slots_unopened_def)
  have "slots_unopened s'"
    using kept f(3) o(4,11) len by (fastforce simp: slots_unopened_def tube_get_state_def)
  moreover have "Some (next_addr s1) \<notin> set (tubes s')"
    using kept f(3) len by (auto simp: in_set_conv_nth slots_unopened_def)
  moreover have "remove_cb (next_addr s1) s' = fault s'"
    using o(4,6) by (simp add: remove_cb_def tube_get_data_def deref_def ptr_of_def)
  moreover have "tube_get_state (next_addr s1) s' = Some TS_OPENING" using o(4,5) by (simp add: tube_get_state_def)
  moreover have "sent s' = sent s @ [dg]" using o(3) f(6) by (simp add: slots_frame_def)
  ultimately show ?thesis using o f(5)
    by (intro exI[of _ m'] exI[of _ s'] exI[of _ "next_addr s1"] exI[of _ tbl'] exI[of _ dg]) simp
qed

section \<open>An instance\<close>

text \<open>A manager with its six events, to which nothing is bound, and no tubes.\<close>

definition load_state :: "(nat, unit) loads" where
  "load_state = tmmem.extend (tubemem.extend (evmem.extend (logmem.extend (logmem.truncate init_log\<lparr>next_addr := 30\<rparr>)
     \<lparr>binding_at = Map.empty, event_at = (\<lambda>e. if e \<in> {10..15} then Some (demo_event 97 None) else None),
      moment_at = Map.empty, calls = [], results = []\<rparr>)
     \<lparr>tube_at = Map.empty, pktinfo_at = Map.empty, sendmsg_fn = (\<lambda>n dg. (1, 0)), sent = []\<rparr>)
     \<lparr>mgr = demo_vars 0, timer_at = Map.empty, sig_contexts = [], pipe_out = [], fired = []\<rparr>)
     \<lparr>tubes = replicate NUM_TUBES None, remoteAddr = Sockaddr_in 1234 1, load_data = digits_data, int_at = Map.empty\<rparr>"

definition load_dispatcher :: "(nat, unit) loads dispatcher" where
  "load_dispatcher = \<lparr>di_self = 1, di_source = 0,
     di_events = \<lparr>ht_self = 2, ht_hash = ls_strcase_hashcode snd, ht_cmp = ls_strcase_compare snd, ht_count = 0,
       ht_bcount = 7, ht_resize_count = 0, ht_block = 2, ht_buckets = replicate 7 []\<rparr>,
     di_running = None, di_tail = None, di_next = None, di_destroy_pending = False, di_live = True\<rparr>"

definition load_table :: "(tube_key, addr, (nat, unit) loads) htable" where
  "load_table = \<lparr>ht_self = 2, ht_hash = hash_id id_word, ht_cmp = compare_id id_word, ht_count = 0,
     ht_bcount = 1, ht_resize_count = 0, ht_block = 3, ht_buckets = [[]]\<rparr>"

definition load_manager :: "(nat, unit loadmem_ext) tube_manager" where
  "load_manager = \<lparr>tm_self = 1, tm_tubes = Some load_table, tm_dispatcher = Some load_dispatcher,
     e_loopstart = Some 10, e_running = Some 11, e_data = Some 12, e_close = Some 13, e_add = Some 14, e_remove = Some 15\<rparr>"

definition load_wiring :: "(nat, unit loadmem_ext) wiring" where
  "load_wiring = \<lparr>wi_events = {10..15}, wi_prog = cb_events (load_callbacks good_os),
     wi_evt = evt_of load_dispatcher load_state, wi_bound = (\<lambda>e. [])\<rparr>"

lemma load_state_simps [simp]:
  "tubes load_state = replicate NUM_TUBES None" "remoteAddr load_state = Sockaddr_in 1234 1" "next_addr load_state = 30"
  "sendmsg_fn load_state = (\<lambda>n dg. (1, 0))" "sent load_state = []" "malloc_func load_state n k"
  "event_at load_state = (\<lambda>e. if e \<in> {10..15} then Some (demo_event 97 None) else None)" "binding_at load_state = Map.empty"
  by (simp_all add: load_state_def tmmem.defs tubemem.defs evmem.defs logmem.defs init_log_def mem.defs init_mem_def libc_malloc_def)

lemma remove_cb_still_tubes: "still keeps_tubes s (remove_cb t s)"
  by (simp add: remove_cb_def still_def keeps_tubes_def ls_data_free_def fault_def split: option.split)

lemma load_settles: "settles load_wiring"
proof -
  have "tame_program keeps_tubes {10..15} (cb_events (load_callbacks good_os))"
    by (rule load_callbacks_tame[OF remove_cb_still_tubes]) simp
  moreover have "reacts load_wiring e data []" for e data
    unfolding reacts_def by (rule exI[of _ "Suc 0"]) (simp add: moment_effect_def load_wiring_def)
  ultimately show ?thesis by (auto simp: settles_def load_wiring_def)
qed

lemma load_ok: "manager_ok load_wiring load_manager load_state"
proof -
  have b: "bindings_of e load_state = Some []" if "e \<in> {10..15}" for e
    using that by (simp add: bindings_of_iff demo_event_def)
  have bound: "bound e load_state = []" if "e \<in> {10..15}" for e using b[OF that] by (simp add: bound_def)
  have "ready (wi_events load_wiring) load_state"
    by (auto simp: ready_def lists_ok_def load_wiring_def b bound simp del: atLeastAtMost_iff)
  moreover have "idle load_dispatcher" by (simp add: idle_def resting_def load_dispatcher_def)
  moreover have "table_ok load_table load_state"
    by (auto simp: table_ok_def load_table_def ht_form_def shape_def placed_def hash_of_def keys_ok_def contents_def unplaced_def)
  moreover have "\<forall>e \<in> set (manager_events load_manager). \<exists>a \<in> wi_events load_wiring. e = Some a"
    by (simp add: manager_events_def load_manager_def load_wiring_def)
  ultimately show ?thesis using load_settles bound
    by (simp add: manager_ok_def) (simp add: load_manager_def load_wiring_def)
qed

definition load_round :: "(nat, unit) round_input" where
  "load_round = \<lparr>ri_others = id, ri_pick = 5, ri_close = 0, ri_length = 0, ri_urandom = (\<lambda>n z. (Inr demo_id, z))\<rparr>"

lemma markov_never_sends_data_witness:
  "\<exists>m' s' dg. markov_round demo_lib (load_callbacks good_os) load_round load_manager load_state = Some (None, m', s') \<and>
     slots_unopened s' \<and> sent s' = [dg] \<and> dg_iov dg = [header_bytes (plain_header SPUD_OPEN demo_id)]"
proof -
  have W: "wi_prog load_wiring = cb_events (load_callbacks good_os)" by (simp add: load_wiring_def)
  have others: "ri_others load_round (load_manager, load_state) = (load_manager, load_state)" by (simp add: load_round_def)
  have slots: "slots_unopened load_state" by (simp add: slots_unopened_def)
  have dest: "inet (remoteAddr load_state)" by (simp add: inet_def)
  have net: "0 < fst (sendmsg_fn load_state n dg)" for n dg by simp
  have rand: "delivers (ri_urandom load_round) demo_id" by (simp add: delivers_def demo_id_def sizes load_round_def)
  have tbl: "tm_tubes load_manager = Some load_table" by (simp add: load_manager_def)
  have new: "ls_htable_get load_table (0, demo_id) = None" "unat (ls_htable_get_count load_table) < 2 ^ 28"
    by (simp_all add: ls_htable_get_def find_node_def load_table_def chain_def Let_def ls_htable_get_count_def split: option.split)
  show ?thesis
    using markov_never_sends_data[OF W others load_ok slots dest net rand tbl new, of demo_lib] by auto
qed

end
