(* ===== verification/Spudtest.thy ===== *)
theory Spudtest
  imports Samples
begin

text \<open>
  The client \<open>samplecode/spudtest.c\<close>: it opens a tube when the loop starts, and once the tube runs sends
  data on it every 50 milliseconds, for 5 seconds.

  The state extends that of the library by \<open>config\<close> and by the text written to the standard output.
  \<open>loopstart_cb\<close> opens a tube, which changes the manager too; it is an operation on the manager and
  the state, and the call of \<open>tube_manager_loop\<close> that leads to it is left out.
\<close>

section \<open>State\<close>

record 'd testmem = "'d tmmem" +
  cf_remoteAddr :: sockaddr
  cf_t :: "addr option"
  numSentPkts :: int
  numRcvdPkts :: int
  printed :: "u8 list"

type_synonym ('c, 'z) tests = "('c ev_payload, 'z) testmem_scheme"

definition numChar :: nat where "numChar = 53"

definition s1_text :: cstr where
  "s1_text = ascii
     (''[_]~~ c[_]~~ c[_]~~ COFFEE BREAK c[_]~~ c[_]~~ c[_]~~'' @
      ''[_]~~ c[_]~~ c[_]~~ COFFEE BREAK c[_]~~ c[_]~~ c[_]~~'' @
      ''[_]~~ c[_]~~ c[_]~~ COFFEE BREAK c[_]~~ c[_]~~ c[_]~~'' @
      ''[_]~~ c[_]~~ c[_]~~ COFFEE BREAK c[_]~~ c[_]~~ c[_]~~'')"

section \<open>Callbacks\<close>

definition SEND_DATA :: nat where "SEND_DATA = 1"
definition DONE :: nat where "DONE = 2"
definition DONE_SIG :: nat where "DONE_SIG = 1"
definition LOOPSTART_CB :: nat where "LOOPSTART_CB = 1"
definition RUNNING_CB :: nat where "RUNNING_CB = 2"
definition DATA_CB :: nat where "DATA_CB = 3"

text \<open>The buffer is on the stack, and only its first 53 bytes are written: \<open>stack\<close> is what it held.\<close>

definition sendData ::
  "('c, ('c, 'z) tests) cbor_lib \<Rightarrow> os \<Rightarrow> u8 list \<Rightarrow> ('c, 'z) tests \<Rightarrow> ('c, 'z) tests" where
  "sendData lib os stack s0 =
     (let s = s0\<lparr>numSentPkts := numSentPkts s0 + 1\<rparr>;
          buf = take numChar (drop (nat (numSentPkts s mod int numChar)) s1_text) @ drop numChar stack in
      case cf_t s of
        None \<Rightarrow> fault s
      | Some t \<Rightarrow>
          (let s1 = (case tube_data lib t (take (length s1_text) buf) s of
                       (Inl err, s1) \<Rightarrow> LS_LOG_ERR err ''tube_data'' s1
                     | (Inr u, s1) \<Rightarrow> s1) in
           case tube_manager_schedule_ms os 50 SEND_DATA 0 s1 of
             (Inl err, s2) \<Rightarrow> LS_LOG_ERR err ''tube_manager_schedule_ms'' s2
           | (Inr tim, s2) \<Rightarrow> s2))"

text \<open>The last byte of the string is overwritten by a terminator, before the pointer and the type of the
  value are tested.  A string without a last byte is counted as a fault.\<close>

definition data_cb :: "'c cbor_reader \<Rightarrow> 'c option \<Rightarrow> ('c, 'z) tests \<Rightarrow> ('c, 'z) tests" where
  "data_cb rd cbor s0 =
     (let s = s0\<lparr>numRcvdPkts := numRcvdPkts s0 + 1\<rparr> in
      case cbor of
        None \<Rightarrow> s
      | Some c \<Rightarrow>
          (case Option.bind (cn_cbor_mapget_int rd c 0) (cn_cbor_str rd) of
             None \<Rightarrow> fault s
           | Some bs \<Rightarrow>
               if bs = [] then fault s
               else s\<lparr>printed := printed s @ ascii '' RX: '' @ d_prec 1 (numRcvdPkts s) @ ascii ''  '' @
                        takeWhile (\<lambda>b. b \<noteq> 0) (butlast bs) @ [10]\<rparr>))"

definition running_cb ::
  "('c, ('c, 'z) tests) cbor_lib \<Rightarrow> os \<Rightarrow> u8 list \<Rightarrow> ('c, 'z) tests \<Rightarrow> ('c, 'z) tests" where
  "running_cb lib os stack s = sendData lib os stack (ls_log LS_LOG_INFO (Text (ascii ''running!'')) s)"

definition loopstart_cb ::
  "(int \<Rightarrow> int + sockaddr) \<Rightarrow> (u32 \<Rightarrow> nat \<Rightarrow> cstr option) \<Rightarrow> (u8 list \<Rightarrow> nat \<Rightarrow> cstr option) \<Rightarrow>
   ('c, 'z testmem_ext) callbacks \<Rightarrow> ('c, 'z) tests rand_source \<Rightarrow> ('c, 'z testmem_ext) tube_manager \<Rightarrow> ('c, 'z) tests \<Rightarrow>
   (('c, 'z testmem_ext) tube_manager \<times> ('c, 'z) tests) option" where
  "loopstart_cb getsockname ntop4 ntop6 cbs urandom m s =
     (case tube_manager_open_tube cbs urandom (cf_remoteAddr s) m s of
        None \<Rightarrow> None
      | Some (Inl e, m1, s1) \<Rightarrow> Some (m1, log_open_error ''tube_open'' e s1)
      | Some (Inr t, m1, s1) \<Rightarrow>
          Some (m1, case tube_print getsockname ntop4 ntop6 t (s1\<lparr>cf_t := Some t\<rparr>) of
                      (Inl err, s2) \<Rightarrow> LS_LOG_ERR err ''tube_print'' s2
                    | (Inr u, s2) \<Rightarrow> s2))"

definition done_cb :: "os \<Rightarrow> ('c, 'z) tests \<Rightarrow> ('c, 'z) tests option" where
  "done_cb os s =
     map_option (\<lambda>(r, s1). case r of Inl err \<Rightarrow> LS_LOG_ERR err ''tube_manager_stop'' s1 | Inr u \<Rightarrow> s1)
       (tube_manager_stop os (s\<lparr>printed := printed s @ ascii ''done'' @ [10]\<rparr>))"

definition done_sig :: "os \<Rightarrow> int \<Rightarrow> ('c, 'z) tests \<Rightarrow> ('c, 'z) tests option" where
  "done_sig os sig s = done_cb os (ls_log LS_LOG_VERBOSE (Text (ascii ''Signal caught: '' @ d_prec 1 sig)) s)"

text \<open>The callbacks that do not open tubes.\<close>

definition spudtest_callbacks ::
  "'c cbor_reader \<Rightarrow> ('c, ('c, 'z) tests) cbor_lib \<Rightarrow> os \<Rightarrow> u8 list \<Rightarrow> ('c, 'z testmem_ext) callbacks" where
  "spudtest_callbacks rd lib os stack =
     \<lparr>cb_events = \<lparr>pr_notify = (\<lambda>cb arg evt. [Work (\<lambda>s. case ed_data evt of
            Ev_msg t cbor peer \<Rightarrow>
              if cb = DATA_CB then data_cb rd cbor s else if cb = RUNNING_CB then running_cb lib os stack s else s
          | _ \<Rightarrow> s)]), pr_result = (\<lambda>cb arg evt. [])\<rparr>,
      cb_timers = (\<lambda>cb tim s. if cb = SEND_DATA then sendData lib os stack s
                              else if cb = DONE then returned s (done_cb os s) else s),
      cb_signals = (\<lambda>cb sig s. if cb = DONE_SIG then returned s (done_sig os sig s) else s)\<rparr>"

section \<open>The program\<close>

text \<open>The options \<open>getopt\<close> finds; another one, or none, leads to \<open>usage\<close> and its exit code.\<close>

datatype option_found = Opt_v | Opt_s cstr | Opt_other

definition USAGE :: int where "USAGE = 64"

fun read_options :: "resolver \<Rightarrow> option_found list \<Rightarrow> ('c, 'z) tests \<Rightarrow> int option \<times> ('c, 'z) tests" where
  "read_options getaddrinfo [] s = (None, s)"
| "read_options getaddrinfo (Opt_v # os) s = read_options getaddrinfo os (ls_log_set_level LS_LOG_VERBOSE s)"
| "read_options getaddrinfo (Opt_s a # os) s =
     (case ls_sockaddr_parse getaddrinfo (Some a) sizeof_sockaddr_storage of
        Inl err \<Rightarrow> (Some 1, LS_LOG_ERR err ''Invalid address'' s)
      | Inr addr \<Rightarrow> read_options getaddrinfo os s)"
| "read_options getaddrinfo (Opt_other # os) s = (Some USAGE, s)"

text \<open>\<open>spudtest\<close> up to the loop: an exit code, or the manager.\<close>

definition set_up ::
  "os \<Rightarrow> ('c, 'z testmem_ext) tube_manager \<Rightarrow> ('c, 'z) tests \<Rightarrow>
   ((int + ('c, 'z testmem_ext) tube_manager) \<times> ('c, 'z) tests) option" where
  "set_up os m s =
     (case tube_manager_socket os 0 s of
        (Inl e, s1) \<Rightarrow> Some (Inl 1, LS_LOG_ERR e ''tube_manager_socket'' s1)
      | (Inr u, s1) \<Rightarrow>
          (case bind_all [(''loopstart'', LOOPSTART_CB), (''running'', RUNNING_CB), (''data'', DATA_CB)] m s1 of
             None \<Rightarrow> None
           | Some (Some e, s2) \<Rightarrow> Some (Inl 1, LS_LOG_ERR e ''tube_manager_bind_event'' s2)
           | Some (None, s2) \<Rightarrow>
               (case tube_manager_signal os (tm_self m) SIGINT DONE_SIG s2 of
                  (Inl e, s3) \<Rightarrow> Some (Inl 1, LS_LOG_ERR e ''tube_manager_signal'' s3)
                | (Inr u, s3) \<Rightarrow>
                    (case tube_manager_schedule_ms os 5000 DONE 0 s3 of
                       (Inl e, s4) \<Rightarrow> Some (Inl 1, LS_LOG_ERR e ''tube_manager_schedule_ms'' s4)
                     | (Inr tim, s4) \<Rightarrow> Some (Inr m, s4)))))"

definition spudtest ::
  "os \<Rightarrow> resolver \<Rightarrow> option_found list \<Rightarrow> cstr list \<Rightarrow> ('c, 'z) tests \<Rightarrow>
   ((int + ('c, 'z testmem_ext) tube_manager) \<times> ('c, 'z) tests) option" where
  "spudtest os getaddrinfo opts args s0 =
     (case read_options getaddrinfo opts s0 of
        (Some r, s1) \<Rightarrow> Some (Inl r, s1)
      | (None, s1) \<Rightarrow>
          if args = [] then Some (Inl USAGE, s1)
          else
            (let s2 = (ls_log LS_LOG_INFO (Text (ascii ''entering spudtest'')) s1)
                        \<lparr>cf_remoteAddr := Sockaddr_other 0, cf_t := None, numSentPkts := 0, numRcvdPkts := 0\<rparr> in
             case ls_sockaddr_get_remote_ip_addr getaddrinfo (Some (hd args)) (Some (ascii ''1402'')) sizeof_sockaddr_storage of
               Inl e \<Rightarrow> Some (Inl 1, LS_LOG_ERR e ''ls_sockaddr_get_remote_ip_addr'' s2)
             | Inr addr \<Rightarrow>
                 (case tube_manager_create os 0 (s2\<lparr>cf_remoteAddr := addr\<rparr>) of
                    None \<Rightarrow> None
                  | Some (Inl e, s3) \<Rightarrow> Some (Inl 1, LS_LOG_ERR e ''tube_manager_create'' s3)
                  | Some (Inr m, s3) \<Rightarrow> set_up os m s3)))"

section \<open>What is sent\<close>

lemma s1_text_length: "length s1_text = 212"
  by (simp add: s1_text_def ascii_def)

text \<open>The 212 bytes sent are 53 of the text and 159 of the stack.\<close>

lemma sendData_sends_stack:
  assumes t: "cf_t s = Some t" and stack: "length stack = 1024" and n: "n = nat ((numSentPkts s + 1) mod 53)"
  shows "\<exists>text. length text = 53 \<and> text = take 53 (drop n s1_text) \<and>
    sendData lib os stack s =
      (let s1 = (case tube_data lib t (text @ take 159 (drop 53 stack)) (s\<lparr>numSentPkts := numSentPkts s + 1\<rparr>) of
                   (Inl err, s1) \<Rightarrow> LS_LOG_ERR err ''tube_data'' s1
                 | (Inr u, s1) \<Rightarrow> s1) in
       case tube_manager_schedule_ms os 50 SEND_DATA 0 s1 of
         (Inl err, s2) \<Rightarrow> LS_LOG_ERR err ''tube_manager_schedule_ms'' s2
       | (Inr tim, s2) \<Rightarrow> s2)"
proof -
  have "n < 53" using n by (simp add: nat_less_iff)
  then have len: "length (take 53 (drop n s1_text)) = 53" by (simp add: s1_text_length)
  have "take (length s1_text) (take numChar (drop (nat ((numSentPkts s + 1) mod int numChar)) s1_text) @ drop numChar stack) =
      take 53 (drop n s1_text) @ take 159 (drop 53 stack)"
    using len n by (simp add: s1_text_length numChar_def)
  then show ?thesis using t len by (simp add: sendData_def Let_def)
qed

end
