(* ===== verification/Spec2Isabelle.thy ===== *)
theory Spec2Isabelle
  imports Ls_Pool_Props Ls_Htable_Props Ls_Queue Ls_Timer Spud Ls_Pktinfo Ls_Log_Text Ls_Event_Memory Ls_Dispatch Tube_Handshake Tube_Manager_Memory Tube_Data Tube_Stream Spudecho_Props Timertest Spudload_Props Spudtest
begin

text \<open>
  A verification development for SPUDlib.

  SPUDlib carries tubes over UDP: a tube is a conversation with a peer, known by an identifier of 8
  bytes that is in the header of every datagram.  A tube manager owns the tubes, waits for datagrams,
  timers and signals, and tells the program about its tubes through events.

  \<^bold>\<open>The parts and their theories.\<close>  Each component has a theory of definitions, one for each function of
  the source under the source's name; its properties are in the same theory, or in one whose name ends
  in \<open>_Props\<close>.

  \<^item> \<open>Prelude\<close>: shared names of types and collections of hints.
  \<^item> \<open>C_Format\<close>: what the code uses of the C library's formatting and calendar: decimal and hexadecimal
    conversions, \<open>gmtime\<close> and \<open>strftime\<close>, with readers that invert them.
  \<^item> \<open>Ls_Error\<close> (\<open>src/ls_error.c\<close>): error codes and their messages.
  \<^item> \<open>Ls_Mem\<close> (\<open>src/ls_mem.c\<close>): the heap, a map from addresses to blocks of bytes that may be undefined.
    Which allocations fail is a function of the state.  A use of memory that is not there is recorded in
    \<open>faults\<close>.  The relation \<open>owns\<close> says which blocks a component has beyond those it started with; with
    it leaks and double frees are excluded.
  \<^item> \<open>Ls_Pool\<close>, \<open>Ls_Pool_Props\<close> (\<open>src/ls_mem.c\<close>): pools with their pages and cleaners.
  \<^item> \<open>Ls_Str\<close>, \<open>Ls_Hash\<close> (\<open>src/ls_str.c\<close>, the hash functions of \<open>src/ls_htable.c\<close> and
    \<open>src/tube_manager.c\<close>): strings, and the locale \<open>hash_key\<close> for hash and comparison functions that fit
    together, interpreted for the integer keys and the identifiers.
  \<^item> \<open>Ls_Htable\<close>, \<open>Ls_Htable_Props\<close> (\<open>src/ls_htable.c\<close>): the chained hash table on 32-bit words.  Inside
    \<open>hash_key\<close> it is shown to be a map; \<open>ht_form\<close> is its form whatever its cleaners do, \<open>ht_inv\<close> adds
    what it owns.
  \<^item> \<open>Ls_Queue\<close> (\<open>src/ls_queue.c\<close>): the linked queue, an interpretation of the locale \<open>fifo\<close>.
  \<^item> \<open>Ls_Timer\<close> (\<open>src/ls_timer.c\<close>), \<open>Gheap\<close>, \<open>Gheap_Props\<close> (\<open>vendor/gheap\<close>): timers, and the paged heap and
    priority queue that hold them.  The locale \<open>heap_shape\<close> has the tree of parents and children, the
    locale \<open>heap_order\<close> the order of the items; both are interpreted on the timers of a manager.
  \<^item> \<open>Ls_Log\<close>, \<open>Ls_Log_Text\<close> (\<open>src/ls_log.c\<close>): levels, lines, chunks, generators and nested contexts; the
    text of an entry with its time stamp, level, colour, contexts and reason.
  \<^item> \<open>Ls_Sockaddr\<close>, \<open>Ls_Pktinfo\<close> (\<open>src/ls_sockaddr.c\<close>, \<open>src/ls_pktinfo.c\<close>): addresses and packet
    information.
  \<^item> \<open>Spud\<close> (\<open>src/spud.c\<close>): the header, identifiers, building and parsing.
  \<^item> \<open>Ls_Eventing\<close>, \<open>Ls_Eventing_Props\<close>, \<open>Ls_Dispatch\<close> (\<open>src/ls_eventing.c\<close>): events with their linked
    bindings, moments and the dispatcher.  The bindings of an event are an association list; dispatching
    is a first-in first-out queue of moments, the function \<open>run_queue\<close>.
  \<^item> \<open>Ls_Event_Memory\<close>: what a dispatcher owns through its events, their names and their bindings, from
    creation to destruction, for every pattern of failing allocations.
  \<^item> \<open>Tube\<close>, \<open>Tube_Props\<close> (\<open>src/tube.c\<close>): tubes as objects of the heap, framing and sending.
  \<^item> \<open>Tube_Manager\<close>, \<open>Tube_Manager_Props\<close>, \<open>Tube_Loop\<close>, \<open>Tube_Loop_Props\<close>, \<open>Tube_Handshake\<close>
    (\<open>src/tube_manager.c\<close>): the manager with its timers, signals and sockets; the message loop; the
    state machine of a tube, what becomes of every datagram, and the handshake of two managers.
  \<^item> \<open>Tube_Manager_Memory\<close>: what a manager owns through its tables, events and timers, from creation
    through the calls that set it up, before it has tubes, to destruction, and what is left: the
    contexts of its signals.
  \<^item> \<open>Tube_Data\<close>: \<open>tube_data\<close> from the pool of its encoding to what the receiver of the datagram reads, over
    the laws of the CBOR library, with a small library as an instance.
  \<^item> \<open>Tube_Stream\<close> (\<open>src/tube_stream.c\<close>): streams, an interface with little behind it yet.
  \<^item> \<open>Samples\<close>, \<open>Spudecho\<close>, \<open>Timertest\<close>, \<open>Spudload\<close>, \<open>Spudtest\<close> (\<open>samplecode\<close>): programs on top of the
    library, a theory for each \<open>.c\<close> file; \<open>Spudecho_Props\<close> shows what the echo server does with a datagram and
    when its answer is sent, \<open>Spudload_Props\<close> what becomes of the tubes of the load generator.

  \<^bold>\<open>State.\<close>  The record \<open>mem\<close> of the heap is extended by each layer that has objects of its own: \<open>logmem\<close>
  (log), \<open>qmem\<close> (queues), \<open>evmem\<close> (events), \<open>tubemem\<close> (tubes and what was sent), \<open>tmmem\<close> (the manager's
  members that callbacks may change, timers and signals).  A program extends \<open>tmmem\<close> by its own globals.  Operations are polymorphic in the rest of the
  record, so a lower layer cannot change what is above it.  Structures that only their owner reaches
  (pools, tables, queues, the dispatcher, the manager) are values that operations take and return.

  The contexts of signals are a list, which stays when the manager is destroyed.

  \<^bold>\<open>Results.\<close>  A function that fails through \<open>ls_err\<close> returns \<open>Inl\<close> of the code, else \<open>Inr\<close> of what it
  stores; where the code returns \<open>false\<close> and sets no code the result says so.  \<open>None\<close> is a call that does
  not return, follows a dangling pointer, or copies an address of an unknown family, for which the code copies \<open>SIZE_MAX\<close>
  bytes.  The loop of the manager is told whether its caller gave a pointer for the error.

  \<^bold>\<open>What the properties show.\<close>  Memory: no leak, no double free and disjoint ranges, for every pattern of
  failing allocations (pools, tables, queues, nested contexts, dispatchers, managers).  Data structures: refinement of maps,
  lists and bags.  Events: binding lists, the order of dispatching and when it returns.  Wire format:
  what is sent is what is parsed, up to the data of a program.  Manager: the queue of timers, every datagram handled with the manager
  well-formed after it (\<open>manager_ok\<close>), tubes driven by \<open>tube_step\<close>, and the handshake.  Some properties
  state what the code does where that is not what it means to do: a due timer is freed and another
  called, so that the echo server does not answer in time, a tube that could not be opened is destroyed twice, the
  contexts of signals outlive the manager they point to, a datagram that cannot be parsed makes the loop write through the
  caller's null pointer for the error, a priority queue writes behind its array
  after a failed push, the load generator loses the tubes it opens.

  \<^bold>\<open>Bounds and fuel.\<close>  Machine integers keep their width.  The properties of tables hold below \<open>2 ^ 28\<close>
  entries, where the bucket arithmetic on 32-bit words is exact.  The loops of the dispatcher and of
  the timers are \<open>partial_function (option)\<close>; \<open>ls_event_trigger_returns\<close> says exactly when the first
  returns.  The specification \<open>run_queue\<close> has fuel, one unit for each moment.  The message loop runs over
  the lists of what the system calls return, and so does the loop that writes to the pipe.

  \<^bold>\<open>Parameters.\<close>  The CBOR library (known by the laws in \<open>Tube_Data\<close>), the random source, \<open>inet_ntop\<close>, \<open>getaddrinfo\<close>, \<open>strerror\<close> and
  \<open>gai_strerror\<close> are arguments.  The operating system is the record \<open>os\<close> of what its functions return.
  Callbacks of events are lists of actions (trigger, bind, unbind, set the flag, other work on the
  state); those of timers and signals are functions on the state.

  \<^bold>\<open>Not modelled.\<close>  A function for \<open>free\<close> other than the C library's; the log lines of the allocation
  wrappers, which are below the log; the positions and the messages of errors in the lines of \<open>LS_LOG_ERR\<close>; \<open>tolower\<close> of bytes above
  127 in another way than the GNU library's; the arguments of \<open>vfprintf\<close> (a message arrives with its formatted text) and the
  conversion to local time (a parameter); log lines at levels that are compiled in for debugging only; the memory pool of event data, in which callbacks may
  allocate; cleaners that call back into their table; callbacks that open or remove tubes while the
  manager runs them (so the call of the loop in \<open>spudtest.c\<close>); several threads (the mutex is a function
  that may fail, and the threads of \<open>spudload.c\<close> take turns between its rounds); \<open>gauss.c\<close>, which is arithmetic
  on doubles, and \<open>adectest.c\<close>, which is not built and calls a function the library does not have.  The
  tests are not part of the program.
\<close>

end
